(* ===== verification/Prelude.thy ===== *)
theory Prelude
  imports Main "HOL-Library.Word"
begin

text \<open>
  Shared vocabulary of the development: bytes, Python exceptions as values, results and
  their sequencing, and the two contracts most components meet.

  \<^item> \<open>exn\<close> lists the exceptions the SDK raises (the hierarchy under
    \<^verbatim>\<open>exceptions/\<close>) and the built-in ones its standard-library calls raise. An
    operation that can fail returns \<open>exn + 'a\<close>, with \<open>Inl\<close> for the exception.
  \<^item> The locale \<open>codec\<close> is the contract of every wire format: on valid values, decoding
    an encoding gives the value back. The locale \<open>framed_codec\<close> adds the fixed overhead
    of a format.
  \<^item> The locale \<open>transducer\<close> is the contract of every stateful component: a step
    function from a state and an event to a state and its effects, and an invariant every
    step keeps. The locale \<open>closable\<close> adds an absorbing closed state.
\<close>

named_theorems slices \<open>rewriting slices of concatenated byte strings\<close>
named_theorems lengths \<open>lengths of encoded byte strings\<close>

type_synonym byte = "8 word"
type_synonym bytes = "byte list"

section \<open>Exceptions\<close>

datatype exn =
    ProtocolError string
  | ConnectionError string
  | SessionError string
  | DeviceBusyError string
  | AuthenticationError string
  | GatewayError string string string
  | RuntimeError string
  | ValueError
  | OverflowError
  | TypeError
  | TimeoutError
  | CancelledError
  | SocketError string
  | OtherError string

text \<open>The classes deriving from \<^verbatim>\<open>TuyaIpcP2pError\<close>, and the session errors among them
  (\<^verbatim>\<open>TuyaIpcP2pDeviceBusyError\<close> derives from \<^verbatim>\<open>TuyaIpcP2pSessionError\<close>).\<close>

fun is_tuya_error :: "exn \<Rightarrow> bool" where
  "is_tuya_error (ProtocolError m) = True"
| "is_tuya_error (ConnectionError m) = True"
| "is_tuya_error (SessionError m) = True"
| "is_tuya_error (DeviceBusyError m) = True"
| "is_tuya_error (AuthenticationError m) = True"
| "is_tuya_error (GatewayError a c m) = True"
| "is_tuya_error _ = False"

fun is_session_error :: "exn \<Rightarrow> bool" where
  "is_session_error (SessionError m) = True"
| "is_session_error (DeviceBusyError m) = True"
| "is_session_error _ = False"

text \<open>The classes deriving from \<^verbatim>\<open>OSError\<close>: those a socket raises, and
  \<^verbatim>\<open>TimeoutError\<close>.\<close>

fun is_os_error :: "exn \<Rightarrow> bool" where
  "is_os_error (SocketError m) = True"
| "is_os_error TimeoutError = True"
| "is_os_error _ = False"

text \<open>What \<^verbatim>\<open>except Exception\<close> catches: everything but the cancellation of a task.\<close>

definition is_exception :: "exn \<Rightarrow> bool" where
  "is_exception e \<longleftrightarrow> e \<noteq> CancelledError"

text \<open>\<^verbatim>\<open>str(exception)\<close>; the built-in exceptions carry no text in the model.\<close>

fun error_text :: "exn \<Rightarrow> string" where
  "error_text (ProtocolError m) = m"
| "error_text (ConnectionError m) = m"
| "error_text (SessionError m) = m"
| "error_text (DeviceBusyError m) = m"
| "error_text (AuthenticationError m) = m"
| "error_text (GatewayError api code m) = ''Failed to call '' @ api @ '': '' @ m @ '' ('' @ code @ '')''"
| "error_text (RuntimeError m) = m"
| "error_text (SocketError m) = m"
| "error_text (OtherError m) = m"
| "error_text _ = []"

text \<open>The result of an operation that reports failure as None, and back.\<close>

fun from_option :: "exn \<Rightarrow> 'a option \<Rightarrow> exn + 'a" where
  "from_option e None = Inl e"
| "from_option e (Some x) = Inr x"

text \<open>Sequencing of fallible computations: the first exception ends the sequence.\<close>

fun andThen :: "exn + 'a \<Rightarrow> ('a \<Rightarrow> exn + 'b) \<Rightarrow> exn + 'b" where
  "andThen (Inl e) f = Inl e"
| "andThen (Inr x) f = f x"

lemma andThen_Inr_iff: "andThen r f = Inr y \<longleftrightarrow> (\<exists>x. r = Inr x \<and> f x = Inr y)"
  by (cases r) auto

lemma andThen_Inl_iff: "andThen r f = Inl e \<longleftrightarrow> r = Inl e \<or> (\<exists>x. r = Inr x \<and> f x = Inl e)"
  by (cases r) auto

fun traverse :: "('a \<Rightarrow> exn + 'b) \<Rightarrow> 'a list \<Rightarrow> exn + 'b list" where
  "traverse f [] = Inr []"
| "traverse f (x # xs) = andThen (f x) (\<lambda>y. andThen (traverse f xs) (\<lambda>ys. Inr (y # ys)))"

lemma traverse_total: "(\<And>x. x \<in> set xs \<Longrightarrow> f x = Inr (g x)) \<Longrightarrow> traverse f xs = Inr (map g xs)"
proof (induction xs)
  case Nil
  then show ?case by simp
next
  case (Cons x xs)
  then have "f x = Inr (g x)" and "traverse f xs = Inr (map g xs)" by simp_all
  then show ?case by simp
qed

section \<open>Contracts\<close>

text \<open>A wire format: \<open>valid\<close> says which values the encoder accepts.\<close>

locale codec =
  fixes encode :: "'a \<Rightarrow> exn + 'w"
    and decode :: "'w \<Rightarrow> exn + 'a"
    and valid :: "'a \<Rightarrow> bool"
  assumes roundtrip: "valid x \<Longrightarrow> \<exists>w. encode x = Inr w \<and> decode w = Inr x"
begin

lemma encode_total: "valid x \<Longrightarrow> \<exists>w. encode x = Inr w"
  using roundtrip by blast

lemma decode_encode: "valid x \<Longrightarrow> encode x = Inr w \<Longrightarrow> decode w = Inr x"
  using roundtrip [of x] by auto

lemma encode_inj: "valid x \<Longrightarrow> valid y \<Longrightarrow> encode x = encode y \<Longrightarrow> x = y"
  using roundtrip [of x] roundtrip [of y] by auto

lemma decode_andThen: "valid x \<Longrightarrow> andThen (encode x) decode = Inr x"
  using roundtrip [of x] by auto

lemma traverse_roundtrip:
  "list_all valid xs \<Longrightarrow> \<exists>ws. traverse encode xs = Inr ws \<and> length ws = length xs \<and> traverse decode ws = Inr xs"
proof (induction xs)
  case Nil
  then show ?case by simp
next
  case (Cons x xs)
  then obtain ws where "traverse encode xs = Inr ws" "length ws = length xs" "traverse decode ws = Inr xs"
    by auto
  moreover from Cons.prems obtain w where "encode x = Inr w" "decode w = Inr x"
    using roundtrip [of x] by auto
  ultimately show ?case
    by (intro exI [of _ "w # ws"]) simp
qed

end

text \<open>A format of byte strings whose encoding is a fixed overhead longer than its payload.\<close>

locale framed_codec = codec encode decode valid
  for encode :: "'a \<Rightarrow> exn + bytes" and decode and valid +
  fixes payload :: "'a \<Rightarrow> bytes" and overhead :: nat
  assumes length_encode: "valid x \<Longrightarrow> encode x = Inr w \<Longrightarrow> length w = overhead + length (payload x)"
begin

lemma encode_nonempty: "valid x \<Longrightarrow> 0 < overhead \<Longrightarrow> encode x = Inr w \<Longrightarrow> w \<noteq> []"
  using length_encode [of x w] by auto

end

text \<open>A format carried inside another one: what the inner encoder produces the outer one
  accepts, and the composition is a format again.\<close>

locale layered_codec = inner: codec enc_in dec_in valid + outer: codec enc_out dec_out valid_out
  for enc_in :: "'a \<Rightarrow> exn + 'v" and dec_in and valid
    and enc_out :: "'v \<Rightarrow> exn + 'w" and dec_out and valid_out +
  assumes fits: "valid x \<Longrightarrow> enc_in x = Inr v \<Longrightarrow> valid_out v"
begin

lemma layered_roundtrip:
  assumes "valid x"
  shows "\<exists>w. andThen (enc_in x) enc_out = Inr w \<and> andThen (dec_out w) dec_in = Inr x"
proof -
  from inner.roundtrip [OF assms] obtain v where v: "enc_in x = Inr v" "dec_in v = Inr x"
    by blast
  from outer.roundtrip [OF fits [OF assms v(1)]] obtain w where "enc_out v = Inr w" "dec_out w = Inr v"
    by blast
  with v show ?thesis by auto
qed

end

sublocale layered_codec \<subseteq> layered: codec "\<lambda>x. andThen (enc_in x) enc_out" "\<lambda>w. andThen (dec_out w) dec_in" valid
  by unfold_locales (rule layered_roundtrip)

text \<open>Running a component over a sequence of events, with the effects in order.\<close>

fun run :: "('s \<Rightarrow> 'e \<Rightarrow> 's \<times> 'o list) \<Rightarrow> 's \<Rightarrow> 'e list \<Rightarrow> 's \<times> 'o list" where
  "run step s [] = (s, [])"
| "run step s (e # es) =
     (let r = step s e; rest = run step (fst r) es in (fst rest, snd r @ snd rest))"

lemma run_append:
  "fst (run step s (es @ fs)) = fst (run step (fst (run step s es)) fs)"
  "snd (run step s (es @ fs)) = snd (run step s es) @ snd (run step (fst (run step s es)) fs)"
  by (induction es arbitrary: s) (simp_all add: Let_def)

locale transducer =
  fixes step :: "'s \<Rightarrow> 'e \<Rightarrow> 's \<times> 'o list"
    and inv :: "'s \<Rightarrow> bool"
  assumes step_inv: "inv s \<Longrightarrow> inv (fst (step s e))"
begin

lemma run_inv: "inv s \<Longrightarrow> inv (fst (run step s es))"
proof (induction es arbitrary: s)
  case Nil
  then show ?case by simp
next
  case (Cons e es)
  from step_inv [OF Cons.prems, of e] have "inv (fst (run step (fst (step s e)) es))"
    by (rule Cons.IH)
  then show ?case by (simp add: Let_def)
qed

lemma run_effects:
  assumes "inv s"
    and step_ok: "\<And>s e. inv s \<Longrightarrow> list_all ok (snd (step s e))"
  shows "list_all ok (snd (run step s es))"
  using assms(1)
proof (induction es arbitrary: s)
  case Nil
  then show ?case by simp
next
  case (Cons e es)
  have "list_all ok (snd (run step (fst (step s e)) es))"
    by (rule Cons.IH) (rule step_inv [OF Cons.prems])
  with step_ok [OF Cons.prems, of e] show ?case
    by (simp add: Let_def)
qed

end

text \<open>A component with a closed state that no event leaves and that has no effects but
  the exceptions of misuse, which \<open>quiet\<close> recognises.\<close>

locale closable = transducer step inv
  for step :: "'s \<Rightarrow> 'e \<Rightarrow> 's \<times> 'o list" and inv +
  fixes is_closed :: "'s \<Rightarrow> bool" and quiet :: "'o \<Rightarrow> bool"
  assumes closed_step: "is_closed s \<Longrightarrow> is_closed (fst (step s e)) \<and> list_all quiet (snd (step s e))"
begin

lemma closed_run: "is_closed s \<Longrightarrow> is_closed (fst (run step s es)) \<and> list_all quiet (snd (run step s es))"
proof (induction es arbitrary: s)
  case Nil
  then show ?case by simp
next
  case (Cons e es)
  have c: "is_closed (fst (step s e))" and q: "list_all quiet (snd (step s e))"
    using closed_step [OF Cons.prems, of e] by simp_all
  from Cons.IH [OF c] q show ?case
    by (simp add: Let_def)
qed

end

end
