(* ===== verification/Bytes.thy ===== *)
theory Bytes
  imports Prelude
begin

text \<open>
  The byte-string operations of Python the program uses: slicing, \<^verbatim>\<open>int.from_bytes\<close> and
  \<^verbatim>\<open>int.to_bytes\<close> in both byte orders, \<^verbatim>\<open>find\<close> and \<^verbatim>\<open>rfind\<close>, decimal
  rendering and \<^verbatim>\<open>str.encode\<close>. Slices and integer fields come with the rewrite rules
  (collections \<open>slices\<close> and \<open>lengths\<close>) that let the simplifier read a field back out of a
  concatenation.
\<close>

section \<open>Slices\<close>

text \<open>\<^verbatim>\<open>xs[a:b]\<close> for nonnegative bounds: clipped to the string, empty when \<open>b \<le> a\<close>.\<close>

definition slice :: "'a list \<Rightarrow> nat \<Rightarrow> nat \<Rightarrow> 'a list" where
  "slice xs a b = take (b - a) (drop a xs)"

text \<open>\<^verbatim>\<open>body[a:b] = v\<close> on a bytearray replaces the range, whatever the size of the new
  value.\<close>

definition set_slice :: "bytes \<Rightarrow> nat \<Rightarrow> nat \<Rightarrow> bytes \<Rightarrow> bytes" where
  "set_slice xs a b v = take a xs @ v @ drop (max a b) xs"

lemma length_slice [lengths]: "length (slice xs a b) = min (b - a) (length xs - a)"
  by (simp add: slice_def)

lemma slice_append_right [slices]:
  "length xs \<le> a \<Longrightarrow> slice (xs @ ys) a b = slice ys (a - length xs) (b - length xs)"
  by (simp add: slice_def)

lemma slice_append_left [slices]: "b \<le> length xs \<Longrightarrow> slice (xs @ ys) a b = slice xs a b"
  by (simp add: slice_def)

lemma slice_all [slices]: "length xs \<le> b \<Longrightarrow> slice xs 0 b = xs"
  by (simp add: slice_def)

lemma slice_Cons [slices]:
  "slice (x # xs) (Suc a) (Suc b) = slice xs a b"
  "slice (x # xs) 0 (Suc b) = x # slice xs 0 b"
  by (simp_all add: slice_def)

lemma slice_Cons_numeral [slices]:
  "slice (x # xs) (numeral a) (numeral b) = slice xs (numeral a - 1) (numeral b - 1)"
  "slice (x # xs) 0 (numeral b) = x # slice xs 0 (numeral b - 1)"
  "slice (x # xs) (Suc 0) (numeral b) = slice xs 0 (numeral b - 1)"
  by (simp_all add: slice_def numeral_eq_Suc)

lemma slice_empty [slices]: "b \<le> a \<Longrightarrow> slice xs a b = []" "slice [] a b = []"
  by (simp_all add: slice_def)

lemma nth_slice: "i < b - a \<Longrightarrow> a + i < length xs \<Longrightarrow> slice xs a b ! i = xs ! (a + i)"
  by (simp add: slice_def)

lemma slice_join: "a \<le> b \<Longrightarrow> b \<le> c \<Longrightarrow> slice xs a b @ slice xs b c = slice xs a c"
  using take_add [of "b - a" "c - b" "drop a xs"] by (simp add: slice_def)

text \<open>Reading a field behind a known prefix.\<close>

lemma slice_mid: "length pre = a \<Longrightarrow> b = a + length v \<Longrightarrow> slice (pre @ v @ rest) a b = v"
  by (simp add: slice_def)

lemma nth_mid: "length pre = a \<Longrightarrow> (pre @ x # rest) ! a = x"
  by auto

lemma slice_zero: "slice xs 0 b = take b xs"
  by (simp add: slice_def)

lemma slice_to_end: "slice xs a (length xs) = drop a xs"
  by (simp add: slice_def)

section \<open>Integer fields\<close>

text \<open>\<^verbatim>\<open>int.from_bytes\<close>, little and big endian.\<close>

fun from_le :: "bytes \<Rightarrow> nat" where
  "from_le [] = 0"
| "from_le (b # bs) = unat b + 256 * from_le bs"

definition from_be :: "bytes \<Rightarrow> nat" where
  "from_be bs = from_le (rev bs)"

text \<open>The \<open>n\<close> low bytes of an integer, least significant first.\<close>

fun le_bytes :: "nat \<Rightarrow> nat \<Rightarrow> bytes" where
  "le_bytes 0 x = []"
| "le_bytes (Suc n) x = word_of_nat (x mod 256) # le_bytes n (x div 256)"

definition be_bytes :: "nat \<Rightarrow> nat \<Rightarrow> bytes" where
  "be_bytes n x = rev (le_bytes n x)"

text \<open>\<^verbatim>\<open>x.to_bytes(n, order)\<close> raises OverflowError when \<open>x\<close> does not fit.\<close>

definition to_le :: "nat \<Rightarrow> nat \<Rightarrow> exn + bytes" where
  "to_le n x = (if x < 256 ^ n then Inr (le_bytes n x) else Inl OverflowError)"

definition to_be :: "nat \<Rightarrow> nat \<Rightarrow> exn + bytes" where
  "to_be n x = (if x < 256 ^ n then Inr (be_bytes n x) else Inl OverflowError)"

lemma length_le_bytes [simp, lengths]: "length (le_bytes n x) = n"
  by (induction n arbitrary: x) auto

lemma length_be_bytes [simp, lengths]: "length (be_bytes n x) = n"
  by (simp add: be_bytes_def)

lemma unat_byte_mod: "unat (word_of_nat (x mod 256) :: byte) = x mod 256"
  by (simp add: unat_of_nat)

lemma from_le_le_bytes: "from_le (le_bytes n x) = x mod 256 ^ n"
proof (induction n arbitrary: x)
  case 0
  then show ?case by simp
next
  case (Suc n)
  have "from_le (le_bytes (Suc n) x) = x mod 256 + 256 * (x div 256 mod 256 ^ n)"
    using Suc.IH [of "x div 256"] by (simp add: unat_byte_mod)
  also have "\<dots> = x mod (256 * 256 ^ n)"
    by (simp add: mod_mult2_eq)
  finally show ?case by simp
qed

lemma from_be_be_bytes: "from_be (be_bytes n x) = x mod 256 ^ n"
  by (simp add: from_be_def be_bytes_def from_le_le_bytes)

lemma from_le_bound: "from_le bs < 256 ^ length bs"
proof (induction bs)
  case Nil
  then show ?case by simp
next
  case (Cons b bs)
  have "unat b < 256" using unsigned_less [of b] by simp
  with Cons.IH show ?case by simp
qed

lemma from_be_bound: "from_be bs < 256 ^ length bs"
  using from_le_bound [of "rev bs"] by (simp add: from_be_def)

lemma le_bytes_from_le: "le_bytes (length bs) (from_le bs) = bs"
proof (induction bs)
  case Nil
  then show ?case by simp
next
  case (Cons b bs)
  have b: "unat b < 256" using unsigned_less [of b] by simp
  then have "(unat b + 256 * from_le bs) mod 256 = unat b"
    and "(unat b + 256 * from_le bs) div 256 = from_le bs"
    by simp_all
  with Cons.IH show ?case by simp
qed

lemma be_bytes_from_be: "be_bytes (length bs) (from_be bs) = bs"
  using le_bytes_from_le [of "rev bs"] by (simp add: be_bytes_def from_be_def)

lemma le_bytes_mod: "le_bytes n (x mod 256 ^ n) = le_bytes n x"
  using le_bytes_from_le [of "le_bytes n x"] by (simp add: from_le_le_bytes)

lemma from_le_inj: "length xs = length ys \<Longrightarrow> from_le xs = from_le ys \<Longrightarrow> xs = ys"
  by (metis le_bytes_from_le)

section \<open>Searching\<close>

text \<open>\<^verbatim>\<open>hay.find(needle, start)\<close> for a nonempty needle, \<open>None\<close> for \<open>-1\<close>.\<close>

definition occurs_at :: "'a list \<Rightarrow> 'a list \<Rightarrow> nat \<Rightarrow> bool" where
  "occurs_at needle hay i \<longleftrightarrow>
     i + length needle \<le> length hay \<and> slice hay i (i + length needle) = needle"

definition find_from :: "'a list \<Rightarrow> 'a list \<Rightarrow> nat \<Rightarrow> nat option" where
  "find_from needle hay start = List.find (occurs_at needle hay) [start..<length hay]"

definition rfind :: "'a list \<Rightarrow> 'a list \<Rightarrow> nat option" where
  "rfind needle hay = List.find (occurs_at needle hay) (rev [0..<length hay])"

lemma find_upt_Some:
  "List.find P [a..<b] = Some i \<longleftrightarrow> a \<le> i \<and> i < b \<and> P i \<and> (\<forall>j. a \<le> j \<and> j < i \<longrightarrow> \<not> P j)"
proof (induction "b - a" arbitrary: a)
  case 0
  then show ?case by auto
next
  case (Suc n)
  then have ab: "a < b" and n: "n = b - Suc a" by auto
  have IH: "List.find P [Suc a..<b] = Some i \<longleftrightarrow>
      Suc a \<le> i \<and> i < b \<and> P i \<and> (\<forall>j. Suc a \<le> j \<and> j < i \<longrightarrow> \<not> P j)"
    using Suc.hyps(1) [OF n] .
  show ?case
  proof (cases "P a")
    case True
    then show ?thesis using ab by (auto simp: upt_conv_Cons)
  next
    case False
    have "List.find P [a..<b] = List.find P [Suc a..<b]"
      using ab False by (simp add: upt_conv_Cons)
    then show ?thesis using IH False
      by (auto simp: Suc_le_eq) (metis le_neq_implies_less)+
  qed
qed

lemma find_rev_upt_Some:
  "List.find P (rev [0..<b]) = Some i \<longleftrightarrow> i < b \<and> P i \<and> (\<forall>j. i < j \<and> j < b \<longrightarrow> \<not> P j)"
proof (induction b)
  case 0
  then show ?case by simp
next
  case (Suc b)
  then show ?case
    by (auto simp: less_Suc_eq)
qed

lemma find_from_Some:
  "needle \<noteq> [] \<Longrightarrow> find_from needle hay s = Some i \<longleftrightarrow>
     s \<le> i \<and> occurs_at needle hay i \<and> (\<forall>j. s \<le> j \<and> j < i \<longrightarrow> \<not> occurs_at needle hay j)"
  unfolding find_from_def find_upt_Some
  by (cases needle) (auto simp: occurs_at_def)

lemma find_from_None:
  "needle \<noteq> [] \<Longrightarrow> find_from needle hay s = None \<longleftrightarrow> (\<forall>i \<ge> s. \<not> occurs_at needle hay i)"
  unfolding find_from_def find_None_iff
  by (cases needle) (auto simp: occurs_at_def)

lemma rfind_Some:
  "needle \<noteq> [] \<Longrightarrow> rfind needle hay = Some i \<longleftrightarrow>
     occurs_at needle hay i \<and> (\<forall>j > i. \<not> occurs_at needle hay j)"
  unfolding rfind_def find_rev_upt_Some
  by (cases needle) (auto simp: occurs_at_def)

lemma rfind_None:
  "needle \<noteq> [] \<Longrightarrow> rfind needle hay = None \<longleftrightarrow> (\<forall>i. \<not> occurs_at needle hay i)"
  unfolding rfind_def find_None_iff
  by (cases needle) (auto simp: occurs_at_def)

section \<open>Text\<close>

text \<open>
  A Python \<^verbatim>\<open>str\<close> is a HOL \<open>string\<close> whose characters stand for the code points up to
  255; \<^verbatim>\<open>encode()\<close> is UTF-8, which gives two bytes from 128 on.
\<close>

fun encode_char :: "char \<Rightarrow> bytes" where
  "encode_char c =
     (let n = of_char c :: nat
      in if n < 128 then [word_of_nat n]
         else [word_of_nat (192 + n div 64), word_of_nat (128 + n mod 64)])"

definition str_encode :: "string \<Rightarrow> bytes" where
  "str_encode s = concat (map encode_char s)"

definition ascii :: "string \<Rightarrow> bool" where
  "ascii s \<longleftrightarrow> list_all (\<lambda>c. (of_char c :: nat) < 128) s"

lemma length_str_encode: "ascii s \<Longrightarrow> length (str_encode s) = length s"
  by (induction s) (auto simp: str_encode_def ascii_def Let_def)

lemma length_str_encode_ge: "length s \<le> length (str_encode s)"
  by (induction s) (auto simp: str_encode_def Let_def)

text \<open>\<^verbatim>\<open>str(n)\<close> of a nonnegative integer.\<close>

fun dec_digits :: "nat \<Rightarrow> string" where
  "dec_digits n =
     (if n < 10 then [char_of (48 + n)] else dec_digits (n div 10) @ [char_of (48 + n mod 10)])"

declare dec_digits.simps [simp del]

lemma dec_digits_nonempty: "dec_digits n \<noteq> []"
  by (subst dec_digits.simps) simp

end
