(* ===== verification/Kcp_Segment.thy ===== *)
theory Kcp_Segment
  imports Bytes
begin

text \<open>
  Models \<^verbatim>\<open>src/tuya_ipc_p2p_sdk/transport/kcp_segment.py\<close>: the 24-byte little-endian header
  \<^verbatim>\<open>conv u32 | cmd u8 | frg u8 | wnd u16 | ts u32 | sn u32 | una u32 | len u32\<close> and the
  payload it announces. The lemmas show that parsing inverts building, with or without further
  bytes behind the segment, that every parsed segment is the one its bytes were built from, and
  that parsing refuses exactly the buffers that do not hold a whole segment.
\<close>

section \<open>Model\<close>

definition KCP_HEADER_LENGTH :: nat where "KCP_HEADER_LENGTH = 24"

definition CMD_PUSH :: nat where "CMD_PUSH = 0x51"
definition CMD_ACK :: nat where "CMD_ACK = 0x52"
definition CMD_WINDOW_ASK :: nat where "CMD_WINDOW_ASK = 0x53"
definition CMD_WINDOW_TELL :: nat where "CMD_WINDOW_TELL = 0x54"

lemmas command_defs = CMD_PUSH_def CMD_ACK_def CMD_WINDOW_ASK_def CMD_WINDOW_TELL_def

record kcp_segment =
  seg_conversation :: nat
  seg_command :: nat
  seg_fragment :: nat
  seg_window :: nat
  seg_timestamp :: nat
  seg_sequence :: nat
  seg_unacknowledged :: nat
  seg_data :: bytes

definition parse_segment :: "bytes \<Rightarrow> kcp_segment option" where
  "parse_segment raw =
     (if length raw < KCP_HEADER_LENGTH then None
      else let len = from_le (slice raw 20 24) in
        if KCP_HEADER_LENGTH + len > length raw then None
        else Some \<lparr>
          seg_conversation = from_le (slice raw 0 4),
          seg_command = unat (raw ! 4),
          seg_fragment = unat (raw ! 5),
          seg_window = from_le (slice raw 6 8),
          seg_timestamp = from_le (slice raw 8 12),
          seg_sequence = from_le (slice raw 12 16),
          seg_unacknowledged = from_le (slice raw 16 20),
          seg_data = slice raw KCP_HEADER_LENGTH (KCP_HEADER_LENGTH + len)\<rparr>)"

text \<open>The integer arguments are masked to their fields, except the command and the fragment,
  which \<^verbatim>\<open>bytes((command, fragment))\<close> requires to be bytes.\<close>

definition build_segment ::
    "nat \<Rightarrow> nat \<Rightarrow> nat \<Rightarrow> nat \<Rightarrow> nat \<Rightarrow> nat \<Rightarrow> nat \<Rightarrow> bytes \<Rightarrow> exn + bytes" where
  "build_segment conversation command fragment window timestamp sequence unacknowledged data =
     (if 256 \<le> command \<or> 256 \<le> fragment then Inl ValueError
      else andThen (to_le 4 (length data)) (\<lambda>len. Inr (concat [
        le_bytes 4 (conversation mod 2 ^ 32),
        [word_of_nat command, word_of_nat fragment],
        le_bytes 2 (window mod 2 ^ 16),
        le_bytes 4 (timestamp mod 2 ^ 32),
        le_bytes 4 (sequence mod 2 ^ 32),
        le_bytes 4 (unacknowledged mod 2 ^ 32),
        len,
        data])))"

section \<open>Laws\<close>

text \<open>The fields of a header read as they are written.\<close>

definition header_bytes :: "kcp_segment \<Rightarrow> bytes" where
  "header_bytes s =
     le_bytes 4 (seg_conversation s) @ [word_of_nat (seg_command s), word_of_nat (seg_fragment s)] @
     le_bytes 2 (seg_window s) @ le_bytes 4 (seg_timestamp s) @ le_bytes 4 (seg_sequence s) @
     le_bytes 4 (seg_unacknowledged s) @ le_bytes 4 (length (seg_data s))"

definition valid_segment :: "kcp_segment \<Rightarrow> bool" where
  "valid_segment s \<longleftrightarrow>
     seg_conversation s < 2 ^ 32 \<and> seg_command s < 256 \<and> seg_fragment s < 256 \<and>
     seg_window s < 2 ^ 16 \<and> seg_timestamp s < 2 ^ 32 \<and> seg_sequence s < 2 ^ 32 \<and>
     seg_unacknowledged s < 2 ^ 32 \<and> length (seg_data s) < 2 ^ 32"

definition encode_segment :: "kcp_segment \<Rightarrow> exn + bytes" where
  "encode_segment s = build_segment (seg_conversation s) (seg_command s) (seg_fragment s)
     (seg_window s) (seg_timestamp s) (seg_sequence s) (seg_unacknowledged s) (seg_data s)"

lemma length_header_bytes [simp, lengths]: "length (header_bytes s) = 24"
  by (simp add: header_bytes_def)

lemma le_bytes_4_mod: "le_bytes 4 (x mod 4294967296) = le_bytes 4 x"
  using le_bytes_mod [of 4 x] by simp

lemma le_bytes_2_mod: "le_bytes 2 (x mod 65536) = le_bytes 2 x"
  using le_bytes_mod [of 2 x] by simp

lemma build_segment_eq:
  "build_segment conv cmd frg wnd ts sn una data =
     (if 256 \<le> cmd \<or> 256 \<le> frg then Inl ValueError
      else if 2 ^ 32 \<le> length data then Inl OverflowError
      else Inr (header_bytes \<lparr>seg_conversation = conv, seg_command = cmd, seg_fragment = frg,
             seg_window = wnd, seg_timestamp = ts, seg_sequence = sn, seg_unacknowledged = una,
             seg_data = data\<rparr> @ data))"
  by (simp add: build_segment_def to_le_def header_bytes_def le_bytes_4_mod le_bytes_2_mod)

lemma encode_segment_Inr: "valid_segment s \<Longrightarrow> encode_segment s = Inr (header_bytes s @ seg_data s)"
  by (simp add: encode_segment_def build_segment_eq valid_segment_def header_bytes_def)

lemma length_build_segment:
  "build_segment conv cmd frg wnd ts sn una data = Inr raw \<Longrightarrow> length raw = 24 + length data"
  by (auto simp: build_segment_eq split: if_splits)

text \<open>Reading a field at a fixed offset of the header.\<close>

lemma from_le_4: "from_le (le_bytes 4 x) = x mod 4294967296"
  and from_le_2: "from_le (le_bytes 2 x) = x mod 65536"
  by (simp_all add: from_le_le_bytes)

lemma header_slices:
  fixes s rest
  defines "raw \<equiv> header_bytes s @ rest"
  shows "slice raw 0 4 = le_bytes 4 (seg_conversation s)"
    "raw ! 4 = word_of_nat (seg_command s)"
    "raw ! 5 = word_of_nat (seg_fragment s)"
    "slice raw 6 8 = le_bytes 2 (seg_window s)"
    "slice raw 8 12 = le_bytes 4 (seg_timestamp s)"
    "slice raw 12 16 = le_bytes 4 (seg_sequence s)"
    "slice raw 16 20 = le_bytes 4 (seg_unacknowledged s)"
    "slice raw 20 24 = le_bytes 4 (length (seg_data s))"
    "slice raw 24 (24 + n) = take n rest"
proof -
  show "slice raw 24 (24 + n) = take n rest"
    by (simp add: raw_def slice_def)
qed (simp_all add: raw_def header_bytes_def slices nth_append)

text \<open>Masking a segment to the width of its fields; parsing what was built gives the masked
  segment, whatever follows it in the buffer.\<close>

definition mask_segment :: "kcp_segment \<Rightarrow> kcp_segment" where
  "mask_segment s = \<lparr>
     seg_conversation = seg_conversation s mod 2 ^ 32, seg_command = seg_command s,
     seg_fragment = seg_fragment s, seg_window = seg_window s mod 2 ^ 16,
     seg_timestamp = seg_timestamp s mod 2 ^ 32, seg_sequence = seg_sequence s mod 2 ^ 32,
     seg_unacknowledged = seg_unacknowledged s mod 2 ^ 32, seg_data = seg_data s\<rparr>"

lemma parse_header_bytes:
  assumes "seg_command s < 256" "seg_fragment s < 256" "length (seg_data s) < 2 ^ 32"
  shows "parse_segment (header_bytes s @ seg_data s @ rest) = Some (mask_segment s)"
proof -
  have len: "length (seg_data s) mod 4294967296 = length (seg_data s)"
    using assms(3) by simp
  have byte: "unat (word_of_nat (seg_command s) :: byte) = seg_command s"
    "unat (word_of_nat (seg_fragment s) :: byte) = seg_fragment s"
    using assms(1,2) by (simp_all add: unat_of_nat)
  show ?thesis
    unfolding parse_segment_def KCP_HEADER_LENGTH_def Let_def header_slices from_le_4 from_le_2 len byte
    by (simp add: mask_segment_def)
qed

lemma parse_header_data:
  "seg_data s = d \<Longrightarrow> seg_command s < 256 \<Longrightarrow> seg_fragment s < 256 \<Longrightarrow> length d < 2 ^ 32 \<Longrightarrow>
     parse_segment (header_bytes s @ d) = Some (mask_segment s)"
  "seg_data s = [] \<Longrightarrow> seg_command s < 256 \<Longrightarrow> seg_fragment s < 256 \<Longrightarrow>
     parse_segment (header_bytes s) = Some (mask_segment s)"
  using parse_header_bytes [of s "[]"] by simp_all

lemma parse_build_segment:
  assumes "build_segment conv cmd frg wnd ts sn una data = Inr raw"
  shows "parse_segment (raw @ rest) = Some \<lparr>
     seg_conversation = conv mod 2 ^ 32, seg_command = cmd, seg_fragment = frg,
     seg_window = wnd mod 2 ^ 16, seg_timestamp = ts mod 2 ^ 32, seg_sequence = sn mod 2 ^ 32,
     seg_unacknowledged = una mod 2 ^ 32, seg_data = data\<rparr>"
proof -
  let ?s = "\<lparr>seg_conversation = conv, seg_command = cmd, seg_fragment = frg, seg_window = wnd,
    seg_timestamp = ts, seg_sequence = sn, seg_unacknowledged = una, seg_data = data\<rparr>"
  from assms have "cmd < 256" "frg < 256" "length data < 2 ^ 32" and raw: "raw = header_bytes ?s @ data"
    by (auto simp: build_segment_eq split: if_splits)
  then show ?thesis
    using parse_header_bytes [of ?s rest] by (simp add: mask_segment_def)
qed

lemma mask_valid_segment: "valid_segment s \<Longrightarrow> mask_segment s = s"
  by (simp add: mask_segment_def valid_segment_def)

lemma parse_encode_segment:
  "valid_segment s \<Longrightarrow> encode_segment s = Inr raw \<Longrightarrow> parse_segment (raw @ rest) = Some s"
  using parse_header_bytes [of s rest] mask_valid_segment [of s]
  by (auto simp: encode_segment_Inr valid_segment_def)

text \<open>Every parsed segment is in range, and its bytes are the ones it encodes to.\<close>

lemma parse_segment_None:
  "parse_segment raw = None \<longleftrightarrow> length raw < 24 \<or> length raw < 24 + from_le (slice raw 20 24)"
  by (auto simp: parse_segment_def KCP_HEADER_LENGTH_def Let_def)

lemma from_le_slice_bound: "b - a = n \<Longrightarrow> from_le (slice raw a b) < 256 ^ n"
proof -
  assume "b - a = n"
  then have "(256 :: nat) ^ length (slice raw a b) \<le> 256 ^ n"
    by (intro power_increasing) (simp_all add: length_slice)
  with from_le_bound [of "slice raw a b"] show ?thesis
    by (rule order.strict_trans2)
qed

lemma parse_segment_valid:
  assumes "parse_segment raw = Some s"
  shows "valid_segment s"
proof -
  have len: "24 + from_le (slice raw 20 24) \<le> length raw"
    and s: "s = \<lparr>seg_conversation = from_le (slice raw 0 4), seg_command = unat (raw ! 4),
      seg_fragment = unat (raw ! 5), seg_window = from_le (slice raw 6 8),
      seg_timestamp = from_le (slice raw 8 12), seg_sequence = from_le (slice raw 12 16),
      seg_unacknowledged = from_le (slice raw 16 20),
      seg_data = slice raw 24 (24 + from_le (slice raw 20 24))\<rparr>"
    using assms by (auto simp: parse_segment_def KCP_HEADER_LENGTH_def Let_def split: if_splits)
  have byte: "unat b < 256" for b :: byte
    using unsigned_less [of b] by simp
  have word: "from_le (slice raw a (a + 4)) < 4294967296" and half: "from_le (slice raw 6 8) < 65536" for a
    using from_le_slice_bound [of "a + 4" a 4 raw] from_le_slice_bound [of 8 6 2 raw] by simp_all
  show ?thesis
    using word [of 0] word [of 8] word [of 12] word [of 16] word [of 20] half
    unfolding s valid_segment_def by (auto simp: lengths byte)
qed

text \<open>Cutting a buffer at the header's offsets.\<close>

lemma take_24_split:
  "24 \<le> length raw \<Longrightarrow> take 24 raw =
     slice raw 0 4 @ [raw ! 4, raw ! 5] @ slice raw 6 8 @ slice raw 8 12 @ slice raw 12 16 @
     slice raw 16 20 @ slice raw 20 24"
proof -
  assume "24 \<le> length raw"
  then have "slice raw 4 6 = [raw ! 4, raw ! 5]"
    by (intro nth_equalityI) (auto simp: lengths nth_slice less_Suc_eq numeral_2_eq_2)
  then show ?thesis
    using slice_join [of 0 4 24 raw] slice_join [of 4 6 24 raw] slice_join [of 6 8 24 raw]
      slice_join [of 8 12 24 raw] slice_join [of 12 16 24 raw] slice_join [of 16 20 24 raw]
    by (simp add: slice_zero)
qed

lemma le_bytes_slice: "b - a = n \<Longrightarrow> b \<le> length raw \<Longrightarrow> le_bytes n (from_le (slice raw a b)) = slice raw a b"
  using le_bytes_from_le [of "slice raw a b"] by (simp add: length_slice)

lemma encode_parsed_segment:
  assumes "parse_segment raw = Some s"
  shows "encode_segment s = Inr (take (24 + length (seg_data s)) raw)"
proof -
  let ?n = "from_le (slice raw 20 24)"
  have len: "24 + ?n \<le> length raw"
    and s: "s = \<lparr>seg_conversation = from_le (slice raw 0 4), seg_command = unat (raw ! 4),
      seg_fragment = unat (raw ! 5), seg_window = from_le (slice raw 6 8),
      seg_timestamp = from_le (slice raw 8 12), seg_sequence = from_le (slice raw 12 16),
      seg_unacknowledged = from_le (slice raw 16 20),
      seg_data = slice raw 24 (24 + ?n)\<rparr>"
    using assms by (auto simp: parse_segment_def KCP_HEADER_LENGTH_def Let_def split: if_splits)
  have data: "length (seg_data s) = ?n"
    using len by (simp add: s lengths)
  have "header_bytes s = take 24 raw"
    using len by (simp add: header_bytes_def data take_24_split le_bytes_slice) (simp add: s le_bytes_slice)
  moreover have "seg_data s = take ?n (drop 24 raw)"
    by (simp add: s slice_def)
  ultimately have "header_bytes s @ seg_data s = take (24 + ?n) raw"
    by (simp add: take_add)
  with encode_segment_Inr [OF parse_segment_valid [OF assms]] data show ?thesis
    by simp
qed

interpretation segment: framed_codec encode_segment "\<lambda>raw. from_option ValueError (parse_segment raw)"
  valid_segment seg_data 24
proof unfold_locales
  fix s assume v: "valid_segment s"
  then show "\<exists>w. encode_segment s = Inr w \<and> from_option ValueError (parse_segment w) = Inr s"
    using parse_encode_segment [OF v encode_segment_Inr [OF v], of "[]"] encode_segment_Inr [OF v]
    by simp
next
  fix s w assume "valid_segment s" "encode_segment s = Inr w"
  then show "length w = 24 + length (seg_data s)"
    by (auto simp: encode_segment_Inr)
qed

section \<open>Properties\<close>

text \<open>
  A buffer parses exactly when it holds a whole segment; the fields are then in range and
  the segment encodes to exactly the bytes it was read from, so no header is accepted that
  means anything else, and whatever follows the segment is left alone.
\<close>

theorem segment_parses_exactly:
  "case parse_segment raw of
     None \<Rightarrow> length raw < 24 \<or> length raw < 24 + from_le (slice raw 20 24)
   | Some s \<Rightarrow> valid_segment s \<and> 24 + length (seg_data s) \<le> length raw \<and>
       encode_segment s = Inr (take (24 + length (seg_data s)) raw)"
proof (cases "parse_segment raw")
  case None
  with iffD1 [OF parse_segment_None None] show ?thesis by simp
next
  case (Some s)
  have "24 + length (seg_data s) \<le> length raw"
    using Some by (auto simp: parse_segment_def KCP_HEADER_LENGTH_def Let_def length_slice split: if_splits)
  then show ?thesis
    using Some parse_segment_valid [OF Some] encode_parsed_segment [OF Some] by simp
qed

end
