(* ===== verification/Kcp_Conversation.thy ===== *)
theory Kcp_Conversation
  imports Kcp_Segment "HOL-Library.AList"
begin

text \<open>
  Models \<^verbatim>\<open>src/tuya_ipc_p2p_sdk/transport/kcp_conversation.py\<close>, the class
  \<^verbatim>\<open>KcpConversation\<close>, one operation per method. The state is the record \<open>kcp\<close>; the
  dictionary of received segments is an association list, the retransmit task is a flag
  (created or not), and the callbacks are effects: \<open>Transmit\<close> for the bytes handed to the
  relay connection, \<open>Deliver\<close> for a message handed to the handler, \<open>Raised\<close> for an
  exception that leaves the method. Readings of the monotonic clock are arguments, in
  milliseconds.

  The lemmas here are the invariant of the conversation under every event and the bounds that
  follow from it; \<^verbatim>\<open>Kcp_Delivery\<close> has the end-to-end behaviour.
\<close>

section \<open>State\<close>

definition RECEIVE_WINDOW :: nat where "RECEIVE_WINDOW = 512"
definition RETRANSMIT_INTERVAL_MS :: int where "RETRANSMIT_INTERVAL_MS = 300"
definition MAX_RETRANSMITS :: nat where "MAX_RETRANSMITS = 8"
definition MAX_SEGMENT_SIZE :: nat where "MAX_SEGMENT_SIZE = 1376"

definition now_milliseconds :: "nat \<Rightarrow> nat" where
  "now_milliseconds ms = ms mod 2 ^ 32"

record pending_segment =
  pend_sequence :: nat
  pend_raw :: bytes
  pend_sent_at :: nat
  pend_transmits :: nat

record kcp =
  kcp_conversation :: nat
  kcp_next_send :: nat
  kcp_next_receive :: nat
  kcp_received :: "(nat \<times> kcp_segment) list"
  kcp_pending :: "pending_segment list"
  kcp_fragments :: "bytes list"
  kcp_retransmit_task :: bool
  kcp_handler :: bool
  kcp_closed :: bool

datatype kcp_effect = Transmit bytes | Deliver bytes | Raised exn

definition new_conversation :: "nat \<Rightarrow> kcp" where
  "new_conversation c = \<lparr>
     kcp_conversation = c, kcp_next_send = 0, kcp_next_receive = 0, kcp_received = [],
     kcp_pending = [], kcp_fragments = [], kcp_retransmit_task = False, kcp_handler = False,
     kcp_closed = False\<rparr>"

section \<open>Operations\<close>

definition set_message_handler :: "bool \<Rightarrow> kcp \<Rightarrow> kcp" where
  "set_message_handler h k = k\<lparr>kcp_handler := h\<rparr>"

definition arm_retransmit :: "kcp \<Rightarrow> kcp" where
  "arm_retransmit k =
     (if kcp_retransmit_task k \<or> kcp_closed k then k else k\<lparr>kcp_retransmit_task := True\<rparr>)"

definition disarm_retransmit :: "kcp \<Rightarrow> kcp" where
  "disarm_retransmit k = k\<lparr>kcp_retransmit_task := False\<rparr>"

definition retire_pending :: "nat \<Rightarrow> kcp \<Rightarrow> kcp" where
  "retire_pending una k =
     (let k' = k\<lparr>kcp_pending := dropWhile (\<lambda>p. pend_sequence p < una) (kcp_pending k)\<rparr>
      in if kcp_pending k' = [] then disarm_retransmit k' else k')"

definition close :: "kcp \<Rightarrow> kcp" where
  "close k =
     (if kcp_closed k then k
      else (disarm_retransmit (k\<lparr>kcp_closed := True\<rparr>))
             \<lparr>kcp_received := [], kcp_pending := [], kcp_handler := False\<rparr>)"

text \<open>\<^verbatim>\<open>async_close\<close>: the closed conversation, and whether it awaits the cancelled
  retransmit task, which lets other tasks run.\<close>

definition close_conversation :: "kcp \<Rightarrow> kcp \<times> bool" where
  [simp]: "close_conversation k = (close k, kcp_retransmit_task k)"

definition acknowledge :: "kcp_segment \<Rightarrow> kcp \<Rightarrow> kcp_effect list" where
  "acknowledge s k =
     (case build_segment (kcp_conversation k) CMD_ACK 0 RECEIVE_WINDOW (seg_timestamp s)
             (seg_sequence s) (kcp_next_receive k) [] of
        Inl e \<Rightarrow> [Raised e]
      | Inr raw \<Rightarrow> [Transmit raw])"

definition answer_window_ask :: "nat \<Rightarrow> kcp \<Rightarrow> kcp_effect list" where
  "answer_window_ask ms k =
     (case build_segment (kcp_conversation k) CMD_WINDOW_TELL 0 RECEIVE_WINDOW
             (now_milliseconds ms) 0 (kcp_next_receive k) [] of
        Inl e \<Rightarrow> [Raised e]
      | Inr raw \<Rightarrow> [Transmit raw])"

text \<open>The loop of \<^verbatim>\<open>_accept\<close>: pop the next expected segment as long as it is there.\<close>

definition take_fragment :: "kcp_segment \<Rightarrow> kcp \<Rightarrow> kcp \<times> kcp_effect list" where
  "take_fragment nxt k =
     (let k1 = k\<lparr>kcp_next_receive := Suc (kcp_next_receive k),
                 kcp_fragments := kcp_fragments k @ [seg_data nxt]\<rparr>
      in if seg_fragment nxt = 0
         then let message = concat (kcp_fragments k1)
              in (k1\<lparr>kcp_fragments := []\<rparr>,
                  if message \<noteq> [] \<and> kcp_handler k1 then [Deliver message] else [])
         else (k1, []))"

lemma take_fragment_received [simp]: "kcp_received (fst (take_fragment s k)) = kcp_received k"
  by (simp add: take_fragment_def Let_def)

lemma delete_shrinks: "map_of al key = Some v \<Longrightarrow> length (AList.delete key al) < length al"
proof -
  assume "map_of al key = Some v"
  then have "(key, v) \<in> set al" by (rule map_of_SomeD)
  then show ?thesis
    unfolding AList.delete_eq using length_filter_less [of "(key, v)" al] by auto
qed

function drain :: "kcp \<Rightarrow> kcp \<times> kcp_effect list" where
  "drain k =
     (case map_of (kcp_received k) (kcp_next_receive k) of
        None \<Rightarrow> (k, [])
      | Some nxt \<Rightarrow>
          (let r = take_fragment nxt
                     (k\<lparr>kcp_received := AList.delete (kcp_next_receive k) (kcp_received k)\<rparr>);
               rest = drain (fst r)
           in (fst rest, snd r @ snd rest)))"
  by pat_completeness auto
termination
  by (relation "measure (\<lambda>k. length (kcp_received k))") (auto simp: delete_shrinks)

declare drain.simps [simp del]

definition accept :: "kcp_segment \<Rightarrow> kcp \<Rightarrow> kcp \<times> kcp_effect list" where
  "accept s k =
     (if seg_sequence s < kcp_next_receive k then (k, [])
      else if kcp_next_receive k + RECEIVE_WINDOW \<le> seg_sequence s then (k, [])
      else if map_of (kcp_received k) (seg_sequence s) \<noteq> None then (k, [])
      else drain (k\<lparr>kcp_received := kcp_received k @ [(seg_sequence s, s)]\<rparr>))"

definition input_segment :: "kcp_segment \<Rightarrow> nat \<Rightarrow> kcp \<Rightarrow> kcp \<times> kcp_effect list" where
  "input_segment s ms k =
     (if kcp_closed k then (k, [])
      else let k1 = retire_pending (seg_unacknowledged s) k in
        if seg_command s = CMD_ACK then (retire_pending (seg_sequence s + 1) k1, [])
        else if seg_command s = CMD_PUSH
        then let r = accept s k1 in (fst r, snd r @ acknowledge s (fst r))
        else if seg_command s = CMD_WINDOW_ASK then (k1, answer_window_ask ms k1)
        else (k1, []))"

text \<open>Sending. \<open>clock i\<close> is the clock at the \<open>i\<close>-th reading of this call: each fragment
  reads it for its header and again for its queue entry.\<close>

definition chunk_count :: "bytes \<Rightarrow> nat" where
  "chunk_count message = max 1 (nat (- ((- int (length message)) div int MAX_SEGMENT_SIZE)))"

definition chunk :: "bytes \<Rightarrow> nat \<Rightarrow> bytes" where
  "chunk message index = slice message (index * MAX_SEGMENT_SIZE) ((index + 1) * MAX_SEGMENT_SIZE)"

fun send_loop :: "(nat \<Rightarrow> nat) \<Rightarrow> bytes \<Rightarrow> nat \<Rightarrow> nat list \<Rightarrow> kcp \<Rightarrow> kcp \<times> kcp_effect list" where
  "send_loop clock message count [] k = (arm_retransmit k, [])"
| "send_loop clock message count (index # rest) k =
     (case build_segment (kcp_conversation k) CMD_PUSH (count - 1 - index) RECEIVE_WINDOW
             (now_milliseconds (clock (2 * index))) (kcp_next_send k) (kcp_next_receive k)
             (chunk message index) of
        Inl e \<Rightarrow> (k, [Raised e])
      | Inr raw \<Rightarrow>
          (let entry = \<lparr>pend_sequence = kcp_next_send k, pend_raw = raw,
                 pend_sent_at = now_milliseconds (clock (2 * index + 1)), pend_transmits = 1\<rparr>;
               r = send_loop clock message count rest
                     (k\<lparr>kcp_pending := kcp_pending k @ [entry], kcp_next_send := kcp_next_send k + 1\<rparr>)
           in (fst r, Transmit raw # snd r)))"

definition send :: "(nat \<Rightarrow> nat) \<Rightarrow> bytes \<Rightarrow> kcp \<Rightarrow> kcp \<times> kcp_effect list" where
  "send clock message k =
     (if kcp_closed k
      then (k, [Raised (RuntimeError ''Failed to send: the KCP conversation is closed'')])
      else send_loop clock message (chunk_count message) [0..<chunk_count message] k)"

text \<open>One pass of the retransmit loop over the queue, oldest first: the entries as the pass
  leaves them, what it resends, and whether it gave up.\<close>

definition is_due :: "nat \<Rightarrow> pending_segment \<Rightarrow> bool" where
  "is_due now p \<longleftrightarrow> \<not> int now - int (pend_sent_at p) < RETRANSMIT_INTERVAL_MS"

fun retransmit_entries :: "nat \<Rightarrow> pending_segment list \<Rightarrow> pending_segment list \<times> bytes list \<times> bool" where
  "retransmit_entries now [] = ([], [], False)"
| "retransmit_entries now (p # ps) =
     (if \<not> is_due now p
      then (case retransmit_entries now ps of (ps', out, gave_up) \<Rightarrow> (p # ps', out, gave_up))
      else if MAX_RETRANSMITS \<le> pend_transmits p then (p # ps, [], True)
      else case retransmit_entries now ps of (ps', out, gave_up) \<Rightarrow>
        (p\<lparr>pend_sent_at := now, pend_transmits := pend_transmits p + 1\<rparr> # ps',
         pend_raw p # out, gave_up))"

definition retransmit_once :: "nat \<Rightarrow> kcp \<Rightarrow> kcp \<times> kcp_effect list" where
  "retransmit_once ms k =
     (case retransmit_entries (now_milliseconds ms) (kcp_pending k) of
        (entries, out, gave_up) \<Rightarrow>
          (let k' = k\<lparr>kcp_pending := entries\<rparr>
           in (if gave_up then close k' else k', map Transmit out)))"

text \<open>One turn of \<^verbatim>\<open>_async_retransmit_loop\<close> after its sleep. The task is there to take the
  turn exactly when it has been created and not cancelled.\<close>

definition retransmit_turn :: "nat \<Rightarrow> kcp \<Rightarrow> kcp \<times> kcp_effect list" where
  "retransmit_turn ms k =
     (if kcp_retransmit_task k \<and> \<not> kcp_closed k \<and> kcp_pending k \<noteq> []
      then retransmit_once ms k else (k, []))"

datatype kcp_event =
    Input kcp_segment nat
  | Send bytes "nat \<Rightarrow> nat"
  | Tick nat
  | SetHandler bool
  | Close

fun kcp_step :: "kcp \<Rightarrow> kcp_event \<Rightarrow> kcp \<times> kcp_effect list" where
  "kcp_step k (Input s ms) = input_segment s ms k"
| "kcp_step k (Send m clock) = send clock m k"
| "kcp_step k (Tick ms) = retransmit_turn ms k"
| "kcp_step k (SetHandler h) = (set_message_handler h k, [])"
| "kcp_step k Close = (close k, [])"

section \<open>Invariant\<close>

text \<open>The buffered segments lie in a window of sequence numbers, each under its own number.\<close>

definition window_ok :: "nat \<Rightarrow> nat \<Rightarrow> (nat \<times> kcp_segment) list \<Rightarrow> bool" where
  "window_ok lo hi al \<longleftrightarrow>
     distinct (map fst al) \<and> list_all (\<lambda>(i, s). seg_sequence s = i \<and> lo \<le> i \<and> i < hi) al"

definition entry_ok :: "pending_segment \<Rightarrow> bool" where
  "entry_ok p \<longleftrightarrow> 1 \<le> pend_transmits p \<and> pend_transmits p \<le> MAX_RETRANSMITS \<and>
     24 \<le> length (pend_raw p) \<and> length (pend_raw p) \<le> 24 + MAX_SEGMENT_SIZE"

text \<open>The queue holds the last segments sent, in order and without a gap.\<close>

definition pending_ok :: "nat \<Rightarrow> pending_segment list \<Rightarrow> bool" where
  "pending_ok n ps \<longleftrightarrow>
     length ps \<le> n \<and> map pend_sequence ps = [n - length ps..<n] \<and> list_all entry_ok ps"

definition kcp_inv :: "kcp \<Rightarrow> bool" where
  "kcp_inv k \<longleftrightarrow>
     window_ok (Suc (kcp_next_receive k)) (kcp_next_receive k + RECEIVE_WINDOW) (kcp_received k) \<and>
     pending_ok (kcp_next_send k) (kcp_pending k) \<and>
     (kcp_retransmit_task k \<longleftrightarrow> kcp_pending k \<noteq> []) \<and>
     (kcp_closed k \<longrightarrow> kcp_received k = [] \<and> kcp_pending k = [])"

fun effect_ok :: "kcp_effect \<Rightarrow> bool" where
  "effect_ok (Transmit raw) = (24 \<le> length raw \<and> length raw \<le> 24 + MAX_SEGMENT_SIZE)"
| "effect_ok (Deliver m) = (m \<noteq> [])"
| "effect_ok (Raised e) = (e = ValueError \<or> (\<exists>msg. e = RuntimeError msg))"

fun is_raised :: "kcp_effect \<Rightarrow> bool" where
  "is_raised (Raised e) = True"
| "is_raised _ = False"

lemma window_okD: "window_ok lo hi al \<Longrightarrow> (i, s) \<in> set al \<Longrightarrow> seg_sequence s = i \<and> lo \<le> i \<and> i < hi"
  by (auto simp: window_ok_def list_all_iff)

lemma window_ok_mono: "window_ok lo hi al \<Longrightarrow> lo' \<le> lo \<Longrightarrow> hi \<le> hi' \<Longrightarrow> window_ok lo' hi' al"
  by (force simp: window_ok_def list_all_iff)

lemma window_ok_snoc:
  "window_ok lo hi al \<Longrightarrow> map_of al (seg_sequence s) = None \<Longrightarrow> lo \<le> seg_sequence s \<Longrightarrow>
     seg_sequence s < hi \<Longrightarrow> window_ok lo hi (al @ [(seg_sequence s, s)])"
  by (auto simp: window_ok_def map_of_eq_None_iff)

lemma window_ok_delete: "window_ok lo hi al \<Longrightarrow> window_ok (Suc lo) hi (AList.delete lo al)"
  by (fastforce simp: window_ok_def list_all_iff AList.delete_eq intro: distinct_map_filter
      dest: le_neq_implies_less)

lemma window_ok_missing: "window_ok lo hi al \<Longrightarrow> map_of al lo = None \<Longrightarrow> window_ok (Suc lo) hi al"
  by (fastforce simp: window_ok_def list_all_iff map_of_eq_None_iff image_iff dest: le_neq_implies_less)

lemma window_ok_length: "window_ok (Suc lo) (lo + n) al \<Longrightarrow> length al < n \<or> al = []"
proof -
  assume w: "window_ok (Suc lo) (lo + n) al"
  then have "set (map fst al) \<subseteq> {Suc lo..<lo + n}"
    by (auto dest: window_okD)
  then have "card (set (map fst al)) \<le> n - 1"
    using card_mono [of "{Suc lo..<lo + n}" "set (map fst al)"] by simp
  moreover have "card (set (map fst al)) = length al"
    using w distinct_card [of "map fst al"] by (simp add: window_ok_def)
  ultimately show ?thesis by (cases al) auto
qed

text \<open>Everything that does not touch the receive side leaves these fields alone.\<close>

lemma retire_fields [simp]:
  "kcp_next_receive (retire_pending u k) = kcp_next_receive k"
  "kcp_received (retire_pending u k) = kcp_received k"
  "kcp_fragments (retire_pending u k) = kcp_fragments k"
  "kcp_conversation (retire_pending u k) = kcp_conversation k"
  "kcp_next_send (retire_pending u k) = kcp_next_send k"
  "kcp_handler (retire_pending u k) = kcp_handler k"
  "kcp_closed (retire_pending u k) = kcp_closed k"
  "kcp_pending (retire_pending u k) = dropWhile (\<lambda>p. pend_sequence p < u) (kcp_pending k)"
  by (simp_all add: retire_pending_def disarm_retransmit_def Let_def)

lemma retire_task:
  "kcp_retransmit_task (retire_pending u k) \<longleftrightarrow>
     kcp_retransmit_task k \<and> dropWhile (\<lambda>p. pend_sequence p < u) (kcp_pending k) \<noteq> []"
  by (simp add: retire_pending_def disarm_retransmit_def Let_def)

lemma take_fragment_fields [simp]:
  "kcp_next_receive (fst (take_fragment s k)) = Suc (kcp_next_receive k)"
  "kcp_conversation (fst (take_fragment s k)) = kcp_conversation k"
  "kcp_next_send (fst (take_fragment s k)) = kcp_next_send k"
  "kcp_pending (fst (take_fragment s k)) = kcp_pending k"
  "kcp_retransmit_task (fst (take_fragment s k)) = kcp_retransmit_task k"
  "kcp_handler (fst (take_fragment s k)) = kcp_handler k"
  "kcp_closed (fst (take_fragment s k)) = kcp_closed k"
  by (simp_all add: take_fragment_def Let_def)

lemma drain_fields [simp]:
  "kcp_conversation (fst (drain k)) = kcp_conversation k"
  "kcp_next_send (fst (drain k)) = kcp_next_send k"
  "kcp_pending (fst (drain k)) = kcp_pending k"
  "kcp_retransmit_task (fst (drain k)) = kcp_retransmit_task k"
  "kcp_handler (fst (drain k)) = kcp_handler k"
  "kcp_closed (fst (drain k)) = kcp_closed k"
  by (induction k rule: drain.induct; subst drain.simps; simp split: option.splits add: Let_def)+

lemma accept_fields [simp]:
  "kcp_conversation (fst (accept s k)) = kcp_conversation k"
  "kcp_next_send (fst (accept s k)) = kcp_next_send k"
  "kcp_pending (fst (accept s k)) = kcp_pending k"
  "kcp_retransmit_task (fst (accept s k)) = kcp_retransmit_task k"
  "kcp_handler (fst (accept s k)) = kcp_handler k"
  "kcp_closed (fst (accept s k)) = kcp_closed k"
  by (simp_all add: accept_def)

lemma drain_window:
  "window_ok (kcp_next_receive k) (kcp_next_receive k + RECEIVE_WINDOW) (kcp_received k) \<Longrightarrow>
   window_ok (Suc (kcp_next_receive (fst (drain k)))) (kcp_next_receive (fst (drain k)) + RECEIVE_WINDOW)
     (kcp_received (fst (drain k)))"
proof (induction k rule: drain.induct)
  case (1 k)
  show ?case
  proof (cases "map_of (kcp_received k) (kcp_next_receive k)")
    case None
    with "1.prems" show ?thesis by (simp add: drain.simps [of k] window_ok_missing)
  next
    case (Some nxt)
    let ?k = "fst (take_fragment nxt (k\<lparr>kcp_received := AList.delete (kcp_next_receive k) (kcp_received k)\<rparr>))"
    have "window_ok (kcp_next_receive ?k) (kcp_next_receive ?k + RECEIVE_WINDOW) (kcp_received ?k)"
      using window_ok_mono [OF window_ok_delete [OF "1.prems"]] by simp
    with "1.IH" [OF Some refl] show ?thesis
      by (simp add: drain.simps [of k] Some Let_def)
  qed
qed

lemma accept_window:
  "window_ok (Suc (kcp_next_receive k)) (kcp_next_receive k + RECEIVE_WINDOW) (kcp_received k) \<Longrightarrow>
   window_ok (Suc (kcp_next_receive (fst (accept s k)))) (kcp_next_receive (fst (accept s k)) + RECEIVE_WINDOW)
     (kcp_received (fst (accept s k)))"
proof -
  assume w: "window_ok (Suc (kcp_next_receive k)) (kcp_next_receive k + RECEIVE_WINDOW) (kcp_received k)"
  then have "window_ok (kcp_next_receive k) (kcp_next_receive k + RECEIVE_WINDOW) (kcp_received k)"
    by (rule window_ok_mono) simp_all
  with w show ?thesis
    by (auto simp: accept_def intro!: drain_window window_ok_snoc)
qed

lemma pending_ok_dropWhile: "pending_ok n ps \<Longrightarrow> pending_ok n (dropWhile P ps)"
  unfolding dropWhile_eq_drop
  using length_takeWhile_le [of P ps]
  by (auto simp: pending_ok_def drop_map [symmetric] list_all_iff dest: in_set_dropD)

lemma kcp_inv_retire: "kcp_inv k \<Longrightarrow> kcp_inv (retire_pending u k)"
  by (auto simp: kcp_inv_def pending_ok_dropWhile retire_task)

lemma kcp_inv_accept: "kcp_inv k \<Longrightarrow> \<not> kcp_closed k \<Longrightarrow> kcp_inv (fst (accept s k))"
  by (auto simp: kcp_inv_def accept_window)

lemma kcp_inv_input: "kcp_inv k \<Longrightarrow> kcp_inv (fst (input_segment s ms k))"
  by (simp add: input_segment_def Let_def kcp_inv_retire kcp_inv_accept)

lemma kcp_inv_close: "kcp_inv k \<Longrightarrow> kcp_inv (close k)"
  by (auto simp: close_def kcp_inv_def disarm_retransmit_def window_ok_def pending_ok_def)

text \<open>Sending keeps the queue contiguous; it fails only before anything was sent.\<close>

lemma chunk_length: "length (chunk m i) \<le> MAX_SEGMENT_SIZE"
  by (simp add: chunk_def length_slice)

lemma chunk_count_eq: "chunk_count m = max 1 ((length m + (MAX_SEGMENT_SIZE - 1)) div MAX_SEGMENT_SIZE)"
proof -
  have "nat (- ((- int n) div 1376)) = (n + 1375) div 1376" for n :: nat
  proof -
    have s: "int n + 1375 = 1376 * ((int n + 1375) div 1376) + (int n + 1375) mod 1376"
      by simp
    have m: "0 \<le> (int n + 1375) mod 1376" "(int n + 1375) mod 1376 < 1376"
      by simp_all
    have "(- int n) div 1376 = - ((int n + 1375) div 1376)"
      by (rule int_div_pos_eq [of _ _ _ "1375 - (int n + 1375) mod 1376"]) (use s m in linarith)+
    then have "- ((- int n) div 1376) = (int n + 1375) div 1376"
      by simp
    also have "\<dots> = int ((n + 1375) div 1376)"
      by (simp add: zdiv_int)
    finally show ?thesis by simp
  qed
  then show ?thesis by (simp add: chunk_count_def MAX_SEGMENT_SIZE_def)
qed

lemma chunk_count_pos [simp]: "0 < chunk_count m" "chunk_count m \<noteq> 0"
  by (simp_all add: chunk_count_def)

definition queue_chunk :: "nat \<Rightarrow> bytes \<Rightarrow> kcp \<Rightarrow> kcp" where
  "queue_chunk sent_at raw k =
     k\<lparr>kcp_pending := kcp_pending k @ [\<lparr>pend_sequence = kcp_next_send k, pend_raw = raw,
         pend_sent_at = sent_at, pend_transmits = 1\<rparr>],
       kcp_next_send := kcp_next_send k + 1\<rparr>"

lemma queue_chunk_fields [simp]:
  "kcp_conversation (queue_chunk t raw k) = kcp_conversation k"
  "kcp_next_receive (queue_chunk t raw k) = kcp_next_receive k"
  "kcp_received (queue_chunk t raw k) = kcp_received k"
  "kcp_fragments (queue_chunk t raw k) = kcp_fragments k"
  "kcp_handler (queue_chunk t raw k) = kcp_handler k"
  "kcp_closed (queue_chunk t raw k) = kcp_closed k"
  "kcp_retransmit_task (queue_chunk t raw k) = kcp_retransmit_task k"
  "kcp_next_send (queue_chunk t raw k) = kcp_next_send k + 1"
  "kcp_pending (queue_chunk t raw k) \<noteq> []"
  by (simp_all add: queue_chunk_def)

lemma pending_ok_snoc:
  "pending_ok n ps \<Longrightarrow> entry_ok p \<Longrightarrow> pend_sequence p = n \<Longrightarrow> pending_ok (n + 1) (ps @ [p])"
  by (auto simp: pending_ok_def)

lemma queue_chunk_pending:
  "pending_ok (kcp_next_send k) (kcp_pending k) \<Longrightarrow> 24 \<le> length raw \<Longrightarrow>
     length raw \<le> 24 + MAX_SEGMENT_SIZE \<Longrightarrow>
     pending_ok (kcp_next_send (queue_chunk t raw k)) (kcp_pending (queue_chunk t raw k))"
  by (simp add: queue_chunk_def pending_ok_snoc [simplified] entry_ok_def MAX_RETRANSMITS_def)

lemma send_loop_Cons:
  "send_loop clock m count (i # rest) k =
     (case build_segment (kcp_conversation k) CMD_PUSH (count - 1 - i) RECEIVE_WINDOW
             (now_milliseconds (clock (2 * i))) (kcp_next_send k) (kcp_next_receive k) (chunk m i) of
        Inl e \<Rightarrow> (k, [Raised e])
      | Inr raw \<Rightarrow>
          (let r = send_loop clock m count rest (queue_chunk (now_milliseconds (clock (2 * i + 1))) raw k)
           in (fst r, Transmit raw # snd r)))"
  by (simp add: queue_chunk_def Let_def split: sum.split)

lemma push_total:
  "fragment < 256 \<Longrightarrow> length data \<le> MAX_SEGMENT_SIZE \<Longrightarrow>
     \<exists>raw. build_segment c CMD_PUSH fragment w t n u data = Inr raw"
  by (simp add: build_segment_eq CMD_PUSH_def MAX_SEGMENT_SIZE_def)

lemma push_refused:
  "256 \<le> fragment \<Longrightarrow> build_segment c CMD_PUSH fragment w t n u data = Inl ValueError"
  by (simp add: build_segment_eq)

lemma push_error: "build_segment c cmd fragment w t n u data = Inl e \<Longrightarrow> cmd < 256 \<Longrightarrow>
    length data \<le> MAX_SEGMENT_SIZE \<Longrightarrow> e = ValueError \<and> 256 \<le> fragment"
  by (auto simp: build_segment_eq MAX_SEGMENT_SIZE_def split: if_splits)

lemma send_too_long:
  assumes "256 < chunk_count m" "\<not> kcp_closed k"
  shows "send clock m k = (k, [Raised ValueError])"
proof -
  have "[0..<chunk_count m] = 0 # [1..<chunk_count m]"
    by (simp add: upt_conv_Cons)
  with assms show ?thesis
    by (simp add: send_def push_refused)
qed

text \<open>The state a \<open>send_loop\<close> leaves when no fragment number exceeds a byte, and the one
  it is in while it runs.\<close>

definition sending :: "kcp \<Rightarrow> bool" where
  "sending k \<longleftrightarrow> \<not> kcp_closed k \<and>
     window_ok (Suc (kcp_next_receive k)) (kcp_next_receive k + RECEIVE_WINDOW) (kcp_received k) \<and>
     pending_ok (kcp_next_send k) (kcp_pending k) \<and> (kcp_retransmit_task k \<longrightarrow> kcp_pending k \<noteq> [])"

lemma sending_queue:
  "sending k \<Longrightarrow> 24 \<le> length raw \<Longrightarrow> length raw \<le> 24 + MAX_SEGMENT_SIZE \<Longrightarrow>
     sending (queue_chunk t raw k)"
  using queue_chunk_pending [of k raw t] by (simp add: sending_def)

lemma sending_arm: "sending k \<Longrightarrow> kcp_pending k \<noteq> [] \<Longrightarrow> kcp_inv (arm_retransmit k)"
  by (auto simp: sending_def kcp_inv_def arm_retransmit_def)

lemma send_loop_inv:
  assumes "sending k" "count \<le> 256" "is = [] \<longrightarrow> kcp_pending k \<noteq> []"
  shows "kcp_inv (fst (send_loop clock m count is k)) \<and>
         list_all effect_ok (snd (send_loop clock m count is k))"
  using assms
proof (induction "is" arbitrary: k)
  case Nil
  then show ?case by (simp add: sending_arm)
next
  case (Cons i rest)
  obtain raw where raw: "build_segment (kcp_conversation k) CMD_PUSH (count - 1 - i) RECEIVE_WINDOW
      (now_milliseconds (clock (2 * i))) (kcp_next_send k) (kcp_next_receive k) (chunk m i) = Inr raw"
    using push_total [of "count - 1 - i" "chunk m i"] chunk_length Cons.prems(2) by force
  have len: "24 \<le> length raw" "length raw \<le> 24 + MAX_SEGMENT_SIZE"
    using length_build_segment [OF raw] chunk_length [of m i] by simp_all
  then have "sending (queue_chunk (now_milliseconds (clock (2 * i + 1))) raw k)"
    by (intro sending_queue Cons.prems(1))
  from Cons.IH [OF this Cons.prems(2)] len show ?case
    unfolding send_loop_Cons raw by (simp add: Let_def)
qed

lemma kcp_inv_send: "kcp_inv k \<Longrightarrow> kcp_inv (fst (send clock m k)) \<and> list_all effect_ok (snd (send clock m k))"
proof (cases "kcp_closed k")
  case False
  assume k: "kcp_inv k"
  show ?thesis
  proof (cases "256 < chunk_count m")
    case True
    with False k show ?thesis by (simp add: send_too_long)
  next
    case short: False
    from k False have "sending k" by (auto simp: sending_def kcp_inv_def)
    then have "kcp_inv (fst (send_loop clock m (chunk_count m) [0..<chunk_count m] k)) \<and>
        list_all effect_ok (snd (send_loop clock m (chunk_count m) [0..<chunk_count m] k))"
      by (rule send_loop_inv) (use short in auto)
    with False show ?thesis by (simp add: send_def)
  qed
qed (simp add: send_def)

text \<open>Retransmission.\<close>

lemma retransmit_entries_ok:
  assumes "list_all entry_ok ps" "retransmit_entries now ps = (ps', out, gave_up)"
  shows "map pend_sequence ps' = map pend_sequence ps \<and> map pend_raw ps' = map pend_raw ps \<and>
    list_all entry_ok ps' \<and> set out \<subseteq> pend_raw ` set ps"
  using assms
proof (induction ps arbitrary: ps' out gave_up)
  case Nil
  then show ?case by simp
next
  case (Cons p ps)
  obtain qs out' g where r: "retransmit_entries now ps = (qs, out', g)"
    by (cases "retransmit_entries now ps") auto
  from Cons.IH [OF _ r] Cons.prems r show ?case
    by (auto simp: entry_ok_def split: if_splits)
qed

lemma retransmit_entries_length:
  "retransmit_entries now ps = (ps', out, g) \<Longrightarrow> length ps' = length ps"
  by (induction ps arbitrary: ps' out g) (auto split: if_splits prod.splits)

lemma kcp_inv_retransmit:
  assumes "kcp_inv k" "kcp_retransmit_task k"
  shows "kcp_inv (fst (retransmit_once ms k)) \<and> list_all effect_ok (snd (retransmit_once ms k))"
proof -
  obtain ps out g where r: "retransmit_entries (now_milliseconds ms) (kcp_pending k) = (ps, out, g)"
    by (cases "retransmit_entries (now_milliseconds ms) (kcp_pending k)") auto
  have entries: "list_all entry_ok (kcp_pending k)"
    using assms(1) by (simp add: kcp_inv_def pending_ok_def)
  note ok = retransmit_entries_ok [OF entries r] retransmit_entries_length [OF r]
  then have "pending_ok (kcp_next_send k) ps" "ps = [] \<longleftrightarrow> kcp_pending k = []"
    using assms(1) by (auto simp: kcp_inv_def pending_ok_def)
  then have "kcp_inv (k\<lparr>kcp_pending := ps\<rparr>)"
    using assms by (auto simp: kcp_inv_def)
  moreover have "list_all effect_ok (map Transmit out)"
    using ok entries by (fastforce simp: list_all_iff entry_ok_def)
  ultimately show ?thesis
    by (simp add: retransmit_once_def r Let_def kcp_inv_close)
qed

section \<open>The contract of the conversation\<close>

lemma kcp_inv_new: "kcp_inv (new_conversation c)"
  by (simp add: kcp_inv_def new_conversation_def window_ok_def pending_ok_def)

lemma kcp_step_inv: "kcp_inv k \<Longrightarrow> kcp_inv (fst (kcp_step k e))"
  by (cases e) (auto simp: kcp_inv_input kcp_inv_send kcp_inv_close retransmit_turn_def
      kcp_inv_retransmit set_message_handler_def, auto simp: kcp_inv_def)

text \<open>No inbound segment raises: what the conversation answers always fits a header.\<close>

lemma acknowledge_eq:
  "acknowledge s k = [Transmit (header_bytes \<lparr>seg_conversation = kcp_conversation k,
     seg_command = CMD_ACK, seg_fragment = 0, seg_window = RECEIVE_WINDOW,
     seg_timestamp = seg_timestamp s, seg_sequence = seg_sequence s,
     seg_unacknowledged = kcp_next_receive k, seg_data = []\<rparr>)]"
  by (simp add: acknowledge_def build_segment_eq CMD_ACK_def)

lemma window_tell_eq:
  "answer_window_ask ms k = [Transmit (header_bytes \<lparr>seg_conversation = kcp_conversation k,
     seg_command = CMD_WINDOW_TELL, seg_fragment = 0, seg_window = RECEIVE_WINDOW,
     seg_timestamp = now_milliseconds ms, seg_sequence = 0,
     seg_unacknowledged = kcp_next_receive k, seg_data = []\<rparr>)]"
  by (simp add: answer_window_ask_def build_segment_eq CMD_WINDOW_TELL_def)

lemma drain_delivers: "list_all effect_ok (snd (drain k)) \<and> list_all (Not \<circ> is_raised) (snd (drain k))"
proof (induction k rule: drain.induct)
  case (1 k)
  then show ?case
    by (cases "map_of (kcp_received k) (kcp_next_receive k)")
      (auto simp: drain.simps [of k] Let_def take_fragment_def)
qed

lemma input_effects:
  "list_all effect_ok (snd (input_segment s ms k)) \<and> list_all (Not \<circ> is_raised) (snd (input_segment s ms k))"
  by (simp add: input_segment_def Let_def accept_def acknowledge_eq window_tell_eq drain_delivers)

lemma kcp_step_effects: "kcp_inv k \<Longrightarrow> list_all effect_ok (snd (kcp_step k e))"
  by (cases e) (simp_all add: input_effects kcp_inv_send retransmit_turn_def kcp_inv_retransmit)

lemma closed_step: "kcp_closed k \<Longrightarrow> kcp_closed (fst (kcp_step k e)) \<and> list_all is_raised (snd (kcp_step k e))"
  by (cases e) (simp_all add: input_segment_def send_def retransmit_turn_def set_message_handler_def close_def)

interpretation kcp: closable kcp_step kcp_inv kcp_closed is_raised
  by unfold_locales (simp_all add: kcp_step_inv closed_step)

section \<open>Properties\<close>

text \<open>
  C18: Under any sequence of inbound segments, sends, retransmit turns, handler changes and
  closes, a conversation buffers fewer than 512 segments, each under its own number inside the
  receive window, keeps its unacknowledged queue gapless and at most eight transmissions old,
  runs the retransmit task exactly while something is queued, and hands the relay only raw
  segments of at most 1400 bytes.
\<close>

theorem conversation_bounded:
  "kcp_inv (fst (run kcp_step (new_conversation c) es)) \<and>
   length (kcp_received (fst (run kcp_step (new_conversation c) es))) < 512 \<and>
   list_all effect_ok (snd (run kcp_step (new_conversation c) es))"
proof -
  have i: "kcp_inv (fst (run kcp_step (new_conversation c) es))"
    by (rule kcp.run_inv [OF kcp_inv_new])
  then have "length (kcp_received (fst (run kcp_step (new_conversation c) es))) < RECEIVE_WINDOW"
    using window_ok_length by (fastforce simp: kcp_inv_def RECEIVE_WINDOW_def)
  then show ?thesis
    using i kcp.run_effects [OF kcp_inv_new kcp_step_effects] by (simp add: RECEIVE_WINDOW_def)
qed

text \<open>
  A closed conversation stays closed and silent: whatever happens to it afterwards it
  transmits and delivers nothing, and a send is refused with an exception.
\<close>

theorem closed_is_silent:
  assumes "kcp_closed k"
  shows "kcp_closed (fst (run kcp_step k es)) \<and> list_all is_raised (snd (run kcp_step k es))"
  using assms by (rule kcp.closed_run)

lemma closed_is_silent_witness:
  "kcp_closed (fst (run kcp_step (close (new_conversation 1)) [Send [1] (\<lambda>_. 0), Tick 5])) \<and>
   list_all is_raised (snd (run kcp_step (close (new_conversation 1)) [Send [1] (\<lambda>_. 0), Tick 5]))"
  by (rule closed_is_silent) (simp add: close_def new_conversation_def disarm_retransmit_def)

end
