(* ===== verification/Kcp_Delivery.thy ===== *)
theory Kcp_Delivery
  imports Kcp_Conversation
begin

text \<open>
  What a KCP conversation promises, over the model of \<^verbatim>\<open>Kcp_Conversation\<close>. The
  specification is the message stream of the peer: segment \<open>i\<close> of the stream carries sequence
  number \<open>i\<close>, and \<open>rejoin\<close> cuts the stream into messages at the segments whose fragment
  counter is zero. The abstraction of the receive state is the set of sequence numbers that have
  arrived (\<open>arrived\<close>); accepting a segment adds its number to that set and delivers the
  messages the stream has completed.
\<close>

section \<open>Specification\<close>

fun rejoin :: "bytes list \<Rightarrow> kcp_segment list \<Rightarrow> bytes list \<times> bytes list" where
  "rejoin acc [] = ([], acc)"
| "rejoin acc (s # ss) =
     (if seg_fragment s = 0
      then (concat (acc @ [seg_data s]) # fst (rejoin [] ss), snd (rejoin [] ss))
      else rejoin (acc @ [seg_data s]) ss)"

text \<open>The nonempty messages among the first \<open>n\<close> segments, and the fragments left over.\<close>

definition messages_upto :: "(nat \<Rightarrow> kcp_segment) \<Rightarrow> nat \<Rightarrow> bytes list" where
  "messages_upto stream n = filter (\<lambda>m. m \<noteq> []) (fst (rejoin [] (map stream [0..<n])))"

definition leftover :: "(nat \<Rightarrow> kcp_segment) \<Rightarrow> nat \<Rightarrow> bytes list" where
  "leftover stream n = snd (rejoin [] (map stream [0..<n]))"

fun delivered :: "kcp_effect list \<Rightarrow> bytes list" where
  "delivered [] = []"
| "delivered (Deliver m # es) = m # delivered es"
| "delivered (_ # es) = delivered es"

fun transmitted :: "kcp_effect list \<Rightarrow> bytes list" where
  "transmitted [] = []"
| "transmitted (Transmit raw # es) = raw # transmitted es"
| "transmitted (_ # es) = transmitted es"

definition sent_segments :: "kcp_effect list \<Rightarrow> kcp_segment list" where
  "sent_segments es = List.map_filter parse_segment (transmitted es)"

definition arrived :: "kcp \<Rightarrow> nat \<Rightarrow> bool" where
  "arrived k i \<longleftrightarrow> i < kcp_next_receive k \<or> map_of (kcp_received k) i \<noteq> None"

lemma delivered_append [simp]: "delivered (xs @ ys) = delivered xs @ delivered ys"
  by (induction xs rule: delivered.induct) auto

lemma transmitted_append [simp]: "transmitted (xs @ ys) = transmitted xs @ transmitted ys"
  by (induction xs rule: transmitted.induct) auto

lemma sent_segments_append [simp]: "sent_segments (xs @ ys) = sent_segments xs @ sent_segments ys"
  by (simp add: sent_segments_def map_filter_def)

lemma sent_segments_simps [simp]:
  "sent_segments [] = []"
  "sent_segments (Transmit raw # es) =
     (case parse_segment raw of None \<Rightarrow> sent_segments es | Some s \<Rightarrow> s # sent_segments es)"
  "sent_segments (Deliver m # es) = sent_segments es"
  "sent_segments (Raised e # es) = sent_segments es"
  by (simp_all add: sent_segments_def map_filter_def split: option.split)

lemma rejoin_append:
  "rejoin acc (xs @ ys) =
     (fst (rejoin acc xs) @ fst (rejoin (snd (rejoin acc xs)) ys), snd (rejoin (snd (rejoin acc xs)) ys))"
  by (induction xs arbitrary: acc) auto

lemma messages_Suc:
  "messages_upto stream (Suc n) = messages_upto stream n @
     (let m = concat (leftover stream n @ [seg_data (stream n)])
      in if seg_fragment (stream n) = 0 \<and> m \<noteq> [] then [m] else [])"
  "leftover stream (Suc n) =
     (if seg_fragment (stream n) = 0 then [] else leftover stream n @ [seg_data (stream n)])"
  by (simp_all add: messages_upto_def leftover_def rejoin_append Let_def)

section \<open>Receiving\<close>

text \<open>The state holds segments of the stream only, and the fragments of its open message.\<close>

definition tracks :: "(nat \<Rightarrow> kcp_segment) \<Rightarrow> kcp \<Rightarrow> bool" where
  "tracks stream k \<longleftrightarrow>
     list_all (\<lambda>(i, s). s = stream i) (kcp_received k) \<and>
     kcp_fragments k = leftover stream (kcp_next_receive k)"

lemma take_fragment_delivers:
  assumes "kcp_fragments k = leftover stream (kcp_next_receive k)" "kcp_handler k"
  defines "r \<equiv> take_fragment (stream (kcp_next_receive k)) k"
  shows "messages_upto stream (kcp_next_receive k) @ delivered (snd r) = messages_upto stream (kcp_next_receive (fst r))"
    "kcp_fragments (fst r) = leftover stream (kcp_next_receive (fst r))"
  using assms(1,2) by (simp_all add: r_def take_fragment_def Let_def messages_Suc)

lemma list_all_delete: "list_all P al \<Longrightarrow> list_all P (AList.delete key al)"
  by (auto simp: list_all_iff AList.delete_eq)

lemma drain_delivers_prefix:
  "tracks stream k \<Longrightarrow> kcp_handler k \<Longrightarrow>
     tracks stream (fst (drain k)) \<and>
     messages_upto stream (kcp_next_receive k) @ delivered (snd (drain k)) =
       messages_upto stream (kcp_next_receive (fst (drain k)))"
proof (induction k rule: drain.induct)
  case (1 k)
  show ?case
  proof (cases "map_of (kcp_received k) (kcp_next_receive k)")
    case None
    with "1.prems" show ?thesis by (simp add: drain.simps [of k])
  next
    case (Some nxt)
    then have nxt: "nxt = stream (kcp_next_receive k)"
      using "1.prems"(1) by (auto simp: tracks_def list_all_iff dest: map_of_SomeD)
    let ?k = "k\<lparr>kcp_received := AList.delete (kcp_next_receive k) (kcp_received k)\<rparr>"
    have frag: "kcp_fragments ?k = leftover stream (kcp_next_receive ?k)" "kcp_handler ?k"
      using "1.prems" by (simp_all add: tracks_def)
    note step = take_fragment_delivers [OF this, folded nxt]
    have "tracks stream (fst (take_fragment nxt ?k))"
      using step(2) "1.prems"(1) nxt by (simp add: tracks_def list_all_delete)
    from "1.IH" [OF Some refl this] step(1) nxt "1.prems"(2) show ?thesis
      by (simp add: drain.simps [of k] Some Let_def flip: append_assoc)
  qed
qed

lemma map_of_delete: "map_of (AList.delete i al) j = (if i = j then None else map_of al j)"
  by (simp add: delete_conv)

lemma drain_arrived:
  "(arrived (fst (drain k)) i \<longleftrightarrow> arrived k i) \<and> \<not> arrived (fst (drain k)) (kcp_next_receive (fst (drain k)))"
proof (induction k rule: drain.induct)
  case (1 k)
  show ?case
  proof (cases "map_of (kcp_received k) (kcp_next_receive k)")
    case None
    then show ?thesis by (simp add: drain.simps [of k] arrived_def)
  next
    case (Some nxt)
    from "1.IH" [OF Some refl] show ?thesis
      using Some by (auto simp: drain.simps [of k] Let_def arrived_def map_of_delete less_Suc_eq)
  qed
qed

lemmas drain_gap = drain_arrived [THEN conjunct2]

text \<open>Refinement of \<open>accept\<close>: within the window, a segment adds its number to the set of
  arrived ones; beyond the window it changes nothing.\<close>

lemma accept_arrived:
  "arrived (fst (accept s k)) i \<longleftrightarrow>
     arrived k i \<or> (i = seg_sequence s \<and> seg_sequence s < kcp_next_receive k + RECEIVE_WINDOW)"
  by (auto simp: accept_def drain_arrived) (auto simp: arrived_def map_add_def split: option.splits if_splits)

lemma accept_gap:
  "\<not> arrived k (kcp_next_receive k) \<Longrightarrow>
     \<not> arrived (fst (accept s k)) (kcp_next_receive (fst (accept s k)))"
  by (auto simp: accept_def drain_gap)

lemma accept_delivers:
  assumes "tracks stream k" "kcp_handler k" "s = stream (seg_sequence s)"
  shows "tracks stream (fst (accept s k)) \<and>
     messages_upto stream (kcp_next_receive k) @ delivered (snd (accept s k)) =
       messages_upto stream (kcp_next_receive (fst (accept s k)))"
proof -
  let ?k = "k\<lparr>kcp_received := kcp_received k @ [(seg_sequence s, s)]\<rparr>"
  have "tracks stream ?k" "kcp_handler ?k"
    using assms by (auto simp: tracks_def)
  from drain_delivers_prefix [OF this] assms(1) show ?thesis
    by (simp add: accept_def)
qed

lemma tracks_frame:
  "kcp_received k' = kcp_received k \<or> kcp_received k' = [] \<Longrightarrow> kcp_fragments k' = kcp_fragments k \<Longrightarrow>
     kcp_next_receive k' = kcp_next_receive k \<Longrightarrow> tracks stream k \<Longrightarrow> tracks stream k'"
  by (auto simp: tracks_def)

text \<open>An event is authentic when the push it may carry is the peer's segment of that number.
  The handler stays what it was.\<close>

fun authentic :: "(nat \<Rightarrow> kcp_segment) \<Rightarrow> kcp_event \<Rightarrow> bool" where
  "authentic stream (Input s ms) = (seg_command s = CMD_PUSH \<longrightarrow> s = stream (seg_sequence s))"
| "authentic stream (SetHandler h) = False"
| "authentic stream _ = True"

text \<open>The receive side of a conversation that is open, or was when it stopped receiving.\<close>

definition receiving :: "(nat \<Rightarrow> kcp_segment) \<Rightarrow> kcp \<Rightarrow> bool" where
  "receiving stream k \<longleftrightarrow> tracks stream k \<and> (kcp_closed k \<or> kcp_handler k)"

lemma send_loop_frame:
  "kcp_received (fst (send_loop clock m count is k)) = kcp_received k \<and>
   kcp_fragments (fst (send_loop clock m count is k)) = kcp_fragments k \<and>
   kcp_next_receive (fst (send_loop clock m count is k)) = kcp_next_receive k \<and>
   kcp_handler (fst (send_loop clock m count is k)) = kcp_handler k \<and>
   kcp_closed (fst (send_loop clock m count is k)) = kcp_closed k \<and>
   kcp_conversation (fst (send_loop clock m count is k)) = kcp_conversation k \<and>
   delivered (snd (send_loop clock m count is k)) = []"
proof (induction "is" arbitrary: k)
  case Nil
  then show ?case by (simp add: arm_retransmit_def)
next
  case (Cons i rest)
  then show ?case
    unfolding send_loop_Cons by (simp add: Let_def split: sum.split)
qed

lemma delivered_Transmits [simp]: "delivered (map Transmit raws) = []"
  by (induction raws) auto

lemma close_frame [simp]:
  "kcp_fragments (close k) = kcp_fragments k" "kcp_next_receive (close k) = kcp_next_receive k"
  "kcp_closed (close k)" "kcp_received (close k) = kcp_received k \<or> kcp_received (close k) = []"
  by (simp_all add: close_def disarm_retransmit_def)

lemma close_receiving: "receiving stream k \<Longrightarrow> receiving stream (close k)"
  using close_frame(4) [of k] tracks_frame [of "close k" k stream] by (auto simp: receiving_def)

lemma send_receiving:
  "receiving stream k \<Longrightarrow> receiving stream (fst (send clock m k)) \<and> delivered (snd (send clock m k)) = [] \<and>
     kcp_next_receive (fst (send clock m k)) = kcp_next_receive k"
  using send_loop_frame [of clock m "chunk_count m" "[0..<chunk_count m]" k]
  by (auto simp: send_def receiving_def intro: tracks_frame)

lemma retransmit_receiving:
  "receiving stream k \<Longrightarrow>
     receiving stream (fst (retransmit_turn ms k)) \<and> delivered (snd (retransmit_turn ms k)) = [] \<and>
     kcp_next_receive (fst (retransmit_turn ms k)) = kcp_next_receive k"
proof -
  assume r: "receiving stream k"
  then have "receiving stream (k\<lparr>kcp_pending := ps\<rparr>)" for ps
    by (auto simp: receiving_def intro: tracks_frame)
  with r show ?thesis
    by (auto simp: retransmit_turn_def retransmit_once_def Let_def close_receiving split: prod.split)
qed

lemma input_receiving:
  assumes "receiving stream k" "seg_command s = CMD_PUSH \<longrightarrow> s = stream (seg_sequence s)"
  shows "receiving stream (fst (input_segment s ms k)) \<and>
     messages_upto stream (kcp_next_receive k) @ delivered (snd (input_segment s ms k)) =
       messages_upto stream (kcp_next_receive (fst (input_segment s ms k)))"
proof (cases "kcp_closed k")
  case True
  with assms(1) show ?thesis by (simp add: input_segment_def)
next
  case False
  with assms(1) have k: "tracks stream k" "kcp_handler k"
    by (simp_all add: receiving_def)
  have retire: "tracks stream (retire_pending u k')" if "tracks stream k'" for u k'
    by (rule tracks_frame [OF _ _ _ that]) simp_all
  have "tracks stream (retire_pending (seg_unacknowledged s) k)"
    using k(1) by (rule retire)
  from accept_delivers [OF this, of s] retire k assms(2) show ?thesis
    by (auto simp: input_segment_def Let_def receiving_def acknowledge_eq window_tell_eq)
qed

lemma step_receiving:
  assumes "receiving stream k" "authentic stream e"
  shows "receiving stream (fst (kcp_step k e)) \<and>
     messages_upto stream (kcp_next_receive k) @ delivered (snd (kcp_step k e)) =
       messages_upto stream (kcp_next_receive (fst (kcp_step k e)))"
  using assms
  by (cases e) (simp_all add: input_receiving send_receiving retransmit_receiving close_receiving)

lemma run_receiving:
  assumes "receiving stream k" "list_all (authentic stream) es"
  shows "messages_upto stream (kcp_next_receive k) @ delivered (snd (run kcp_step k es)) =
       messages_upto stream (kcp_next_receive (fst (run kcp_step k es)))"
  using assms
proof (induction es arbitrary: k)
  case Nil
  then show ?case by simp
next
  case (Cons e es)
  have "receiving stream (fst (kcp_step k e))"
    and step: "messages_upto stream (kcp_next_receive k) @ delivered (snd (kcp_step k e)) =
       messages_upto stream (kcp_next_receive (fst (kcp_step k e)))"
    using step_receiving [of stream k e] Cons.prems by simp_all
  with Cons.IH [of "fst (kcp_step k e)"] Cons.prems(2) show ?case
    by (simp add: Let_def flip: append_assoc)
qed

definition listening :: "nat \<Rightarrow> kcp" where
  "listening c = set_message_handler True (new_conversation c)"

lemma listening_fields [simp]:
  "kcp_next_receive (listening c) = 0" "kcp_received (listening c) = []" "kcp_closed (listening c) = False"
  "kcp_handler (listening c)" "kcp_pending (listening c) = []" "kcp_next_send (listening c) = 0"
  by (simp_all add: listening_def set_message_handler_def new_conversation_def)

lemma listening_receiving: "receiving stream (listening c)"
  by (simp add: receiving_def tracks_def leftover_def listening_def set_message_handler_def
      new_conversation_def)

lemma messages_upto_0 [simp]: "messages_upto stream 0 = []"
  by (simp add: messages_upto_def)

lemma delivery_prefix:
  "list_all (authentic stream) es \<Longrightarrow>
     delivered (snd (run kcp_step (listening c) es)) =
     messages_upto stream (kcp_next_receive (fst (run kcp_step (listening c) es)))"
  using run_receiving [OF listening_receiving, of stream es c] by simp

section \<open>Completeness within the window\<close>

text \<open>An arrival order is windowed when nothing overtakes a segment that is 512 or more numbers
  older: every such segment has arrived before. In-order arrival is windowed, and so is every
  order of the first 512 segments, with any duplicates.\<close>

definition windowed :: "kcp_segment list \<Rightarrow> bool" where
  "windowed arr \<longleftrightarrow>
     (\<forall>j < length arr. \<forall>m < Suc (seg_sequence (arr ! j)) - RECEIVE_WINDOW.
        m \<in> seg_sequence ` set (take j arr))"

definition inputs :: "nat \<Rightarrow> kcp_segment list \<Rightarrow> kcp_event list" where
  "inputs ms arr = map (\<lambda>s. Input s ms) arr"

lemma windowed_snoc:
  "windowed (arr @ [s]) \<longleftrightarrow>
     windowed arr \<and> (\<forall>m < Suc (seg_sequence s) - RECEIVE_WINDOW. m \<in> seg_sequence ` set arr)"
  by (auto simp: windowed_def nth_append less_Suc_eq all_conj_distrib)

lemma input_push_arrived:
  assumes "\<not> kcp_closed k" "seg_command s = CMD_PUSH"
  shows "arrived (fst (input_segment s ms k)) i \<longleftrightarrow>
      arrived k i \<or> (i = seg_sequence s \<and> seg_sequence s < kcp_next_receive k + RECEIVE_WINDOW)"
    and "\<not> arrived k (kcp_next_receive k) \<Longrightarrow>
      \<not> arrived (fst (input_segment s ms k)) (kcp_next_receive (fst (input_segment s ms k)))"
    and "\<not> kcp_closed (fst (input_segment s ms k))"
proof -
  have eq: "fst (input_segment s ms k) = fst (accept s (retire_pending (seg_unacknowledged s) k))"
    using assms by (simp add: input_segment_def Let_def command_defs)
  have a: "arrived (retire_pending u k) j \<longleftrightarrow> arrived k j" for u j
    by (simp add: arrived_def)
  show "arrived (fst (input_segment s ms k)) i \<longleftrightarrow>
      arrived k i \<or> (i = seg_sequence s \<and> seg_sequence s < kcp_next_receive k + RECEIVE_WINDOW)"
    unfolding eq accept_arrived by (simp add: a)
  show "\<not> arrived (fst (input_segment s ms k)) (kcp_next_receive (fst (input_segment s ms k)))"
    if "\<not> arrived k (kcp_next_receive k)"
    using that accept_gap [of "retire_pending (seg_unacknowledged s) k" s] unfolding eq by (simp add: a)
  show "\<not> kcp_closed (fst (input_segment s ms k))"
    using assms(1) unfolding eq by simp
qed

lemma windowed_arrival:
  fixes c ms
  assumes "windowed arr" "list_all (\<lambda>s. seg_command s = CMD_PUSH) arr"
  defines "k \<equiv> fst (run kcp_step (listening c) (inputs ms arr))"
  shows "\<not> kcp_closed k \<and> \<not> arrived k (kcp_next_receive k) \<and>
    (\<forall>i. arrived k i \<longleftrightarrow> i \<in> seg_sequence ` set arr)"
  using assms(1,2) unfolding k_def
proof (induction arr rule: rev_induct)
  case Nil
  then show ?case by (simp add: inputs_def arrived_def)
next
  case (snoc s arr)
  let ?k = "fst (run kcp_step (listening c) (inputs ms arr))"
  have all: "\<not> kcp_closed ?k \<and> \<not> arrived ?k (kcp_next_receive ?k) \<and>
      (\<forall>i. arrived ?k i \<longleftrightarrow> i \<in> seg_sequence ` set arr)"
    using snoc.prems by (intro snoc.IH) (simp_all add: windowed_snoc)
  note IH = all [THEN conjunct1] all [THEN conjunct2, THEN conjunct1]
    all [THEN conjunct2, THEN conjunct2, rule_format]
  have after: "fst (run kcp_step (listening c) (inputs ms (arr @ [s]))) = fst (input_segment s ms ?k)"
    by (simp add: inputs_def run_append)
  have "seg_sequence s < kcp_next_receive ?k + RECEIVE_WINDOW"
  proof (rule ccontr)
    assume "\<not> ?thesis"
    then have "kcp_next_receive ?k \<in> seg_sequence ` set arr"
      using snoc.prems(1) by (simp add: windowed_snoc)
    with IH(2,3) show False by simp
  qed
  with IH input_push_arrived [OF IH(1), of s] snoc.prems(2) show ?case
    unfolding after by auto
qed

lemma arrived_all_next:
  "\<not> arrived k (kcp_next_receive k) \<Longrightarrow> (\<And>i. arrived k i \<longleftrightarrow> i < n) \<Longrightarrow> kcp_next_receive k = n"
proof -
  assume gap: "\<not> arrived k (kcp_next_receive k)" and all: "\<And>i. arrived k i \<longleftrightarrow> i < n"
  have "\<not> kcp_next_receive k < n" using gap all by simp
  moreover have "\<not> n < kcp_next_receive k" using all [of n] by (auto simp: arrived_def)
  ultimately show ?thesis by simp
qed

lemma windowed_delivery:
  assumes "windowed arr"
    and "list_all (\<lambda>s. seg_command s = CMD_PUSH \<and> s = stream (seg_sequence s)) arr"
    and "seg_sequence ` set arr = {..<n}"
  shows "delivered (snd (run kcp_step (listening c) (inputs ms arr))) = messages_upto stream n"
    and "kcp_next_receive (fst (run kcp_step (listening c) (inputs ms arr))) = n"
proof -
  let ?k = "fst (run kcp_step (listening c) (inputs ms arr))"
  have "list_all (\<lambda>s. seg_command s = CMD_PUSH) arr"
    using assms(2) by (simp add: list_all_iff)
  from windowed_arrival [OF assms(1) this, of c ms] assms(3) show n: "kcp_next_receive ?k = n"
    by (intro arrived_all_next) auto
  have "list_all (authentic stream) (inputs ms arr)"
    using assms(2) by (auto simp: inputs_def list_all_iff)
  from delivery_prefix [OF this, of c] n show
    "delivered (snd (run kcp_step (listening c) (inputs ms arr))) = messages_upto stream n"
    by simp
qed

section \<open>Sending\<close>

lemma concat_chunks: "concat (map (chunk m) [0..<n]) = take (n * MAX_SEGMENT_SIZE) m"
proof (induction n)
  case 0
  then show ?case by simp
next
  case (Suc n)
  have "take (n * MAX_SEGMENT_SIZE) m @ slice m (n * MAX_SEGMENT_SIZE) (Suc n * MAX_SEGMENT_SIZE) =
      take (Suc n * MAX_SEGMENT_SIZE) m"
    using slice_join [of 0 "n * MAX_SEGMENT_SIZE" "Suc n * MAX_SEGMENT_SIZE" m] by (simp add: slice_zero)
  with Suc.IH show ?case by (simp add: chunk_def)
qed

lemma concat_all_chunks: "concat (map (chunk m) [0..<chunk_count m]) = m"
proof -
  have "n \<le> (n + 1375) div 1376 * 1376" for n :: nat
    using div_mult_mod_eq [of "n + 1375" 1376] mod_less_divisor [of 1376 "n + 1375"] by linarith
  then have "length m \<le> (length m + 1375) div 1376 * 1376" .
  also have "\<dots> \<le> chunk_count m * MAX_SEGMENT_SIZE"
    unfolding MAX_SEGMENT_SIZE_def by (rule mult_le_mono1) (simp add: chunk_count_eq MAX_SEGMENT_SIZE_def)
  finally have "length m \<le> chunk_count m * MAX_SEGMENT_SIZE" .
  then show ?thesis by (simp add: concat_chunks)
qed

text \<open>The segments one message is cut into.\<close>

definition fragments_of :: "bytes \<Rightarrow> nat \<Rightarrow> nat list \<Rightarrow> nat \<Rightarrow> kcp_segment list \<Rightarrow> bool" where
  "fragments_of m count is sn segs \<longleftrightarrow>
     map seg_sequence segs = map (\<lambda>j. (sn + j) mod 2 ^ 32) [0..<length is] \<and>
     map seg_fragment segs = map (\<lambda>i. count - 1 - i) is \<and>
     map seg_data segs = map (chunk m) is \<and>
     list_all (\<lambda>s. seg_command s = CMD_PUSH) segs"

lemma map_upt_shift: "map f [0..<Suc n] = f 0 # map (\<lambda>j. f (Suc j)) [0..<n]"
  by (simp add: upt_conv_Cons map_Suc_upt [symmetric] del: upt_Suc)

lemma send_loop_segments:
  assumes "count \<le> 256"
  shows "fragments_of m count is (kcp_next_send k) (sent_segments (snd (send_loop clock m count is k))) \<and>
    kcp_next_send (fst (send_loop clock m count is k)) = kcp_next_send k + length is \<and>
    list_all (Not \<circ> is_raised) (snd (send_loop clock m count is k))"
proof (induction "is" arbitrary: k)
  case Nil
  then show ?case by (simp add: fragments_of_def arm_retransmit_def)
next
  case (Cons i rest)
  obtain raw where raw: "build_segment (kcp_conversation k) CMD_PUSH (count - 1 - i) RECEIVE_WINDOW
      (now_milliseconds (clock (2 * i))) (kcp_next_send k) (kcp_next_receive k) (chunk m i) = Inr raw"
    using push_total [of "count - 1 - i" "chunk m i"] chunk_length assms by force
  have parse: "parse_segment raw = Some \<lparr>seg_conversation = kcp_conversation k mod 2 ^ 32,
      seg_command = CMD_PUSH, seg_fragment = count - 1 - i, seg_window = RECEIVE_WINDOW mod 2 ^ 16,
      seg_timestamp = now_milliseconds (clock (2 * i)) mod 2 ^ 32, seg_sequence = kcp_next_send k mod 2 ^ 32,
      seg_unacknowledged = kcp_next_receive k mod 2 ^ 32, seg_data = chunk m i\<rparr>"
    using parse_build_segment [OF raw, of "[]"] by simp
  from Cons.IH [of "queue_chunk (now_milliseconds (clock (2 * i + 1))) raw k"] show ?case
    unfolding send_loop_Cons raw
    by (simp add: Let_def parse fragments_of_def map_upt_shift del: upt_Suc)
qed

lemma rejoin_fragments:
  "map seg_fragment segs = map (\<lambda>i. count - 1 - i) [i..<count] \<Longrightarrow>
   map seg_data segs = map (chunk m) [i..<count] \<Longrightarrow> i < count \<Longrightarrow>
     rejoin acc segs = ([concat (acc @ map (chunk m) [i..<count])], [])"
proof (induction segs arbitrary: i acc)
  case Nil
  then show ?case by simp
next
  case (Cons s segs)
  then have s: "seg_fragment s = count - 1 - i" "seg_data s = chunk m i"
    and rest: "map seg_fragment segs = map (\<lambda>i. count - 1 - i) [Suc i..<count]"
      "map seg_data segs = map (chunk m) [Suc i..<count]"
    by (simp_all add: upt_conv_Cons)
  show ?case
  proof (cases "Suc i = count")
    case True
    with s rest show ?thesis by (simp add: upt_conv_Cons)
  next
    case False
    with Cons.prems(3) have "Suc i < count" by simp
    from Cons.IH [OF rest this] s Cons.prems(3) False show ?thesis
      by (simp add: upt_conv_Cons)
  qed
qed

lemma send_segments:
  fixes clock
  assumes "\<not> kcp_closed k" "chunk_count m \<le> 256"
  defines "segs \<equiv> sent_segments (snd (send clock m k))"
  shows "fragments_of m (chunk_count m) [0..<chunk_count m] (kcp_next_send k) segs"
    "rejoin [] segs = ([m], [])"
    "kcp_next_send (fst (send clock m k)) = kcp_next_send k + length segs"
    "\<not> kcp_closed (fst (send clock m k))"
proof -
  note loop = send_loop_segments [OF assms(2), of m "[0..<chunk_count m]" k clock]
  then show f: "fragments_of m (chunk_count m) [0..<chunk_count m] (kcp_next_send k) segs"
    using assms(1) by (simp add: segs_def send_def)
  then have "length segs = chunk_count m"
    by (auto simp: fragments_of_def dest: map_eq_imp_length_eq)
  with loop show "kcp_next_send (fst (send clock m k)) = kcp_next_send k + length segs"
    using assms(1) by (simp add: send_def)
  show "rejoin [] segs = ([m], [])"
    using f rejoin_fragments [of segs "chunk_count m" 0 m "[]"]
    by (simp add: fragments_of_def concat_all_chunks)
  show "\<not> kcp_closed (fst (send clock m k))"
    using assms(1) send_loop_frame [of clock m "chunk_count m" "[0..<chunk_count m]" k]
    by (simp add: send_def)
qed

definition sends :: "(bytes \<times> (nat \<Rightarrow> nat)) list \<Rightarrow> kcp_event list" where
  "sends msgs = map (\<lambda>(m, clock). Send m clock) msgs"

lemma upt_add_map: "map (\<lambda>j. f (a + j)) [0..<b] = map f [a..<a + b]"
  by (rule nth_equalityI) auto

lemma sends_segments:
  assumes "\<not> kcp_closed k" "list_all (\<lambda>(m, clock). chunk_count m \<le> 256) msgs"
  defines "segs \<equiv> sent_segments (snd (run kcp_step k (sends msgs)))"
  shows "rejoin [] segs = (map fst msgs, []) \<and> list_all (\<lambda>s. seg_command s = CMD_PUSH) segs \<and>
    map seg_sequence segs = map (\<lambda>j. j mod 2 ^ 32) [kcp_next_send k..<kcp_next_send k + length segs] \<and>
    kcp_next_send (fst (run kcp_step k (sends msgs))) = kcp_next_send k + length segs"
  using assms(1,2) unfolding segs_def
proof (induction msgs arbitrary: k)
  case Nil
  then show ?case by (simp add: sends_def)
next
  case (Cons mc msgs)
  obtain m clock where mc: "mc = (m, clock)" by (cases mc)
  let ?k = "fst (send clock m k)" and ?a = "sent_segments (snd (send clock m k))"
  let ?b = "sent_segments (snd (run kcp_step ?k (sends msgs)))"
  have short: "chunk_count m \<le> 256" using Cons.prems(2) by (simp add: mc)
  note first = send_segments [OF Cons.prems(1) short, of clock]
  have IH: "rejoin [] ?b = (map fst msgs, [])" "list_all (\<lambda>s. seg_command s = CMD_PUSH) ?b"
      "map seg_sequence ?b = map (\<lambda>j. j mod 2 ^ 32) [kcp_next_send ?k..<kcp_next_send ?k + length ?b]"
      "kcp_next_send (fst (run kcp_step ?k (sends msgs))) = kcp_next_send ?k + length ?b"
    using Cons.IH [OF first(4)] Cons.prems(2) by simp_all
  have out: "sent_segments (snd (run kcp_step k (sends (mc # msgs)))) = ?a @ ?b"
    and fin: "fst (run kcp_step k (sends (mc # msgs))) = fst (run kcp_step ?k (sends msgs))"
    by (simp_all add: sends_def mc Let_def)
  have a: "map seg_sequence ?a = map (\<lambda>j. j mod 2 ^ 32) [kcp_next_send k..<kcp_next_send k + length ?a]"
    "list_all (\<lambda>s. seg_command s = CMD_PUSH) ?a"
    using first(1) upt_add_map [of "\<lambda>j. j mod 2 ^ 32" "kcp_next_send k" "length ?a"]
    by (auto simp: fragments_of_def dest: map_eq_imp_length_eq)
  have split: "[kcp_next_send k..<kcp_next_send k + (length ?a + length ?b)] =
      [kcp_next_send k..<kcp_next_send k + length ?a] @
      [kcp_next_send k + length ?a..<kcp_next_send k + length ?a + length ?b]"
    by (metis add.assoc le_add1 upt_add_eq_append)
  show ?case
    unfolding out fin using IH a first(2,3)
    by (simp add: rejoin_append mc split add.assoc)
qed

section \<open>End to end\<close>

lemma sent_from_new:
  assumes "list_all (\<lambda>(m, clock). chunk_count m \<le> 256) msgs"
    and "segs = sent_segments (snd (run kcp_step (new_conversation c) (sends msgs)))"
    and "length segs \<le> 2 ^ 32"
  shows "rejoin [] segs = (map fst msgs, [])" "list_all (\<lambda>s. seg_command s = CMD_PUSH) segs"
    "\<And>i. i < length segs \<Longrightarrow> seg_sequence (segs ! i) = i"
    "kcp_next_send (fst (run kcp_step (new_conversation c) (sends msgs))) = length segs"
proof -
  note all = sends_segments [OF _ assms(1), of "new_conversation c", folded assms(2)]
  then show "rejoin [] segs = (map fst msgs, [])" "list_all (\<lambda>s. seg_command s = CMD_PUSH) segs"
    "kcp_next_send (fst (run kcp_step (new_conversation c) (sends msgs))) = length segs"
    by (simp_all add: new_conversation_def)
  fix i assume i: "i < length segs"
  have "map seg_sequence segs = map (\<lambda>j. j mod 2 ^ 32) [0..<length segs]"
    using all by (simp add: new_conversation_def)
  then have "map seg_sequence segs ! i = map (\<lambda>j. j mod 2 ^ 32) [0..<length segs] ! i"
    by simp
  with i assms(3) show "seg_sequence (segs ! i) = i"
    by simp
qed

lemma arrivals_of_stream:
  assumes "set arr = set segs" "list_all (\<lambda>s. seg_command s = CMD_PUSH) segs"
    and "\<And>i. i < length segs \<Longrightarrow> seg_sequence (segs ! i) = i"
  shows "list_all (\<lambda>s. seg_command s = CMD_PUSH \<and> s = segs ! seg_sequence s) arr"
    and "seg_sequence ` set arr = {..<length segs}"
proof -
  show "list_all (\<lambda>s. seg_command s = CMD_PUSH \<and> s = segs ! seg_sequence s) arr"
    unfolding list_all_iff assms(1) using assms(2,3) by (auto simp: in_set_conv_nth list_all_iff)
  show "seg_sequence ` set arr = {..<length segs}"
    unfolding assms(1) using assms(3) by (force simp: in_set_conv_nth image_iff)
qed

lemma delivery_end_to_end:
  assumes "list_all (\<lambda>(m, clock). chunk_count m \<le> 256) msgs"
    and "segs = sent_segments (snd (run kcp_step (new_conversation c) (sends msgs)))"
    and "length segs \<le> 2 ^ 32"
    and "set arr = set segs" and "windowed arr"
  shows "delivered (snd (run kcp_step (listening d) (inputs ms arr))) = filter (\<lambda>m. m \<noteq> []) (map fst msgs)"
proof -
  note sent = sent_from_new [OF assms(1-3)]
  have "messages_upto (\<lambda>i. segs ! i) (length segs) = filter (\<lambda>m. m \<noteq> []) (map fst msgs)"
    using sent(1) by (simp add: messages_upto_def map_nth)
  with windowed_delivery(1) [OF assms(5) arrivals_of_stream [OF assms(4) sent(2,3)], of d ms]
  show ?thesis by simp
qed

text \<open>
  C1: Reliable in-order delivery, end to end. Whatever messages one conversation sends, if each
  of the segments it hands to the relay reaches the peer at least once, in any order and with
  any duplicates that respect the receive window, the peer's handler gets exactly the nonempty
  messages, each once, in the order they were sent. (A message may take up to 256 segments, and
  the conversation up to \<open>2 ^ 32\<close> in total.)
\<close>

theorem kcp_end_to_end:
  assumes "list_all (\<lambda>(m, clock). chunk_count m \<le> 256) msgs"
    and "segs = sent_segments (snd (run kcp_step (new_conversation c) (sends msgs)))"
    and "length segs \<le> 2 ^ 32"
    and "set arr = set segs" and "windowed arr"
  shows "delivered (snd (run kcp_step (listening d) (inputs ms arr))) = filter (\<lambda>m. m \<noteq> []) (map fst msgs)"
  using delivery_end_to_end [OF assms] .

lemma windowed_in_order:
  assumes "\<And>i. i < length arr \<Longrightarrow> seg_sequence (arr ! i) = i"
  shows "windowed arr"
  unfolding windowed_def
proof (intro allI impI)
  fix j m assume j: "j < length arr" and m: "m < Suc (seg_sequence (arr ! j)) - RECEIVE_WINDOW"
  then have "m < j" using assms by (simp add: RECEIVE_WINDOW_def)
  then have "arr ! m \<in> set (take j arr)" using j by (auto simp: in_set_conv_nth intro!: exI [of _ m])
  then show "m \<in> seg_sequence ` set (take j arr)"
    using assms [of m] \<open>m < j\<close> j by (metis image_eqI less_trans)
qed

text \<open>Everything a sender hands to the relay parses, as a segment of its own conversation.\<close>

definition own_segment :: "nat \<Rightarrow> bytes \<Rightarrow> bool" where
  "own_segment c raw \<longleftrightarrow> (\<exists>g. parse_segment raw = Some g \<and> seg_conversation g = c mod 2 ^ 32)"

lemma send_loop_own: "list_all (own_segment (kcp_conversation k)) (transmitted (snd (send_loop clock m count is k)))"
proof (induction "is" arbitrary: k)
  case Nil
  then show ?case by simp
next
  case (Cons i rest)
  show ?case
  proof (cases "build_segment (kcp_conversation k) CMD_PUSH (count - 1 - i) RECEIVE_WINDOW
      (now_milliseconds (clock (2 * i))) (kcp_next_send k) (kcp_next_receive k) (chunk m i)")
    case (Inr raw)
    then have "own_segment (kcp_conversation k) raw"
      using parse_build_segment [OF Inr, of "[]"] by (simp add: own_segment_def)
    then show ?thesis
      using Cons.IH [of "queue_chunk (now_milliseconds (clock (2 * i + 1))) raw k"]
      unfolding send_loop_Cons Inr by (simp add: Let_def)
  qed (simp add: send_loop_Cons)
qed

lemma sends_own: "list_all (own_segment (kcp_conversation k)) (transmitted (snd (run kcp_step k (sends msgs))))"
proof (induction msgs arbitrary: k)
  case Nil
  then show ?case by (simp add: sends_def)
next
  case (Cons mc msgs)
  obtain m clock where mc: "mc = (m, clock)" by (cases mc)
  have "list_all (own_segment (kcp_conversation k)) (transmitted (snd (send clock m k)))"
    using send_loop_own by (simp add: send_def)
  moreover have "kcp_conversation (fst (send clock m k)) = kcp_conversation k"
    using send_loop_frame by (simp add: send_def)
  ultimately show ?case
    using Cons.IH [of "fst (send clock m k)"] by (simp add: sends_def mc Let_def)
qed

lemma windowed_small: "list_all (\<lambda>s. seg_sequence s < RECEIVE_WINDOW) arr \<Longrightarrow> windowed arr"
  by (auto simp: windowed_def list_all_length Suc_le_eq)

lemma transmitted_sends_small:
  "sent_segments (snd (run kcp_step (new_conversation 0) (sends [([1, 2], \<lambda>_. 7), ([], \<lambda>_. 8), ([3], \<lambda>_. 9)]))) =
     [\<lparr>seg_conversation = 0, seg_command = CMD_PUSH, seg_fragment = 0, seg_window = 512,
        seg_timestamp = 7, seg_sequence = 0, seg_unacknowledged = 0, seg_data = [1, 2]\<rparr>,
      \<lparr>seg_conversation = 0, seg_command = CMD_PUSH, seg_fragment = 0, seg_window = 512,
        seg_timestamp = 8, seg_sequence = 1, seg_unacknowledged = 0, seg_data = []\<rparr>,
      \<lparr>seg_conversation = 0, seg_command = CMD_PUSH, seg_fragment = 0, seg_window = 512,
        seg_timestamp = 9, seg_sequence = 2, seg_unacknowledged = 0, seg_data = [3]\<rparr>]"
  by (simp add: parse_header_data sends_def send_def chunk_count_eq chunk_def slices MAX_SEGMENT_SIZE_def
      new_conversation_def build_segment_eq command_defs RECEIVE_WINDOW_def now_milliseconds_def
      Let_def arm_retransmit_def mask_segment_def)

theorem kcp_end_to_end_witness:
  "delivered (snd (run kcp_step (listening 0) (inputs 5
     (rev (sent_segments (snd (run kcp_step (new_conversation 0)
        (sends [([1, 2], \<lambda>_. 7), ([], \<lambda>_. 8), ([3], \<lambda>_. 9)])))))))) = [[1, 2], [3]]"
proof -
  have "delivered (snd (run kcp_step (listening 0) (inputs 5
     (rev (sent_segments (snd (run kcp_step (new_conversation 0)
        (sends [([1, 2], \<lambda>_. 7), ([], \<lambda>_. 8), ([3], \<lambda>_. 9)])))))))) =
     filter (\<lambda>m. m \<noteq> []) (map fst [([1, 2], (\<lambda>_. 7) :: nat \<Rightarrow> nat), ([], \<lambda>_. 8), ([3], \<lambda>_. 9)])"
    by (rule kcp_end_to_end [OF _ refl, where c = 0])
      (simp_all add: transmitted_sends_small chunk_count_eq MAX_SEGMENT_SIZE_def windowed_small RECEIVE_WINDOW_def,
       blast)
  then show ?thesis by simp
qed

text \<open>The receive counter is the length of the contiguous prefix: every push below it has arrived,
  and the next one has not, unless it came beyond the window or to a closed conversation.\<close>

fun pushes :: "nat \<Rightarrow> kcp_event \<Rightarrow> bool" where
  "pushes i (Input s ms) = (seg_command s = CMD_PUSH \<and> seg_sequence s = i)"
| "pushes i _ = False"

lemma step_frame:
  assumes "(\<forall>i. \<not> pushes i e) \<or> kcp_closed k"
  shows "kcp_next_receive (fst (kcp_step k e)) = kcp_next_receive k \<and>
    (kcp_received (fst (kcp_step k e)) = kcp_received k \<or>
     kcp_closed (fst (kcp_step k e)) \<and> kcp_received (fst (kcp_step k e)) = [])"
proof (cases e)
  case (Input s ms)
  then show ?thesis using assms by (auto simp: input_segment_def Let_def)
next
  case (Send m clock)
  then show ?thesis
    using send_loop_frame [of clock m "chunk_count m" "[0..<chunk_count m]" k] by (simp add: send_def)
next
  case (Tick ms)
  obtain entries out gave_up where r: "retransmit_entries (now_milliseconds ms) (kcp_pending k) = (entries, out, gave_up)"
    by (rule prod_cases3)
  show ?thesis
    using close_frame(4) [of "k\<lparr>kcp_pending := entries\<rparr>"]
    by (cases gave_up) (auto simp: Tick retransmit_turn_def retransmit_once_def r)
qed (use close_frame(4) [of k] in \<open>auto simp: set_message_handler_def\<close>)

lemma step_arrivals:
  assumes "\<not> arrived k (kcp_next_receive k)"
  shows "\<not> arrived (fst (kcp_step k e)) (kcp_next_receive (fst (kcp_step k e)))"
    and "arrived (fst (kcp_step k e)) i \<Longrightarrow> arrived k i \<or> pushes i e"
    and "arrived k i \<Longrightarrow> \<not> kcp_closed (fst (kcp_step k e)) \<Longrightarrow> arrived (fst (kcp_step k e)) i"
    and "kcp_closed (fst (kcp_step k e)) \<Longrightarrow> kcp_next_receive (fst (kcp_step k e)) = kcp_next_receive k"
    and "pushes i e \<Longrightarrow> \<not> kcp_closed k \<Longrightarrow> i < kcp_next_receive k + RECEIVE_WINDOW \<Longrightarrow>
      arrived (fst (kcp_step k e)) i \<and> \<not> kcp_closed (fst (kcp_step k e))"
proof -
  have "\<not> arrived (fst (kcp_step k e)) (kcp_next_receive (fst (kcp_step k e))) \<and>
    (arrived (fst (kcp_step k e)) i \<longrightarrow> arrived k i \<or> pushes i e) \<and>
    (arrived k i \<longrightarrow> \<not> kcp_closed (fst (kcp_step k e)) \<longrightarrow> arrived (fst (kcp_step k e)) i) \<and>
    (kcp_closed (fst (kcp_step k e)) \<longrightarrow> kcp_next_receive (fst (kcp_step k e)) = kcp_next_receive k) \<and>
    (pushes i e \<longrightarrow> \<not> kcp_closed k \<longrightarrow> i < kcp_next_receive k + RECEIVE_WINDOW \<longrightarrow>
      arrived (fst (kcp_step k e)) i \<and> \<not> kcp_closed (fst (kcp_step k e)))"
  proof (cases "(\<forall>i. \<not> pushes i e) \<or> kcp_closed k")
    case True
    then show ?thesis using step_frame [OF True] assms by (auto simp: arrived_def)
  next
    case False
    then obtain j where j: "pushes j e" "\<not> kcp_closed k" by auto
    then obtain s ms where e: "e = Input s ms" "seg_command s = CMD_PUSH" by (cases e) auto
    note a = input_push_arrived [OF j(2) e(2), of ms]
    show ?thesis using a(1) [of i] a(2) [OF assms] a(3) by (auto simp: e)
  qed
  then show "\<not> arrived (fst (kcp_step k e)) (kcp_next_receive (fst (kcp_step k e)))"
    "arrived (fst (kcp_step k e)) i \<Longrightarrow> arrived k i \<or> pushes i e"
    "arrived k i \<Longrightarrow> \<not> kcp_closed (fst (kcp_step k e)) \<Longrightarrow> arrived (fst (kcp_step k e)) i"
    "kcp_closed (fst (kcp_step k e)) \<Longrightarrow> kcp_next_receive (fst (kcp_step k e)) = kcp_next_receive k"
    "pushes i e \<Longrightarrow> \<not> kcp_closed k \<Longrightarrow> i < kcp_next_receive k + RECEIVE_WINDOW \<Longrightarrow>
      arrived (fst (kcp_step k e)) i \<and> \<not> kcp_closed (fst (kcp_step k e))"
    by blast+
qed

lemma run_arrivals:
  assumes "\<not> arrived k (kcp_next_receive k)"
  shows "\<not> arrived (fst (run kcp_step k es)) (kcp_next_receive (fst (run kcp_step k es))) \<and>
    (arrived (fst (run kcp_step k es)) i \<longrightarrow> arrived k i \<or> list_ex (pushes i) es)"
  using assms
proof (induction es arbitrary: k)
  case (Cons e es)
  from Cons.IH [OF step_arrivals(1) [OF Cons.prems, of e]] step_arrivals(2) [OF Cons.prems, of e i]
  show ?case by (auto simp: Let_def)
qed simp

text \<open>A push that was taken is never the next one that is missing.\<close>

lemma taken_not_missing:
  assumes "\<not> arrived k (kcp_next_receive k)" "arrived k n \<or> kcp_closed k \<and> kcp_next_receive k \<noteq> n"
  shows "kcp_next_receive (fst (run kcp_step k es)) \<noteq> n"
  using assms
proof (induction es arbitrary: k)
  case Nil
  then show ?case by auto
next
  case (Cons e es)
  let ?k = "fst (kcp_step k e)"
  have "arrived ?k n \<or> kcp_closed ?k \<and> kcp_next_receive ?k \<noteq> n"
  proof (cases "kcp_closed ?k")
    case True
    then show ?thesis using step_arrivals(4) [OF Cons.prems(1) True] Cons.prems by auto
  next
    case False
    then have "\<not> kcp_closed k" using closed_step [of k e] by blast
    then show ?thesis using step_arrivals(3) [OF Cons.prems(1) _ False] Cons.prems(2) by blast
  qed
  from Cons.IH [OF step_arrivals(1) [OF Cons.prems(1)] this] show ?case by (simp add: Let_def)
qed

lemma prefix_contiguous:
  "i < kcp_next_receive (fst (run kcp_step (listening c) es)) \<Longrightarrow> list_ex (pushes i) es"
  "es = before @ e # behind \<Longrightarrow> pushes (kcp_next_receive (fst (run kcp_step (listening c) es))) e \<Longrightarrow>
     kcp_closed (fst (run kcp_step (listening c) before)) \<or>
     kcp_next_receive (fst (run kcp_step (listening c) before)) + RECEIVE_WINDOW \<le>
       kcp_next_receive (fst (run kcp_step (listening c) es))"
proof -
  have none: "\<not> arrived (listening c) j" for j by (simp add: arrived_def)
  show "list_ex (pushes i) es" if "i < kcp_next_receive (fst (run kcp_step (listening c) es))"
    using run_arrivals [OF none, of es i] that none by (simp add: arrived_def)
  assume es: "es = before @ e # behind" and p: "pushes (kcp_next_receive (fst (run kcp_step (listening c) es))) e"
  let ?k = "fst (run kcp_step (listening c) before)"
  have gap: "\<not> arrived ?k (kcp_next_receive ?k)" using run_arrivals [OF none] by blast
  show "kcp_closed ?k \<or> kcp_next_receive ?k + RECEIVE_WINDOW \<le> kcp_next_receive (fst (run kcp_step (listening c) es))"
  proof (rule ccontr)
    assume "\<not> ?thesis"
    then have "arrived (fst (kcp_step ?k e)) (kcp_next_receive (fst (run kcp_step (listening c) es)))"
      using step_arrivals(5) [OF gap p] by simp
    from taken_not_missing [OF step_arrivals(1) [OF gap], of e, OF disjI1, OF this, of behind]
    show False by (simp add: es run_append Let_def)
  qed
qed

text \<open>
  C5: Safety of delivery under every schedule. Whatever the interleaving of inbound segments
  (reordered, duplicated, lost, beyond the window), sends, retransmit turns and closing, the
  messages handed to the handler are exactly those completed by the contiguous prefix of the
  peer's stream that has been received: never out of order, never twice, never a torn one. The
  prefix is contiguous and the longest there is: each of its segments has arrived, and the one
  behind it has not, unless it came more than the window ahead or to a conversation closed by then.
\<close>

theorem delivers_prefix:
  assumes "list_all (authentic stream) es"
  shows "let n = kcp_next_receive (fst (run kcp_step (listening c) es)) in
    delivered (snd (run kcp_step (listening c) es)) =
      filter (\<lambda>m. m \<noteq> []) (fst (rejoin [] (map stream [0..<n]))) \<and>
    (\<forall>i < n. list_ex (pushes i) es) \<and>
    (\<forall>before e behind. es = before @ e # behind \<longrightarrow> pushes n e \<longrightarrow>
       kcp_closed (fst (run kcp_step (listening c) before)) \<or>
       kcp_next_receive (fst (run kcp_step (listening c) before)) + RECEIVE_WINDOW \<le> n)"
  unfolding Let_def using delivery_prefix [OF assms] prefix_contiguous [where c = c and es = es]
  by (auto simp: messages_upto_def)

text \<open>A message of two segments and half of the next one: the pieces arrive in the wrong order, one
  of them twice.\<close>

definition stream_push :: "nat \<Rightarrow> nat \<Rightarrow> bytes \<Rightarrow> kcp_segment" where
  "stream_push i fragment body =
     \<lparr>seg_conversation = 1, seg_command = CMD_PUSH, seg_fragment = fragment, seg_window = 512, seg_timestamp = 0,
      seg_sequence = i, seg_unacknowledged = 0, seg_data = body\<rparr>"

fun sample_stream :: "nat \<Rightarrow> kcp_segment" where
  "sample_stream i = (if i = 0 then stream_push 0 1 [1] else if i = 1 then stream_push 1 0 [2] else stream_push i 1 [3])"

lemma delivers_prefix_witness:
  "let es = [Input (sample_stream 1) 0, Input (sample_stream 2) 0, Input (sample_stream 0) 0,
         Input (sample_stream 1) 0, Close, Input (sample_stream 3) 0];
       k = fst (run kcp_step (listening 1) es)
   in delivered (snd (run kcp_step (listening 1) es)) = [[1, 2]] \<and> kcp_next_receive k = 3 \<and>
      list_all (\<lambda>i. list_ex (pushes i) es) [0, 1, 2]"
proof -
  let ?es = "[Input (sample_stream 1) 0, Input (sample_stream 2) 0, Input (sample_stream 0) 0,
    Input (sample_stream 1) 0, Close, Input (sample_stream 3) 0]"
  have "kcp_next_receive (fst (run kcp_step (listening 1) ?es)) = 3"
    by (simp add: stream_push_def listening_def set_message_handler_def new_conversation_def input_segment_def accept_def
        drain.simps take_fragment_def retire_pending_def command_defs RECEIVE_WINDOW_def close_def disarm_retransmit_def
        Let_def)
  then show ?thesis
    using delivers_prefix [of sample_stream ?es 1]
    by (simp add: stream_push_def CMD_PUSH_def upt_conv_Cons Let_def)
qed

section \<open>Acknowledgements\<close>

lemma input_sender_fields:
  "kcp_next_send (fst (input_segment s ms k)) = kcp_next_send k"
  "kcp_pending k = [] \<Longrightarrow> kcp_pending (fst (input_segment s ms k)) = []"
  by (simp_all add: input_segment_def Let_def)

lemma run_inputs_sender:
  "kcp_next_send (fst (run kcp_step k (inputs ms ss))) = kcp_next_send k"
  by (induction ss arbitrary: k) (simp_all add: inputs_def Let_def input_sender_fields)

lemma input_retires_all:
  assumes "kcp_inv k" "kcp_next_send k \<le> seg_unacknowledged s"
  shows "kcp_pending (fst (input_segment s ms k)) = []"
proof (cases "kcp_closed k")
  case True
  with assms show ?thesis by (simp add: input_segment_def kcp_inv_def)
next
  case False
  have "set (map pend_sequence (kcp_pending k)) \<subseteq> {..<kcp_next_send k}"
    using assms(1) by (auto simp: kcp_inv_def pending_ok_def simp del: set_map)
  then have none: "dropWhile (\<lambda>p. pend_sequence p < seg_unacknowledged s) (kcp_pending k) = []"
    using assms(2) by auto
  show ?thesis
    using False by (simp add: input_segment_def Let_def none del: dropWhile_eq_Nil_conv)
qed

lemma drain_transmits: "transmitted (snd (drain k)) = []"
proof (induction k rule: drain.induct)
  case (1 k)
  then show ?case
    by (cases "map_of (kcp_received k) (kcp_next_receive k)")
      (auto simp: drain.simps [of k] Let_def take_fragment_def)
qed

lemma accept_transmits [simp]: "transmitted (snd (accept s k)) = []"
  by (simp add: accept_def drain_transmits)

lemma push_acknowledged:
  assumes "\<not> kcp_closed k" "seg_command s = CMD_PUSH"
  shows "sent_segments (snd (input_segment s ms k)) = [\<lparr>
     seg_conversation = kcp_conversation k mod 2 ^ 32, seg_command = CMD_ACK, seg_fragment = 0,
     seg_window = 512, seg_timestamp = seg_timestamp s mod 2 ^ 32,
     seg_sequence = seg_sequence s mod 2 ^ 32,
     seg_unacknowledged = kcp_next_receive (fst (input_segment s ms k)) mod 2 ^ 32, seg_data = []\<rparr>]"
proof -
  have "sent_segments (snd (accept s k')) = []" for k'
    by (simp add: sent_segments_def map_filter_def)
  with assms show ?thesis
    by (simp add: input_segment_def Let_def acknowledge_eq parse_header_data mask_segment_def
        command_defs RECEIVE_WINDOW_def)
qed

text \<open>
  Every push is acknowledged. A push that reaches an open conversation is answered by exactly
  one acknowledgement, which echoes its sequence number and timestamp and carries the receive
  sequence as it stands after delivery: this is what lets the device retire its send queue. It
  holds for duplicates and for segments out of the window, too.
\<close>

theorem every_push_acknowledged:
  assumes "\<not> kcp_closed k" "seg_command s = CMD_PUSH" "valid_segment s"
    and "kcp_conversation k < 2 ^ 32" "kcp_next_receive (fst (kcp_step k (Input s ms))) < 2 ^ 32"
  shows "\<exists>ack. sent_segments (snd (kcp_step k (Input s ms))) = [ack] \<and>
     seg_command ack = CMD_ACK \<and> seg_conversation ack = kcp_conversation k \<and>
     seg_sequence ack = seg_sequence s \<and> seg_timestamp ack = seg_timestamp s \<and>
     seg_unacknowledged ack = kcp_next_receive (fst (kcp_step k (Input s ms))) \<and>
     snd (kcp_step k (Input s ms)) = map Deliver (delivered (snd (kcp_step k (Input s ms)))) @
       map Transmit (transmitted (snd (kcp_step k (Input s ms))))"
proof -
  have deliver: "snd (drain k') = map Deliver (delivered (snd (drain k')))" for k'
  proof (induction k' rule: drain.induct)
    case (1 k)
    then show ?case
      by (cases "map_of (kcp_received k) (kcp_next_receive k)")
        (auto simp: drain.simps [of k] Let_def take_fragment_def)
  qed
  have "snd (accept s k') = map Deliver (delivered (snd (accept s k')))" for k'
    using deliver by (simp add: accept_def)
  then have "snd (input_segment s ms k) = map Deliver (delivered (snd (input_segment s ms k))) @
       map Transmit (transmitted (snd (input_segment s ms k)))"
    using assms(1,2) by (simp add: input_segment_def Let_def acknowledge_eq command_defs)
  with push_acknowledged [OF assms(1,2), of ms] assms(3-5) show ?thesis
    by (simp add: valid_segment_def)
qed

definition sample_push :: kcp_segment where
  "sample_push = \<lparr>seg_conversation = 1, seg_command = CMD_PUSH, seg_fragment = 0, seg_window = 512,
     seg_timestamp = 77, seg_sequence = 0, seg_unacknowledged = 0, seg_data = [9]\<rparr>"

lemma sample_push_next: "kcp_next_receive (fst (kcp_step (listening 1) (Input sample_push 0))) = 1"
  by (simp add: input_segment_def Let_def accept_def sample_push_def command_defs RECEIVE_WINDOW_def
      drain.simps take_fragment_def listening_def set_message_handler_def new_conversation_def
      retire_pending_def disarm_retransmit_def)

theorem every_push_acknowledged_witness:
  "\<exists>ack. sent_segments (snd (kcp_step (listening 1) (Input sample_push 0))) = [ack] \<and>
     seg_sequence ack = 0 \<and> seg_timestamp ack = 77 \<and> seg_unacknowledged ack = 1"
proof -
  have "kcp_conversation (listening 1) = 1"
    by (simp add: listening_def set_message_handler_def new_conversation_def)
  then show ?thesis
    using every_push_acknowledged [of "listening 1" sample_push 0] sample_push_next
    by (auto simp: sample_push_def command_defs valid_segment_def)
qed

text \<open>
  The acknowledgements clear the send queue. After any sends from a fresh conversation and a
  windowed delivery of all their segments, feeding the receiver's acknowledgements back leaves
  nothing pending, so nothing is retransmitted.
\<close>

theorem acknowledgements_clear_queue:
  assumes "list_all (\<lambda>(m, clock). chunk_count m \<le> 256) msgs"
    and "segs = sent_segments (snd (run kcp_step (new_conversation c) (sends msgs)))"
    and "length segs < 2 ^ 32"
    and "set arr = set segs" and "windowed arr"
    and "acks = sent_segments (snd (run kcp_step (listening d) (inputs ms arr)))"
  shows "kcp_pending (fst (run kcp_step (fst (run kcp_step (new_conversation c) (sends msgs)))
     (inputs ms' acks))) = []"
proof -
  let ?sender = "fst (run kcp_step (new_conversation c) (sends msgs))"
  have len: "length segs \<le> 2 ^ 32" using assms(3) by simp
  note sent = sent_from_new [OF assms(1,2) len]
  have inv: "kcp_inv (fst (run kcp_step ?sender es))" for es
    by (intro kcp.run_inv kcp_inv_new)
  show ?thesis
  proof (cases "arr = []")
    case True
    then have "length segs = 0" using assms(4) by simp
    with True inv [of "[]"] sent(4) assms(6) show ?thesis
      by (simp add: inputs_def kcp_inv_def pending_ok_def)
  next
    case False
    then obtain arr' s where arr: "arr = arr' @ [s]" by (cases arr rule: rev_cases) auto
    let ?k = "fst (run kcp_step (listening d) (inputs ms arr'))"
    have w: "windowed arr'" using assms(5) by (simp add: arr windowed_snoc)
    have push: "list_all (\<lambda>s. seg_command s = CMD_PUSH) arr'" "seg_command s = CMD_PUSH"
      using arrivals_of_stream(1) [OF assms(4) sent(2,3)] by (auto simp: arr list_all_iff)
    have last: "fst (run kcp_step (listening d) (inputs ms arr)) = fst (input_segment s ms ?k)"
      "snd (run kcp_step (listening d) (inputs ms arr)) =
         snd (run kcp_step (listening d) (inputs ms arr')) @ snd (input_segment s ms ?k)"
      by (simp_all add: arr inputs_def run_append)
    have n: "kcp_next_receive (fst (input_segment s ms ?k)) = length segs"
      using windowed_delivery(2) [OF assms(5) arrivals_of_stream [OF assms(4) sent(2,3)], of d ms] last
      by simp
    obtain ack where acks: "acks = sent_segments (snd (run kcp_step (listening d) (inputs ms arr'))) @ [ack]"
      and ack: "seg_unacknowledged ack = length segs"
      using push_acknowledged [of ?k s ms] windowed_arrival [OF w push(1), of d ms] push(2) n assms(3)
      by (simp add: assms(6) last)
    let ?sender' = "fst (run kcp_step ?sender (inputs ms' (butlast acks)))"
    have "kcp_next_send ?sender' \<le> seg_unacknowledged ack"
      using sent(4) ack by (simp add: run_inputs_sender)
    from input_retires_all [OF inv this, of ms'] show ?thesis
      by (simp add: acks inputs_def run_append)
  qed
qed

theorem acknowledgements_clear_queue_witness:
  "kcp_pending (fst (run kcp_step
     (fst (run kcp_step (new_conversation 0) (sends [([1, 2], \<lambda>_. 7), ([], \<lambda>_. 8), ([3], \<lambda>_. 9)])))
     (inputs 6 (sent_segments (snd (run kcp_step (listening 0) (inputs 5
       (sent_segments (snd (run kcp_step (new_conversation 0)
          (sends [([1, 2], \<lambda>_. 7), ([], \<lambda>_. 8), ([3], \<lambda>_. 9)])))))))))) ) = []"
  by (rule acknowledgements_clear_queue [OF _ refl _ refl _ refl])
    (simp_all add: transmitted_sends_small chunk_count_eq MAX_SEGMENT_SIZE_def windowed_small RECEIVE_WINDOW_def)

section \<open>Retransmission\<close>

text \<open>Turns at least one interval apart, as the sleep of the loop makes them.\<close>

fun spaced :: "nat \<Rightarrow> nat list \<Rightarrow> bool" where
  "spaced prev [] = True"
| "spaced prev (t # ts) = (prev + 300 \<le> now_milliseconds t \<and> spaced (now_milliseconds t) ts)"

lemma due_after: "pend_sent_at p \<le> prev \<Longrightarrow> prev + 300 \<le> now \<Longrightarrow> is_due now p"
  by (simp add: is_due_def RETRANSMIT_INTERVAL_MS_def)

lemma retransmit_all_due:
  assumes "list_all (is_due now) ps" "retransmit_entries now ps = (ps', out, g)" "ps \<noteq> []"
  shows "g \<or> (list_all (\<lambda>p. pend_sent_at p = now) ps' \<and> ps' \<noteq> [] \<and>
    pend_transmits (hd ps') = pend_transmits (hd ps) + 1 \<and> pend_transmits (hd ps) < MAX_RETRANSMITS)"
  using assms
proof (induction ps arbitrary: ps' out g)
  case Nil
  then show ?case by simp
next
  case (Cons p ps)
  obtain qs out' g' where r: "retransmit_entries now ps = (qs, out', g')"
    by (cases "retransmit_entries now ps") auto
  show ?case
  proof (cases "ps = []")
    case True
    with Cons.prems r show ?thesis by (auto split: if_splits)
  next
    case False
    with Cons.IH [OF _ r] Cons.prems r show ?thesis by (auto split: if_splits)
  qed
qed

lemma closed_stays: "kcp_closed k \<Longrightarrow> kcp_closed (fst (run kcp_step k es))"
  using kcp.closed_run by blast

lemma gives_up_after:
  assumes "kcp_inv k" "kcp_pending k \<noteq> []" "list_all (\<lambda>p. pend_sent_at p \<le> prev) (kcp_pending k)"
    and "spaced prev ts" "MAX_RETRANSMITS < length ts + pend_transmits (hd (kcp_pending k))"
  shows "kcp_closed (fst (run kcp_step k (map Tick ts)))"
  using assms
proof (induction ts arbitrary: k prev)
  case Nil
  then have "entry_ok (hd (kcp_pending k))"
    by (cases "kcp_pending k") (auto simp: kcp_inv_def pending_ok_def)
  with Nil.prems(5) show ?case by (simp add: entry_ok_def)
next
  case (Cons t ts)
  let ?now = "now_milliseconds t"
  let ?k = "fst (kcp_step k (Tick t))"
  have running: "\<not> kcp_closed k" "kcp_retransmit_task k"
    using Cons.prems(1,2) by (auto simp: kcp_inv_def)
  obtain ps out g where r: "retransmit_entries ?now (kcp_pending k) = (ps, out, g)"
    by (cases "retransmit_entries ?now (kcp_pending k)") auto
  have "list_all (is_due ?now) (kcp_pending k)"
    using Cons.prems(3,4) by (auto simp: list_all_iff intro: due_after)
  note due = retransmit_all_due [OF this r Cons.prems(2)]
  have k: "?k = (if g then close (k\<lparr>kcp_pending := ps\<rparr>) else k\<lparr>kcp_pending := ps\<rparr>)"
    using running Cons.prems(2) by (simp add: retransmit_turn_def retransmit_once_def r Let_def)
  show ?case
  proof (cases g)
    case True
    then have "kcp_closed ?k" unfolding k by simp
    then show ?thesis by (simp add: Let_def closed_stays)
  next
    case False
    with due have ps: "list_all (\<lambda>p. pend_sent_at p = ?now) ps" "ps \<noteq> []"
        "pend_transmits (hd ps) = pend_transmits (hd (kcp_pending k)) + 1" by simp_all
    have "kcp_inv ?k" by (rule kcp_step_inv [OF Cons.prems(1)])
    moreover have "list_all (\<lambda>p. pend_sent_at p \<le> ?now) (kcp_pending ?k)"
      unfolding k using ps(1) False by (simp add: list_all_iff)
    ultimately have "kcp_closed (fst (run kcp_step ?k (map Tick ts)))"
      using Cons.IH [of ?k ?now] Cons.prems(4,5) ps False unfolding k by simp
    then show ?thesis by (simp add: Let_def)
  qed
qed

text \<open>
  C24: An unacknowledged segment ends the conversation. From any reachable state with something in
  the send queue, eight retransmit turns without an acknowledgement, each at least an interval
  after the last, close the conversation and empty the queue: it neither retransmits forever nor
  keeps a dead peer's segments.
\<close>

theorem retransmission_gives_up:
  assumes "kcp_pending (fst (run kcp_step (new_conversation c) es)) \<noteq> []"
    and "list_all (\<lambda>p. pend_sent_at p \<le> prev) (kcp_pending (fst (run kcp_step (new_conversation c) es)))"
    and "spaced prev ts" and "length ts = 8"
  shows "kcp_closed (fst (run kcp_step (new_conversation c) (es @ map Tick ts))) \<and>
    kcp_pending (fst (run kcp_step (new_conversation c) (es @ map Tick ts))) = []"
proof -
  let ?k = "fst (run kcp_step (new_conversation c) es)"
  have inv: "kcp_inv (fst (run kcp_step (new_conversation c) es'))" for es'
    by (intro kcp.run_inv kcp_inv_new)
  have "1 \<le> pend_transmits (hd (kcp_pending ?k))"
    using inv [of es] assms(1) by (cases "kcp_pending ?k") (auto simp: kcp_inv_def pending_ok_def entry_ok_def)
  then have "kcp_closed (fst (run kcp_step ?k (map Tick ts)))"
    using assms by (intro gives_up_after inv) (simp_all add: MAX_RETRANSMITS_def)
  with inv [of "es @ map Tick ts"] show ?thesis
    by (simp add: run_append kcp_inv_def)
qed

lemma one_send_pending:
  "kcp_pending (fst (run kcp_step (new_conversation 0) [Send [7] (\<lambda>_. 0)])) =
     [\<lparr>pend_sequence = 0, pend_raw = header_bytes \<lparr>seg_conversation = 0, seg_command = CMD_PUSH,
        seg_fragment = 0, seg_window = 512, seg_timestamp = 0, seg_sequence = 0,
        seg_unacknowledged = 0, seg_data = [7]\<rparr> @ [7], pend_sent_at = 0, pend_transmits = 1\<rparr>]"
  by (simp add: send_def chunk_count_eq chunk_def slices MAX_SEGMENT_SIZE_def
      new_conversation_def build_segment_eq command_defs RECEIVE_WINDOW_def now_milliseconds_def
      Let_def arm_retransmit_def)

theorem retransmission_gives_up_witness:
  "kcp_closed (fst (run kcp_step (new_conversation 0)
     ([Send [7] (\<lambda>_. 0)] @ map Tick [300, 600, 900, 1200, 1500, 1800, 2100, 2400])))"
  by (rule conjunct1 [OF retransmission_gives_up [where prev = 0]])
    (simp_all add: one_send_pending now_milliseconds_def del: run.simps kcp_step.simps)

lemma retransmit_none_due:
  "list_all (\<lambda>p. \<not> is_due now p) ps \<Longrightarrow> retransmit_entries now ps = (ps, [], False)"
  by (induction ps) auto

text \<open>
  C40: Retransmission stops at the wrap of the clock. A segment sent within 300 ms of the wrap of
  the 32-bit millisecond clock is never due again: while it heads the queue alone, no retransmit
  turn at any time resends it or gives up on it, because the age is computed without wrapping.
\<close>

theorem clock_wrap_stalls_retransmission:
  assumes "list_all (\<lambda>p. 2 ^ 32 \<le> pend_sent_at p + 300) (kcp_pending k)"
  shows "kcp_step k (Tick ms) = (k, [])"
proof -
  have now: "now_milliseconds ms < 4294967296"
    by (simp add: now_milliseconds_def)
  have "\<not> is_due (now_milliseconds ms) p" if "2 ^ 32 \<le> pend_sent_at p + 300" for p
  proof -
    from that have "4294967296 \<le> pend_sent_at p + 300" by simp
    with now show ?thesis by (simp add: is_due_def RETRANSMIT_INTERVAL_MS_def)
  qed
  then have "list_all (\<lambda>p. \<not> is_due (now_milliseconds ms) p) (kcp_pending k)"
    using assms by (auto simp: list_all_iff)
  then have "retransmit_entries (now_milliseconds ms) (kcp_pending k) = (kcp_pending k, [], False)"
    by (rule retransmit_none_due)
  then show ?thesis
    by (simp add: retransmit_turn_def retransmit_once_def)
qed

theorem clock_wrap_stalls_retransmission_witness:
  "kcp_step (fst (send (\<lambda>_. 4294967290) [7] (new_conversation 0))) (Tick 4294999999) =
     (fst (send (\<lambda>_. 4294967290) [7] (new_conversation 0)), [])"
  by (rule clock_wrap_stalls_retransmission)
    (simp add: send_def chunk_count_eq chunk_def slices MAX_SEGMENT_SIZE_def
      new_conversation_def build_segment_eq command_defs RECEIVE_WINDOW_def now_milliseconds_def
      Let_def arm_retransmit_def)

section \<open>Message sizes\<close>

lemma chunk_count_limit: "chunk_count m \<le> 256 \<longleftrightarrow> length m \<le> 352256"
proof -
  have "(length m + 1375) div 1376 < 257 \<longleftrightarrow> length m + 1375 < 257 * 1376"
    by (rule div_less_iff_less_mult) simp
  then show ?thesis
    unfolding chunk_count_eq MAX_SEGMENT_SIZE_def by auto
qed

text \<open>
  An open conversation sends every message of up to 352256 bytes (256 fragments of 1376)
  as segments whose payloads rejoin to exactly that message, and refuses a longer one with a
  ValueError before a single byte is sent or any state changes.
\<close>

theorem send_size_limit:
  assumes "\<not> kcp_closed k"
  shows "if length m \<le> 352256
     then list_all (Not \<circ> is_raised) (snd (send clock m k)) \<and>
       length (sent_segments (snd (send clock m k))) = chunk_count m \<and>
       rejoin [] (sent_segments (snd (send clock m k))) = ([m], [])
     else send clock m k = (k, [Raised ValueError])"
proof (cases "length m \<le> 352256")
  case True
  then have c: "chunk_count m \<le> 256" by (simp add: chunk_count_limit)
  have "length (sent_segments (snd (send clock m k))) = chunk_count m"
    using send_segments(1) [OF assms c, of clock] by (auto simp: fragments_of_def dest: map_eq_imp_length_eq)
  moreover have "list_all (Not \<circ> is_raised) (snd (send clock m k))"
    using send_loop_segments [OF c, of m "[0..<chunk_count m]" k clock] assms by (simp add: send_def)
  ultimately show ?thesis
    using True send_segments(2) [OF assms c, of clock] by simp
next
  case False
  then have "256 < chunk_count m" using chunk_count_limit [of m] by simp
  then show ?thesis using False send_too_long [OF _ assms] by simp
qed

lemma send_size_limit_witness:
  "rejoin [] (sent_segments (snd (send (\<lambda>_. 0) [1, 2, 3] (new_conversation 5)))) = ([[1, 2, 3]], [])"
  using send_size_limit [of "new_conversation 5" "[1, 2, 3]" "\<lambda>_. 0"] by (simp add: new_conversation_def)

end
