(* ===== verification/Hashes.thy ===== *)
theory Hashes
  imports Bytes
begin

unbundle bit_operations_syntax

text \<open>
  The checksums and digests of the Python standard library the program relies on, as their
  public standards define them: \<^verbatim>\<open>zlib.crc32\<close> (the reflected CRC-32 of IEEE 802.3),
  \<^verbatim>\<open>hashlib.md5\<close> (RFC 1321), \<^verbatim>\<open>hashlib.sha1\<close> (FIPS 180-4), \<^verbatim>\<open>hashlib.sha256\<close>
  (FIPS 180-4) and \<^verbatim>\<open>hmac.new\<close> (RFC 2104). The lemmas give the digest lengths the
  framing depends on, and the CRC is checked against its published check value.
\<close>

section \<open>CRC-32\<close>

definition crc32_bit :: "32 word \<Rightarrow> 32 word" where
  "crc32_bit c = (if bit c 0 then drop_bit 1 c XOR 0xEDB88320 else drop_bit 1 c)"

definition crc32_byte :: "32 word \<Rightarrow> byte \<Rightarrow> 32 word" where
  "crc32_byte c b = (crc32_bit ^^ 8) (c XOR ucast b)"

definition crc32 :: "bytes \<Rightarrow> 32 word" where
  "crc32 bs = NOT (foldl crc32_byte (NOT 0) bs)"

text \<open>The check value of the CRC catalogue: the CRC of the digits one to nine.\<close>

lemma funpow_8: "(f ^^ 8) x = f (f (f (f (f (f (f (f x)))))))"
  by (simp add: eval_nat_numeral)

lemma crc32_check: "crc32 [0x31, 0x32, 0x33, 0x34, 0x35, 0x36, 0x37, 0x38, 0x39] = 0xCBF43926"
  by (simp add: crc32_def crc32_byte_def crc32_bit_def funpow_8)

section \<open>Rotations\<close>

definition rotl :: "nat \<Rightarrow> 32 word \<Rightarrow> 32 word" where
  "rotl n w = push_bit n w OR drop_bit (32 - n) w"

definition rotr :: "nat \<Rightarrow> 32 word \<Rightarrow> 32 word" where
  "rotr n w = drop_bit n w OR push_bit (32 - n) w"

section \<open>Block padding and word order\<close>

text \<open>Messages are padded to a multiple of 64 bytes: a one bit, zeros, and the bit length
  in eight bytes, in the byte order of the digest.\<close>

definition pad_zeros :: "nat \<Rightarrow> nat" where
  "pad_zeros n = (119 - n mod 64) mod 64"

definition md_pad :: "(nat \<Rightarrow> bytes) \<Rightarrow> bytes \<Rightarrow> bytes" where
  "md_pad len_field m = m @ 0x80 # replicate (pad_zeros (length m)) 0 @ len_field (8 * length m)"

fun chunks :: "nat \<Rightarrow> 'a list \<Rightarrow> 'a list list" where
  "chunks n xs = (if n = 0 \<or> xs = [] then [] else take n xs # chunks n (drop n xs))"

declare chunks.simps [simp del]

definition be32 :: "bytes \<Rightarrow> 32 word" where
  "be32 bs = word_of_nat (from_be bs)"

definition le32 :: "bytes \<Rightarrow> 32 word" where
  "le32 bs = word_of_nat (from_le bs)"

definition word_be :: "32 word \<Rightarrow> bytes" where
  "word_be w = be_bytes 4 (unat w)"

definition word_le :: "32 word \<Rightarrow> bytes" where
  "word_le w = le_bytes 4 (unat w)"

section \<open>SHA-1\<close>

type_synonym sha1_state = "32 word \<times> 32 word \<times> 32 word \<times> 32 word \<times> 32 word"

fun sha1_schedule :: "nat \<Rightarrow> 32 word list \<Rightarrow> 32 word list" where
  "sha1_schedule 0 ws = ws"
| "sha1_schedule (Suc k) ws =
     (let n = length ws
      in sha1_schedule k
           (ws @ [rotl 1 (ws ! (n - 3) XOR ws ! (n - 8) XOR ws ! (n - 14) XOR ws ! (n - 16))]))"

definition sha1_f :: "nat \<Rightarrow> 32 word \<Rightarrow> 32 word \<Rightarrow> 32 word \<Rightarrow> 32 word" where
  "sha1_f t b c d =
     (if t < 20 then (b AND c) OR (NOT b AND d)
      else if t < 40 then b XOR c XOR d
      else if t < 60 then (b AND c) OR (b AND d) OR (c AND d)
      else b XOR c XOR d)"

definition sha1_k :: "nat \<Rightarrow> 32 word" where
  "sha1_k t =
     (if t < 20 then 0x5A827999 else if t < 40 then 0x6ED9EBA1
      else if t < 60 then 0x8F1BBCDC else 0xCA62C1D6)"

fun sha1_round :: "sha1_state \<Rightarrow> nat \<times> 32 word \<Rightarrow> sha1_state" where
  "sha1_round (a, b, c, d, e) (t, w) =
     (rotl 5 a + sha1_f t b c d + e + w + sha1_k t, a, rotl 30 b, c, d)"

fun sha1_block :: "sha1_state \<Rightarrow> bytes \<Rightarrow> sha1_state" where
  "sha1_block (h0, h1, h2, h3, h4) blk =
     (let ws = sha1_schedule 64 (map be32 (chunks 4 blk));
          (a, b, c, d, e) = foldl sha1_round (h0, h1, h2, h3, h4) (zip [0..<80] ws)
      in (h0 + a, h1 + b, h2 + c, h3 + d, h4 + e))"

definition sha1_finish :: "sha1_state \<Rightarrow> bytes" where
  "sha1_finish h =
     (case h of (h0, h1, h2, h3, h4) \<Rightarrow>
        word_be h0 @ word_be h1 @ word_be h2 @ word_be h3 @ word_be h4)"

definition sha1 :: "bytes \<Rightarrow> bytes" where
  "sha1 m = sha1_finish (foldl sha1_block
     (0x67452301, 0xEFCDAB89, 0x98BADCFE, 0x10325476, 0xC3D2E1F0)
     (chunks 64 (md_pad (be_bytes 8) m)))"

section \<open>SHA-256\<close>

text \<open>The round constants and the initial state are the first 32 bits of the fractional parts
  of the cube and square roots of the first primes: \<open>iroot k\<close> is the integer \<open>k\<close>-th root,
  found bit by bit.\<close>

definition iroot :: "nat \<Rightarrow> nat \<Rightarrow> nat" where
  "iroot k n = foldl (\<lambda>r i. if (r + 2 ^ i) ^ k \<le> n then r + 2 ^ i else r) 0 (rev [0..<40])"

definition primes_upto :: "nat \<Rightarrow> nat list" where
  "primes_upto n = filter (\<lambda>p. list_all (\<lambda>d. p mod d \<noteq> 0) [2..<p]) [2..<Suc n]"

definition root_fraction :: "nat \<Rightarrow> nat \<Rightarrow> 32 word" where
  "root_fraction k p = word_of_nat (iroot k (p * 2 ^ (32 * k)))"

definition sha256_k :: "32 word list" where
  "sha256_k = map (root_fraction 3) (primes_upto 311)"

definition sha256_init :: "32 word list" where
  "sha256_init = map (root_fraction 2) (primes_upto 19)"

fun sha256_schedule :: "nat \<Rightarrow> 32 word list \<Rightarrow> 32 word list" where
  "sha256_schedule 0 ws = ws"
| "sha256_schedule (Suc k) ws =
     (let n = length ws; x = ws ! (n - 15); y = ws ! (n - 2);
          s0 = rotr 7 x XOR rotr 18 x XOR drop_bit 3 x;
          s1 = rotr 17 y XOR rotr 19 y XOR drop_bit 10 y
      in sha256_schedule k (ws @ [ws ! (n - 16) + s0 + ws ! (n - 7) + s1]))"

type_synonym sha256_state =
  "32 word \<times> 32 word \<times> 32 word \<times> 32 word \<times> 32 word \<times> 32 word \<times> 32 word \<times> 32 word"

fun sha256_round :: "sha256_state \<Rightarrow> 32 word \<times> 32 word \<Rightarrow> sha256_state" where
  "sha256_round (a, b, c, d, e, f, g, h) (k, w) =
     (let s1 = rotr 6 e XOR rotr 11 e XOR rotr 25 e;
          ch = (e AND f) XOR (NOT e AND g);
          t1 = h + s1 + ch + k + w;
          s0 = rotr 2 a XOR rotr 13 a XOR rotr 22 a;
          maj = (a AND b) XOR (a AND c) XOR (b AND c)
      in (t1 + (s0 + maj), a, b, c, d + t1, e, f, g))"

fun sha256_block :: "sha256_state \<Rightarrow> bytes \<Rightarrow> sha256_state" where
  "sha256_block (h0, h1, h2, h3, h4, h5, h6, h7) blk =
     (let ws = sha256_schedule 48 (map be32 (chunks 4 blk));
          (a, b, c, d, e, f, g, h) =
            foldl sha256_round (h0, h1, h2, h3, h4, h5, h6, h7) (zip sha256_k ws)
      in (h0 + a, h1 + b, h2 + c, h3 + d, h4 + e, h5 + f, h6 + g, h7 + h))"

definition sha256_finish :: "sha256_state \<Rightarrow> bytes" where
  "sha256_finish s =
     (case s of (h0, h1, h2, h3, h4, h5, h6, h7) \<Rightarrow>
        word_be h0 @ word_be h1 @ word_be h2 @ word_be h3 @
        word_be h4 @ word_be h5 @ word_be h6 @ word_be h7)"

definition sha256 :: "bytes \<Rightarrow> bytes" where
  "sha256 m =
     (let h = sha256_init
      in sha256_finish (foldl sha256_block
           (h ! 0, h ! 1, h ! 2, h ! 3, h ! 4, h ! 5, h ! 6, h ! 7) (chunks 64 (md_pad (be_bytes 8) m))))"

section \<open>MD5\<close>

definition md5_k :: "32 word list" where
  "md5_k =
    [0xd76aa478, 0xe8c7b756, 0x242070db, 0xc1bdceee, 0xf57c0faf, 0x4787c62a, 0xa8304613, 0xfd469501,
     0x698098d8, 0x8b44f7af, 0xffff5bb1, 0x895cd7be, 0x6b901122, 0xfd987193, 0xa679438e, 0x49b40821,
     0xf61e2562, 0xc040b340, 0x265e5a51, 0xe9b6c7aa, 0xd62f105d, 0x02441453, 0xd8a1e681, 0xe7d3fbc8,
     0x21e1cde6, 0xc33707d6, 0xf4d50d87, 0x455a14ed, 0xa9e3e905, 0xfcefa3f8, 0x676f02d9, 0x8d2a4c8a,
     0xfffa3942, 0x8771f681, 0x6d9d6122, 0xfde5380c, 0xa4beea44, 0x4bdecfa9, 0xf6bb4b60, 0xbebfbc70,
     0x289b7ec6, 0xeaa127fa, 0xd4ef3085, 0x04881d05, 0xd9d4d039, 0xe6db99e5, 0x1fa27cf8, 0xc4ac5665,
     0xf4292244, 0x432aff97, 0xab9423a7, 0xfc93a039, 0x655b59c3, 0x8f0ccc92, 0xffeff47d, 0x85845dd1,
     0x6fa87e4f, 0xfe2ce6e0, 0xa3014314, 0x4e0811a1, 0xf7537e82, 0xbd3af235, 0x2ad7d2bb, 0xeb86d391]"

definition md5_shift :: "nat \<Rightarrow> nat" where
  "md5_shift i =
     ([7, 12, 17, 22, 5, 9, 14, 20, 4, 11, 16, 23, 6, 10, 15, 21] ! (4 * (i div 16) + i mod 4))"

type_synonym md5_state = "32 word \<times> 32 word \<times> 32 word \<times> 32 word"

fun md5_round :: "32 word list \<Rightarrow> md5_state \<Rightarrow> nat \<Rightarrow> md5_state" where
  "md5_round ws (a, b, c, d) i =
     (let (f, g) =
        (if i < 16 then ((b AND c) OR (NOT b AND d), i)
         else if i < 32 then ((d AND b) OR (NOT d AND c), (5 * i + 1) mod 16)
         else if i < 48 then (b XOR c XOR d, (3 * i + 5) mod 16)
         else (c XOR (b OR NOT d), (7 * i) mod 16))
      in (d, b + rotl (md5_shift i) (f + a + md5_k ! i + ws ! g), b, c))"

fun md5_block :: "md5_state \<Rightarrow> bytes \<Rightarrow> md5_state" where
  "md5_block (a0, b0, c0, d0) blk =
     (let (a, b, c, d) = foldl (md5_round (map le32 (chunks 4 blk))) (a0, b0, c0, d0) [0..<64]
      in (a0 + a, b0 + b, c0 + c, d0 + d))"

definition md5_finish :: "md5_state \<Rightarrow> bytes" where
  "md5_finish s = (case s of (a, b, c, d) \<Rightarrow> word_le a @ word_le b @ word_le c @ word_le d)"

definition md5 :: "bytes \<Rightarrow> bytes" where
  "md5 m = md5_finish (foldl md5_block (0x67452301, 0xefcdab89, 0x98badcfe, 0x10325476)
     (chunks 64 (md_pad (le_bytes 8) m)))"

section \<open>HMAC\<close>

definition hmac_key :: "(bytes \<Rightarrow> bytes) \<Rightarrow> bytes \<Rightarrow> bytes" where
  "hmac_key h key =
     (let k = (if 64 < length key then h key else key) in k @ replicate (64 - length k) 0)"

definition hmac :: "(bytes \<Rightarrow> bytes) \<Rightarrow> bytes \<Rightarrow> bytes \<Rightarrow> bytes" where
  "hmac h key msg =
     (let k = hmac_key h key
      in h (map (\<lambda>b. b XOR 0x5C) k @ h (map (\<lambda>b. b XOR 0x36) k @ msg)))"

section \<open>Hexadecimal rendering\<close>

definition hex_digit :: "nat \<Rightarrow> char" where
  "hex_digit n = (if n < 10 then char_of (48 + n) else char_of (87 + n))"

definition hex :: "bytes \<Rightarrow> string" where
  "hex bs = concat (map (\<lambda>b. [hex_digit (unat b div 16), hex_digit (unat b mod 16)]) bs)"

section \<open>Lengths\<close>

lemma length_word_be [simp]: "length (word_be w) = 4"
  by (simp add: word_be_def)

lemma length_word_le [simp]: "length (word_le w) = 4"
  by (simp add: word_le_def)

lemma length_sha1 [simp, lengths]: "length (sha1 m) = 20"
  by (simp add: sha1_def sha1_finish_def split: prod.splits)

lemma length_sha256 [simp, lengths]: "length (sha256 m) = 32"
  by (simp add: sha256_def sha256_finish_def Let_def split: prod.splits)

lemma length_md5 [simp, lengths]: "length (md5 m) = 16"
  by (simp add: md5_def md5_finish_def split: prod.splits)

lemma length_hmac: "(\<And>m. length (h m) = n) \<Longrightarrow> length (hmac h key msg) = n"
  by (simp add: hmac_def Let_def)

lemma length_hex [simp, lengths]: "length (hex bs) = 2 * length bs"
  by (induction bs) (auto simp: hex_def)

lemma ascii_hex: "ascii (hex bs)"
proof -
  have "(of_char (hex_digit n) :: nat) < 128" if "n < 16" for n
    using that by (simp add: hex_digit_def of_char_of)
  moreover have "unat b div 16 < 16" for b :: byte
  proof -
    have "unat b < 2 ^ LENGTH(8)" by (rule unsigned_less)
    then show ?thesis by simp
  qed
  ultimately show ?thesis
    by (induction bs) (simp_all add: hex_def ascii_def)
qed

end
