(* ===== verification/Crypto.thy ===== *)
theory Crypto
  imports Hashes
begin

unbundle bit_operations_syntax

text \<open>
  Models \<^verbatim>\<open>src/tuya_ipc_p2p_sdk/crypto.py\<close>: the digests, PKCS#7 padding, the AES wrappers
  and the media records (an IV followed by AES-CBC blocks).

  AES itself is the \<^verbatim>\<open>cryptography\<close> package, which is not part of the repository: it is
  the parameter \<open>cipher\<close> of the definitions. What the code relies on is stated as
  \<open>cbc_laws\<close> and \<open>ecb_laws\<close>: with a key and an IV of AES sizes, a block-aligned plaintext
  encrypts to a ciphertext of its own length, and decrypting that gives it back. Random bytes
  (\<^verbatim>\<open>secrets\<close>) are arguments.
\<close>

section \<open>Digests\<close>

definition AES_BLOCK_SIZE :: nat where "AES_BLOCK_SIZE = 16"
definition MEDIA_KEY_SIZE :: nat where "MEDIA_KEY_SIZE = 16"

datatype str_or_bytes = Str string | Raw bytes

fun as_bytes :: "str_or_bytes \<Rightarrow> bytes" where
  "as_bytes (Str s) = str_encode s"
| "as_bytes (Raw b) = b"

definition md5_hex :: "str_or_bytes \<Rightarrow> string" where
  "md5_hex value = hex (md5 (as_bytes value))"

definition hmac_sha256 :: "str_or_bytes \<Rightarrow> str_or_bytes \<Rightarrow> bytes" where
  "hmac_sha256 key message = hmac sha256 (as_bytes key) (as_bytes message)"

definition hmac_sha256_hex :: "str_or_bytes \<Rightarrow> str_or_bytes \<Rightarrow> string" where
  "hmac_sha256_hex key message = hex (hmac sha256 (as_bytes key) (as_bytes message))"

definition hmac_sha1 :: "bytes \<Rightarrow> bytes \<Rightarrow> bytes" where
  "hmac_sha1 key message = hmac sha1 key message"

lemma length_hmac_sha1 [simp, lengths]: "length (hmac_sha1 k m) = 20"
  by (simp add: hmac_sha1_def length_hmac)

lemma length_hmac_sha256 [simp, lengths]: "length (hmac_sha256 k m) = 32"
  by (simp add: hmac_sha256_def length_hmac)

lemma length_hmac_sha256_hex [simp, lengths]: "length (hmac_sha256_hex k m) = 64"
  using length_hmac [of sha256 32 "as_bytes k" "as_bytes m"] by (simp add: hmac_sha256_hex_def)

lemma length_md5_hex [simp, lengths]: "length (md5_hex v) = 32"
  by (simp add: md5_hex_def)

section \<open>PKCS#7\<close>

definition pad_pkcs7 :: "bytes \<Rightarrow> bytes" where
  "pad_pkcs7 plain =
     (let padding = AES_BLOCK_SIZE - length plain mod AES_BLOCK_SIZE
      in plain @ replicate padding (word_of_nat padding))"

definition unpad_pkcs7 :: "bytes \<Rightarrow> exn + bytes" where
  "unpad_pkcs7 padded =
     (if padded = [] then Inl (ProtocolError ''Failed to unpad: empty plaintext'')
      else let padding = unat (last padded) in
        if padding < 1 \<or> padding > AES_BLOCK_SIZE \<or> padding > length padded
        then Inl (ProtocolError (''Failed to unpad: bad PKCS#7 length '' @ dec_digits padding))
        else if drop (length padded - padding) padded \<noteq> replicate padding (word_of_nat padding)
        then Inl (ProtocolError ''Failed to unpad: bad PKCS#7 bytes'')
        else Inr (take (length padded - padding) padded))"

definition padding_of :: "bytes \<Rightarrow> nat" where
  "padding_of plain = 16 - length plain mod 16"

lemma padding_of_bounds: "1 \<le> padding_of p" "padding_of p \<le> 16"
  using mod_less_divisor [of 16 "length p"] by (auto simp: padding_of_def)

lemma pad_pkcs7_eq: "pad_pkcs7 plain = plain @ replicate (padding_of plain) (word_of_nat (padding_of plain))"
  by (simp add: pad_pkcs7_def padding_of_def AES_BLOCK_SIZE_def Let_def)

lemma length_pad_pkcs7: "length (pad_pkcs7 p) = length p + padding_of p"
  by (simp add: pad_pkcs7_eq)

lemma length_pad_pkcs7_eq: "length (pad_pkcs7 p) = 16 * (length p div 16 + 1)"
  using padding_of_bounds [of p] minus_mod_eq_mult_div [of "length p" 16]
  by (simp add: length_pad_pkcs7 padding_of_def)

lemma pad_pkcs7_aligned [simp]: "length (pad_pkcs7 p) mod 16 = 0"
  by (simp add: length_pad_pkcs7_eq)

lemma pad_pkcs7_nonempty [simp]: "pad_pkcs7 p \<noteq> []" "16 \<le> length (pad_pkcs7 p)"
  using length_pad_pkcs7_eq [of p] by auto

lemma unat_padding_of: "unat (word_of_nat (padding_of p) :: byte) = padding_of p"
  using padding_of_bounds [of p] by (simp add: unat_of_nat)

lemma last_pad_pkcs7: "last (pad_pkcs7 p) = word_of_nat (padding_of p)"
  using padding_of_bounds [of p] by (simp add: pad_pkcs7_eq last_append)

lemma unpad_pad: "unpad_pkcs7 (pad_pkcs7 p) = Inr p"
  using padding_of_bounds [of p]
  by (simp add: unpad_pkcs7_def Let_def last_pad_pkcs7 unat_padding_of AES_BLOCK_SIZE_def
      length_pad_pkcs7) (simp add: pad_pkcs7_eq)

text \<open>What \<open>unpad_pkcs7\<close> accepts is its result followed by between one and sixteen padding
  bytes.\<close>

lemma unpad_Inr:
  assumes "unpad_pkcs7 q = Inr p"
  obtains n where "1 \<le> n" "n \<le> 16" "q = p @ replicate n (word_of_nat n)"
proof -
  let ?n = "unat (last q)"
  have n: "1 \<le> ?n" "?n \<le> 16" "?n \<le> length q"
    and d: "drop (length q - ?n) q = replicate ?n (word_of_nat ?n)"
    and p: "p = take (length q - ?n) q"
    using assms by (auto simp: unpad_pkcs7_def Let_def AES_BLOCK_SIZE_def split: if_splits)
  have "q = p @ replicate ?n (word_of_nat ?n)"
    unfolding p d [symmetric] by simp
  with n show ?thesis by (intro that)
qed

text \<open>On block-aligned input, which is all a decryptor returns, unpadding accepts exactly the
  padded strings.\<close>

lemma padding_of_aligned:
  assumes "1 \<le> n" "n \<le> 16" "(length p + n) mod 16 = 0"
  shows "padding_of p = n"
proof -
  obtain k where k: "length p + n = 16 * k"
    using assms(3) by (auto elim: dvdE [OF mod_0_imp_dvd])
  then have "length p = 16 * (k - 1) + (16 - n)"
    using assms(1,2) by (cases k) auto
  then have "length p mod 16 = (16 - n) mod 16"
    by simp
  with assms(1,2) show ?thesis
    by (cases "n = 16") (auto simp: padding_of_def)
qed

lemma unpad_aligned_iff: "length q mod 16 = 0 \<Longrightarrow> unpad_pkcs7 q = Inr p \<longleftrightarrow> q = pad_pkcs7 p"
proof
  assume q: "length q mod 16 = 0" and "unpad_pkcs7 q = Inr p"
  from this(2) obtain n where n: "1 \<le> n" "n \<le> 16" "q = p @ replicate n (word_of_nat n)"
    by (rule unpad_Inr)
  with q have "padding_of p = n"
    by (intro padding_of_aligned) simp_all
  with n show "q = pad_pkcs7 p" by (simp add: pad_pkcs7_eq)
qed (simp add: unpad_pad)

interpretation pkcs7: codec "\<lambda>p. Inr (pad_pkcs7 p)" unpad_pkcs7 "\<lambda>_. True"
  by unfold_locales (simp add: unpad_pad)

section \<open>AES\<close>

record cipher =
  cbc_encryptor :: "bytes \<Rightarrow> bytes \<Rightarrow> bytes \<Rightarrow> exn + bytes"
  cbc_decryptor :: "bytes \<Rightarrow> bytes \<Rightarrow> bytes \<Rightarrow> exn + bytes"
  ecb_encryptor :: "bytes \<Rightarrow> bytes \<Rightarrow> exn + bytes"
  ecb_decryptor :: "bytes \<Rightarrow> bytes \<Rightarrow> exn + bytes"

definition aes_key_size :: "bytes \<Rightarrow> bool" where
  "aes_key_size k \<longleftrightarrow> length k = 16 \<or> length k = 24 \<or> length k = 32"

definition cbc_laws :: "cipher \<Rightarrow> bool" where
  "cbc_laws A \<longleftrightarrow>
     (\<forall>key iv m. aes_key_size key \<and> length iv = 16 \<and> length m mod 16 = 0 \<longrightarrow>
        (\<exists>c. cbc_encryptor A key iv m = Inr c \<and> length c = length m \<and> cbc_decryptor A key iv c = Inr m))"

definition ecb_laws :: "cipher \<Rightarrow> bool" where
  "ecb_laws A \<longleftrightarrow>
     (\<forall>key m. aes_key_size key \<and> length m mod 16 = 0 \<longrightarrow>
        (\<exists>c. ecb_encryptor A key m = Inr c \<and> length c = length m \<and> ecb_decryptor A key c = Inr m))"

definition misaligned :: "bytes \<Rightarrow> exn" where
  "misaligned ciphertext = ProtocolError
     (''Failed to decrypt: ciphertext not block-aligned ('' @ dec_digits (length ciphertext) @ '')'')"

definition aes_cbc_encrypt_raw :: "cipher \<Rightarrow> bytes \<Rightarrow> bytes \<Rightarrow> bytes \<Rightarrow> exn + bytes" where
  "aes_cbc_encrypt_raw A key iv padded = cbc_encryptor A key iv padded"

definition aes_cbc_encrypt :: "cipher \<Rightarrow> bytes \<Rightarrow> bytes \<Rightarrow> bytes \<Rightarrow> exn + bytes" where
  "aes_cbc_encrypt A key iv plain = aes_cbc_encrypt_raw A key iv (pad_pkcs7 plain)"

definition aes_cbc_decrypt :: "cipher \<Rightarrow> bytes \<Rightarrow> bytes \<Rightarrow> bytes \<Rightarrow> exn + bytes" where
  "aes_cbc_decrypt A key iv ciphertext =
     (if ciphertext = [] \<or> length ciphertext mod AES_BLOCK_SIZE \<noteq> 0 then Inl (misaligned ciphertext)
      else andThen (cbc_decryptor A key iv ciphertext) unpad_pkcs7)"

definition aes_ecb_encrypt :: "cipher \<Rightarrow> bytes \<Rightarrow> bytes \<Rightarrow> exn + bytes" where
  "aes_ecb_encrypt A key plain = ecb_encryptor A key (pad_pkcs7 plain)"

definition aes_ecb_decrypt :: "cipher \<Rightarrow> bytes \<Rightarrow> bytes \<Rightarrow> exn + bytes" where
  "aes_ecb_decrypt A key ciphertext =
     (if ciphertext = [] \<or> length ciphertext mod AES_BLOCK_SIZE \<noteq> 0 then Inl (misaligned ciphertext)
      else andThen (ecb_decryptor A key ciphertext) unpad_pkcs7)"

section \<open>Media records\<close>

definition require_media_key :: "bytes \<Rightarrow> exn + unit" where
  "require_media_key key =
     (if length key \<noteq> MEDIA_KEY_SIZE
      then Inl (ProtocolError (''Failed to use media key: '' @ dec_digits (length key) @ '' bytes, want 16''))
      else Inr ())"

text \<open>The argument \<open>iv\<close> stands for the fresh \<^verbatim>\<open>secrets.token_bytes(AES_BLOCK_SIZE)\<close>.\<close>

definition encrypt_record :: "cipher \<Rightarrow> bytes \<Rightarrow> bytes \<Rightarrow> bytes \<Rightarrow> exn + bytes" where
  "encrypt_record A iv key plaintext =
     andThen (require_media_key key) (\<lambda>_.
     andThen (aes_cbc_encrypt_raw A key iv (pad_pkcs7 plaintext)) (\<lambda>c. Inr (iv @ c)))"

definition decrypt_record :: "cipher \<Rightarrow> bytes \<Rightarrow> bytes \<Rightarrow> exn + bytes" where
  "decrypt_record A key rec =
     andThen (require_media_key key) (\<lambda>_.
       if length rec < AES_BLOCK_SIZE * 2 \<or> length rec mod AES_BLOCK_SIZE \<noteq> 0
       then Inl (ProtocolError ''Failed to decrypt record: not IV plus whole AES blocks'')
       else aes_cbc_decrypt A key (slice rec 0 AES_BLOCK_SIZE) (drop AES_BLOCK_SIZE rec))"

definition ALPHANUMERIC :: string where
  "ALPHANUMERIC = ''ABCDEFGHIJKLMNOPQRSTUVWXYZabcdefghijklmnopqrstuvwxyz0123456789''"

text \<open>The argument lists the index of each \<^verbatim>\<open>secrets.choice\<close>, below 62.\<close>

definition random_alphanumeric :: "nat list \<Rightarrow> string" where
  "random_alphanumeric picks = map (\<lambda>i. ALPHANUMERIC ! i) picks"

section \<open>Round trips\<close>

lemma cbc_lawsE:
  assumes "cbc_laws A" "aes_key_size key" "length iv = 16" "length m mod 16 = 0"
  obtains c where "cbc_encryptor A key iv m = Inr c" "length c = length m" "cbc_decryptor A key iv c = Inr m"
  using assms(1) [unfolded cbc_laws_def, rule_format, of key iv m] assms(2-4) that by blast

lemma ecb_lawsE:
  assumes "ecb_laws A" "aes_key_size key" "length m mod 16 = 0"
  obtains c where "ecb_encryptor A key m = Inr c" "length c = length m" "ecb_decryptor A key c = Inr m"
  using assms(1) [unfolded ecb_laws_def, rule_format, of key m] assms(2,3) that by blast

lemma aes_key_size_16 [simp]: "length k = 16 \<Longrightarrow> aes_key_size k"
  by (simp add: aes_key_size_def)

lemma aes_cbc_roundtrip:
  assumes "cbc_laws A" "aes_key_size key" "length iv = 16"
  obtains c where "aes_cbc_encrypt A key iv p = Inr c" "length c = length (pad_pkcs7 p)"
    "aes_cbc_decrypt A key iv c = Inr p"
proof -
  obtain c where c: "cbc_encryptor A key iv (pad_pkcs7 p) = Inr c" "length c = length (pad_pkcs7 p)"
    "cbc_decryptor A key iv c = Inr (pad_pkcs7 p)"
    using cbc_lawsE [OF assms pad_pkcs7_aligned] by blast
  have "c \<noteq> []" using c(2) pad_pkcs7_nonempty(2) [of p] by auto
  with c show ?thesis
    by (intro that [of c])
      (simp_all add: aes_cbc_encrypt_def aes_cbc_encrypt_raw_def aes_cbc_decrypt_def AES_BLOCK_SIZE_def unpad_pad)
qed

lemma aes_ecb_roundtrip:
  assumes "ecb_laws A" "aes_key_size key"
  obtains c where "aes_ecb_encrypt A key p = Inr c" "length c = length (pad_pkcs7 p)"
    "aes_ecb_decrypt A key c = Inr p"
proof -
  obtain c where c: "ecb_encryptor A key (pad_pkcs7 p) = Inr c" "length c = length (pad_pkcs7 p)"
    "ecb_decryptor A key c = Inr (pad_pkcs7 p)"
    using ecb_lawsE [OF assms pad_pkcs7_aligned] by blast
  have "c \<noteq> []" using c(2) pad_pkcs7_nonempty(2) [of p] by auto
  with c show ?thesis
    by (intro that [of c])
      (simp_all add: aes_ecb_encrypt_def aes_ecb_decrypt_def AES_BLOCK_SIZE_def unpad_pad)
qed

lemma record_roundtrip:
  assumes "cbc_laws A" "length key = 16" "length iv = 16"
  obtains r where "encrypt_record A iv key p = Inr r" "length r = 16 + length (pad_pkcs7 p)"
    "decrypt_record A key r = Inr p"
proof -
  obtain c where c: "aes_cbc_encrypt A key iv p = Inr c" "length c = length (pad_pkcs7 p)"
    "aes_cbc_decrypt A key iv c = Inr p"
    using aes_cbc_roundtrip [OF assms(1) aes_key_size_16 [OF assms(2)] assms(3)] by blast
  have len: "32 \<le> length (iv @ c)" "length (iv @ c) mod 16 = 0"
    using c(2) assms(3) pad_pkcs7_nonempty(2) [of p] pad_pkcs7_aligned [of p] by simp_all
  have "encrypt_record A iv key p = Inr (iv @ c)"
    using c(1) assms(2)
    by (simp add: encrypt_record_def require_media_key_def MEDIA_KEY_SIZE_def aes_cbc_encrypt_def)
  moreover have "decrypt_record A key (iv @ c) = Inr p"
    using c(3) assms(2,3) len
    by (simp add: decrypt_record_def require_media_key_def MEDIA_KEY_SIZE_def AES_BLOCK_SIZE_def slices)
  ultimately show ?thesis
    using that [of "iv @ c"] c(2) assms(3) by simp
qed

text \<open>Every failure of the record layer with a key of the right size is one of the SDK's own
  protocol errors, as long as the cipher accepts keys and IVs of AES sizes.\<close>

lemma unpad_errors: "unpad_pkcs7 q = Inl e \<Longrightarrow> is_tuya_error e"
  by (auto simp: unpad_pkcs7_def Let_def split: if_splits)

lemma decrypt_record_errors:
  assumes "\<And>iv c. length iv = 16 \<Longrightarrow> length c mod 16 = 0 \<Longrightarrow> \<exists>m. cbc_decryptor A key iv c = Inr m"
    and "decrypt_record A key r = Inl e"
  shows "is_tuya_error e"
proof (cases "length key = 16 \<and> 32 \<le> length r \<and> length r mod 16 = 0")
  case False
  with assms(2) show ?thesis
    by (auto simp: decrypt_record_def require_media_key_def MEDIA_KEY_SIZE_def AES_BLOCK_SIZE_def
        split: if_splits)
next
  case True
  then have "\<exists>m. cbc_decryptor A key (slice r 0 16) (drop 16 r) = Inr m"
    by (intro assms(1)) (auto simp: lengths mod_eq_0_iff_dvd)
  then obtain m where "cbc_decryptor A key (slice r 0 16) (drop 16 r) = Inr m" by blast
  with assms(2) True show ?thesis
    by (auto simp: decrypt_record_def require_media_key_def MEDIA_KEY_SIZE_def AES_BLOCK_SIZE_def
        aes_cbc_decrypt_def misaligned_def unpad_errors split: if_splits)
qed

section \<open>A concrete cipher\<close>

text \<open>A cipher that meets the laws, to evaluate the development at concrete inputs: it checks
  the sizes AES checks and flips bits of every byte.\<close>

definition flip_cipher :: cipher where
  "flip_cipher =
     (let cbc = (\<lambda>key iv m. if aes_key_size key \<and> length iv = 16 \<and> length m mod 16 = 0
                  then Inr (map (\<lambda>b. b XOR 0x5A) m) else Inl ValueError);
          ecb = (\<lambda>key m. if aes_key_size key \<and> length m mod 16 = 0
                  then Inr (map (\<lambda>b. b XOR 0x5A) m) else Inl ValueError)
      in \<lparr>cbc_encryptor = cbc, cbc_decryptor = cbc, ecb_encryptor = ecb, ecb_decryptor = ecb\<rparr>)"

lemma flip_twice: "map (\<lambda>b. b XOR 0x5A) (map (\<lambda>b. b XOR 0x5A) m) = (m :: bytes)"
  by (simp add: comp_def xor.assoc)

lemma flip_cipher_cbc: "cbc_laws flip_cipher"
  using flip_twice by (simp add: cbc_laws_def flip_cipher_def Let_def comp_def)

lemma flip_cipher_ecb: "ecb_laws flip_cipher"
  using flip_twice by (simp add: ecb_laws_def flip_cipher_def Let_def comp_def)

end
