(* ===== verification/Json_Types.thy ===== *)
theory Json_Types
  imports Hashes
begin

text \<open>
  Models \<^verbatim>\<open>src/tuya_ipc_p2p_sdk/json_types.py\<close>: the JSON values that cross the gateway and
  the signaling channel, the accessors that narrow them, and the serializer and parser of the
  Python standard library the two entry points \<open>dump_json\<close> and \<open>parse_json_object\<close> call.

  An object is the association list of its members in insertion order. A float is kept as its
  literal, since no operation of the SDK computes with one. The parser follows
  \<^verbatim>\<open>json.loads\<close>: strict strings, the escapes, numbers without leading zeros, the
  constants \<^verbatim>\<open>NaN\<close> and \<^verbatim>\<open>Infinity\<close>, integers of at most 4300 digits, the last
  value of a repeated key. Text is limited to code points up to 255, the characters HOL has:
  what decodes to a larger one ends in \<open>beyond_model\<close>, which no theorem relies on. Nesting
  deeper than the interpreter's recursion limit is not modelled. The fuel of the parser, twice
  the length of the document, is never exhausted (\<open>parse_json_fuel\<close>).
\<close>

section \<open>Values\<close>

datatype json =
    JNull
  | JBool bool
  | JInt int
  | JFloat string
  | JStr string
  | JList "json list"
  | JObj "(string \<times> json) list"

type_synonym json_object = "(string \<times> json) list"

text \<open>\<^verbatim>\<open>d[k] = v\<close> keeps the place of a key that is already there.\<close>

fun dict_set :: "string \<Rightarrow> 'a \<Rightarrow> (string \<times> 'a) list \<Rightarrow> (string \<times> 'a) list" where
  "dict_set k v [] = [(k, v)]"
| "dict_set k v ((k', v') # d) = (if k' = k then (k, v) # d else (k', v') # dict_set k v d)"

definition dict_update :: "(string \<times> 'a) list \<Rightarrow> (string \<times> 'a) list \<Rightarrow> (string \<times> 'a) list" where
  "dict_update d e = foldl (\<lambda>d kv. dict_set (fst kv) (snd kv) d) d e"

lemma map_of_dict_set [simp]: "map_of (dict_set k v d) = (map_of d)(k \<mapsto> v)"
  by (induction d) auto

lemma dict_set_keys: "set (map fst (dict_set k v d)) = insert k (set (map fst d))"
  by (induction k v d rule: dict_set.induct) auto

lemma distinct_dict_set: "distinct (map fst d) \<Longrightarrow> distinct (map fst (dict_set k v d))"
proof (induction d)
  case Nil
  then show ?case by simp
next
  case (Cons kv d)
  then show ?case
    using dict_set_keys [of k v d] by (cases kv) (auto simp del: set_map)
qed

lemma dict_set_fresh: "k \<notin> set (map fst d) \<Longrightarrow> dict_set k v d = d @ [(k, v)]"
  by (induction d) auto

lemma map_of_dict_update: "distinct (map fst e) \<Longrightarrow> map_of (dict_update d e) = map_of d ++ map_of e"
proof (induction e arbitrary: d)
  case Nil
  then show ?case by (simp add: dict_update_def)
next
  case (Cons kv e)
  obtain k v where kv: "kv = (k, v)" by (cases kv)
  have "map_of (dict_update d (kv # e)) = map_of (dict_update (dict_set k v d) e)"
    by (simp add: dict_update_def kv)
  also have "\<dots> = (map_of d)(k \<mapsto> v) ++ map_of e"
    using Cons by simp
  also have "\<dots> = map_of d ++ map_of (kv # e)"
  proof -
    have "map_of e k = None"
      using Cons.prems by (simp add: kv map_of_eq_None_iff)
    then show ?thesis
      by (auto simp: kv map_add_def fun_eq_iff split: option.splits)
  qed
  finally show ?case .
qed

lemma dict_update_fresh: "distinct (map fst (d @ e)) \<Longrightarrow> dict_update d e = d @ e"
proof (induction e arbitrary: d)
  case Nil
  then show ?case by (simp add: dict_update_def)
next
  case (Cons kv e)
  have "dict_update d (kv # e) = dict_update (d @ [kv]) e"
    using Cons.prems by (simp add: dict_update_def dict_set_fresh)
  with Cons show ?case by simp
qed

section \<open>Accessors\<close>

definition optional_object :: "json_object \<Rightarrow> string \<Rightarrow> json_object option" where
  "optional_object source key = (case map_of source key of Some (JObj ms) \<Rightarrow> Some ms | _ \<Rightarrow> None)"

definition require_object :: "json_object \<Rightarrow> string \<Rightarrow> exn + json_object" where
  "require_object source key =
     from_option (ProtocolError (''Failed to read '' @ key @ '': not an object''))
       (optional_object source key)"

definition optional_str :: "json_object \<Rightarrow> string \<Rightarrow> string option" where
  "optional_str source key =
     (case map_of source key of Some (JStr s) \<Rightarrow> (if s = [] then None else Some s) | _ \<Rightarrow> None)"

definition require_str :: "json_object \<Rightarrow> string \<Rightarrow> exn + string" where
  "require_str source key =
     from_option (ProtocolError (''Failed to read '' @ key @ '': not a non-empty string''))
       (optional_str source key)"

definition optional_int :: "json_object \<Rightarrow> string \<Rightarrow> int option" where
  "optional_int source key = (case map_of source key of Some (JInt i) \<Rightarrow> Some i | _ \<Rightarrow> None)"

fun as_object :: "json \<Rightarrow> json_object option" where
  "as_object (JObj ms) = Some ms"
| "as_object _ = None"

fun as_str :: "json \<Rightarrow> string option" where
  "as_str (JStr s) = Some s"
| "as_str _ = None"

definition object_list :: "json_object \<Rightarrow> string \<Rightarrow> json_object list" where
  "object_list source key =
     (case map_of source key of Some (JList vs) \<Rightarrow> List.map_filter as_object vs | _ \<Rightarrow> [])"

definition str_list :: "json_object \<Rightarrow> string \<Rightarrow> string list" where
  "str_list source key =
     (case map_of source key of Some (JList vs) \<Rightarrow> List.map_filter as_str vs | _ \<Rightarrow> [])"

lemma require_str_Inr: "require_str d k = Inr s \<longleftrightarrow> map_of d k = Some (JStr s) \<and> s \<noteq> []"
  by (auto simp: require_str_def optional_str_def split: option.splits json.splits)

lemma require_str_Inl: "require_str d k = Inl e \<Longrightarrow> is_tuya_error e"
  by (auto simp: require_str_def split: option.splits elim: from_option.elims)

lemma require_object_Inr: "require_object d k = Inr ms \<longleftrightarrow> map_of d k = Some (JObj ms)"
  by (auto simp: require_object_def optional_object_def split: option.splits json.splits)

section \<open>Serializing\<close>

text \<open>\<^verbatim>\<open>json.dumps\<close> with compact separators: everything outside the printable ASCII
  range is escaped.\<close>

definition escape_code :: "nat \<Rightarrow> string" where
  "escape_code n = [CHR 0x5C, CHR ''u'', hex_digit (n div 4096 mod 16), hex_digit (n div 256 mod 16),
     hex_digit (n div 16 mod 16), hex_digit (n mod 16)]"

definition escape_char :: "char \<Rightarrow> string" where
  "escape_char c =
     (if c = CHR 0x22 then [CHR 0x5C, CHR 0x22]
      else if c = CHR 0x5C then [CHR 0x5C, CHR 0x5C]
      else if c = CHR 0x0A then [CHR 0x5C, CHR ''n'']
      else if c = CHR 0x0D then [CHR 0x5C, CHR ''r'']
      else if c = CHR 0x09 then [CHR 0x5C, CHR ''t'']
      else if c = CHR 0x0C then [CHR 0x5C, CHR ''f'']
      else if c = CHR 0x08 then [CHR 0x5C, CHR ''b'']
      else if (32 :: nat) \<le> of_char c \<and> of_char c \<le> (126 :: nat) then [c]
      else escape_code (of_char c))"

definition dump_string :: "string \<Rightarrow> string" where
  "dump_string s = CHR 0x22 # concat (map escape_char s) @ [CHR 0x22]"

fun dump_int :: "int \<Rightarrow> string" where
  "dump_int i = (if i < 0 then CHR ''-'' # dec_digits (nat (- i)) else dec_digits (nat i))"

fun join :: "string \<Rightarrow> string list \<Rightarrow> string" where
  "join sep [] = []"
| "join sep [x] = x"
| "join sep (x # y # ys) = x @ sep @ join sep (y # ys)"

fun dumps :: "json \<Rightarrow> string" where
  "dumps JNull = ''null''"
| "dumps (JBool b) = (if b then ''true'' else ''false'')"
| "dumps (JInt i) = dump_int i"
| "dumps (JFloat s) = s"
| "dumps (JStr s) = dump_string s"
| "dumps (JList vs) = ''['' @ join '','' (map dumps vs) @ '']''"
| "dumps (JObj ms) = ''{'' @ join '','' (map (\<lambda>kv. dump_string (fst kv) @ '':'' @ dumps (snd kv)) ms) @ ''}''"

definition dump_json :: "json \<Rightarrow> bytes" where
  "dump_json v = str_encode (dumps v)"

section \<open>Parsing\<close>

definition beyond_model :: exn where
  "beyond_model = OtherError ''code point above 255''"

definition is_ws :: "char \<Rightarrow> bool" where
  "is_ws c \<longleftrightarrow> c = CHR '' '' \<or> c = CHR 0x09 \<or> c = CHR 0x0A \<or> c = CHR 0x0D"

definition skip_ws :: "string \<Rightarrow> string" where
  "skip_ws s = dropWhile is_ws s"

definition is_digit :: "char \<Rightarrow> bool" where
  "is_digit c \<longleftrightarrow> (48 :: nat) \<le> of_char c \<and> of_char c \<le> (57 :: nat)"

definition hex_value :: "char \<Rightarrow> nat option" where
  "hex_value c =
     (let n = of_char c :: nat
      in if 48 \<le> n \<and> n \<le> 57 then Some (n - 48)
         else if 97 \<le> n \<and> n \<le> 102 then Some (n - 87)
         else if 65 \<le> n \<and> n \<le> 70 then Some (n - 55) else None)"

fun hex4 :: "string \<Rightarrow> (nat \<times> string) option" where
  "hex4 (a # b # c # d # r) =
     (case (hex_value a, hex_value b, hex_value c, hex_value d) of
        (Some x, Some y, Some z, Some w) \<Rightarrow> Some (4096 * x + 256 * y + 16 * z + w, r)
      | _ \<Rightarrow> None)"
| "hex4 _ = None"

definition unescape :: "char \<Rightarrow> char option" where
  "unescape c =
     (if c = CHR 0x22 \<or> c = CHR 0x5C \<or> c = CHR ''/'' then Some c
      else if c = CHR ''b'' then Some (CHR 0x08)
      else if c = CHR ''f'' then Some (CHR 0x0C)
      else if c = CHR ''n'' then Some (CHR 0x0A)
      else if c = CHR ''r'' then Some (CHR 0x0D)
      else if c = CHR ''t'' then Some (CHR 0x09)
      else None)"

text \<open>One character of a string literal: \<open>None\<close> for the closing quote.\<close>

definition string_step :: "string \<Rightarrow> exn + char option \<times> string" where
  "string_step s =
     (case s of
        [] \<Rightarrow> Inl ValueError
      | c # r \<Rightarrow>
          if c = CHR 0x22 then Inr (None, r)
          else if c \<noteq> CHR 0x5C then (if of_char c < (32 :: nat) then Inl ValueError else Inr (Some c, r))
          else (case r of
              [] \<Rightarrow> Inl ValueError
            | e # r' \<Rightarrow>
                if e = CHR ''u'' then
                  (case hex4 r' of
                     None \<Rightarrow> Inl ValueError
                   | Some (n, r'') \<Rightarrow> if n < 256 then Inr (Some (char_of n), r'') else Inl beyond_model)
                else (case unescape e of None \<Rightarrow> Inl ValueError | Some x \<Rightarrow> Inr (Some x, r'))))"

lemma hex4_length: "hex4 s = Some (n, r) \<Longrightarrow> length r < length s"
  by (induction s rule: hex4.induct) (auto split: option.splits)

lemma string_step_length: "string_step s = Inr (x, r) \<Longrightarrow> length r < length s"
  by (auto simp: string_step_def split: list.splits if_splits option.splits dest!: hex4_length)

function parse_string :: "string \<Rightarrow> exn + string \<times> string" where
  "parse_string s =
     (case string_step s of
        Inl e \<Rightarrow> Inl e
      | Inr (None, r) \<Rightarrow> Inr ([], r)
      | Inr (Some c, r) \<Rightarrow> andThen (parse_string r) (\<lambda>tr. Inr (c # fst tr, snd tr)))"
  by pat_completeness auto
termination
  by (relation "measure length") (auto dest: string_step_length)

declare parse_string.simps [simp del]

fun dec_value :: "string \<Rightarrow> nat" where
  "dec_value s = foldl (\<lambda>n c. 10 * n + (of_char c - 48)) 0 s"

definition MAX_INT_DIGITS :: nat where "MAX_INT_DIGITS = 4300"

text \<open>The integer part of a number, with its text; \<open>None\<close> where no number starts.\<close>

definition scan_integer :: "string \<Rightarrow> (string \<times> string) option" where
  "scan_integer s =
     (let sign = takeWhile (\<lambda>c. c = CHR ''-'') (take 1 s);
          body = drop (length sign) s;
          digits = takeWhile is_digit body
      in if digits = [] then None
         else if hd digits = CHR ''0'' then Some (sign @ ''0'', drop 1 body)
         else Some (sign @ digits, drop (length digits) body))"

definition scan_fraction :: "string \<Rightarrow> string \<times> string" where
  "scan_fraction s =
     (let digits = takeWhile is_digit (drop 1 s)
      in if take 1 s = ''.'' \<and> digits \<noteq> [] then (''.'' @ digits, drop (Suc (length digits)) s)
         else ([], s))"

definition scan_exponent :: "string \<Rightarrow> string \<times> string" where
  "scan_exponent s =
     (let sign = takeWhile (\<lambda>c. c = CHR ''-'' \<or> c = CHR ''+'') (take 1 (drop 1 s));
          digits = takeWhile is_digit (drop (1 + length sign) s)
      in if (take 1 s = ''e'' \<or> take 1 s = ''E'') \<and> digits \<noteq> []
         then (take 1 s @ sign @ digits, drop (1 + length sign + length digits) s) else ([], s))"

definition int_of_literal :: "string \<Rightarrow> exn + int" where
  "int_of_literal t =
     (let digits = dropWhile (\<lambda>c. c = CHR ''-'') t
      in if length digits > MAX_INT_DIGITS then Inl ValueError
         else if take 1 t = ''-'' then Inr (- int (dec_value digits)) else Inr (int (dec_value digits)))"

definition parse_number :: "string \<Rightarrow> exn + json \<times> string" where
  "parse_number s =
     (case scan_integer s of
        None \<Rightarrow> Inl ValueError
      | Some (t, r) \<Rightarrow>
          (let (f, r1) = scan_fraction r; (x, r2) = scan_exponent r1
           in if f = [] \<and> x = [] then andThen (int_of_literal t) (\<lambda>i. Inr (JInt i, r))
              else Inr (JFloat (t @ f @ x), r2)))"

fun after_prefix :: "string \<Rightarrow> string \<Rightarrow> string option" where
  "after_prefix [] s = Some s"
| "after_prefix (p # ps) (c # cs) = (if p = c then after_prefix ps cs else None)"
| "after_prefix (p # ps) [] = None"

definition parse_literal :: "string \<Rightarrow> exn + json \<times> string" where
  "parse_literal s =
     (case after_prefix ''null'' s of Some r \<Rightarrow> Inr (JNull, r) | None \<Rightarrow>
     (case after_prefix ''true'' s of Some r \<Rightarrow> Inr (JBool True, r) | None \<Rightarrow>
     (case after_prefix ''false'' s of Some r \<Rightarrow> Inr (JBool False, r) | None \<Rightarrow>
     (case parse_number s of Inr x \<Rightarrow> Inr x | Inl e \<Rightarrow>
     (case after_prefix ''NaN'' s of Some r \<Rightarrow> Inr (JFloat ''NaN'', r) | None \<Rightarrow>
     (case after_prefix ''Infinity'' s of Some r \<Rightarrow> Inr (JFloat ''Infinity'', r) | None \<Rightarrow>
     (case after_prefix ''-Infinity'' s of Some r \<Rightarrow> Inr (JFloat ''-Infinity'', r) | None \<Rightarrow> Inl e)))))))"

text \<open>Values, the items of a list up to its bracket, and the members of an object up to its
  brace.\<close>

definition fuel_error :: exn where "fuel_error = RuntimeError ''fuel''"

fun parse_value :: "nat \<Rightarrow> string \<Rightarrow> exn + json \<times> string"
and parse_items :: "nat \<Rightarrow> string \<Rightarrow> exn + json list \<times> string"
and parse_members :: "nat \<Rightarrow> string \<Rightarrow> exn + (string \<times> json) list \<times> string" where
  "parse_value 0 s = Inl fuel_error"
| "parse_value (Suc n) s =
     (case s of
        [] \<Rightarrow> Inl ValueError
      | c # r \<Rightarrow>
          if c = CHR 0x22 then andThen (parse_string r) (\<lambda>tr. Inr (JStr (fst tr), snd tr))
          else if c = CHR ''{'' then
            (case after_prefix ''}'' (skip_ws r) of
               Some r' \<Rightarrow> Inr (JObj [], r')
             | None \<Rightarrow> andThen (parse_members n (skip_ws r)) (\<lambda>mr. Inr (JObj (dict_update [] (fst mr)), snd mr)))
          else if c = CHR ''['' then
            (case after_prefix '']'' (skip_ws r) of
               Some r' \<Rightarrow> Inr (JList [], r')
             | None \<Rightarrow> andThen (parse_items n (skip_ws r)) (\<lambda>vr. Inr (JList (fst vr), snd vr)))
          else parse_literal (c # r))"
| "parse_items 0 s = Inl fuel_error"
| "parse_items (Suc n) s =
     andThen (parse_value n s) (\<lambda>vr.
       let r = skip_ws (snd vr) in
       case after_prefix '']'' r of
         Some r' \<Rightarrow> Inr ([fst vr], r')
       | None \<Rightarrow>
           (case after_prefix '','' r of
              None \<Rightarrow> Inl ValueError
            | Some r' \<Rightarrow> andThen (parse_items n (skip_ws r')) (\<lambda>wr. Inr (fst vr # fst wr, snd wr))))"
| "parse_members 0 s = Inl fuel_error"
| "parse_members (Suc n) s =
     (case after_prefix [CHR 0x22] s of
        None \<Rightarrow> Inl ValueError
      | Some r \<Rightarrow>
          andThen (parse_string r) (\<lambda>kr.
            case after_prefix '':'' (skip_ws (snd kr)) of
              None \<Rightarrow> Inl ValueError
            | Some r1 \<Rightarrow>
                andThen (parse_value n (skip_ws r1)) (\<lambda>vr.
                  let r2 = skip_ws (snd vr) in
                  case after_prefix ''}'' r2 of
                    Some r' \<Rightarrow> Inr ([(fst kr, fst vr)], r')
                  | None \<Rightarrow>
                      (case after_prefix '','' r2 of
                         None \<Rightarrow> Inl ValueError
                       | Some r3 \<Rightarrow>
                           andThen (parse_members n (skip_ws r3))
                             (\<lambda>mr. Inr ((fst kr, fst vr) # fst mr, snd mr))))))"

definition json_fuel :: "string \<Rightarrow> nat" where
  "json_fuel s = 2 * length s + 1"

text \<open>A document is one value between white space.\<close>

definition loads :: "string \<Rightarrow> exn + json" where
  "loads s =
     andThen (parse_value (json_fuel (skip_ws s)) (skip_ws s))
       (\<lambda>vr. if skip_ws (snd vr) = [] then Inr (fst vr) else Inl ValueError)"

text \<open>\<^verbatim>\<open>bytes\<close> are decoded first, as UTF-8 unless a byte-order mark or a zero byte in front
  says otherwise.\<close>

definition is_continuation :: "byte \<Rightarrow> bool" where
  "is_continuation b \<longleftrightarrow> 0x80 \<le> b \<and> b < 0xC0"

fun utf8_decode :: "bytes \<Rightarrow> exn + string" where
  "utf8_decode [] = Inr []"
| "utf8_decode (b # bs) =
     (if b < 0x80 then andThen (utf8_decode bs) (\<lambda>s. Inr (char_of (unat b) # s))
      else if 0xC2 \<le> b \<and> b < 0xE0 then
        (case bs of
           c # cs \<Rightarrow>
             if \<not> is_continuation c then Inl ValueError
             else if 0xC4 \<le> b then Inl beyond_model
             else andThen (utf8_decode cs)
               (\<lambda>s. Inr (char_of (64 * (unat b - 192) + (unat c - 128)) # s))
         | [] \<Rightarrow> Inl ValueError)
      else if 0xE0 \<le> b \<and> b < 0xF0 then
        (if 2 \<le> length bs \<and> list_all is_continuation (take 2 bs) \<and> (b = 0xE0 \<longrightarrow> 0xA0 \<le> hd bs)
         then Inl beyond_model else Inl ValueError)
      else if 0xF0 \<le> b \<and> b < 0xF5 then
        (if 3 \<le> length bs \<and> list_all is_continuation (take 3 bs)
            \<and> (b = 0xF0 \<longrightarrow> 0x90 \<le> hd bs) \<and> (b = 0xF4 \<longrightarrow> hd bs < 0x90)
         then Inl beyond_model else Inl ValueError)
      else Inl ValueError)"

definition decode_document :: "bytes \<Rightarrow> exn + string" where
  "decode_document raw =
     (if take 3 raw = [0xEF, 0xBB, 0xBF] then utf8_decode (drop 3 raw)
      else if take 2 raw = [0xFF, 0xFE] \<or> take 2 raw = [0xFE, 0xFF] \<or> 0 \<in> set (take 2 raw)
        \<and> (length raw = 2 \<or> 4 \<le> length raw) then Inl beyond_model
      else utf8_decode raw)"

definition parse_json_object_str :: "string \<Rightarrow> exn + json_object" where
  "parse_json_object_str s =
     (case loads s of
        Inl ValueError \<Rightarrow> Inl (ProtocolError ''Failed to parse JSON: '')
      | Inl e \<Rightarrow> Inl e
      | Inr (JObj ms) \<Rightarrow> Inr ms
      | Inr _ \<Rightarrow> Inl (ProtocolError ''Failed to parse JSON: top level is not an object''))"

definition parse_json_object :: "bytes \<Rightarrow> exn + json_object" where
  "parse_json_object raw =
     (case decode_document raw of
        Inl ValueError \<Rightarrow> Inl (ProtocolError ''Failed to parse JSON: '')
      | Inl e \<Rightarrow> Inl e
      | Inr s \<Rightarrow> parse_json_object_str s)"

section \<open>The fuel is enough\<close>

lemma after_prefix_Some: "after_prefix p s = Some r \<longleftrightarrow> s = p @ r"
  by (induction p s rule: after_prefix.induct) auto

lemma skip_ws_length: "length (skip_ws s) \<le> length s"
  by (simp add: skip_ws_def length_dropWhile_le)

definition json_error :: "exn \<Rightarrow> bool" where
  "json_error e \<longleftrightarrow> e = ValueError \<or> e = beyond_model"

lemma json_error_simps [simp]: "json_error ValueError" "json_error beyond_model" "\<not> json_error fuel_error"
  by (simp_all add: json_error_def fuel_error_def beyond_model_def)

lemma string_step_errors: "string_step s = Inl e \<Longrightarrow> json_error e"
  by (auto simp: string_step_def split: list.splits if_splits option.splits)

lemma parse_string_length: "parse_string s = Inr (t, r) \<Longrightarrow> length r < length s"
proof (induction s arbitrary: t r rule: parse_string.induct)
  case (1 s)
  show ?case
  proof (cases "string_step s")
    case (Inl e)
    with "1.prems" show ?thesis by (simp add: parse_string.simps [of s])
  next
    case (Inr xr)
    obtain x q where xr: "xr = (x, q)" by (cases xr)
    then have q: "length q < length s"
      using Inr string_step_length by blast
    show ?thesis
    proof (cases x)
      case None
      with Inr xr q "1.prems" show ?thesis by (simp add: parse_string.simps [of s])
    next
      case (Some c)
      then obtain u where "parse_string q = Inr (u, r)"
        using Inr xr "1.prems" by (auto simp: parse_string.simps [of s] andThen_Inr_iff)
      with "1.IH" Inr xr Some have "length r < length q" by blast
      with q show ?thesis by simp
    qed
  qed
qed

lemma parse_string_errors: "parse_string s = Inl e \<Longrightarrow> json_error e"
proof (induction s rule: parse_string.induct)
  case (1 s)
  then show ?case
    by (auto dest: string_step_errors simp: parse_string.simps [of s] andThen_Inl_iff split: sum.splits option.splits)
qed

lemma int_of_literal_errors: "int_of_literal t = Inl e \<Longrightarrow> json_error e"
  by (auto simp: int_of_literal_def Let_def split: if_splits)

lemma scan_integer_length: "scan_integer s = Some (t, r) \<Longrightarrow> length r < length s"
  by (cases s) (auto simp: scan_integer_def Let_def split: if_splits)

lemma scan_fraction_length: "length (snd (scan_fraction s)) \<le> length s"
  by (simp add: scan_fraction_def Let_def)

lemma scan_exponent_length: "length (snd (scan_exponent s)) \<le> length s"
  by (simp add: scan_exponent_def Let_def)

lemma parse_number_length:
  assumes "parse_number s = Inr (v, r)"
  shows "length r < length s"
proof -
  from assms obtain t q where t: "scan_integer s = Some (t, q)"
    by (auto simp: parse_number_def split: option.splits)
  have "length r \<le> length q"
    using assms t scan_fraction_length [of q] scan_exponent_length [of "snd (scan_fraction q)"]
    by (auto simp: parse_number_def andThen_Inr_iff split: prod.splits if_splits)
  with scan_integer_length [OF t] show ?thesis by simp
qed

lemma parse_number_errors: "parse_number s = Inl e \<Longrightarrow> json_error e"
  by (auto simp: parse_number_def Let_def andThen_Inl_iff dest: int_of_literal_errors
      split: option.splits prod.splits if_splits)

lemma parse_literal_length: "parse_literal s = Inr (v, r) \<Longrightarrow> length r < length s"
  by (auto simp: parse_literal_def after_prefix_Some split: option.splits sum.splits dest: parse_number_length)

lemma parse_literal_errors: "parse_literal s = Inl e \<Longrightarrow> json_error e"
  by (auto simp: parse_literal_def dest: parse_number_errors split: option.splits sum.splits)

text \<open>A parser that neither runs out of fuel nor returns more than a proper suffix.\<close>

definition consumes :: "string \<Rightarrow> exn + 'a \<times> string \<Rightarrow> bool" where
  "consumes s m \<longleftrightarrow> (case m of Inl e \<Rightarrow> json_error e | Inr x \<Rightarrow> length (snd x) < length s)"

lemma consumes_Inl [simp]: "consumes s (Inl ValueError)"
  by (simp add: consumes_def)

lemma consumes_Inr [simp]: "consumes s (Inr x) \<longleftrightarrow> length (snd x) < length s"
  by (simp add: consumes_def)

lemma consumes_mono: "consumes s m \<Longrightarrow> length s \<le> length s' \<Longrightarrow> consumes s' m"
  by (auto simp: consumes_def split: sum.splits)

lemma consumes_bind:
  "consumes s m \<Longrightarrow> (\<And>x. m = Inr x \<Longrightarrow> length (snd x) < length s \<Longrightarrow> consumes s' (f x)) \<Longrightarrow>
     consumes s' (andThen m f)"
  by (cases m) (auto simp: consumes_def)

lemma consumes_string: "consumes s (parse_string s)"
  using parse_string_errors [of s] parse_string_length [of s]
  by (auto simp: consumes_def split: sum.splits)

lemma consumes_literal: "consumes s (parse_literal s)"
  using parse_literal_errors [of s] parse_literal_length [of s]
  by (auto simp: consumes_def split: sum.splits)

lemma skip_ws_rest: "after_prefix [c] (skip_ws r) = Some q \<Longrightarrow> length q < length r"
  using skip_ws_length [of r] by (simp add: after_prefix_Some)

lemma skip_ws_rest_less: "after_prefix [c] (skip_ws r) = Some q \<Longrightarrow> length r < m \<Longrightarrow> length q < m"
  using skip_ws_rest [of c r q] by simp

lemma parse_consumes:
  "2 * length s < n \<Longrightarrow> consumes s (parse_value n s)"
  "2 * length s + 1 < n \<Longrightarrow> consumes s (parse_items n s)"
  "2 * length s + 1 < n \<Longrightarrow> consumes s (parse_members n s)"
proof (induction n arbitrary: s)
  case 0
  { case 1 then show ?case by simp
  next case 2 then show ?case by simp
  next case 3 then show ?case by simp }
next
  case (Suc n)
  {
    case 1
    show ?case
    proof (cases s)
      case Nil
      then show ?thesis by simp
    next
      case (Cons c r)
      have r: "length (skip_ws r) \<le> length r" by (rule skip_ws_length)
      have m: "consumes (skip_ws r) (parse_members n (skip_ws r))"
        and i: "consumes (skip_ws r) (parse_items n (skip_ws r))"
        using 1 r Suc.IH(2,3) [of "skip_ws r"] by (simp_all add: Cons)
      have "consumes s (andThen (parse_members n (skip_ws r)) (\<lambda>mr. Inr (JObj (dict_update [] (fst mr)), snd mr)))"
        by (rule consumes_bind [OF m]) (use r in \<open>simp add: Cons\<close>)
      moreover have "consumes s (andThen (parse_items n (skip_ws r)) (\<lambda>vr. Inr (JList (fst vr), snd vr)))"
        by (rule consumes_bind [OF i]) (use r in \<open>simp add: Cons\<close>)
      moreover have "consumes s (andThen (parse_string r) (\<lambda>tr. Inr (JStr (fst tr), snd tr)))"
        by (rule consumes_bind [OF consumes_string]) (simp add: Cons)
      ultimately show ?thesis
        using consumes_literal [of s] by (auto simp: Cons dest: skip_ws_rest split: option.splits)
    qed
  next
    case 2
    have v: "consumes s (parse_value n s)"
      using 2 Suc.IH(1) [of s] by simp
    show ?case
      unfolding parse_items.simps
    proof (rule consumes_bind [OF v])
      fix x :: "json \<times> string" assume x: "length (snd x) < length s"
      show "consumes s (let r = skip_ws (snd x) in
          case after_prefix '']'' r of Some r' \<Rightarrow> Inr ([fst x], r')
          | None \<Rightarrow> (case after_prefix '','' r of None \<Rightarrow> Inl ValueError
            | Some r' \<Rightarrow> andThen (parse_items n (skip_ws r')) (\<lambda>wr. Inr (fst x # fst wr, snd wr))))"
        (is "consumes s ?m")
      proof -
        have "consumes s (andThen (parse_items n (skip_ws r')) (\<lambda>wr. Inr (fst x # fst wr, snd wr)))"
          if "after_prefix '','' (skip_ws (snd x)) = Some r'" for r'
        proof -
          have l: "length (skip_ws r') \<le> length r'" "length r' < length (snd x)"
            using skip_ws_length skip_ws_rest [OF that] by auto
          then have "consumes (skip_ws r') (parse_items n (skip_ws r'))"
            using 2 x Suc.IH(2) [of "skip_ws r'"] by simp
          then show ?thesis
            by (rule consumes_bind) (use l x in simp)
        qed
        then show ?thesis
          using x by (auto simp: Let_def split: option.splits dest: skip_ws_rest)
      qed
    qed
  next
    case 3
    have mem: "consumes s (andThen (parse_members n (skip_ws r3)) f)"
      if "after_prefix '','' (skip_ws q) = Some r3" "length q < length s" "\<And>x. length (snd x) < length s \<Longrightarrow> consumes s (f x)"
      for q r3 and f :: "(string \<times> json) list \<times> string \<Rightarrow> exn + (string \<times> json) list \<times> string"
    proof -
      have l: "length (skip_ws r3) \<le> length r3" "length r3 < length q"
        using skip_ws_length skip_ws_rest [OF that(1)] by auto
      then have "consumes (skip_ws r3) (parse_members n (skip_ws r3))"
        using 3 that(2) Suc.IH(3) [of "skip_ws r3"] by simp
      then show ?thesis
        by (rule consumes_bind) (use l that(2,3) in simp)
    qed
    have val: "consumes s (andThen (parse_value n (skip_ws r1)) f)"
      if "after_prefix '':'' (skip_ws q) = Some r1" "length q < length s" "\<And>x. length (snd x) < length s \<Longrightarrow> consumes s (f x)"
      for q r1 and f :: "json \<times> string \<Rightarrow> exn + (string \<times> json) list \<times> string"
    proof -
      have l: "length (skip_ws r1) \<le> length r1" "length r1 < length q"
        using skip_ws_length skip_ws_rest [OF that(1)] by auto
      then have "consumes (skip_ws r1) (parse_value n (skip_ws r1))"
        using 3 that(2) Suc.IH(1) [of "skip_ws r1"] by simp
      then show ?thesis
        by (rule consumes_bind) (use l that(2,3) in simp)
    qed
    show ?case
    proof (cases "after_prefix [CHR 0x22] s")
      case None
      then show ?thesis by simp
    next
      case (Some r)
      then have r: "length r < length s" by (simp add: after_prefix_Some)
      show ?thesis
        unfolding parse_members.simps Some option.case
        by (rule consumes_bind [OF consumes_string])
          (use r in \<open>auto elim!: val mem simp: Let_def split: option.splits elim: skip_ws_rest_less\<close>)
    qed
  }
qed

lemma parse_json_fuel: "loads s = Inl e \<Longrightarrow> json_error e"
  using parse_consumes(1) [of "skip_ws s" "json_fuel (skip_ws s)"]
  by (auto simp: loads_def json_fuel_def consumes_def andThen_Inl_iff split: sum.splits if_splits)

lemma utf8_decode_errors: "utf8_decode bs = Inl e \<Longrightarrow> json_error e"
  by (induction bs rule: utf8_decode.induct)
    (auto simp: andThen_Inl_iff split: if_splits list.splits)

section \<open>Parsing what was serialized\<close>

lemma hex_value_digit: "n < 16 \<Longrightarrow> hex_value (hex_digit n) = Some n"
  by (auto simp: hex_value_def hex_digit_def Let_def of_char_of)

lemma hex4_escape:
  assumes "n < 65536"
  shows "hex4 (drop 2 (escape_code n) @ r) = Some (n, r)"
proof -
  have d: "n div 256 = n div 16 div 16" "n div 4096 = n div 16 div 16 div 16"
    by (simp_all add: div_mult2_eq [symmetric])
  have "n div 16 div 16 div 16 mod 16 = n div 16 div 16 div 16"
    using assms by (simp add: div_mult2_eq [symmetric])
  then have "4096 * (n div 4096 mod 16) + 256 * (n div 256 mod 16) + 16 * (n div 16 mod 16) + n mod 16 = n"
    unfolding d
    using div_mult_mod_eq [of n 16] div_mult_mod_eq [of "n div 16" 16]
      div_mult_mod_eq [of "n div 16 div 16" 16]
    by linarith
  with assms show ?thesis by (simp add: escape_code_def hex_value_digit)
qed

lemma string_step_escape: "string_step (escape_char c @ r) = Inr (Some c, r)"
proof -
  have "(of_char c :: nat) < 65536" using nat_of_char_less_256 [of c] by linarith
  then have "string_step (escape_code (of_char c) @ r) = Inr (Some c, r)"
    using hex4_escape [of "of_char c" r] by (simp add: string_step_def escape_code_def)
  then show ?thesis
    by (auto simp: escape_char_def string_step_def unescape_def)
qed

lemma parse_string_dump: "parse_string (concat (map escape_char s) @ CHR 0x22 # r) = Inr (s, r)"
proof (induction s)
  case Nil
  then show ?case by (simp add: parse_string.simps [of "CHR 0x22 # r"] string_step_def)
next
  case (Cons c s)
  then show ?case
    using string_step_escape [of c "concat (map escape_char s) @ CHR 0x22 # r"]
    by (subst parse_string.simps) simp
qed

lemma digit_char: "n < 10 \<Longrightarrow> is_digit (char_of (48 + n))" "n < 10 \<Longrightarrow> of_char (char_of (48 + n) :: char) = 48 + n"
  for n :: nat
  by (simp_all add: is_digit_def of_char_of)

lemma dec_digits_all: "list_all is_digit (dec_digits n)"
proof (induction n rule: dec_digits.induct)
  case (1 n)
  then show ?case
    using digit_char(1) [of n] digit_char(1) [of "n mod 10"] by (subst dec_digits.simps) auto
qed

lemma dec_value_digits: "dec_value (dec_digits n) = n"
proof (induction n rule: dec_digits.induct)
  case (1 n)
  show ?case
  proof (cases "n < 10")
    case True
    then show ?thesis using digit_char(2) [of n] by (subst dec_digits.simps) simp
  next
    case False
    then have "dec_value (dec_digits n) = 10 * dec_value (dec_digits (n div 10)) + n mod 10"
      using digit_char(2) [of "n mod 10"] by (subst dec_digits.simps) simp
    then show ?thesis using 1 False by simp
  qed
qed

lemma dec_digits_zero: "hd (dec_digits n) = CHR ''0'' \<Longrightarrow> n = 0"
proof (induction n rule: dec_digits.induct)
  case (1 n)
  show ?case
  proof (cases "n < 10")
    case True
    have "of_char (hd (dec_digits n)) = 48 + n"
      using True digit_char(2) [of n] by (subst dec_digits.simps) simp
    then show ?thesis using "1.prems" by simp
  next
    case False
    have "dec_digits n = dec_digits (n div 10) @ [char_of (48 + n mod 10)]"
      using False by (subst dec_digits.simps) simp
    then have "hd (dec_digits (n div 10)) = CHR ''0''"
      using "1.prems" dec_digits_nonempty [of "n div 10"] by simp
    then have "n div 10 = 0" using "1.IH" False by blast
    then show ?thesis using False by simp
  qed
qed

text \<open>What follows a value inside a document does not continue a number.\<close>

definition delimits :: "string \<Rightarrow> bool" where
  "delimits r \<longleftrightarrow> r = [] \<or> hd r \<in> set '',]}''"

lemma delimits_digit: "delimits r \<Longrightarrow> r = [] \<or> \<not> is_digit (hd r)"
  by (auto simp: delimits_def is_digit_def)

lemma takeWhile_digits:
  "list_all is_digit ds \<Longrightarrow> delimits r \<Longrightarrow> takeWhile is_digit (ds @ r) = ds"
  using delimits_digit [of r] by (induction ds) (cases r; auto)+

lemma digit_not_minus: "is_digit c \<Longrightarrow> c \<noteq> CHR ''-''"
  by (auto simp: is_digit_def)

lemma scan_natural_dump:
  assumes "delimits r" and "sign = [] \<or> sign = ''-''"
  shows "scan_integer (sign @ dec_digits n @ r) = Some (sign @ dec_digits n, r)"
proof -
  obtain d ds where ds: "dec_digits n = d # ds"
    using dec_digits_nonempty [of n] by (cases "dec_digits n") auto
  have tw: "takeWhile is_digit (dec_digits n @ r) = dec_digits n"
    using takeWhile_digits [OF dec_digits_all assms(1)] .
  have d: "is_digit d" using dec_digits_all [of n] by (simp add: ds)
  then have m: "d \<noteq> CHR ''-''" by (rule digit_not_minus)
  have "takeWhile (\<lambda>c. c = CHR ''-'') (take 1 (sign @ dec_digits n @ r)) = sign"
    using assms(2) m by (auto simp: ds)
  moreover have "d = CHR ''0'' \<Longrightarrow> dec_digits n = ''0''"
    using dec_digits_zero [of n] by (simp add: ds) (simp add: ds [symmetric] dec_digits.simps [of 0] char_of_def bit_0)
  ultimately show ?thesis
    using tw by (auto simp: scan_integer_def Let_def ds)
qed

lemma scan_integer_dump:
  "delimits r \<Longrightarrow> scan_integer (dump_int i @ r) = Some (dump_int i, r)"
  using scan_natural_dump [of r "[]"] scan_natural_dump [of r "''-''"] by simp

lemma scan_tail_delimits:
  "delimits r \<Longrightarrow> scan_fraction r = ([], r)" "delimits r \<Longrightarrow> scan_exponent r = ([], r)"
  by (cases r; auto simp: delimits_def scan_fraction_def scan_exponent_def Let_def)+

text \<open>The integers \<^verbatim>\<open>json.loads\<close> converts.\<close>

definition int_in_range :: "int \<Rightarrow> bool" where
  "int_in_range i \<longleftrightarrow> length (dec_digits (nat \<bar>i\<bar>)) \<le> MAX_INT_DIGITS"

lemma dropWhile_minus: "dropWhile (\<lambda>c. c = CHR ''-'') (dec_digits n) = dec_digits n"
proof (cases "dec_digits n")
  case (Cons d ds)
  then have "is_digit d" using dec_digits_all [of n] by simp
  then show ?thesis using digit_not_minus Cons by auto
qed simp

lemma take_minus: "take 1 (dec_digits n) \<noteq> ''-''"
proof (cases "dec_digits n")
  case (Cons d ds)
  then have "is_digit d" using dec_digits_all [of n] by simp
  then show ?thesis using digit_not_minus Cons by auto
qed simp

lemma int_of_literal_dump: "int_in_range i \<Longrightarrow> int_of_literal (dump_int i) = Inr i"
  using dropWhile_minus take_minus dec_value_digits
  by (auto simp: int_of_literal_def int_in_range_def Let_def simp del: dec_value.simps)

lemma parse_number_dump:
  "delimits r \<Longrightarrow> int_in_range i \<Longrightarrow> parse_number (dump_int i @ r) = Inr (JInt i, r)"
  by (simp add: parse_number_def scan_integer_dump scan_tail_delimits int_of_literal_dump del: dump_int.simps)

lemma dump_int_head: "\<exists>c cs. dump_int i = c # cs \<and> (is_digit c \<or> c = CHR ''-'')"
proof (cases "dec_digits (nat \<bar>i\<bar>)")
  case (Cons d ds)
  then have "is_digit d" using dec_digits_all [of "nat \<bar>i\<bar>"] by simp
  then show ?thesis using Cons by auto
qed (simp add: dec_digits_nonempty)

lemma parse_literal_dump_int:
  assumes "delimits r" "int_in_range i"
  shows "parse_literal (dump_int i @ r) = Inr (JInt i, r)"
proof -
  obtain c cs where c: "dump_int i = c # cs" "is_digit c \<or> c = CHR ''-''"
    using dump_int_head by blast
  then have "c \<noteq> CHR ''n''" "c \<noteq> CHR ''t''" "c \<noteq> CHR ''f''"
    by (auto simp: is_digit_def)
  then show ?thesis
    using parse_number_dump [OF assms] by (simp add: parse_literal_def c(1) del: dump_int.simps)
qed

lemma skip_ws_Cons: "\<not> is_ws c \<Longrightarrow> skip_ws (c # s) = c # s"
  by (simp add: skip_ws_def)

text \<open>The values the parser gives back: no floats, integers in range, distinct keys.\<close>

fun wf_json :: "json \<Rightarrow> bool" where
  "wf_json (JInt i) = int_in_range i"
| "wf_json (JFloat s) = False"
| "wf_json (JList vs) = list_all wf_json vs"
| "wf_json (JObj ms) = (distinct (map fst ms) \<and> list_all (\<lambda>kv. wf_json (snd kv)) ms)"
| "wf_json _ = True"

definition value_start :: "char \<Rightarrow> bool" where
  "value_start c \<longleftrightarrow> \<not> is_ws c \<and> c \<notin> set '',]}:''"

lemma dumps_head: "wf_json v \<Longrightarrow> \<exists>c cs. dumps v = c # cs \<and> value_start c"
proof (cases v)
  case (JInt i)
  obtain c cs where c: "dump_int i = c # cs" "is_digit c \<or> c = CHR ''-''"
    using dump_int_head by blast
  then have "value_start c" by (auto simp: value_start_def is_ws_def is_digit_def)
  then show ?thesis using c JInt by (simp del: dump_int.simps)
qed (auto simp: value_start_def is_ws_def dump_string_def)

lemma skip_ws_dumps: "wf_json v \<Longrightarrow> skip_ws (dumps v @ r) = dumps v @ r"
  using dumps_head [of v] by (auto simp: value_start_def skip_ws_Cons)

lemma join_Cons: "ys \<noteq> [] \<Longrightarrow> join sep (x # ys) = x @ sep @ join sep ys"
  by (cases ys) auto

lemma skip_ws_punctuation: "c \<in> set '',]}:'' \<Longrightarrow> skip_ws (c # s) = c # s"
  by (rule skip_ws_Cons) (auto simp: is_ws_def)

lemma delimits_punctuation: "c \<in> set '',]}'' \<Longrightarrow> delimits (c # s)"
  by (simp add: delimits_def)

lemma after_prefix_other: "c \<noteq> p \<Longrightarrow> after_prefix [p] (c # s) = None"
  by simp

definition parses :: "json \<Rightarrow> bool" where
  "parses v \<longleftrightarrow> (\<forall>n r. delimits r \<longrightarrow> 2 * length (dumps v @ r) < n \<longrightarrow> parse_value n (dumps v @ r) = Inr (v, r))"

lemma parse_items_dump:
  assumes "vs \<noteq> []" "\<forall>v \<in> set vs. wf_json v \<and> parses v"
    "2 * length (join '','' (map dumps vs) @ '']'' @ r) + 1 < n"
  shows "parse_items n (join '','' (map dumps vs) @ '']'' @ r) = Inr (vs, r)"
  using assms
proof (induction vs arbitrary: n)
  case Nil
  then show ?case by simp
next
  case (Cons v vs)
  from Cons.prems(3) obtain k where n: "n = Suc k" by (cases n) auto
  show ?case
  proof (cases vs)
    case Nil
    have "parse_value k (dumps v @ '']'' @ r) = Inr (v, '']'' @ r)"
      using Cons.prems Nil unfolding n parses_def by (auto simp: delimits_punctuation)
    then show ?thesis
      using Nil by (simp add: n skip_ws_punctuation)
  next
    case (Cons w ws)
    let ?rest = "join '','' (map dumps vs) @ '']'' @ r"
    have j: "join '','' (map dumps (v # vs)) @ '']'' @ r = dumps v @ '','' @ ?rest"
      using Cons by simp
    have l: "2 * length (dumps v @ '','' @ ?rest) + 1 < Suc k"
      using Cons.prems(3) unfolding j n .
    have "parse_value k (dumps v @ '','' @ ?rest) = Inr (v, '','' @ ?rest)"
      using Cons.prems(2) l unfolding parses_def by (auto simp: delimits_punctuation)
    moreover have "parse_items k ?rest = Inr (vs, r)"
      using Cons.prems(2) l Cons by (intro Cons.IH) auto
    moreover have "skip_ws ?rest = ?rest"
      using Cons.prems(2) skip_ws_dumps [of w] Cons by (cases ws) auto
    ultimately show ?thesis
      unfolding j n by (simp add: skip_ws_punctuation)
  qed
qed

abbreviation dump_member :: "string \<times> json \<Rightarrow> string" where
  "dump_member kv \<equiv> dump_string (fst kv) @ '':'' @ dumps (snd kv)"

lemma parse_members_dump:
  assumes "ms \<noteq> []" "\<forall>kv \<in> set ms. wf_json (snd kv) \<and> parses (snd kv)"
    "2 * length (join '','' (map dump_member ms) @ ''}'' @ r) + 1 < n"
  shows "parse_members n (join '','' (map dump_member ms) @ ''}'' @ r) = Inr (ms, r)"
  using assms
proof (induction ms arbitrary: n)
  case Nil
  then show ?case by simp
next
  case (Cons kv ms)
  from Cons.prems(3) obtain k where n: "n = Suc k" by (cases n) auto
  obtain key v where kv: "kv = (key, v)" by (cases kv)
  have v: "wf_json v" "parses v" using Cons.prems(2) by (simp_all add: kv)
  have str: "after_prefix [CHR 0x22] (dump_string key @ s) = Some (concat (map escape_char key) @ CHR 0x22 # s)" for s
    by (simp add: dump_string_def)
  show ?case
  proof (cases ms)
    case Nil
    have "parse_value k (dumps v @ ''}'' @ r) = Inr (v, ''}'' @ r)"
      using Cons.prems(3) Nil v unfolding n parses_def by (auto simp: kv delimits_punctuation)
    then show ?thesis
      using Nil v by (simp add: n kv str parse_string_dump skip_ws_punctuation skip_ws_dumps)
  next
    case (Cons w ws)
    let ?rest = "join '','' (map dump_member ms) @ ''}'' @ r"
    have j: "join '','' (map dump_member (kv # ms)) @ ''}'' @ r = dump_string key @ '':'' @ dumps v @ '','' @ ?rest"
      using Cons by (simp add: kv)
    have l: "2 * length (dump_string key @ '':'' @ dumps v @ '','' @ ?rest) + 1 < Suc k"
      using Cons.prems(3) unfolding j n .
    have "parse_value k (dumps v @ '','' @ ?rest) = Inr (v, '','' @ ?rest)"
      using v l unfolding parses_def by (auto simp: delimits_punctuation)
    moreover have "parse_members k ?rest = Inr (ms, r)"
      using Cons.prems(2) l Cons by (intro Cons.IH) auto
    moreover have "skip_ws ?rest = ?rest"
      using Cons by (cases ws) (simp_all add: dump_string_def skip_ws_Cons is_ws_def)
    ultimately show ?thesis
      unfolding j n using v
      by (simp add: kv str parse_string_dump skip_ws_punctuation skip_ws_dumps)
  qed
qed

lemma dict_update_all: "distinct (map fst ms) \<Longrightarrow> dict_update [] ms = ms"
  using dict_update_fresh [of "[]" ms] by simp

lemma parse_value_open:
  "parse_value (Suc k) (CHR ''['' # s) =
     (case after_prefix '']'' (skip_ws s) of Some r' \<Rightarrow> Inr (JList [], r')
      | None \<Rightarrow> andThen (parse_items k (skip_ws s)) (\<lambda>vr. Inr (JList (fst vr), snd vr)))"
  "parse_value (Suc k) (CHR ''{'' # s) =
     (case after_prefix ''}'' (skip_ws s) of Some r' \<Rightarrow> Inr (JObj [], r')
      | None \<Rightarrow> andThen (parse_members k (skip_ws s)) (\<lambda>mr. Inr (JObj (dict_update [] (fst mr)), snd mr)))"
  "parse_value (Suc k) (CHR 0x22 # s) = andThen (parse_string s) (\<lambda>tr. Inr (JStr (fst tr), snd tr))"
  by simp_all

lemma parse_value_literal:
  "c \<notin> {CHR 0x22, CHR ''['', CHR ''{''} \<Longrightarrow> parse_value (Suc k) (c # s) = parse_literal (c # s)"
  by simp

lemma parses_list:
  assumes "\<forall>v \<in> set vs. wf_json v \<and> parses v"
  shows "parses (JList vs)"
  unfolding parses_def
proof (intro allI impI)
  fix n r assume "delimits r" and n: "2 * length (dumps (JList vs) @ r) < n"
  then obtain k where k: "n = Suc k" by (cases n) auto
  show "parse_value n (dumps (JList vs) @ r) = Inr (JList vs, r)"
  proof (cases vs)
    case Nil
    then show ?thesis by (simp add: k parse_value_open skip_ws_punctuation del: parse_value.simps)
  next
    case (Cons w ws)
    let ?b = "join '','' (map dumps vs) @ '']'' @ r"
    obtain c cs where c: "dumps w = c # cs" "value_start c"
      using dumps_head [of w] assms Cons by auto
    have b: "?b = dumps w @ drop (length (dumps w)) ?b"
      using Cons by (cases ws) simp_all
    have hd: "?b = c # cs @ drop (length (dumps w)) ?b"
      by (subst b) (simp add: c)
    have "skip_ws ?b = ?b"
      using c(2) by (subst (1 2) hd) (simp add: skip_ws_Cons value_start_def)
    moreover have "after_prefix '']'' ?b = None"
      using c(2) by (subst hd) (auto simp: value_start_def)
    moreover have "parse_items k ?b = Inr (vs, r)"
      by (rule parse_items_dump) (use Cons assms n k in auto)
    ultimately show ?thesis
      by (simp add: k parse_value_open del: parse_value.simps)
  qed
qed

lemma parses_object:
  assumes "\<forall>kv \<in> set ms. wf_json (snd kv) \<and> parses (snd kv)" "distinct (map fst ms)"
  shows "parses (JObj ms)"
  unfolding parses_def
proof (intro allI impI)
  fix n r assume "delimits r" and n: "2 * length (dumps (JObj ms) @ r) < n"
  then obtain k where k: "n = Suc k" by (cases n) auto
  show "parse_value n (dumps (JObj ms) @ r) = Inr (JObj ms, r)"
  proof (cases ms)
    case Nil
    then show ?thesis
      by (simp add: k parse_value_open skip_ws_punctuation del: parse_value.simps)
  next
    case (Cons w ws)
    let ?b = "join '','' (map dump_member ms) @ ''}'' @ r"
    have hd: "\<exists>cs. ?b = CHR 0x22 # cs"
      using Cons by (cases ws) (simp_all add: dump_string_def)
    then have "skip_ws ?b = ?b" and "after_prefix ''}'' ?b = None"
      by (auto simp: skip_ws_Cons is_ws_def)
    moreover have "parse_members k ?b = Inr (ms, r)"
      by (rule parse_members_dump) (use Cons assms n k in auto)
    ultimately show ?thesis
      by (simp add: k parse_value_open dict_update_all assms(2) del: parse_value.simps)
  qed
qed

lemma parses_literals: "parses JNull" "parses (JBool b)" "int_in_range i \<Longrightarrow> parses (JInt i)"
proof -
  have l: "parse_value n (c # s) = parse_literal (c # s)"
    if "2 * length (c # s) < n" "c \<notin> {CHR 0x22, CHR ''['', CHR ''{''}" for n c s
    using that by (cases n) (auto simp: parse_value_literal simp del: parse_value.simps)
  show "parses JNull" "parses (JBool b)"
    by (auto simp: parses_def l parse_literal_def)
  assume i: "int_in_range i"
  show "parses (JInt i)"
    unfolding parses_def
  proof (intro allI impI)
    fix n r assume r: "delimits r" and n: "2 * length (dumps (JInt i) @ r) < n"
    obtain c cs where c: "dump_int i = c # cs" "is_digit c \<or> c = CHR ''-''"
      using dump_int_head by blast
    then have "c \<notin> {CHR 0x22, CHR ''['', CHR ''{''}" by (auto simp: is_digit_def)
    then show "parse_value n (dumps (JInt i) @ r) = Inr (JInt i, r)"
      using parse_literal_dump_int [OF r i] n l [of c "cs @ r" n] c(1)
      by (simp del: dump_int.simps parse_value.simps)
  qed
qed

lemma parses_string: "parses (JStr s)"
  unfolding parses_def
proof (intro allI impI)
  fix n r assume n: "2 * length (dumps (JStr s) @ r) < n"
  then obtain k where k: "n = Suc k" by (cases n) auto
  show "parse_value n (dumps (JStr s) @ r) = Inr (JStr s, r)"
    by (simp add: k dump_string_def parse_value_open parse_string_dump del: parse_value.simps)
qed

lemma parses_dump: "wf_json v \<Longrightarrow> parses v"
proof (induction v)
  case (JList vs)
  then show ?case by (intro parses_list) (auto simp: list_all_iff)
next
  case (JObj ms)
  then show ?case by (intro parses_object) (fastforce simp: list_all_iff)+
qed (auto simp: parses_literals parses_string)

lemma loads_dumps:
  assumes "wf_json v"
  shows "loads (dumps v) = Inr v"
proof -
  have "skip_ws (dumps v) = dumps v"
    using skip_ws_dumps [OF assms, of "[]"] by simp
  moreover have "parse_value (json_fuel (dumps v)) (dumps v) = Inr (v, [])"
    using parses_dump [OF assms] unfolding parses_def
    by (auto simp: json_fuel_def delimits_def dest!: spec [of _ "json_fuel (dumps v)"] spec [of _ "[]"])
  ultimately show ?thesis
    by (simp add: loads_def skip_ws_def)
qed

section \<open>The bytes of a document\<close>

text \<open>A serialized value is printable ASCII.\<close>

definition printable :: "char \<Rightarrow> bool" where
  "printable c \<longleftrightarrow> (32 :: nat) \<le> of_char c \<and> of_char c \<le> (126 :: nat)"

lemma hex_digit_printable: "n < 16 \<Longrightarrow> printable (hex_digit n)"
  by (simp add: printable_def hex_digit_def of_char_of)

lemma punctuation_printable:
  "printable (CHR 0x22)" "printable (CHR '','')" "printable (CHR '':'')" "printable (CHR ''-'')"
  "printable (CHR ''['')" "printable (CHR '']'')" "printable (CHR ''{'')" "printable (CHR ''}'')"
  "printable (CHR ''n'')" "printable (CHR ''u'')" "printable (CHR ''l'')" "printable (CHR ''t'')" "printable (CHR ''r'')"
  "printable (CHR ''e'')" "printable (CHR ''f'')" "printable (CHR ''a'')" "printable (CHR ''s'')"
  by (simp_all add: printable_def)

lemma escape_code_printable: "list_all printable (escape_code n)"
  by (simp add: escape_code_def hex_digit_printable) (simp add: printable_def)

lemma escape_printable: "list_all printable (escape_char c)"
proof (cases "escape_char c = escape_code (of_char c)")
  case True
  then show ?thesis by (simp add: escape_code_printable)
next
  case False
  then show ?thesis
    unfolding escape_char_def by (auto simp: printable_def split: if_splits)
qed

lemma dump_string_printable: "list_all printable (dump_string s)"
proof -
  have "list_all printable (concat (map escape_char s))"
    by (induction s) (simp_all add: escape_printable)
  then show ?thesis by (simp add: dump_string_def punctuation_printable)
qed

lemma join_printable: "list_all printable sep \<Longrightarrow> list_all (list_all printable) xs \<Longrightarrow> list_all printable (join sep xs)"
  by (induction sep xs rule: join.induct) auto

lemma digits_printable: "list_all printable (dec_digits n)"
  using dec_digits_all [of n] by (auto simp: list_all_iff is_digit_def printable_def)

lemma dumps_printable: "wf_json v \<Longrightarrow> list_all printable (dumps v)"
proof (induction v)
  case (JList vs)
  then have "list_all printable (join '','' (map dumps vs))"
    by (intro join_printable) (auto simp: list_all_iff [of "list_all _"] list_all_iff [of wf_json] punctuation_printable)
  then show ?case by (simp add: punctuation_printable)
next
  case (JObj ms)
  have "list_all printable (dump_member kv)" if "kv \<in> set ms" for kv
  proof -
    have "wf_json (snd kv)" using that JObj.prems by (simp add: list_all_iff [of _ ms])
    then have "list_all printable (dumps (snd kv))"
      using JObj.IH [OF that, of "snd kv"] by (cases kv) simp
    then show ?thesis by (simp add: dump_string_printable punctuation_printable)
  qed
  then have "list_all printable (join '','' (map dump_member ms))"
    by (intro join_printable) (auto simp: list_all_iff [of "list_all _"] punctuation_printable)
  then show ?case by (simp add: punctuation_printable)
qed (simp_all add: dump_string_printable digits_printable punctuation_printable)

lemma utf8_decode_printable: "list_all printable s \<Longrightarrow> utf8_decode (str_encode s) = Inr s"
proof (induction s)
  case Nil
  then show ?case by (simp add: str_encode_def)
next
  case (Cons c s)
  then have c: "of_char c < (128 :: nat)" by (simp add: printable_def)
  have "str_encode (c # s) = word_of_nat (of_char c) # str_encode s"
    using c by (simp add: str_encode_def Let_def)
  moreover have "(word_of_nat (of_char c) :: byte) < 0x80" "unat (word_of_nat (of_char c) :: byte) = of_char c"
    using c by (simp_all add: word_less_nat_alt unat_of_nat)
  ultimately show ?case using Cons by simp
qed

lemma decode_document_printable:
  assumes "list_all printable s"
  shows "decode_document (str_encode s) = Inr s"
proof -
  have "str_encode s = map (\<lambda>c. word_of_nat (of_char c)) s"
    using assms by (induction s) (auto simp: str_encode_def Let_def printable_def)
  moreover have "32 \<le> unat (word_of_nat (of_char c) :: byte) \<and> unat (word_of_nat (of_char c) :: byte) \<le> 126"
    if "c \<in> set s" for c
    using that assms by (auto simp: list_all_iff printable_def unat_of_nat)
  ultimately have b: "32 \<le> unat b \<and> unat b \<le> 126" if "b \<in> set (str_encode s)" for b
    using that by auto
  then have t: "32 \<le> unat b \<and> unat b \<le> 126" if "b \<in> set (take n (str_encode s))" for b n
    using that by (auto dest: in_set_takeD)
  have "take 3 (str_encode s) \<noteq> [0xEF, 0xBB, 0xBF]" "take 2 (str_encode s) \<noteq> [0xFF, 0xFE]"
    "take 2 (str_encode s) \<noteq> [0xFE, 0xFF]" "0 \<notin> set (take 2 (str_encode s))"
    using t [of "0xEF" 3] t [of "0xFF" 2] t [of "0xFE" 2] t [of 0 2] by auto
  then show ?thesis
    using utf8_decode_printable [OF assms] by (simp add: decode_document_def)
qed

lemma parse_dump_object:
  assumes "wf_json (JObj ms)"
  shows "parse_json_object (dump_json (JObj ms)) = Inr ms"
  using decode_document_printable [OF dumps_printable [OF assms]] loads_dumps [OF assms]
  by (simp add: parse_json_object_def parse_json_object_str_def dump_json_def del: dumps.simps)

interpretation json: codec "\<lambda>ms. Inr (dump_json (JObj ms))" parse_json_object "\<lambda>ms. wf_json (JObj ms)"
  by unfold_locales (simp add: parse_dump_object del: wf_json.simps)

section \<open>Properties\<close>

text \<open>
  Serializing an object and parsing the bytes gives the object back: every member, in its
  order, for strings with quotes, backslashes, control characters and non-ASCII letters,
  nested lists and objects, and integers within the interpreter's conversion limit.
\<close>

theorem json_roundtrip:
  assumes "wf_json (JObj ms)"
  shows "parse_json_object (dump_json (JObj ms)) = Inr ms"
  using assms by (rule parse_dump_object)

lemma json_roundtrip_witness:
  "parse_json_object (dump_json (JObj [(''k'', JList [JStr [CHR 0x0A, CHR 0x22], JInt (- 7), JNull, JObj []])]))
     = Inr [(''k'', JList [JStr [CHR 0x0A, CHR 0x22], JInt (- 7), JNull, JObj []])]"
  by (rule json_roundtrip) (simp add: int_in_range_def dec_digits.simps [of 7] MAX_INT_DIGITS_def)

text \<open>
  Parsing ends on every document: the recursion over nested values needs no more steps
  than twice the length of the text, so the fuel is never the reason of a failure. A body that
  is no JSON object is reported as a protocol error of the SDK, never as a bare exception of
  the parser; the only other outcome is text outside the model.
\<close>

theorem parse_json_total:
  "case parse_json_object raw of Inl e \<Rightarrow> is_tuya_error e \<or> e = beyond_model | Inr ms \<Rightarrow> True"
proof -
  have "is_tuya_error e \<or> e = beyond_model" if "parse_json_object_str t = Inl e" for t e
    using that parse_json_fuel [of t]
    by (cases "loads t") (auto simp: parse_json_object_str_def json_error_def beyond_model_def
        split: exn.splits json.splits)
  moreover have "e = beyond_model \<or> e = ValueError" if "decode_document raw = Inl e" for e
    using that utf8_decode_errors by (auto simp: decode_document_def json_error_def split: if_splits)
  ultimately show ?thesis
    by (cases "decode_document raw")
      (auto simp: parse_json_object_def beyond_model_def split: sum.splits exn.splits)
qed

end
