(* ===== verification/Relay_Framing.thy ===== *)
theory Relay_Framing
  imports Crypto Json_Types
begin

text \<open>
  Models \<^verbatim>\<open>src/tuya_ipc_p2p_sdk/transport/relay_framing.py\<close>: the outer frame
  \<^verbatim>\<open>magic | 00 | len16 | payload\<close> of the relay, the tagged media frame around a KCP segment,
  and the type-length-value layout of the encrypted handshake message. The lemmas show that
  media and handshake frames read back as what they were built from, when building overflows,
  and that an accepted media frame carries the tag of the segment it yields.
\<close>

section \<open>Model\<close>

definition FRAME_HANDSHAKE :: byte where "FRAME_HANDSHAKE = 0xF4"
definition FRAME_KEEPALIVE :: byte where "FRAME_KEEPALIVE = 0xF5"
definition FRAME_MEDIA :: byte where "FRAME_MEDIA = 0xF6"

definition MEDIA_TAG_LENGTH :: nat where "MEDIA_TAG_LENGTH = 20"
definition MAC_LENGTH :: nat where "MAC_LENGTH = 32"
definition TLV_HEADER_LENGTH :: nat where "TLV_HEADER_LENGTH = 4"
definition HANDSHAKE_TLV_START :: nat where "HANDSHAKE_TLV_START = 8"
definition ENCRYPTED_SECTION_MARKER :: byte where "ENCRYPTED_SECTION_MARKER = 0x07"
definition TLV_INITIALIZATION_VECTOR :: nat where "TLV_INITIALIZATION_VECTOR = 2"

lemmas framing_constants = MEDIA_TAG_LENGTH_def MAC_LENGTH_def TLV_HEADER_LENGTH_def
  HANDSHAKE_TLV_START_def ENCRYPTED_SECTION_MARKER_def TLV_INITIALIZATION_VECTOR_def

definition media_tag :: "bytes \<Rightarrow> bytes \<Rightarrow> bytes" where
  "media_tag media_key kcp_segment = hmac_sha1 media_key kcp_segment"

definition relay_frame :: "byte \<Rightarrow> bytes \<Rightarrow> exn + bytes" where
  "relay_frame magic body = andThen (to_be 2 (length body)) (\<lambda>len. Inr ([magic, 0x00] @ len @ body))"

definition keepalive_frame :: "exn + bytes" where
  "keepalive_frame = relay_frame FRAME_KEEPALIVE []"

definition media_frame :: "bytes \<Rightarrow> bytes \<Rightarrow> exn + bytes" where
  "media_frame media_key kcp_segment =
     (let tagged_length = length kcp_segment + MEDIA_TAG_LENGTH
      in andThen (to_be 2 tagged_length) (\<lambda>len.
           relay_frame FRAME_MEDIA ([0x00, 0x07] @ len @ kcp_segment @ media_tag media_key kcp_segment)))"

definition unwrap_media_frame :: "bytes \<Rightarrow> bytes \<Rightarrow> exn + bytes" where
  "unwrap_media_frame media_key payload =
     (if length payload < TLV_HEADER_LENGTH + MEDIA_TAG_LENGTH
      then Inl (ProtocolError ''Failed to read media frame: payload too short'')
      else let inner = from_be (slice payload 2 4) in
        if inner < MEDIA_TAG_LENGTH \<or> TLV_HEADER_LENGTH + inner > length payload
        then Inl (ProtocolError (''Failed to read media frame: bad inner length '' @ dec_digits inner))
        else let stop = TLV_HEADER_LENGTH + inner;
                 segment = slice payload TLV_HEADER_LENGTH (stop - MEDIA_TAG_LENGTH)
             in if slice payload (stop - MEDIA_TAG_LENGTH) stop \<noteq> media_tag media_key segment
                then Inl (ProtocolError ''Failed to read media frame: tag mismatch'')
                else Inr segment)"

definition type_length_value :: "nat \<Rightarrow> bytes \<Rightarrow> exn + bytes" where
  "type_length_value value_type val =
     andThen (to_be 2 value_type) (\<lambda>t. andThen (to_be 2 (length val)) (\<lambda>l. Inr (t @ l @ val)))"

definition assemble_handshake_frame ::
    "cipher \<Rightarrow> nat \<Rightarrow> bytes \<Rightarrow> bytes \<Rightarrow> bytes \<Rightarrow> bytes \<Rightarrow> bytes \<Rightarrow> exn + bytes" where
  "assemble_handshake_frame A message_index key iv session_id username json_message =
     andThen (aes_cbc_encrypt A key iv json_message) (\<lambda>ciphertext.
     andThen (to_be 2 message_index) (\<lambda>index.
     andThen (type_length_value 2 iv) (\<lambda>tlv_iv.
     andThen (type_length_value 3 session_id) (\<lambda>tlv_session.
     andThen (type_length_value 4 username) (\<lambda>tlv_user.
     andThen (to_be 2 (length ciphertext)) (\<lambda>len.
       let body = concat [
             [0x00, 0x01, 0x00, 0x02],
             index @ [0x00, 0x00],
             tlv_iv,
             tlv_session,
             tlv_user,
             [0x00, 0x00, 0x00, 0x00],
             [ENCRYPTED_SECTION_MARKER] @ len,
             ciphertext];
           full_length = length body + TLV_HEADER_LENGTH + MAC_LENGTH
       in andThen (to_be 2 full_length) (\<lambda>full.
            let header = [FRAME_HANDSHAKE, 0x00] @ full;
                signed = header @ body @ [0x00, 0x08, 0x00, 0x20]
            in Inr (signed @ hmac_sha256 (Raw key) (Raw signed)))))))))"

text \<open>The loop over the TLVs, up to the empty one: the cursor it ends at and the initialization
  vector seen last.\<close>

function scan_tlvs :: "bytes \<Rightarrow> nat \<Rightarrow> bytes option \<Rightarrow> exn + nat \<times> bytes option" where
  "scan_tlvs payload cursor iv =
     (if cursor + TLV_HEADER_LENGTH \<le> length payload then
        let value_type = from_be (slice payload cursor (cursor + 2)) in
        if value_type = 0 \<and> slice payload (cursor + 2) (cursor + 4) = [0x00, 0x00]
        then Inr (cursor + TLV_HEADER_LENGTH, iv)
        else let len = from_be (slice payload (cursor + 2) (cursor + 4)) in
          if cursor + TLV_HEADER_LENGTH + len > length payload
          then Inl (ProtocolError ''Failed to read handshake frame: truncated TLV'')
          else scan_tlvs payload (cursor + TLV_HEADER_LENGTH + len)
                 (if value_type = TLV_INITIALIZATION_VECTOR
                  then Some (slice payload (cursor + TLV_HEADER_LENGTH) (cursor + TLV_HEADER_LENGTH + len))
                  else iv)
      else Inr (cursor, iv))"
  by pat_completeness auto
termination
  by (relation "measure (\<lambda>(payload, cursor, _). length payload - cursor)")
    (auto simp: TLV_HEADER_LENGTH_def)

declare scan_tlvs.simps [simp del]

definition parse_handshake_frame :: "cipher \<Rightarrow> bytes \<Rightarrow> bytes \<Rightarrow> exn + json_object" where
  "parse_handshake_frame A key payload =
     andThen (scan_tlvs payload HANDSHAKE_TLV_START None) (\<lambda>ci.
       case ci of
         (cursor, Some iv) \<Rightarrow>
           if length payload \<le> cursor \<or> payload ! cursor \<noteq> ENCRYPTED_SECTION_MARKER
           then Inl (ProtocolError ''Failed to read handshake frame: no encrypted section'')
           else let len = from_be (slice payload (cursor + 1) (cursor + 3))
                in andThen (aes_cbc_decrypt A key iv (slice payload (cursor + 3) (cursor + 3 + len)))
                     parse_json_object
       | (cursor, None) \<Rightarrow>
           Inl (ProtocolError ''Failed to read handshake frame: no encrypted section''))"

section \<open>Outer frames\<close>

lemma to_be_Inr: "x < 256 ^ n \<Longrightarrow> to_be n x = Inr (be_bytes n x)"
  by (simp add: to_be_def)

lemma from_be_2: "x < 65536 \<Longrightarrow> from_be (be_bytes 2 x) = x"
  by (simp add: from_be_be_bytes)

lemma relay_frame_eq:
  "relay_frame magic body =
     (if length body < 65536 then Inr ([magic, 0] @ be_bytes 2 (length body) @ body) else Inl OverflowError)"
  by (simp add: relay_frame_def to_be_def)

definition fits_frame :: "byte \<times> bytes \<Rightarrow> bool" where
  "fits_frame mb \<longleftrightarrow> length (snd mb) < 65536"

section \<open>Media frames\<close>

lemma length_media_tag [simp, lengths]: "length (media_tag k s) = 20"
  by (simp add: media_tag_def)

definition media_payload :: "bytes \<Rightarrow> bytes \<Rightarrow> bytes" where
  "media_payload media_key segment =
     [0x00, 0x07] @ be_bytes 2 (length segment + 20) @ segment @ media_tag media_key segment"

lemma length_media_payload [lengths]: "length (media_payload media_key segment) = length segment + 24"
  by (simp add: media_payload_def)

lemma media_frame_eq:
  "media_frame media_key segment =
     (if length segment + 24 < 65536 then relay_frame FRAME_MEDIA (media_payload media_key segment)
      else Inl OverflowError)"
  by (auto simp: media_frame_def media_payload_def relay_frame_eq to_be_def Let_def MEDIA_TAG_LENGTH_def)

text \<open>The payload of a media frame may carry further bytes behind the tag; they are ignored.\<close>

lemma unwrap_accepts:
  assumes "length segment + 20 < 65536"
  shows "unwrap_media_frame media_key
     ([a, b] @ be_bytes 2 (length segment + 20) @ segment @ media_tag media_key segment @ extra) = Inr segment"
proof -
  let ?p = "[a, b] @ be_bytes 2 (length segment + 20) @ segment @ media_tag media_key segment @ extra"
  have inner: "from_be (slice ?p 2 4) = length segment + 20"
    using assms slice_mid [of "[a, b]" 2 4 "be_bytes 2 (length segment + 20)"] by (simp add: from_be_2)
  have seg: "slice ?p 4 (length segment + 4) = segment"
    using slice_mid [of "[a, b] @ be_bytes 2 (length segment + 20)" 4 "length segment + 4" segment] by simp
  have tag: "slice ?p (length segment + 4) (length segment + 24) = media_tag media_key segment"
    using slice_mid [of "[a, b] @ be_bytes 2 (length segment + 20) @ segment" "length segment + 4"
        "length segment + 24" "media_tag media_key segment"] by simp
  show ?thesis
    using inner seg tag by (simp add: unwrap_media_frame_def Let_def framing_constants add.commute)
qed

lemma unwrap_media_payload:
  "length segment + 20 < 65536 \<Longrightarrow> unwrap_media_frame media_key (media_payload media_key segment) = Inr segment"
  using unwrap_accepts [of segment media_key 0 7 "[]"] by (simp add: media_payload_def)

lemma unwrap_sound:
  assumes "unwrap_media_frame media_key payload = Inr segment"
  obtains a b extra where "length segment + 20 < 65536"
    "payload = [a, b] @ be_bytes 2 (length segment + 20) @ segment @ media_tag media_key segment @ extra"
proof -
  let ?i = "from_be (slice payload 2 4)"
  have i: "20 \<le> ?i" "4 + ?i \<le> length payload"
    and seg: "segment = slice payload 4 (4 + ?i - 20)"
    and tag: "slice payload (4 + ?i - 20) (4 + ?i) = media_tag media_key segment"
    using assms by (auto simp: unwrap_media_frame_def Let_def framing_constants split: if_splits)
  have len: "length segment + 20 = ?i"
    using i by (simp add: seg lengths)
  have l24: "length (slice payload 2 4) = 2" using i by (simp add: lengths)
  have "payload = slice payload 0 2 @ slice payload 2 4 @ slice payload 4 (4 + ?i - 20) @
      slice payload (4 + ?i - 20) (4 + ?i) @ drop (4 + ?i) payload"
    using i slice_join [of 0 2 4 payload] slice_join [of 0 4 "4 + ?i - 20" payload]
      slice_join [of 0 "4 + ?i - 20" "4 + ?i" payload]
    by (simp add: slice_zero flip: append_assoc)
  moreover have "slice payload 2 4 = be_bytes 2 ?i"
    using be_bytes_from_be [of "slice payload 2 4"] l24 by simp
  moreover have "slice payload 0 2 = [payload ! 0, payload ! 1]"
  proof -
    obtain a b q where "payload = a # b # q"
      using i by (cases payload; cases "tl payload") auto
    then show ?thesis by (simp add: slices)
  qed
  ultimately have "payload = [payload ! 0, payload ! 1] @ be_bytes 2 (length segment + 20) @ segment @
      media_tag media_key segment @ drop (4 + ?i) payload"
    using len tag seg by simp
  moreover have "length segment + 20 < 65536"
    using len l24 from_be_bound [of "slice payload 2 4"] by simp
  ultimately show ?thesis by (rule that [rotated])
qed

lemma unwrap_errors: "unwrap_media_frame media_key payload = Inl e \<Longrightarrow> is_tuya_error e"
  by (auto simp: unwrap_media_frame_def Let_def split: if_splits)

text \<open>As a codec on payloads.\<close>

interpretation media: framed_codec "\<lambda>s. if length s + 20 < 65536 then Inr (media_payload k s) else Inl OverflowError"
  "unwrap_media_frame k" "\<lambda>s. length s + 20 < 65536" "\<lambda>s. s" 24 for k
  by unfold_locales (auto simp: unwrap_media_payload, simp add: media_payload_def)

section \<open>Handshake frames\<close>

definition tlv_bytes :: "nat \<Rightarrow> bytes \<Rightarrow> bytes" where
  "tlv_bytes t v = be_bytes 2 t @ be_bytes 2 (length v) @ v"

lemma type_length_value_eq:
  "t < 65536 \<Longrightarrow> type_length_value t v = (if length v < 65536 then Inr (tlv_bytes t v) else Inl OverflowError)"
  by (simp add: type_length_value_def tlv_bytes_def to_be_def)

lemma length_tlv_bytes [simp, lengths]: "length (tlv_bytes t v) = 4 + length v"
  by (simp add: tlv_bytes_def)

text \<open>One turn of the scan over a TLV that is not the empty one.\<close>

lemma scan_tlvs_step:
  assumes "p = pre @ tlv_bytes t v @ rest" "length pre = cursor" "0 < t" "t < 65536" "length v < 65536"
  shows "scan_tlvs p cursor iv = scan_tlvs p (cursor + 4 + length v) (if t = 2 then Some v else iv)"
proof -
  have ty: "from_be (slice p cursor (cursor + 2)) = t"
    and len: "from_be (slice p (cursor + 2) (cursor + 4)) = length v"
    and val: "slice p (cursor + 4) (cursor + 4 + length v) = v"
    using assms slice_mid [of pre cursor "cursor + 2" "be_bytes 2 t" "be_bytes 2 (length v) @ v @ rest"]
      slice_mid [of "pre @ be_bytes 2 t" "cursor + 2" "cursor + 4" "be_bytes 2 (length v)" "v @ rest"]
      slice_mid [of "pre @ be_bytes 2 t @ be_bytes 2 (length v)" "cursor + 4" "cursor + 4 + length v" v rest]
    by (simp_all add: tlv_bytes_def from_be_2)
  have fits: "cursor + 4 + length v \<le> length p"
    using assms by simp
  show ?thesis
    unfolding scan_tlvs.simps [of p cursor iv] framing_constants Let_def ty len val
    using fits assms(3) by simp
qed

lemma scan_tlvs_end:
  assumes "p = pre @ [0, 0, 0, 0] @ rest" "length pre = cursor"
  shows "scan_tlvs p cursor iv = Inr (cursor + 4, iv)"
proof -
  have "slice p cursor (cursor + 2) = [0, 0]" and "slice p (cursor + 2) (cursor + 4) = [0, 0]"
    using slice_mid [of pre cursor "cursor + 2" "[0, 0]" "[0, 0] @ rest"]
      slice_mid [of "pre @ [0, 0]" "cursor + 2" "cursor + 4" "[0, 0]" rest] assms by simp_all
  then show ?thesis
    using assms by (subst scan_tlvs.simps) (simp add: framing_constants Let_def from_be_def)
qed

definition handshake_body :: "nat \<Rightarrow> bytes \<Rightarrow> bytes \<Rightarrow> bytes \<Rightarrow> bytes \<Rightarrow> bytes" where
  "handshake_body index iv session_id username ciphertext =
     [0, 1, 0, 2] @ be_bytes 2 index @ [0, 0] @ tlv_bytes 2 iv @ tlv_bytes 3 session_id @
     tlv_bytes 4 username @ [0, 0, 0, 0] @ [7] @ be_bytes 2 (length ciphertext) @ ciphertext"

lemma length_handshake_body:
  "length (handshake_body index iv sid user ct) = 27 + length iv + length sid + length user + length ct"
  by (simp add: handshake_body_def)

text \<open>The scan of a built payload ends behind the empty TLV with the initialization vector.\<close>

lemma scan_handshake_body:
  assumes "length iv < 65536" "length sid < 65536" "length user < 65536"
  shows "scan_tlvs (handshake_body index iv sid user ct @ rest) 8 None =
     Inr (24 + length iv + length sid + length user, Some iv)"
proof -
  define p where "p = handshake_body index iv sid user ct @ rest"
  define p0 :: bytes where "p0 = [0, 1, 0, 2] @ be_bytes 2 index @ [0, 0]"
  define tail where "tail = [7] @ be_bytes 2 (length ct) @ ct @ rest"
  have p: "p = p0 @ tlv_bytes 2 iv @ tlv_bytes 3 sid @ tlv_bytes 4 user @ [0, 0, 0, 0] @ tail"
    by (simp add: p_def p0_def tail_def handshake_body_def)
  have l: "length p0 = 8" by (simp add: p0_def)
  have a: "scan_tlvs p 8 None = scan_tlvs p (12 + length iv) (Some iv)"
    using scan_tlvs_step [of p p0 2 iv _ 8] p l assms by simp
  have b: "scan_tlvs p (12 + length iv) (Some iv) = scan_tlvs p (16 + length iv + length sid) (Some iv)"
    using scan_tlvs_step [of p "p0 @ tlv_bytes 2 iv" 3 sid _ "12 + length iv"] p l assms by simp
  have c: "scan_tlvs p (16 + length iv + length sid) (Some iv) =
      scan_tlvs p (20 + length iv + length sid + length user) (Some iv)"
    using scan_tlvs_step [of p "p0 @ tlv_bytes 2 iv @ tlv_bytes 3 sid" 4 user _ "16 + length iv + length sid"]
      p l assms by (simp add: add.assoc)
  have d: "scan_tlvs p (20 + length iv + length sid + length user) (Some iv) =
      Inr (24 + length iv + length sid + length user, Some iv)"
    using scan_tlvs_end [of p "p0 @ tlv_bytes 2 iv @ tlv_bytes 3 sid @ tlv_bytes 4 user" tail
        "20 + length iv + length sid + length user"] p l by simp
  show ?thesis using a b c d by (simp add: p_def)
qed

lemma parse_handshake_body:
  assumes "length iv < 65536" "length sid < 65536" "length user < 65536" "length ct < 65536"
  shows "parse_handshake_frame A key (handshake_body index iv sid user ct @ rest) =
     andThen (aes_cbc_decrypt A key iv ct) parse_json_object"
proof -
  define p where "p = handshake_body index iv sid user ct @ rest"
  define n where "n = 24 + length iv + length sid + length user"
  define pre where "pre = [0, 1, 0, 2] @ be_bytes 2 index @ [0, 0] @ tlv_bytes 2 iv @ tlv_bytes 3 sid @
     tlv_bytes 4 user @ [0, 0, 0, 0 :: byte]"
  have p: "p = pre @ [7] @ be_bytes 2 (length ct) @ ct @ rest"
    by (simp add: p_def pre_def handshake_body_def)
  have l: "length pre = n" by (simp add: pre_def n_def)
  have m: "p ! n = 7"
    using nth_mid [of pre n 7] p l by simp
  have len: "from_be (slice p (n + 1) (n + 3)) = length ct"
    using slice_mid [of "pre @ [7]" "n + 1" "n + 3" "be_bytes 2 (length ct)" "ct @ rest"] p l assms
    by (simp add: from_be_2)
  have ct: "slice p (n + 3) (n + 3 + length ct) = ct"
    using slice_mid [of "pre @ [7] @ be_bytes 2 (length ct)" "n + 3" "n + 3 + length ct" ct rest] p l by simp
  have scan: "scan_tlvs p 8 None = Inr (n, Some iv)"
    using scan_handshake_body [OF assms(1-3), of index ct rest] by (simp add: p_def n_def)
  have "n < length p" using p l by simp
  then show ?thesis
    using scan m len ct unfolding p_def [symmetric]
    by (simp add: parse_handshake_frame_def framing_constants Let_def)
qed

lemma assemble_handshake_eq:
  assumes "aes_cbc_encrypt A key iv msg = Inr ct" "index < 65536"
    "63 + length iv + length sid + length user + length ct < 65536"
  shows "\<exists>mac. assemble_handshake_frame A index key iv sid user msg =
     Inr ([FRAME_HANDSHAKE, 0] @ be_bytes 2 (63 + length iv + length sid + length user + length ct) @
          handshake_body index iv sid user ct @ [0, 8, 0, 0x20] @ mac) \<and> length mac = 32"
proof -
  have b: "concat [[0, 1, 0, 2], be_bytes 2 index @ [0, 0], tlv_bytes 2 iv, tlv_bytes 3 sid, tlv_bytes 4 user,
       [0, 0, 0, 0], [ENCRYPTED_SECTION_MARKER] @ be_bytes 2 (length ct), ct]
     = handshake_body index iv sid user ct"
    by (simp add: handshake_body_def framing_constants)
  have full: "length (handshake_body index iv sid user ct) + TLV_HEADER_LENGTH + MAC_LENGTH =
      63 + length iv + length sid + length user + length ct"
    by (simp add: length_handshake_body framing_constants)
  have t: "type_length_value 2 iv = Inr (tlv_bytes 2 iv)" "type_length_value 3 sid = Inr (tlv_bytes 3 sid)"
    "type_length_value 4 user = Inr (tlv_bytes 4 user)"
    using assms(3) by (simp_all add: type_length_value_eq)
  have n: "to_be 2 index = Inr (be_bytes 2 index)" "to_be 2 (length ct) = Inr (be_bytes 2 (length ct))"
    "to_be 2 (63 + length iv + length sid + length user + length ct) =
       Inr (be_bytes 2 (63 + length iv + length sid + length user + length ct))"
    using assms(2,3) by (simp_all add: to_be_def)
  show ?thesis
    unfolding assemble_handshake_frame_def assms(1) andThen.simps n(1,2) t Let_def b full n(3) by simp
qed

section \<open>Properties\<close>

text \<open>What a genuine payload looks like: two bytes the reader skips, the length, the segment,
  its tag, and possibly more.\<close>

definition carries :: "bytes \<Rightarrow> bytes \<Rightarrow> bytes \<Rightarrow> bool" where
  "carries media_key payload segment \<longleftrightarrow>
     length segment + 20 < 65536 \<and> (\<exists>a b extra.
       payload = [a, b] @ be_bytes 2 (length segment + 20) @ segment @ media_tag media_key segment @ extra)"

lemma unwrap_iff: "unwrap_media_frame media_key payload = Inr segment \<longleftrightarrow> carries media_key payload segment"
  unfolding carries_def using unwrap_accepts by (auto elim: unwrap_sound)

text \<open>
  A payload is accepted as media only when it carries the HMAC tag of exactly the segment
  it yields under this session's media key; every other payload, whatever its length fields
  say, is refused with a protocol error and nothing of it is read out of bounds.
\<close>

theorem media_frame_authentic:
  "case unwrap_media_frame media_key payload of
     Inr segment \<Rightarrow> carries media_key payload segment
   | Inl e \<Rightarrow> is_tuya_error e \<and> (\<nexists>segment. carries media_key payload segment)"
  using unwrap_errors [of media_key payload]
  by (auto simp: unwrap_iff [symmetric] split: sum.split)

text \<open>
  A KCP segment wrapped in a media frame is the segment the peer reads out of that frame:
  the frame starts with the media magic and the length of the rest, the rest unwraps to the
  segment, and building fails, with an overflow, only for segments that cannot be framed.
\<close>

theorem media_frame_roundtrip:
  "case media_frame media_key segment of
     Inr frame \<Rightarrow> take 2 frame = [FRAME_MEDIA, 0] \<and> from_be (slice frame 2 4) = length (drop 4 frame) \<and>
       unwrap_media_frame media_key (drop 4 frame) = Inr segment
   | Inl e \<Rightarrow> e = OverflowError \<and> 65512 \<le> length segment"
proof (cases "length segment + 24 < 65536")
  case True
  let ?n = "length segment + 24"
  have l: "length (media_payload media_key segment) = ?n"
    by (simp add: media_payload_def)
  have f: "media_frame media_key segment = Inr ([FRAME_MEDIA, 0] @ be_bytes 2 ?n @ media_payload media_key segment)"
    using True by (simp add: media_frame_eq relay_frame_eq l)
  have "slice ([FRAME_MEDIA, 0] @ be_bytes 2 ?n @ media_payload media_key segment) 2 4 = be_bytes 2 ?n"
    by (rule slice_mid) simp_all
  then show ?thesis
    using True l by (simp add: f from_be_2 unwrap_media_payload)
next
  case False
  then show ?thesis by (simp add: media_frame_eq)
qed

lemma handshake_frame_parses:
  assumes "cbc_laws A" "length key = 16" "length iv = 16" "wf_json (JObj message)" "index < 65536"
    and "length sid + length user + length (dump_json (JObj message)) + 95 < 65536"
  shows "\<exists>payload. assemble_handshake_frame A index key iv sid user (dump_json (JObj message)) =
      Inr ([FRAME_HANDSHAKE, 0] @ be_bytes 2 (length payload) @ payload) \<and>
    length payload < 65536 \<and> parse_handshake_frame A key payload = Inr message"
proof -
  obtain ct where ct: "aes_cbc_encrypt A key iv (dump_json (JObj message)) = Inr ct"
    "length ct = length (pad_pkcs7 (dump_json (JObj message)))"
    "aes_cbc_decrypt A key iv ct = Inr (dump_json (JObj message))"
    using aes_cbc_roundtrip [OF assms(1) aes_key_size_16 [OF assms(2)] assms(3)] by blast
  have "length ct \<le> length (dump_json (JObj message)) + 16"
    using ct(2) padding_of_bounds(2) [of "dump_json (JObj message)"] by (simp add: length_pad_pkcs7)
  then have n: "63 + length iv + length sid + length user + length ct < 65536"
    using assms(3,6) by linarith
  obtain mac where f: "assemble_handshake_frame A index key iv sid user (dump_json (JObj message)) =
     Inr ([FRAME_HANDSHAKE, 0] @ be_bytes 2 (63 + length iv + length sid + length user + length ct) @
          handshake_body index iv sid user ct @ [0, 8, 0, 0x20] @ mac)" and mac: "length mac = 32"
    using assemble_handshake_eq [OF ct(1) assms(5) n] by blast
  let ?payload = "handshake_body index iv sid user ct @ [0, 8, 0, 0x20] @ mac"
  have l: "length ?payload = 63 + length iv + length sid + length user + length ct"
    by (simp add: length_handshake_body mac)
  have "parse_handshake_frame A key ?payload = Inr message"
    using n by (subst parse_handshake_body) (simp_all add: ct(3) parse_dump_object [OF assms(4)])
  then show ?thesis
    using f l n by (intro exI [of _ ?payload]) (simp add: add.assoc)
qed

text \<open>
  The message of a handshake frame is what the peer that holds the same key parses out of
  it: building succeeds whenever the frame fits its 16-bit length, and decrypting its payload
  gives the JSON object that was sent, with the initialization vector found among the TLVs.
\<close>

theorem handshake_roundtrip:
  assumes "cbc_laws A" "length key = 16" "length iv = 16" "wf_json (JObj message)" "index < 65536"
    and "length sid + length user + length (dump_json (JObj message)) + 95 < 65536"
  shows "\<exists>payload. assemble_handshake_frame A index key iv sid user (dump_json (JObj message)) =
      Inr ([FRAME_HANDSHAKE, 0] @ be_bytes 2 (length payload) @ payload) \<and>
    length payload < 65536 \<and> parse_handshake_frame A key payload = Inr message"
  using assms by (rule handshake_frame_parses)

lemma handshake_roundtrip_witness:
  "\<exists>payload. assemble_handshake_frame flip_cipher 0 (replicate 16 1) (replicate 16 2) [3] [4]
       (dump_json (JObj [(''method'', JStr ''ack'')])) =
      Inr ([FRAME_HANDSHAKE, 0] @ be_bytes 2 (length payload) @ payload) \<and>
    length payload < 65536 \<and>
    parse_handshake_frame flip_cipher (replicate 16 1) payload = Inr [(''method'', JStr ''ack'')]"
  by (rule handshake_roundtrip)
    (simp_all add: flip_cipher_cbc dump_json_def dump_string_def escape_char_def length_str_encode ascii_def)

end
