(* ===== verification/Text.thy ===== *)
theory Text
  imports Json_Types
begin

text \<open>
  The string operations of Python the program uses beyond concatenation: \<^verbatim>\<open>split\<close>,
  \<^verbatim>\<open>splitlines\<close>, \<^verbatim>\<open>startswith\<close>, \<^verbatim>\<open>removeprefix\<close>,
  \<^verbatim>\<open>partition\<close>, \<^verbatim>\<open>rpartition\<close>, \<^verbatim>\<open>strip\<close> of given characters,
  \<^verbatim>\<open>isdigit\<close> and \<^verbatim>\<open>bytes.fromhex\<close>, with the laws that read a field back out of a
  joined text.
\<close>

section \<open>Splitting\<close>

fun split_on :: "char \<Rightarrow> string \<Rightarrow> string list" where
  "split_on c [] = [[]]"
| "split_on c (x # xs) =
     (if x = c then [] # split_on c xs
      else (case split_on c xs of p # ps \<Rightarrow> (x # p) # ps | [] \<Rightarrow> [[x]]))"

lemma split_on_nonempty: "split_on c xs \<noteq> []"
  by (induction xs) (auto split: list.split)

lemma split_on_plain: "c \<notin> set xs \<Longrightarrow> split_on c xs = [xs]"
  by (induction xs) auto

lemma split_on_append: "c \<notin> set xs \<Longrightarrow> split_on c (xs @ c # ys) = xs # split_on c ys"
  by (induction xs) auto

lemma split_on_join: "xs \<noteq> [] \<Longrightarrow> \<forall>x \<in> set xs. c \<notin> set x \<Longrightarrow> split_on c (join [c] xs) = xs"
  by (induction "[c]" xs rule: join.induct) (simp_all add: split_on_plain split_on_append)

text \<open>\<^verbatim>\<open>s.partition(c)\<close> as the parts before and behind the first \<open>c\<close>, and
  \<^verbatim>\<open>rpartition\<close> for the last one; \<open>None\<close> when there is no \<open>c\<close>.\<close>

definition partition_at :: "char \<Rightarrow> string \<Rightarrow> (string \<times> string) option" where
  "partition_at c s =
     (if c \<in> set s then Some (takeWhile (\<lambda>x. x \<noteq> c) s, drop 1 (dropWhile (\<lambda>x. x \<noteq> c) s)) else None)"

definition rpartition_at :: "char \<Rightarrow> string \<Rightarrow> (string \<times> string) option" where
  "rpartition_at c s = map_option (\<lambda>(a, b). (rev b, rev a)) (partition_at c (rev s))"

lemma partition_at_append: "c \<notin> set a \<Longrightarrow> partition_at c (a @ c # b) = Some (a, b)"
proof -
  assume a: "c \<notin> set a"
  then have "takeWhile (\<lambda>x. x \<noteq> c) (a @ c # b) = a" and "dropWhile (\<lambda>x. x \<noteq> c) (a @ c # b) = c # b"
    by (induction a) auto
  then show ?thesis by (simp add: partition_at_def)
qed

lemma rpartition_at_append: "c \<notin> set b \<Longrightarrow> rpartition_at c (a @ c # b) = Some (a, b)"
  using partition_at_append [of c "rev b" "rev a"] by (simp add: rpartition_at_def)

lemma rpartition_at_None: "rpartition_at c s = None \<longleftrightarrow> c \<notin> set s"
  by (auto simp: rpartition_at_def partition_at_def)

section \<open>Prefixes and stripping\<close>

definition starts_with :: "string \<Rightarrow> string \<Rightarrow> bool" where
  "starts_with prefix s \<longleftrightarrow> take (length prefix) s = prefix"

definition remove_prefix :: "string \<Rightarrow> string \<Rightarrow> string" where
  "remove_prefix prefix s = (if starts_with prefix s then drop (length prefix) s else s)"

lemma starts_with_append [simp]: "starts_with p (p @ s)"
  by (simp add: starts_with_def)

lemma remove_prefix_append [simp]: "remove_prefix p (p @ s) = s"
  by (simp add: remove_prefix_def)

text \<open>Prefixes that differ at some position exclude each other.\<close>

lemma starts_with_nth: "starts_with p s \<Longrightarrow> i < length p \<Longrightarrow> i < length s \<and> s ! i = p ! i"
proof -
  assume p: "starts_with p s" and i: "i < length p"
  then have "length p \<le> length s"
    unfolding starts_with_def by (metis length_take min.absorb_iff2 min.commute)
  moreover have "s ! i = take (length p) s ! i" using i by simp
  then have "s ! i = p ! i" using p by (simp only: starts_with_def)
  ultimately show ?thesis using i by simp
qed

definition strip_chars :: "char set \<Rightarrow> string \<Rightarrow> string" where
  "strip_chars cs s = rev (dropWhile (\<lambda>c. c \<in> cs) (rev (dropWhile (\<lambda>c. c \<in> cs) s)))"

definition rstrip_chars :: "char set \<Rightarrow> string \<Rightarrow> string" where
  "rstrip_chars cs s = rev (dropWhile (\<lambda>c. c \<in> cs) (rev s))"

lemma dropWhile_none: "\<forall>c \<in> set s. \<not> P c \<Longrightarrow> dropWhile P s = s"
  by (cases s) auto

lemma strip_chars_none: "set s \<inter> cs = {} \<Longrightarrow> strip_chars cs s = s"
proof -
  assume "set s \<inter> cs = {}"
  then have "\<forall>c \<in> set s. c \<notin> cs" "\<forall>c \<in> set (rev s). c \<notin> cs" by auto
  then show ?thesis by (simp add: strip_chars_def dropWhile_none)
qed

lemma rstrip_chars_none: "set s \<inter> cs = {} \<Longrightarrow> rstrip_chars cs s = s"
proof -
  assume "set s \<inter> cs = {}"
  then have "\<forall>c \<in> set (rev s). c \<notin> cs" by auto
  then show ?thesis by (simp add: rstrip_chars_def dropWhile_none)
qed

text \<open>\<^verbatim>\<open>str.isdigit\<close>: the ASCII digits and, among the code points up to 255, the three
  superscripts.\<close>

definition all_digits :: "string \<Rightarrow> bool" where
  "all_digits s \<longleftrightarrow> s \<noteq> [] \<and> list_all (\<lambda>c. is_digit c \<or> c \<in> {CHR 0xB2, CHR 0xB3, CHR 0xB9}) s"

section \<open>Lines\<close>

definition line_break :: "char \<Rightarrow> bool" where
  "line_break c \<longleftrightarrow> c \<in> {CHR 0x0A, CHR 0x0B, CHR 0x0C, CHR 0x0D, CHR 0x1C, CHR 0x1D, CHR 0x1E, CHR 0x85}"

definition CRLF :: string where "CRLF = [CHR 0x0D, CHR 0x0A]"

definition behind_break :: "string \<Rightarrow> string" where
  "behind_break s = (if take 2 s = CRLF then drop 2 s else drop 1 s)"

function splitlines :: "string \<Rightarrow> string list" where
  "splitlines s =
     (if s = [] then []
      else takeWhile (\<lambda>c. \<not> line_break c) s #
           splitlines (behind_break (dropWhile (\<lambda>c. \<not> line_break c) s)))"
  by pat_completeness auto
termination
proof (relation "measure length")
  fix s :: string assume "s \<noteq> []"
  have l: "length (dropWhile (\<lambda>c. \<not> line_break c) s) \<le> length s"
    by (rule length_dropWhile_le)
  show "(behind_break (dropWhile (\<lambda>c. \<not> line_break c) s), s) \<in> measure length"
  proof (cases "dropWhile (\<lambda>c. \<not> line_break c) s = []")
    case True
    then show ?thesis using \<open>s \<noteq> []\<close> unfolding True by (simp add: behind_break_def CRLF_def)
  next
    case False
    then have "length (behind_break (dropWhile (\<lambda>c. \<not> line_break c) s)) < length (dropWhile (\<lambda>c. \<not> line_break c) s)"
      by (simp add: behind_break_def del: dropWhile_eq_Nil_conv)
    with l show ?thesis by simp
  qed
qed simp

declare splitlines.simps [simp del]

definition one_line :: "string \<Rightarrow> bool" where
  "one_line s \<longleftrightarrow> list_all (\<lambda>c. \<not> line_break c) s"

lemma splitlines_Cons: "one_line l \<Longrightarrow> splitlines (l @ CRLF @ s) = l # splitlines s"
proof -
  assume l: "one_line l"
  then have "takeWhile (\<lambda>c. \<not> line_break c) (l @ CRLF @ s) = l"
    and "dropWhile (\<lambda>c. \<not> line_break c) (l @ CRLF @ s) = CRLF @ s"
    by (simp_all add: one_line_def list_all_iff CRLF_def line_break_def)
  then show ?thesis
    by (subst splitlines.simps) (simp add: behind_break_def CRLF_def)
qed

lemma splitlines_lines: "list_all one_line ls \<Longrightarrow> splitlines (concat (map (\<lambda>l. l @ CRLF) ls)) = ls"
  by (induction ls) (simp_all add: splitlines_Cons splitlines.simps [of "[]"])

lemma join_terminated: "join sep (ls @ [[]]) = concat (map (\<lambda>l. l @ sep) ls)"
  by (induction ls) (simp_all add: join_Cons)

section \<open>Hexadecimal\<close>

definition hex_space :: "char \<Rightarrow> bool" where
  "hex_space c \<longleftrightarrow> c \<in> {CHR '' '', CHR 0x09, CHR 0x0A, CHR 0x0B, CHR 0x0C, CHR 0x0D}"

fun from_hex :: "string \<Rightarrow> exn + bytes" where
  "from_hex [] = Inr []"
| "from_hex (c # r) =
     (if hex_space c then from_hex r
      else case r of
          d # q \<Rightarrow>
            (case (hex_value c, hex_value d) of
               (Some x, Some y) \<Rightarrow> andThen (from_hex q) (\<lambda>bs. Inr (word_of_nat (16 * x + y) # bs))
             | _ \<Rightarrow> Inl ValueError)
        | [] \<Rightarrow> Inl ValueError)"

lemma from_hex_errors: "from_hex s = Inl e \<Longrightarrow> e = ValueError"
  by (induction s rule: from_hex.induct) (auto simp: andThen_Inl_iff split: if_splits list.splits option.splits)

lemma hex_digit_not_space: "n < 16 \<Longrightarrow> \<not> hex_space (hex_digit n)"
proof -
  assume "n < 16"
  then have "printable (hex_digit n)" and "hex_digit n \<noteq> CHR '' ''"
    using hex_digit_printable [of n] hex_value_digit [of n] by (auto simp: hex_value_def)
  then show ?thesis by (auto simp: hex_space_def printable_def)
qed

lemma unat_byte_bound: "unat (b :: byte) < 256"
proof -
  have "unat b < 2 ^ LENGTH(8)" by (rule unsigned_less)
  then show ?thesis by simp
qed

lemma from_hex_hex: "from_hex (hex bs) = Inr bs"
proof (induction bs)
  case Nil
  then show ?case by (simp add: hex_def)
next
  case (Cons b bs)
  have n: "unat b div 16 < 16" "unat b mod 16 < 16" using unat_byte_bound [of b] by simp_all
  have "hex (b # bs) = hex_digit (unat b div 16) # hex_digit (unat b mod 16) # hex bs"
    by (simp add: hex_def)
  then show ?case
    using n Cons hex_digit_not_space [OF n(1)] by (simp add: hex_value_digit)
qed

lemma hex_printable: "list_all printable (hex bs)"
proof (induction bs)
  case (Cons b bs)
  have "unat b div 16 < 16" "unat b mod 16 < 16" using unat_byte_bound [of b] by simp_all
  then show ?case using Cons by (simp add: hex_def hex_digit_printable)
qed (simp add: hex_def)

lemma printable_one_line: "list_all printable s \<Longrightarrow> one_line s"
  unfolding one_line_def list_all_iff by (auto simp: printable_def line_break_def)

lemma one_line_append: "one_line (a @ b) \<longleftrightarrow> one_line a \<and> one_line b"
  by (simp add: one_line_def)

end
