(* ===== verification/Handshake_Signer.thy ===== *)
theory Handshake_Signer
  imports Crypto Text
begin

text \<open>
  Models \<^verbatim>\<open>src/tuya_ipc_p2p_sdk/signaling/handshake_signer.py\<close>: the signatures of the
  relay's challenge-response, the two JSON messages the client sends, and the field lookup in
  a comma-joined authorization string. The lemmas give the lookup's result on such strings and
  the JSON the peer reads out of the messages.
\<close>

section \<open>Model\<close>

definition AUTH_KEY_LENGTH :: nat where "AUTH_KEY_LENGTH = 64"

record handshake_signer =
  hs_key :: bytes
  hs_prefix :: "string list"

definition new_signer :: "string \<Rightarrow> string \<Rightarrow> string \<Rightarrow> string \<Rightarrow> string \<Rightarrow> exn + handshake_signer" where
  "new_signer credential expire_timestamp device_id session_id uid =
     (if credential = [] then Inl (ProtocolError ''Failed to sign handshake: no relay credential'')
      else let key = str_encode credential
           in Inr \<lparr>hs_key = key @ replicate (AUTH_KEY_LENGTH - length key) 0,
                   hs_prefix = [expire_timestamp, device_id, session_id, uid]\<rparr>)"

definition sign_tail :: "handshake_signer \<Rightarrow> string list \<Rightarrow> string" where
  "sign_tail s tail = hmac_sha256_hex (Raw (hs_key s)) (Str (join '':'' (hs_prefix s @ tail)))"

definition device_signature :: "handshake_signer \<Rightarrow> string \<Rightarrow> string" where
  "device_signature s client_random = sign_tail s [client_random]"

definition ack_signature :: "handshake_signer \<Rightarrow> string \<Rightarrow> string \<Rightarrow> string" where
  "ack_signature s signature device_random = sign_tail s [signature, device_random]"

definition auth_request_message :: "string \<Rightarrow> string \<Rightarrow> string \<Rightarrow> json_object" where
  "auth_request_message device_id uid random =
     [(''clientType'', JInt 1), (''method'', JStr ''request''), (''devId'', JStr device_id),
      (''uId'', JStr uid), (''authorization'', JStr (''random='' @ random))]"

definition build_auth_request :: "string \<Rightarrow> string \<Rightarrow> string \<Rightarrow> bytes" where
  "build_auth_request device_id uid random = dump_json (JObj (auth_request_message device_id uid random))"

definition auth_ack_message :: "string \<Rightarrow> string \<Rightarrow> string \<Rightarrow> json_object" where
  "auth_ack_message device_id uid signature =
     [(''clientType'', JInt 1), (''method'', JStr ''ack''), (''devId'', JStr device_id),
      (''uId'', JStr uid), (''statuscode'', JInt 200), (''authorization'', JStr (''signature='' @ signature))]"

definition build_auth_ack :: "string \<Rightarrow> string \<Rightarrow> string \<Rightarrow> bytes" where
  "build_auth_ack device_id uid signature = dump_json (JObj (auth_ack_message device_id uid signature))"

definition authorization_field :: "string \<Rightarrow> string \<Rightarrow> string" where
  "authorization_field authorization key =
     (case List.find (starts_with (key @ ''='')) (split_on (CHR '','') authorization) of
        None \<Rightarrow> []
      | Some part \<Rightarrow> drop (length key + 1) part)"

section \<open>Laws\<close>

lemma int_in_range_small: "int_in_range 1" "int_in_range 200" "int_in_range 0"
  by (simp_all add: int_in_range_def MAX_INT_DIGITS_def dec_digits.simps [of "Suc 0"] dec_digits.simps [of 200]
      dec_digits.simps [of 20] dec_digits.simps [of 2] dec_digits.simps [of 0])

lemma wf_auth_messages:
  "wf_json (JObj (auth_request_message d u r))" "wf_json (JObj (auth_ack_message d u s))"
  by (simp_all add: auth_request_message_def auth_ack_message_def int_in_range_small)

lemma parse_auth_messages:
  "parse_json_object (build_auth_request d u r) = Inr (auth_request_message d u r)"
  "parse_json_object (build_auth_ack d u s) = Inr (auth_ack_message d u s)"
  unfolding build_auth_request_def build_auth_ack_def
  by (rule parse_dump_object, rule wf_auth_messages)+

definition pair_text :: "string \<times> string \<Rightarrow> string" where
  "pair_text kv = fst kv @ ''='' @ snd kv"

lemma starts_with_pair:
  assumes "CHR ''='' \<notin> set key" "CHR ''='' \<notin> set k"
  shows "starts_with (key @ ''='') (pair_text (k, v)) \<longleftrightarrow> k = key"
proof
  assume s: "starts_with (key @ ''='') (pair_text (k, v))"
  then have p: "take (Suc (length key)) (k @ ''='' @ v) = key @ ''=''"
    by (simp add: starts_with_def pair_text_def)
  then have "takeWhile (\<lambda>c. c \<noteq> CHR ''='') (take (Suc (length key)) (k @ ''='' @ v)) = key"
    using assms(1) by (auto simp: takeWhile_append)
  moreover have "takeWhile (\<lambda>c. c \<noteq> CHR ''='') (k @ ''='' @ v) = k"
    using assms(2) by (auto simp: takeWhile_append)
  moreover have "k @ ''='' @ v = (key @ ''='') @ drop (Suc (length key)) (k @ ''='' @ v)"
    using p append_take_drop_id [of "Suc (length key)" "k @ ''='' @ v"] by simp
  then have "takeWhile (\<lambda>c. c \<noteq> CHR ''='') (k @ ''='' @ v) = key"
    using assms(1) by (auto simp: takeWhile_append)
  ultimately show "k = key" by simp
qed (simp add: starts_with_def pair_text_def)

lemma find_pair:
  "CHR ''='' \<notin> set key \<Longrightarrow> \<forall>kv \<in> set kvs. CHR ''='' \<notin> set (fst kv) \<Longrightarrow>
     List.find (starts_with (key @ ''='')) (map pair_text kvs) = map_option (\<lambda>v. pair_text (key, v)) (map_of kvs key)"
  by (induction kvs) (auto simp: starts_with_pair)

lemma authorization_field_pairs:
  assumes "kvs \<noteq> []" and "\<forall>kv \<in> set kvs. CHR '','' \<notin> set (fst kv) \<and> CHR '','' \<notin> set (snd kv) \<and> CHR ''='' \<notin> set (fst kv)"
    and "CHR ''='' \<notin> set key"
  shows "authorization_field (join '','' (map pair_text kvs)) key = (case map_of kvs key of None \<Rightarrow> [] | Some v \<Rightarrow> v)"
proof -
  have "split_on (CHR '','') (join '','' (map pair_text kvs)) = map pair_text kvs"
    using assms(1,2) by (intro split_on_join) (auto simp: pair_text_def)
  then show ?thesis
    using find_pair [of key kvs] assms(2,3)
    by (auto simp: authorization_field_def pair_text_def split: option.split)
qed

text \<open>
  A field of the authorization string is found wherever it stands among the comma-joined
  pairs, its value taken whole even when it contains further equals signs; a missing field
  reads as the empty string.
\<close>

theorem authorization_field_lookup:
  assumes "kvs \<noteq> []" and "\<forall>kv \<in> set kvs. CHR '','' \<notin> set (fst kv) \<and> CHR '','' \<notin> set (snd kv) \<and> CHR ''='' \<notin> set (fst kv)"
    and "CHR ''='' \<notin> set key"
  shows "authorization_field (join '','' (map pair_text kvs)) key = (case map_of kvs key of None \<Rightarrow> [] | Some v \<Rightarrow> v)"
  using assms by (rule authorization_field_pairs)

lemma authorization_field_lookup_witness:
  "authorization_field (join '','' (map pair_text [(''signature'', ''a=b''), (''random'', ''xyz'')])) ''random'' = ''xyz''"
  using authorization_field_lookup [of "[(''signature'', ''a=b''), (''random'', ''xyz'')]" "''random''"] by simp

end
