(* ===== verification/Models.thy ===== *)
theory Models
  imports Text
begin

text \<open>
  Models the records under \<^verbatim>\<open>src/tuya_ipc_p2p_sdk/models/\<close>: the P2P session and the relay
  token of a configuration fetch, the stream configuration built from both, and the records of
  the account, the broker identity and a device. A \<^verbatim>\<open>from_json\<close> that fails returns the
  exception it raises. The lemmas say what a configuration holds when it is read, with which
  exceptions reading fails, where the relay is dialled, and what of the token the offer
  changes.
\<close>

section \<open>Records\<close>

record account_session =
  acc_sid :: string
  acc_ecode :: string
  acc_uid :: string
  acc_device_fingerprint :: string

record mqtt_identity =
  mq_host :: string
  mq_port :: nat
  mq_client_id :: string
  mq_username :: string
  mq_password :: string

record tuya_device =
  dev_id :: string
  dev_name :: string
  dev_category :: string
  dev_local_key :: string
  dev_product_id :: "string option"
  dev_online :: bool

record p2p_session =
  p2p_session_id :: string
  p2p_aes_key :: bytes
  p2p_ice_ufrag :: string
  p2p_ice_password :: string
  p2p_trace_id :: string
  p2p_uid :: "string option"

record relay_token =
  rt_urls :: "string list"
  rt_username :: string
  rt_credential :: string
  rt_session_id :: string
  rt_raw :: json_object

record stream_config =
  sc_device_id :: string
  sc_local_key :: string
  sc_device_password :: string
  sc_moto_id :: string
  sc_p2p_session :: p2p_session
  sc_relay_token :: relay_token
  sc_ice_servers :: "json_object list"
  sc_log_config :: "json_object option"

text \<open>\<^verbatim>\<open>x or ''\<close> on an optional string.\<close>

fun or_empty :: "string option \<Rightarrow> string" where
  "or_empty None = []"
| "or_empty (Some s) = s"

section \<open>P2P session\<close>

definition p2p_from_json :: "json_object \<Rightarrow> exn + p2p_session" where
  "p2p_from_json source =
     andThen (require_str source ''sessionId'') (\<lambda>session_id.
     andThen (require_str source ''aesKey'') (\<lambda>aes_hex.
     andThen (from_hex aes_hex) (\<lambda>aes_key.
     andThen (require_str source ''iceUfrag'') (\<lambda>ufrag.
     andThen (require_str source ''icePassword'') (\<lambda>password.
       Inr \<lparr>p2p_session_id = session_id, p2p_aes_key = aes_key, p2p_ice_ufrag = ufrag,
            p2p_ice_password = password, p2p_trace_id = or_empty (optional_str source ''traceId''),
            p2p_uid = optional_str source ''uid''\<rparr>)))))"

section \<open>Relay token\<close>

definition DEFAULT_RELAY_PORT :: nat where "DEFAULT_RELAY_PORT = 1443"

definition relay_token_from_json :: "json_object \<Rightarrow> exn + relay_token" where
  "relay_token_from_json source =
     (let urls = (if str_list source ''urls'' \<noteq> [] then str_list source ''urls'' else str_list source ''urlsEx'')
      in if urls = [] then Inl (ProtocolError ''Failed to read tcpRelay: no urls'')
         else andThen (require_str source ''username'') (\<lambda>username.
              andThen (require_str source ''credential'') (\<lambda>credential.
              andThen (require_str source ''sessionId'') (\<lambda>session_id.
                Inr \<lparr>rt_urls = urls, rt_username = username, rt_credential = credential,
                     rt_session_id = session_id, rt_raw = source\<rparr>))))"

definition expire_timestamp :: "relay_token \<Rightarrow> string" where
  "expire_timestamp token = takeWhile (\<lambda>c. c \<noteq> CHR '':'') (rt_username token)"

text \<open>\<^verbatim>\<open>int(port)\<close> of a string that \<^verbatim>\<open>isdigit\<close> accepts: the superscript digits it
  also accepts are no digits to \<^verbatim>\<open>int\<close>.\<close>

definition int_of_digits :: "string \<Rightarrow> exn + nat" where
  "int_of_digits s =
     (if list_all is_digit s \<and> length s \<le> MAX_INT_DIGITS then Inr (dec_value s) else Inl ValueError)"

definition endpoint :: "relay_token \<Rightarrow> exn + string \<times> nat" where
  "endpoint token =
     (if rt_urls token = [] then Inl (OtherError ''IndexError'')
      else let preferred = (case List.find (starts_with ''tcp4:'') (rt_urls token) of
                              Some url \<Rightarrow> url | None \<Rightarrow> hd (rt_urls token));
               without_scheme = remove_prefix ''tcp6:'' (remove_prefix ''tcp4:'' preferred)
           in case rpartition_at (CHR '':'') without_scheme of
                None \<Rightarrow> Inr (strip_chars (set ''[]'') without_scheme, DEFAULT_RELAY_PORT)
              | Some (host, port) \<Rightarrow>
                  if \<not> all_digits port
                  then Inr (strip_chars (set ''[]'') without_scheme, DEFAULT_RELAY_PORT)
                  else andThen (int_of_digits port) (\<lambda>n. Inr (strip_chars (set ''[]'') host, n)))"

definition offered :: "relay_token \<Rightarrow> string \<Rightarrow> json_object" where
  "offered token rendezvous_id = dict_set ''sessionId'' (JStr rendezvous_id) (rt_raw token)"

definition with_session_id :: "relay_token \<Rightarrow> string \<Rightarrow> relay_token" where
  "with_session_id token rendezvous_id =
     \<lparr>rt_urls = rt_urls token, rt_username = rt_username token, rt_credential = rt_credential token,
      rt_session_id = rendezvous_id, rt_raw = offered token rendezvous_id\<rparr>"

definition token_as_json :: "relay_token \<Rightarrow> json" where
  "token_as_json token = JObj (rt_raw token)"

section \<open>Stream configuration\<close>

definition stream_config_from_json :: "json_object \<Rightarrow> string \<Rightarrow> string \<Rightarrow> exn + stream_config" where
  "stream_config_from_json source device_id local_key =
     andThen (require_object source ''p2pConfig'') (\<lambda>p2p_config.
     andThen (andThen (require_object p2p_config ''session'') p2p_from_json) (\<lambda>session.
     andThen (andThen (require_object p2p_config ''tcpRelay'') relay_token_from_json) (\<lambda>token.
       Inr \<lparr>sc_device_id = device_id, sc_local_key = local_key,
            sc_device_password = or_empty (optional_str source ''password''),
            sc_moto_id = or_empty (optional_str source ''motoId''),
            sc_p2p_session = session, sc_relay_token = token,
            sc_ice_servers = object_list p2p_config ''ices'',
            sc_log_config = optional_object p2p_config ''log''\<rparr>)))"

definition ice_servers_as_json :: "stream_config \<Rightarrow> json" where
  "ice_servers_as_json config = JList (map JObj (sc_ice_servers config))"

definition log_config_as_json :: "stream_config \<Rightarrow> json" where
  "log_config_as_json config =
     (case sc_log_config config of None \<Rightarrow> JObj [] | Some ms \<Rightarrow> JObj ms)"

section \<open>Laws\<close>

lemma require_str_errors: "require_str d k = Inl e \<Longrightarrow> is_tuya_error e"
  by (rule require_str_Inl)

lemma require_object_errors: "require_object d k = Inl e \<Longrightarrow> is_tuya_error e"
  by (auto simp: require_object_def elim: from_option.elims)

lemma p2p_errors:
  "p2p_from_json d = Inl e \<Longrightarrow> is_tuya_error e \<or>
     e = ValueError \<and> (\<exists>h. map_of d ''aesKey'' = Some (JStr h) \<and> from_hex h = Inl ValueError)"
  by (auto simp: p2p_from_json_def andThen_Inl_iff andThen_Inr_iff require_str_Inr
      dest: require_str_errors from_hex_errors)

lemma relay_token_errors: "relay_token_from_json d = Inl e \<Longrightarrow> is_tuya_error e"
  by (auto simp: relay_token_from_json_def Let_def andThen_Inl_iff dest: require_str_errors split: if_splits)

lemma relay_token_Inr: "relay_token_from_json d = Inr t \<Longrightarrow> rt_raw t = d \<and> rt_urls t \<noteq> []"
  by (auto simp: relay_token_from_json_def Let_def andThen_Inr_iff split: if_splits)

text \<open>
  The token the offer carries is the token the gateway minted with nothing but its session
  id replaced by the rendezvous id: every other field, modelled or not, reaches the device
  unchanged and in its place, and the relay is still dialled at the same endpoint with the same
  credential and expiry.
\<close>

theorem offered_token:
  "token_as_json (with_session_id token rendezvous) = JObj (offered token rendezvous) \<and>
   map_of (offered token rendezvous) = (map_of (rt_raw token))(''sessionId'' \<mapsto> JStr rendezvous) \<and>
   map fst (offered token rendezvous) =
     (if ''sessionId'' \<in> fst ` set (rt_raw token) then map fst (rt_raw token)
      else map fst (rt_raw token) @ [''sessionId'']) \<and>
   rt_session_id (with_session_id token rendezvous) = rendezvous \<and>
   rt_credential (with_session_id token rendezvous) = rt_credential token \<and>
   endpoint (with_session_id token rendezvous) = endpoint token \<and>
   expire_timestamp (with_session_id token rendezvous) = expire_timestamp token"
proof -
  have "map fst (dict_set k v d) = (if k \<in> fst ` set d then map fst d else map fst d @ [k])" for k and v :: json and d
    by (induction k v d rule: dict_set.induct) auto
  moreover have "endpoint (with_session_id token rendezvous) = endpoint token"
  proof -
    have u: "rt_urls (with_session_id token rendezvous) = rt_urls token"
      by (simp add: with_session_id_def)
    show ?thesis unfolding endpoint_def u ..
  qed
  ultimately show ?thesis
    by (simp add: with_session_id_def offered_def token_as_json_def expire_timestamp_def)
qed

text \<open>
  The relay is dialled at the first IPv4 URL of the token when there is one, whatever its
  position: a URL of the form scheme, host, colon, port gives that host, without brackets, and
  that port, and an IPv6 host in brackets without a port falls back to the default port.
\<close>

theorem endpoint_prefers_ipv4:
  assumes "rt_urls token = before @ [''tcp4:'' @ host @ '':'' @ port] @ others"
    and "\<forall>u \<in> set before. \<not> starts_with ''tcp4:'' u"
    and "\<not> starts_with ''tcp6:'' (host @ '':'' @ port)" "set host \<inter> set ''[]'' = {}"
    and "port \<noteq> []" "list_all is_digit port" "length port \<le> MAX_INT_DIGITS"
  shows "endpoint token = Inr (host, dec_value port)"
proof -
  have "List.find (starts_with ''tcp4:'') (rt_urls token) = Some (''tcp4:'' @ host @ '':'' @ port)"
  proof -
    have "List.find (starts_with ''tcp4:'') (bs @ [''tcp4:'' @ host @ '':'' @ port] @ others) = Some (''tcp4:'' @ host @ '':'' @ port)"
      if "\<forall>u \<in> set bs. \<not> starts_with ''tcp4:'' u" for bs
      using that by (induction bs) (simp_all add: starts_with_def)
    then show ?thesis using assms(1,2) by simp
  qed
  moreover have "remove_prefix ''tcp6:'' (remove_prefix ''tcp4:'' (''tcp4:'' @ host @ '':'' @ port)) = host @ '':'' @ port"
    using assms(3) remove_prefix_append [of "''tcp4:''" "host @ '':'' @ port"]
    by (simp only: remove_prefix_def if_False)
  moreover have "CHR '':'' \<notin> set port"
    using assms(6) by (auto simp: list_all_iff is_digit_def)
  then have "rpartition_at (CHR '':'') (host @ '':'' @ port) = Some (host, port)"
    using rpartition_at_append [of "CHR '':''" port host] by simp
  moreover have "all_digits port"
    using assms(5,6) by (auto simp: all_digits_def list_all_iff)
  moreover have "int_of_digits port = Inr (dec_value port)"
    using assms(6,7) by (simp add: int_of_digits_def)
  moreover have "strip_chars (set ''[]'') host = host"
    using assms(4) by (rule strip_chars_none)
  moreover have "rt_urls token \<noteq> []" using assms(1) by simp
  ultimately show ?thesis unfolding endpoint_def Let_def by simp
qed

lemma endpoint_prefers_ipv4_witness:
  "endpoint \<lparr>rt_urls = [''tcp6:x:1'', ''tcp4:'' @ ''relay'' @ '':'' @ ''443''], rt_username = [], rt_credential = [],
      rt_session_id = [], rt_raw = []\<rparr> = Inr (''relay'', dec_value ''443'')"
  by (rule endpoint_prefers_ipv4 [where before = "[''tcp6:x:1'']" and others = "[]"])
    (simp_all add: starts_with_def is_digit_def MAX_INT_DIGITS_def)

text \<open>
  Reading a configuration fails with the SDK's protocol error whenever a required part is
  missing or of the wrong shape, with the one exception of a media key that is not
  hexadecimal: that raises a bare ValueError, which no handler of the SDK's errors catches.
\<close>

theorem stream_config_failures:
  "case stream_config_from_json source device_id local_key of
     Inr c \<Rightarrow> sc_device_id c = device_id \<and> sc_local_key c = local_key \<and>
       (\<exists>p. map_of source ''p2pConfig'' = Some (JObj p) \<and>
         (\<exists>s. map_of p ''session'' = Some (JObj s) \<and> p2p_from_json s = Inr (sc_p2p_session c)) \<and>
         (\<exists>t. map_of p ''tcpRelay'' = Some (JObj t) \<and> relay_token_from_json t = Inr (sc_relay_token c) \<and>
              rt_raw (sc_relay_token c) = t \<and> rt_urls (sc_relay_token c) \<noteq> []))
   | Inl e \<Rightarrow> is_tuya_error e \<or> e = ValueError \<and> \<not> is_tuya_error e \<and>
       (\<exists>p s h. map_of source ''p2pConfig'' = Some (JObj p) \<and> map_of p ''session'' = Some (JObj s) \<and>
          map_of s ''aesKey'' = Some (JStr h) \<and> from_hex h = Inl ValueError)"
proof (cases "stream_config_from_json source device_id local_key")
  case (Inl e)
  then have "is_tuya_error e \<or> e = ValueError \<and>
       (\<exists>p s h. map_of source ''p2pConfig'' = Some (JObj p) \<and> map_of p ''session'' = Some (JObj s) \<and>
          map_of s ''aesKey'' = Some (JStr h) \<and> from_hex h = Inl ValueError)"
    by (auto simp: stream_config_from_json_def andThen_Inl_iff andThen_Inr_iff require_object_Inr
        dest: require_object_errors relay_token_errors p2p_errors)
  then show ?thesis using Inl by auto
next
  case (Inr c)
  then obtain p s t where p: "map_of source ''p2pConfig'' = Some (JObj p)"
    "map_of p ''session'' = Some (JObj s)" "p2p_from_json s = Inr (sc_p2p_session c)"
    "map_of p ''tcpRelay'' = Some (JObj t)" "relay_token_from_json t = Inr (sc_relay_token c)"
    and c: "sc_device_id c = device_id" "sc_local_key c = local_key"
    by (auto simp: stream_config_from_json_def andThen_Inr_iff require_object_Inr)
  then show ?thesis
    unfolding Inr using relay_token_Inr [OF p(5)] by auto
qed

end
