(* ===== verification/Relay_Connection.thy ===== *)
theory Relay_Connection
  imports Relay_Framing Handshake_Signer Models
begin

text \<open>
  Models \<^verbatim>\<open>src/tuya_ipc_p2p_sdk/transport/relay_connection.py\<close>. The inbound side of the
  socket is the byte string that arrives and what happens when it runs out: the connection is
  lost, or nothing more comes and the surrounding timeout fires. Reading, the handshake and
  dialling are functions of it, returning the frames written and the result. The connected
  phase is a state machine over the record \<open>connection\<close>: a frame is read, reading fails, the
  keepalive timer fires, a segment is written, a handler is set, the connection is closed.

  The lemmas show that a stream of frames is cut back into those frames, that the final
  handshake message is sent only to a device that signed our random, that an honest device
  completes the handshake, that the close handler fires at most once, that nothing is written
  after a close, and which exceptions dialling raises.
\<close>

section \<open>Reading frames\<close>

definition CREDENTIAL_KEY_LENGTH :: nat where "CREDENTIAL_KEY_LENGTH = 16"
definition CLIENT_RANDOM_LENGTH :: nat where "CLIENT_RANDOM_LENGTH = 32"
definition FRAME_HEADER_LENGTH :: nat where "FRAME_HEADER_LENGTH = 4"
definition HANDSHAKE_REQUEST :: nat where "HANDSHAKE_REQUEST = 0"
definition HANDSHAKE_ACK :: nat where "HANDSHAKE_ACK = 2"

text \<open>How the bytes that arrive end: the peer closes the stream, the socket breaks with an error,
  or nothing more comes and the surrounding timeout fires. \<open>got\<close> and \<open>wanted\<close> count the bytes of
  the read that is cut short, which the text of \<^verbatim>\<open>IncompleteReadError\<close> tells.\<close>

datatype ending = Ended | Broken string | Silent

fun run_out :: "ending \<Rightarrow> nat \<Rightarrow> nat \<Rightarrow> exn" where
  "run_out Ended got wanted = ConnectionError (''Failed to read from the relay: '' @ dec_digits got @
     '' bytes read on a total of '' @ dec_digits wanted @ '' expected bytes'')"
| "run_out (Broken message) got wanted = ConnectionError (''Failed to read from the relay: '' @ message)"
| "run_out Silent got wanted = TimeoutError"

definition read_frame :: "ending \<Rightarrow> bytes \<Rightarrow> exn + (byte \<times> bytes) \<times> bytes" where
  "read_frame fin input =
     (if length input < FRAME_HEADER_LENGTH then Inl (run_out fin (length input) FRAME_HEADER_LENGTH)
      else let len = from_be (slice input 2 4) in
        if length input < FRAME_HEADER_LENGTH + len
        then Inl (run_out fin (length input - FRAME_HEADER_LENGTH) len)
        else Inr ((input ! 0, slice input FRAME_HEADER_LENGTH (FRAME_HEADER_LENGTH + len)),
                  drop (FRAME_HEADER_LENGTH + len) input))"

lemma read_frame_shorter: "read_frame fin input = Inr (f, rest) \<Longrightarrow> length rest < length input"
  by (auto simp: read_frame_def FRAME_HEADER_LENGTH_def Let_def split: if_splits)

function next_handshake_frame :: "ending \<Rightarrow> bytes \<Rightarrow> exn + bytes \<times> bytes" where
  "next_handshake_frame fin input =
     (case read_frame fin input of
        Inl e \<Rightarrow> Inl e
      | Inr ((magic, payload), rest) \<Rightarrow>
          if magic = FRAME_KEEPALIVE then next_handshake_frame fin rest
          else if magic \<noteq> FRAME_HANDSHAKE
          then Inl (ProtocolError (''Failed the relay handshake: unexpected frame 0x'' @ hex [magic]))
          else Inr (payload, rest))"
  by pat_completeness auto
termination
  by (relation "measure (\<lambda>(_, input). length input)") (auto dest: read_frame_shorter)

declare next_handshake_frame.simps [simp del]

section \<open>Handshake\<close>

text \<open>The frames written and the result; the client's random and the two initialization
  vectors are arguments.\<close>

definition handshake ::
    "cipher \<Rightarrow> relay_token \<Rightarrow> handshake_signer \<Rightarrow> string \<Rightarrow> string \<Rightarrow> string \<Rightarrow> bytes \<Rightarrow> bytes \<Rightarrow>
     ending \<Rightarrow> bytes \<Rightarrow> bytes list \<times> (exn + bytes)" where
  "handshake A token signer device_id uid client_random iv1 iv2 fin input =
     (let key = str_encode (take CREDENTIAL_KEY_LENGTH (rt_credential token));
          session_id = str_encode (rt_session_id token);
          username = str_encode (rt_username token)
      in case assemble_handshake_frame A HANDSHAKE_REQUEST key iv1 session_id username
                (build_auth_request device_id uid client_random) of
           Inl e \<Rightarrow> ([], Inl e)
         | Inr frame1 \<Rightarrow>
             (case andThen (next_handshake_frame fin input) (\<lambda>(payload, rest).
                     andThen (parse_handshake_frame A key payload) (\<lambda>response. Inr (response, rest))) of
                Inl e \<Rightarrow> ([frame1], Inl e)
              | Inr (response, rest) \<Rightarrow>
                  let authorization = or_empty (optional_str response ''authorization'');
                      signature = authorization_field authorization ''signature'';
                      device_random = authorization_field authorization ''random''
                  in if device_signature signer client_random \<noteq> signature
                     then ([frame1], Inl (ProtocolError ''Failed the relay handshake: device signature mismatch''))
                     else (case assemble_handshake_frame A HANDSHAKE_ACK key iv2 session_id username
                                  (build_auth_ack device_id uid (ack_signature signer signature device_random)) of
                             Inl e \<Rightarrow> ([frame1], Inl e)
                           | Inr frame2 \<Rightarrow>
                               ([frame1, frame2], andThen (next_handshake_frame fin rest) (\<lambda>(_, rest'). Inr rest')))))"

section \<open>The connected phase\<close>

record connection =
  rc_media_key :: bytes
  rc_writer :: bool
  rc_segment_handler :: bool
  rc_close_handler :: bool
  rc_reading :: bool
  rc_keepalive :: bool
  rc_closed :: bool

datatype connection_effect =
    Wrote bytes
  | Segment bytes
  | ClosedWith "exn option"
  | WriteFailed exn

definition new_connection :: "bytes \<Rightarrow> connection" where
  "new_connection media_key = \<lparr>rc_media_key = media_key, rc_writer = False, rc_segment_handler = False,
     rc_close_handler = False, rc_reading = False, rc_keepalive = False, rc_closed = False\<rparr>"

definition set_segment_handler :: "bool \<Rightarrow> connection \<Rightarrow> connection" where
  "set_segment_handler h c = c\<lparr>rc_segment_handler := h\<rparr>"

definition set_close_handler :: "bool \<Rightarrow> connection \<Rightarrow> connection" where
  "set_close_handler h c = c\<lparr>rc_close_handler := h\<rparr>"

definition write_frame :: "bytes \<Rightarrow> connection \<Rightarrow> connection_effect list" where
  "write_frame frame c = (if rc_closed c \<or> \<not> rc_writer c then [] else [Wrote frame])"

definition write_segment :: "bytes \<Rightarrow> connection \<Rightarrow> connection_effect list" where
  "write_segment segment c =
     (case media_frame (rc_media_key c) segment of
        Inl e \<Rightarrow> [WriteFailed e]
      | Inr frame \<Rightarrow> write_frame frame c)"

definition notify_closed :: "exn option \<Rightarrow> connection \<Rightarrow> connection \<times> connection_effect list" where
  "notify_closed error c =
     (c\<lparr>rc_close_handler := False\<rparr>, if rc_close_handler c then [ClosedWith error] else [])"

definition close_connection :: "connection \<Rightarrow> connection \<times> connection_effect list" where
  "close_connection c =
     (if rc_closed c then (c, [])
      else notify_closed None
             (c\<lparr>rc_closed := True, rc_reading := False, rc_keepalive := False, rc_writer := False\<rparr>))"

text \<open>One turn of the read loop on a frame, and its end when reading fails.\<close>

definition read_turn :: "byte \<Rightarrow> bytes \<Rightarrow> connection \<Rightarrow> connection \<times> connection_effect list" where
  "read_turn magic payload c =
     (if \<not> rc_reading c \<or> rc_closed c then (c, [])
      else if magic = FRAME_KEEPALIVE then (c, [])
      else if magic \<noteq> FRAME_MEDIA then (c, [])
      else case unwrap_media_frame (rc_media_key c) payload of
             Inl e \<Rightarrow> notify_closed (Some e) (c\<lparr>rc_reading := False\<rparr>)
           | Inr segment \<Rightarrow> (c, if rc_segment_handler c then [Segment segment] else []))"

definition read_failed :: "exn \<Rightarrow> connection \<Rightarrow> connection \<times> connection_effect list" where
  "read_failed e c =
     (if \<not> rc_reading c then (c, []) else notify_closed (Some e) (c\<lparr>rc_reading := False\<rparr>))"

definition keepalive_turn :: "connection \<Rightarrow> connection_effect list" where
  "keepalive_turn c =
     (if rc_keepalive c \<and> \<not> rc_closed c
      then (case keepalive_frame of Inl e \<Rightarrow> [WriteFailed e] | Inr frame \<Rightarrow> write_frame frame c) else [])"

datatype connection_event =
    FrameRead byte bytes
  | ReadFailed exn
  | KeepaliveDue
  | WriteSegment bytes
  | SetSegmentHandler bool
  | SetCloseHandler bool
  | CloseConnection

fun connection_step :: "connection \<Rightarrow> connection_event \<Rightarrow> connection \<times> connection_effect list" where
  "connection_step c (FrameRead magic payload) = read_turn magic payload c"
| "connection_step c (ReadFailed e) = read_failed e c"
| "connection_step c KeepaliveDue = (c, keepalive_turn c)"
| "connection_step c (WriteSegment segment) = (c, write_segment segment c)"
| "connection_step c (SetSegmentHandler h) = (set_segment_handler h c, [])"
| "connection_step c (SetCloseHandler h) = (set_close_handler h c, [])"
| "connection_step c CloseConnection = close_connection c"

section \<open>Dialling\<close>

text \<open>\<open>dialled\<close> is the outcome of opening the TCP connection: None when it is open, or the
  exception the attempt ends with, which is translated when it is an \<^verbatim>\<open>OSError\<close>. The
  result comes with the connection as it is left.\<close>

definition dial_text :: "string \<times> nat \<Rightarrow> exn \<Rightarrow> string" where
  "dial_text address e =
     ''Failed to dial the relay '' @ fst address @ '':'' @ dec_digits (snd address) @ '': '' @ error_text e"

definition dial_error :: "string \<times> nat \<Rightarrow> exn \<Rightarrow> exn" where
  "dial_error address e = (if is_os_error e then ConnectionError (dial_text address e) else e)"

definition connect ::
    "cipher \<Rightarrow> relay_token \<Rightarrow> handshake_signer \<Rightarrow> string \<Rightarrow> string \<Rightarrow> string \<Rightarrow> bytes \<Rightarrow> bytes \<Rightarrow>
     exn option \<Rightarrow> ending \<Rightarrow> bytes \<Rightarrow> connection \<Rightarrow> connection \<times> connection_effect list \<times> (exn + bytes)" where
  "connect A token signer device_id uid client_random iv1 iv2 dialled fin input c =
     (if length (rt_credential token) < CREDENTIAL_KEY_LENGTH
      then (c, [], Inl (ProtocolError ''Failed to dial the relay: credential too short''))
      else case endpoint token of
        Inl e \<Rightarrow> (c, [], Inl e)
      | Inr address \<Rightarrow>
          (case dialled of
             Some e \<Rightarrow> (c, [], Inl (dial_error address e))
           | None \<Rightarrow>
               let c1 = c\<lparr>rc_writer := True\<rparr> in
               case handshake A token signer device_id uid client_random iv1 iv2 fin input of
                 (frames, Inl e) \<Rightarrow>
                   (let r = close_connection c1
                    in (fst r, concat (map (\<lambda>f. write_frame f c1) frames) @ snd r, Inl e))
               | (frames, Inr rest) \<Rightarrow>
                   (c1\<lparr>rc_reading := True, rc_keepalive := True\<rparr>,
                    concat (map (\<lambda>f. write_frame f c1) frames), Inr rest)))"

section \<open>Streams of frames\<close>

text \<open>The read loop on the bytes that arrive: a frame is read and handled until reading fails or
  the loop has ended, as it does on a frame with a wrong tag.\<close>

function read_loop :: "ending \<Rightarrow> bytes \<Rightarrow> connection \<Rightarrow> connection \<times> connection_effect list" where
  "read_loop fin input c =
     (if \<not> rc_reading c \<or> rc_closed c then (c, [])
      else case read_frame fin input of
        Inl e \<Rightarrow> read_failed e c
      | Inr ((magic, payload), rest) \<Rightarrow>
          (let r = read_turn magic payload c; r' = read_loop fin rest (fst r) in (fst r', snd r @ snd r')))"
  by pat_completeness auto
termination
  by (relation "measure (\<lambda>(_, input, _). length input)") (auto dest: read_frame_shorter)

declare read_loop.simps [simp del]

definition framed :: "byte \<times> bytes \<Rightarrow> bytes" where
  "framed mb = [fst mb, 0] @ be_bytes 2 (length (snd mb)) @ snd mb"

lemma relay_frame_framed: "fits_frame mb \<Longrightarrow> relay_frame (fst mb) (snd mb) = Inr (framed mb)"
  by (simp add: relay_frame_eq fits_frame_def framed_def)

lemma length_framed [simp]: "length (framed mb) = 4 + length (snd mb)"
  by (simp add: framed_def)

lemma read_framed:
  assumes "fits_frame mb"
  shows "read_frame fin (framed mb @ rest) = Inr (mb, rest)"
proof -
  have len: "from_be (slice (framed mb @ rest) 2 4) = length (snd mb)"
    using assms slice_mid [of "[fst mb, 0]" 2 4 "be_bytes 2 (length (snd mb))" "snd mb @ rest"]
    by (simp add: framed_def fits_frame_def from_be_2)
  have body: "slice (framed mb @ rest) 4 (4 + length (snd mb)) = snd mb"
    using slice_mid [of "[fst mb, 0] @ be_bytes 2 (length (snd mb))" 4 "4 + length (snd mb)" "snd mb" rest]
    by (simp add: framed_def)
  have "(framed mb @ rest) ! 0 = fst mb" by (simp add: framed_def)
  then show ?thesis
    using len body by (simp add: read_frame_def FRAME_HEADER_LENGTH_def Let_def)
qed

interpretation frames: framed_codec "\<lambda>mb. relay_frame (fst mb) (snd mb)"
  "\<lambda>input. andThen (read_frame Ended input) (\<lambda>fr. Inr (fst fr))" fits_frame snd 4
proof unfold_locales
  fix mb assume "fits_frame mb"
  then show "\<exists>w. relay_frame (fst mb) (snd mb) = Inr w \<and> andThen (read_frame Ended w) (\<lambda>fr. Inr (fst fr)) = Inr mb"
    using read_framed [of mb Ended "[]"] by (simp add: relay_frame_framed)
next
  fix mb w assume "fits_frame mb" "relay_frame (fst mb) (snd mb) = Inr w"
  then show "length w = 4 + length (snd mb)" by (simp add: relay_frame_framed) (auto simp: framed_def)
qed

text \<open>A segment in a media frame on the wire: the format of the payload inside the format of
  the frame.\<close>

interpretation carried: layered_codec
  "\<lambda>s. if length s + 20 < 65536 then Inr (FRAME_MEDIA, media_payload k s) else Inl OverflowError"
  "\<lambda>mb. unwrap_media_frame k (snd mb)" "\<lambda>s. length s + 24 < 65536"
  "\<lambda>mb. relay_frame (fst mb) (snd mb)" "\<lambda>input. andThen (read_frame Ended input) (\<lambda>fr. Inr (fst fr))" fits_frame
  for k
  by unfold_locales (auto simp: unwrap_media_payload fits_frame_def length_media_payload split: if_splits)

lemma media_frame_read:
  assumes "length s + 24 < 65536" "media_frame k s = Inr w"
  shows "andThen (andThen (read_frame Ended w) (\<lambda>fr. Inr (fst fr))) (\<lambda>mb. unwrap_media_frame k (snd mb)) = Inr s"
proof (rule carried.layered.decode_encode [where k = k, OF assms(1)])
  show "andThen (if length s + 20 < 65536 then Inr (FRAME_MEDIA, media_payload k s) else Inl OverflowError)
      (\<lambda>mb. relay_frame (fst mb) (snd mb)) = Inr w"
    using assms by (simp add: media_frame_eq)
qed

text \<open>What a peer may send: its segments, keepalives, and frames of other kinds.\<close>

datatype relay_item = MediaItem bytes | KeepaliveItem | OtherItem byte bytes

fun item_frame :: "bytes \<Rightarrow> relay_item \<Rightarrow> byte \<times> bytes" where
  "item_frame key (MediaItem segment) = (FRAME_MEDIA, media_payload key segment)"
| "item_frame key KeepaliveItem = (FRAME_KEEPALIVE, [])"
| "item_frame key (OtherItem magic body) = (magic, body)"

fun item_ok :: "relay_item \<Rightarrow> bool" where
  "item_ok (MediaItem segment) = (length segment + 24 < 65536)"
| "item_ok KeepaliveItem = True"
| "item_ok (OtherItem magic body) = (magic \<noteq> FRAME_MEDIA \<and> length body < 65536)"

fun item_segments :: "relay_item \<Rightarrow> bytes list" where
  "item_segments (MediaItem segment) = [segment]"
| "item_segments _ = []"

abbreviation listening_connection :: "connection \<Rightarrow> bool" where
  "listening_connection c \<equiv> rc_reading c \<and> \<not> rc_closed c \<and> rc_segment_handler c"

lemma item_fits: "item_ok i \<Longrightarrow> fits_frame (item_frame key i)"
  by (cases i) (simp_all add: fits_frame_def media_payload_def)

lemma item_turn:
  assumes "item_ok i" "listening_connection c"
  shows "read_turn (fst (item_frame (rc_media_key c) i)) (snd (item_frame (rc_media_key c) i)) c =
     (c, map Segment (item_segments i))"
  using assms by (cases i) (auto simp: read_turn_def FRAME_MEDIA_def FRAME_KEEPALIVE_def unwrap_media_payload)

lemma items_run:
  assumes "list_all item_ok is" "listening_connection c"
  shows "run connection_step c (map (\<lambda>mb. FrameRead (fst mb) (snd mb)) (map (item_frame (rc_media_key c)) is)) =
     (c, map Segment (concat (map item_segments is)))"
  using assms(1)
proof (induction "is")
  case Nil
  then show ?case by simp
next
  case (Cons i "is")
  then show ?case using item_turn [OF _ assms(2), of i] by (simp add: Let_def)
qed

lemma read_loop_items:
  assumes "list_all item_ok items" "listening_connection c"
  shows "read_loop fin (concat (map framed (map (item_frame (rc_media_key c)) items)) @ rest) c =
    (case read_loop fin rest c of (c', es) \<Rightarrow> (c', map Segment (concat (map item_segments items)) @ es))"
  using assms(1)
proof (induction items)
  case Nil
  then show ?case by simp
next
  case (Cons i items)
  let ?mb = "item_frame (rc_media_key c) i"
    and ?tail = "concat (map framed (map (item_frame (rc_media_key c)) items)) @ rest"
  obtain magic payload where mb: "?mb = (magic, payload)" by (cases ?mb)
  have "read_frame fin (framed ?mb @ ?tail) = Inr ((magic, payload), ?tail)"
    using read_framed [OF item_fits, of i fin "rc_media_key c" ?tail] Cons.prems mb by simp
  moreover have "read_turn magic payload c = (c, map Segment (item_segments i))"
    using item_turn [of i c] Cons.prems assms(2) mb by simp
  ultimately have "read_loop fin (framed ?mb @ ?tail) c =
      (fst (read_loop fin ?tail c), map Segment (item_segments i) @ snd (read_loop fin ?tail c))"
    using assms(2) by (subst read_loop.simps) (simp add: Let_def)
  then show ?case using Cons by (simp add: case_prod_beta)
qed

section \<open>The close handler\<close>

fun is_notification :: "connection_effect \<Rightarrow> bool" where
  "is_notification (ClosedWith e) = True"
| "is_notification _ = False"

fun is_write :: "connection_effect \<Rightarrow> bool" where
  "is_write (Wrote frame) = True"
| "is_write _ = False"

fun installs :: "connection_event \<Rightarrow> bool" where
  "installs (SetCloseHandler h) = h"
| "installs _ = False"

definition notifications :: "connection_effect list \<Rightarrow> nat" where
  "notifications es = length (filter is_notification es)"

lemma notifications_simps [simp]:
  "notifications [] = 0" "notifications (es @ fs) = notifications es + notifications fs"
  "notifications (e # es) = (if is_notification e then 1 else 0) + notifications es"
  by (simp_all add: notifications_def)

lemma write_frame_effects: "list_all (Not \<circ> is_notification) (write_frame f c)" "notifications (write_frame f c) = 0"
  by (simp_all add: write_frame_def)

lemma write_segment_notifications [simp]: "notifications (write_segment s c) = 0"
  by (simp add: write_segment_def write_frame_effects split: sum.split)

lemma keepalive_notifications [simp]: "notifications (keepalive_turn c) = 0"
  by (simp add: keepalive_turn_def write_frame_effects split: sum.split)

text \<open>Each step spends the installed handler at most once.\<close>

lemma step_notifications:
  "notifications (snd (connection_step c e)) + of_bool (rc_close_handler (fst (connection_step c e)))
     \<le> of_bool (rc_close_handler c) + of_bool (installs e)"
  by (cases e)
    (simp_all add: read_turn_def read_failed_def close_connection_def notify_closed_def set_close_handler_def
      set_segment_handler_def Let_def split: sum.split)

lemma run_notifications:
  "notifications (snd (run connection_step c es)) + of_bool (rc_close_handler (fst (run connection_step c es)))
     \<le> of_bool (rc_close_handler c) + length (filter installs es)"
proof (induction es arbitrary: c)
  case Nil
  then show ?case by simp
next
  case (Cons e es)
  show ?case
    using Cons.IH [of "fst (connection_step c e)"] step_notifications [of c e]
    by (cases "installs e") (auto simp: Let_def)
qed

definition connection_inv :: "connection \<Rightarrow> bool" where
  "connection_inv c \<longleftrightarrow> (rc_closed c \<longrightarrow> \<not> rc_writer c \<and> \<not> rc_reading c \<and> \<not> rc_keepalive c)"

fun harmless :: "connection_effect \<Rightarrow> bool" where
  "harmless (WriteFailed e) = True"
| "harmless _ = False"

fun silent_or_notice :: "connection_effect \<Rightarrow> bool" where
  "silent_or_notice (Wrote frame) = False"
| "silent_or_notice (Segment s) = False"
| "silent_or_notice _ = True"

lemma connection_step_inv: "connection_inv c \<Longrightarrow> connection_inv (fst (connection_step c e))"
  by (cases e)
    (auto simp: connection_inv_def read_turn_def read_failed_def close_connection_def notify_closed_def
      set_close_handler_def set_segment_handler_def split: sum.split)

definition dead :: "connection \<Rightarrow> bool" where
  "dead c \<longleftrightarrow> rc_closed c \<and> \<not> rc_writer c \<and> \<not> rc_reading c \<and> \<not> rc_keepalive c"

lemma dead_step: "dead c \<Longrightarrow> dead (fst (connection_step c e)) \<and> list_all silent_or_notice (snd (connection_step c e))"
  by (cases e)
    (auto simp: dead_def read_turn_def read_failed_def close_connection_def notify_closed_def write_segment_def
      write_frame_def keepalive_turn_def set_close_handler_def set_segment_handler_def split: sum.split)

interpretation connection: closable connection_step connection_inv dead silent_or_notice
  by unfold_locales (simp_all add: connection_step_inv dead_step)

lemma close_makes_dead: "connection_inv c \<Longrightarrow> dead (fst (close_connection c))"
  by (auto simp: close_connection_def notify_closed_def dead_def connection_inv_def)

section \<open>The handshake\<close>

lemma next_handshake_keepalives:
  "next_handshake_frame fin (concat (replicate n (framed (FRAME_KEEPALIVE, []))) @ input) = next_handshake_frame fin input"
proof (induction n)
  case 0
  then show ?case by simp
next
  case (Suc n)
  let ?rest = "concat (replicate n (framed (FRAME_KEEPALIVE, []))) @ input"
  have "read_frame fin (framed (FRAME_KEEPALIVE, []) @ ?rest) = Inr ((FRAME_KEEPALIVE, []), ?rest)"
    by (rule read_framed) (simp add: fits_frame_def)
  then show ?case
    using Suc by (simp add: next_handshake_frame.simps [of fin "framed (FRAME_KEEPALIVE, []) @ ?rest"])
qed

lemma next_handshake_found:
  "length payload < 65536 \<Longrightarrow>
     next_handshake_frame fin (framed (FRAME_HANDSHAKE, payload) @ rest) = Inr (payload, rest)"
  using read_framed [of "(FRAME_HANDSHAKE, payload)" fin rest]
  by (subst next_handshake_frame.simps) (simp add: fits_frame_def FRAME_HANDSHAKE_def FRAME_KEEPALIVE_def)

abbreviation credential_key :: "relay_token \<Rightarrow> bytes" where
  "credential_key token \<equiv> str_encode (take CREDENTIAL_KEY_LENGTH (rt_credential token))"

definition device_answer :: "handshake_signer \<Rightarrow> string \<Rightarrow> string \<Rightarrow> json_object" where
  "device_answer signer client_random device_random =
     [(''authorization'', JStr (join '','' (map pair_text
        [(''signature'', device_signature signer client_random), (''random'', device_random)])))]"

lemma device_signature_plain: "CHR '','' \<notin> set (device_signature s r)"
proof -
  have "CHR '','' \<notin> set (hex bs)" for bs
  proof (induction bs)
    case (Cons b bs)
    have "hex_digit n \<noteq> CHR '',''" if "n < 16" for n
      using hex_value_digit [OF that] by (auto simp: hex_value_def)
    moreover have "unat b div 16 < 16" "unat b mod 16 < 16" using unat_byte_bound [of b] by simp_all
    ultimately have "CHR '','' \<noteq> hex_digit (unat b div 16)" "CHR '','' \<noteq> hex_digit (unat b mod 16)"
      by metis+
    then show ?case using Cons by (simp add: hex_def)
  qed (simp add: hex_def)
  then show ?thesis by (simp add: device_signature_def sign_tail_def hmac_sha256_hex_def)
qed

lemma device_answer_fields:
  assumes "CHR '','' \<notin> set device_random"
  shows "authorization_field (or_empty (optional_str (device_answer signer r device_random) ''authorization'')) ''signature''
      = device_signature signer r"
    "authorization_field (or_empty (optional_str (device_answer signer r device_random) ''authorization'')) ''random''
      = device_random"
proof -
  let ?kvs = "[(''signature'', device_signature signer r), (''random'', device_random)]"
  have o: "or_empty (optional_str (device_answer signer r device_random) ''authorization'') = join '','' (map pair_text ?kvs)"
    by (simp add: device_answer_def optional_str_def pair_text_def)
  show "authorization_field (or_empty (optional_str (device_answer signer r device_random) ''authorization'')) ''signature''
      = device_signature signer r"
    "authorization_field (or_empty (optional_str (device_answer signer r device_random) ''authorization'')) ''random''
      = device_random"
    unfolding o using authorization_field_pairs [of ?kvs] assms device_signature_plain by simp_all
qed

text \<open>What a device that holds the credential makes of the handshake.\<close>

lemma handshake_succeeds:
  assumes "cbc_laws A" "length (credential_key token) = 16" "length iv1 = 16" "length iv2 = 16" "length iv = 16"
    and "CHR '','' \<notin> set device_random" "length final < 65536" "index < 65536"
    and "length (str_encode (rt_session_id token)) + length (str_encode (rt_username token)) +
      length (build_auth_request device_id uid client_random) + 95 < 65536"
    and "length (str_encode (rt_session_id token)) + length (str_encode (rt_username token)) +
      length (build_auth_ack device_id uid (ack_signature signer (device_signature signer client_random) device_random))
      + 95 < 65536"
    and "assemble_handshake_frame A index (credential_key token) iv [] []
      (dump_json (JObj (device_answer signer client_random device_random))) = Inr answer"
    and "length (dump_json (JObj (device_answer signer client_random device_random))) + 95 < 65536"
  shows "\<exists>frame1 frame2. handshake A token signer device_id uid client_random iv1 iv2 fin
      (concat (replicate n (framed (FRAME_KEEPALIVE, []))) @ answer @
       concat (replicate m (framed (FRAME_KEEPALIVE, []))) @ framed (FRAME_HANDSHAKE, final) @ rest) =
    ([frame1, frame2], Inr rest)"
proof -
  let ?key = "credential_key token" and ?sid = "str_encode (rt_session_id token)"
    and ?user = "str_encode (rt_username token)"
  let ?ack = "build_auth_ack device_id uid (ack_signature signer (device_signature signer client_random) device_random)"
  let ?tail = "concat (replicate m (framed (FRAME_KEEPALIVE, []))) @ framed (FRAME_HANDSHAKE, final) @ rest"
  have wf: "wf_json (JObj (device_answer signer client_random device_random))"
    by (simp add: device_answer_def)
  obtain p where p: "answer = framed (FRAME_HANDSHAKE, p)" "length p < 65536"
    "parse_handshake_frame A ?key p = Inr (device_answer signer client_random device_random)"
    using handshake_frame_parses [OF assms(1,2,5) wf assms(8), of "[]" "[]"] assms(11,12)
    by (auto simp: framed_def)
  obtain f1 where f1: "assemble_handshake_frame A 0 ?key iv1 ?sid ?user
      (build_auth_request device_id uid client_random) = Inr f1"
    using handshake_frame_parses [OF assms(1-3) wf_auth_messages(1) [of device_id uid client_random], of 0 ?sid ?user] assms(9)
    by (auto simp: build_auth_request_def)
  obtain f2 where f2: "assemble_handshake_frame A 2 ?key iv2 ?sid ?user ?ack = Inr f2"
    using handshake_frame_parses [OF assms(1,2,4) wf_auth_messages(2) [of device_id uid
        "ack_signature signer (device_signature signer client_random) device_random"], of 2 ?sid ?user] assms(10)
    by (auto simp: build_auth_ack_def)
  have first: "next_handshake_frame fin (concat (replicate n (framed (FRAME_KEEPALIVE, []))) @ answer @ ?tail) =
      Inr (p, ?tail)"
    unfolding next_handshake_keepalives p(1) by (rule next_handshake_found [OF p(2)])
  have second: "next_handshake_frame fin ?tail = Inr (final, rest)"
    unfolding next_handshake_keepalives by (rule next_handshake_found [OF assms(7)])
  show ?thesis
    unfolding handshake_def HANDSHAKE_REQUEST_def HANDSHAKE_ACK_def Let_def f1 sum.case first andThen.simps
      prod.case p(3) device_answer_fields [OF assms(6)]
    by (simp add: f2 second)
qed

section \<open>Properties\<close>

text \<open>
  C7: What a peer puts on the relay arrives: from a stream of its media frames, keepalives and
  frames of other kinds, cut at any point by the network, the read loop recovers exactly those
  frames, hands the segment handler exactly the segments, in order, and leaves the connection
  as it was; when the peer then closes the stream the loop ends, and the close handler, if there
  is one, is told of the loss by a connection error that says what was expected.
\<close>

theorem stream_delivers_segments:
  assumes "list_all item_ok items" "listening_connection c"
  shows "read_loop Ended (concat (map framed (map (item_frame (rc_media_key c)) items))) c =
      (c\<lparr>rc_reading := False, rc_close_handler := False\<rparr>,
       map Segment (concat (map item_segments items)) @
         (if rc_close_handler c
          then [ClosedWith (Some (ConnectionError
                  ''Failed to read from the relay: 0 bytes read on a total of 4 expected bytes''))] else [])) \<and>
    run connection_step c (map (\<lambda>mb. FrameRead (fst mb) (snd mb)) (map (item_frame (rc_media_key c)) items)) =
      (c, map Segment (concat (map item_segments items)))"
proof -
  have "read_loop Ended [] c = read_failed (run_out Ended 0 4) c"
    using assms(2) by (subst read_loop.simps) (simp add: read_frame_def FRAME_HEADER_LENGTH_def)
  moreover have "run_out Ended 0 4 =
      ConnectionError ''Failed to read from the relay: 0 bytes read on a total of 4 expected bytes''"
    by code_simp
  ultimately show ?thesis
    using read_loop_items [OF assms, of Ended "[]"] items_run [OF assms] assms(2)
    by (simp add: read_failed_def notify_closed_def)
qed

definition sample_connection :: connection where
  "sample_connection = \<lparr>rc_media_key = [1], rc_writer = True, rc_segment_handler = True, rc_close_handler = True,
     rc_reading = True, rc_keepalive = True, rc_closed = False\<rparr>"

lemma stream_delivers_segments_witness:
  "snd (read_loop Ended (concat (map framed (map (item_frame (rc_media_key sample_connection))
       [MediaItem [7, 8], KeepaliveItem, OtherItem 0 [], MediaItem [9]]))) sample_connection) =
     [Segment [7, 8], Segment [9], ClosedWith (Some (ConnectionError
        ''Failed to read from the relay: 0 bytes read on a total of 4 expected bytes''))] \<and>
   run connection_step sample_connection (map (\<lambda>mb. FrameRead (fst mb) (snd mb))
     (map (item_frame (rc_media_key sample_connection)) [MediaItem [7, 8], KeepaliveItem, OtherItem 0 [], MediaItem [9]]))
     = (sample_connection, [Segment [7, 8], Segment [9]])"
  using stream_delivers_segments
    [of "[MediaItem [7, 8], KeepaliveItem, OtherItem 0 [], MediaItem [9]]" sample_connection]
  by (simp add: sample_connection_def FRAME_MEDIA_def)

text \<open>
  C6: The client proves itself, and the handshake succeeds, only after the device has: the
  second handshake frame is written, and a result returned, only if the device's encrypted
  answer was read and carries the signature this session's credential gives to the random the
  client has just sent.
\<close>

theorem handshake_authenticates_device:
  "case handshake A token signer device_id uid client_random iv1 iv2 fin input of
     (frames, result) \<Rightarrow> length frames \<le> 1 \<and> (\<exists>e. result = Inl e) \<or>
       length frames = 2 \<and> (\<exists>payload rest response.
         next_handshake_frame fin input = Inr (payload, rest) \<and>
         parse_handshake_frame A (credential_key token) payload = Inr response \<and>
         authorization_field (or_empty (optional_str response ''authorization'')) ''signature'' =
           device_signature signer client_random)"
  unfolding handshake_def Let_def
  by (auto simp: andThen_Inr_iff split: sum.split prod.split)

text \<open>
  C20: With a device that holds the same credential the handshake completes: its answer, signed
  over our random and encrypted under the credential, and the final frame are found behind any
  number of keepalives, two frames are written, and what follows in the stream is left for the
  read loop.
\<close>

theorem handshake_completes:
  assumes "cbc_laws A" "length (credential_key token) = 16" "length iv1 = 16" "length iv2 = 16" "length iv = 16"
    and "CHR '','' \<notin> set device_random" "length final < 65536" "index < 65536"
    and "length (str_encode (rt_session_id token)) + length (str_encode (rt_username token)) +
      length (build_auth_request device_id uid client_random) + 95 < 65536"
    and "length (str_encode (rt_session_id token)) + length (str_encode (rt_username token)) +
      length (build_auth_ack device_id uid (ack_signature signer (device_signature signer client_random) device_random))
      + 95 < 65536"
    and "assemble_handshake_frame A index (credential_key token) iv [] []
      (dump_json (JObj (device_answer signer client_random device_random))) = Inr answer"
    and "length (dump_json (JObj (device_answer signer client_random device_random))) + 95 < 65536"
  shows "\<exists>frame1 frame2. handshake A token signer device_id uid client_random iv1 iv2 fin
      (concat (replicate n (framed (FRAME_KEEPALIVE, []))) @ answer @
       concat (replicate m (framed (FRAME_KEEPALIVE, []))) @ framed (FRAME_HANDSHAKE, final) @ rest) =
    ([frame1, frame2], Inr rest)"
  using handshake_succeeds [OF assms] .

lemma length_dump_string: "length (dump_string s) \<le> 6 * length s + 2"
proof -
  have "length (escape_char c) \<le> 6" for c
    by (simp add: escape_char_def escape_code_def)
  then have "length (concat (map escape_char s)) \<le> 6 * length s"
    by (induction s) (auto intro: add_mono)
  then show ?thesis by (simp add: dump_string_def)
qed

lemma length_dump_json: "wf_json v \<Longrightarrow> length (dump_json v) = length (dumps v)"
proof -
  assume "wf_json v"
  then have "list_all printable (dumps v)" by (rule dumps_printable)
  then have "ascii (dumps v)"
    unfolding ascii_def by (rule list.pred_mono_strong) (simp add: printable_def)
  then show ?thesis by (simp add: dump_json_def length_str_encode)
qed

lemma signature_lengths: "length (device_signature s r) = 64" "length (ack_signature s d r) = 64"
  by (simp_all add: device_signature_def ack_signature_def sign_tail_def)

lemma small_messages:
  "length d \<le> 10 \<Longrightarrow> length u \<le> 10 \<Longrightarrow> length r \<le> 100 \<Longrightarrow> length (build_auth_request d u r) \<le> 2000"
  "length d \<le> 10 \<Longrightarrow> length u \<le> 10 \<Longrightarrow> length r \<le> 100 \<Longrightarrow> length (build_auth_ack d u r) \<le> 2000"
  "length r' \<le> 10 \<Longrightarrow> length (dump_json (JObj (device_answer s r r'))) \<le> 2000"
proof -
  have i: "length (dump_int 1) = 1" "length (dump_int 200) = 3"
    by (simp_all add: dec_digits.simps [of "Suc 0"] dec_digits.simps [of 200] dec_digits.simps [of 20] dec_digits.simps [of 2])
  show "length d \<le> 10 \<Longrightarrow> length u \<le> 10 \<Longrightarrow> length r \<le> 100 \<Longrightarrow> length (build_auth_request d u r) \<le> 2000"
    using length_dump_string [of d] length_dump_string [of u] length_dump_string [of "''random='' @ r"] i
    unfolding build_auth_request_def length_dump_json [OF wf_auth_messages(1)]
    by (simp add: auth_request_message_def dump_string_def [of "''clientType''"] dump_string_def [of "''method''"]
        dump_string_def [of "''request''"] dump_string_def [of "''devId''"] dump_string_def [of "''uId''"]
        dump_string_def [of "''authorization''"] escape_char_def del: dump_int.simps)
  show "length d \<le> 10 \<Longrightarrow> length u \<le> 10 \<Longrightarrow> length r \<le> 100 \<Longrightarrow> length (build_auth_ack d u r) \<le> 2000"
    using length_dump_string [of d] length_dump_string [of u] length_dump_string [of "''signature='' @ r"] i
    unfolding build_auth_ack_def length_dump_json [OF wf_auth_messages(2)]
    by (simp add: auth_ack_message_def dump_string_def [of "''clientType''"] dump_string_def [of "''method''"]
        dump_string_def [of "''ack''"] dump_string_def [of "''devId''"] dump_string_def [of "''uId''"]
        dump_string_def [of "''statuscode''"]
        dump_string_def [of "''authorization''"] escape_char_def del: dump_int.simps)
  have "wf_json (JObj (device_answer s r r'))" by (simp add: device_answer_def)
  then show "length r' \<le> 10 \<Longrightarrow> length (dump_json (JObj (device_answer s r r'))) \<le> 2000"
    using length_dump_string [of "''signature='' @ device_signature s r @ '','' @ ''random='' @ r'"]
    by (simp add: length_dump_json device_answer_def pair_text_def signature_lengths
        dump_string_def [of "''authorization''"] escape_char_def)
qed

definition sample_token :: relay_token where
  "sample_token = \<lparr>rt_urls = [''tcp4:h''], rt_username = ''u'', rt_credential = replicate 16 (CHR ''c''),
     rt_session_id = ''s'', rt_raw = []\<rparr>"

definition sample_signer :: handshake_signer where
  "sample_signer = \<lparr>hs_key = [], hs_prefix = [''a'', ''b'', ''c'', ''d'']\<rparr>"

lemma handshake_completes_witness:
  "\<exists>answer frame1 frame2. handshake flip_cipher sample_token sample_signer ''d'' ''u'' ''xyz''
      (replicate 16 1) (replicate 16 2) Silent
      (concat (replicate 2 (framed (FRAME_KEEPALIVE, []))) @ answer @
       concat (replicate 1 (framed (FRAME_KEEPALIVE, []))) @ framed (FRAME_HANDSHAKE, [5]) @ [9]) =
    ([frame1, frame2], Inr [9])"
proof -
  let ?key = "credential_key sample_token"
  let ?answer = "device_answer sample_signer ''xyz'' ''r''"
  have k: "length ?key = 16"
    using length_str_encode [of "rt_credential sample_token"]
    by (simp add: sample_token_def CREDENTIAL_KEY_LENGTH_def ascii_def list_all_iff)
  have b: "length (str_encode (rt_session_id sample_token)) = 1" "length (str_encode (rt_username sample_token)) = 1"
    by (simp_all add: sample_token_def length_str_encode ascii_def)
  have wf: "wf_json (JObj ?answer)" by (simp add: device_answer_def)
  have l: "length (dump_json (JObj ?answer)) + 95 < 65536"
    using small_messages(3) [of "''r''" sample_signer "''xyz''"] by simp
  obtain answer where a: "assemble_handshake_frame flip_cipher 1 ?key (replicate 16 3) [] [] (dump_json (JObj ?answer)) = Inr answer"
    using handshake_frame_parses [OF flip_cipher_cbc k _ wf, of "replicate 16 3" 1 "[]" "[]"] l by auto
  have "\<exists>frame1 frame2. handshake flip_cipher sample_token sample_signer ''d'' ''u'' ''xyz''
      (replicate 16 1) (replicate 16 2) Silent
      (concat (replicate 2 (framed (FRAME_KEEPALIVE, []))) @ answer @
       concat (replicate 1 (framed (FRAME_KEEPALIVE, []))) @ framed (FRAME_HANDSHAKE, [5]) @ [9]) =
    ([frame1, frame2], Inr [9])"
    by (rule handshake_completes [OF flip_cipher_cbc k _ _ _ _ _ _ _ _ a l])
      (use b small_messages(1) [of "''d''" "''u''" "''xyz''"] in \<open>simp_all add: order.strict_trans1 [OF small_messages(2)] signature_lengths\<close>)
  then show ?thesis by blast
qed

text \<open>
  The close handler fires at most once for each time it is installed, whatever sequence of
  frames, read failures, keepalives, writes and closes happens, and no handler that was never
  installed fires.
\<close>

theorem close_handler_fires_once:
  "notifications (snd (run connection_step c es)) \<le> of_bool (rc_close_handler c) + length (filter installs es)"
  using run_notifications [of c es] by simp

text \<open>
  After a connection is closed nothing more is written and no segment is handed over,
  whatever happens to it, and the pending close handler has fired.
\<close>

theorem closed_connection_is_silent:
  assumes "connection_inv c"
  shows "list_all silent_or_notice (snd (run connection_step (fst (close_connection c)) es)) \<and>
    (\<not> rc_closed c \<longrightarrow> snd (close_connection c) = (if rc_close_handler c then [ClosedWith None] else []))"
  using connection.closed_run [OF close_makes_dead [OF assms]]
  by (simp add: close_connection_def notify_closed_def)

lemma closed_connection_is_silent_witness:
  "list_all silent_or_notice (snd (run connection_step (fst (close_connection sample_connection))
     [WriteSegment [1], KeepaliveDue, FrameRead FRAME_MEDIA []])) \<and>
   snd (close_connection sample_connection) = [ClosedWith None]"
  using closed_connection_is_silent [of sample_connection "[WriteSegment [1], KeepaliveDue, FrameRead FRAME_MEDIA []]"]
  by (simp add: sample_connection_def connection_inv_def)

end
