(* ===== verification/Relay_Session.thy ===== *)
theory Relay_Session
  imports Kcp_Delivery Relay_Connection
begin

text \<open>
  Models \<^verbatim>\<open>src/tuya_ipc_p2p_sdk/transport/relay_session.py\<close>: the conversations one relay
  connection multiplexes, the tunnel that carries the second copy of the signaling, and closing
  from either side. The dictionary of conversations is an association list in insertion order;
  the future of the video conversation is a value of \<open>video_future\<close>; effects are the frames
  written to the socket, the messages handed to the handlers, the close callback and the
  exceptions that leave an operation.

  \<^verbatim>\<open>async_close\<close> awaits each conversation while the connection is still being read, so the
  segments routed during each of those suspensions are an argument of \<open>close_session\<close>.
\<close>

section \<open>State\<close>

definition CONTROL_CONVERSATION :: nat where "CONTROL_CONVERSATION = 0"
definition VIDEO_CONVERSATION :: nat where "VIDEO_CONVERSATION = 1"
definition SIGNALING_CONVERSATION :: nat where "SIGNALING_CONVERSATION = 0x010000F3"
definition TUNNEL_WINDOW :: nat where "TUNNEL_WINDOW = 64"
definition TUNNEL_CHUNK :: nat where "TUNNEL_CHUNK = 1312"

datatype video_future = VideoPending | VideoReady nat | VideoCancelled

record relay_session =
  rs_connection :: connection
  rs_conversations :: "(nat \<times> kcp) list"
  rs_signaling_sequence :: nat
  rs_closed :: bool
  rs_video :: video_future
  rs_close_handler :: bool

datatype relay_effect = Sent bytes | Received nat bytes | SessionClosed "exn option" | Error exn

definition new_session :: "bytes \<Rightarrow> relay_session" where
  "new_session media_key = \<lparr>rs_connection = new_connection media_key,
     rs_conversations = [(CONTROL_CONVERSATION, new_conversation CONTROL_CONVERSATION)],
     rs_signaling_sequence = 0, rs_closed = False, rs_video = VideoPending, rs_close_handler = False\<rparr>"

text \<open>\<^verbatim>\<open>_conversation\<close>: the conversation of that id, created on first sight.\<close>

definition conversation :: "nat \<Rightarrow> relay_session \<Rightarrow> relay_session \<times> kcp" where
  "conversation cid s =
     (case map_of (rs_conversations s) cid of
        Some k \<Rightarrow> (s, k)
      | None \<Rightarrow> (s\<lparr>rs_conversations := rs_conversations s @ [(cid, new_conversation cid)]\<rparr>, new_conversation cid))"

definition put_conversation :: "nat \<Rightarrow> kcp \<Rightarrow> relay_session \<Rightarrow> relay_session" where
  "put_conversation cid k s = s\<lparr>rs_conversations := AList.update cid k (rs_conversations s)\<rparr>"

text \<open>What a conversation asks for, carried out on the connection.\<close>

fun connection_output :: "connection_effect \<Rightarrow> relay_effect list" where
  "connection_output (Wrote frame) = [Sent frame]"
| "connection_output (WriteFailed e) = [Error e]"
| "connection_output _ = []"

fun conversation_output :: "connection \<Rightarrow> nat \<Rightarrow> kcp_effect \<Rightarrow> relay_effect list" where
  "conversation_output c cid (Transmit raw) = concat (map connection_output (write_segment raw c))"
| "conversation_output c cid (Deliver m) = [Received cid m]"
| "conversation_output c cid (Raised e) = [Error e]"

definition outputs :: "connection \<Rightarrow> nat \<Rightarrow> kcp_effect list \<Rightarrow> relay_effect list" where
  "outputs c cid es = concat (map (conversation_output c cid) es)"

section \<open>Operations\<close>

text \<open>An operation of one conversation.\<close>

definition on_conversation :: "nat \<Rightarrow> kcp_event \<Rightarrow> relay_session \<Rightarrow> relay_session \<times> relay_effect list" where
  "on_conversation cid e s =
     (case conversation cid s of
        (s1, k) \<Rightarrow> (let r = kcp_step k e
                     in (put_conversation cid (fst r) s1, outputs (rs_connection s) cid (snd r))))"

definition route :: "bytes \<Rightarrow> nat \<Rightarrow> relay_session \<Rightarrow> relay_session \<times> relay_effect list" where
  "route raw ms s =
     (case parse_segment raw of
        None \<Rightarrow> (s, [])
      | Some segment \<Rightarrow>
          let cid = seg_conversation segment;
              known = map_of (rs_conversations s) cid \<noteq> None;
              s1 = (if \<not> known \<and> cid = VIDEO_CONVERSATION \<and> rs_video s = VideoPending
                    then s\<lparr>rs_video := VideoReady cid\<rparr> else s)
          in on_conversation cid (Input segment ms) s1)"

text \<open>The tunnel: one record per chunk, each in a segment of its own that is sent once.\<close>

definition send_tunnel_segment :: "bytes \<Rightarrow> relay_session \<Rightarrow> relay_session \<times> relay_effect list" where
  "send_tunnel_segment rec s =
     (case build_segment SIGNALING_CONVERSATION CMD_PUSH 0 TUNNEL_WINDOW 0 (rs_signaling_sequence s) 0 rec of
        Inl e \<Rightarrow> (s, [Error e])
      | Inr raw \<Rightarrow>
          (case write_segment raw (rs_connection s) of
             [WriteFailed e] \<Rightarrow> (s, [Error e])
           | es \<Rightarrow> (s\<lparr>rs_signaling_sequence := rs_signaling_sequence s + 1\<rparr>, concat (map connection_output es))))"

fun raises :: "relay_effect list \<Rightarrow> bool" where
  "raises [] = False"
| "raises (Error e # es) = True"
| "raises (_ # es) = raises es"

fun tunnel_loop ::
    "cipher \<Rightarrow> bytes \<Rightarrow> bytes \<Rightarrow> nat list \<Rightarrow> bytes list \<Rightarrow> relay_session \<Rightarrow> relay_session \<times> relay_effect list" where
  "tunnel_loop A media_key padded (offset # offsets) (iv # ivs) s =
     (case aes_cbc_encrypt_raw A media_key iv (slice padded offset (offset + TUNNEL_CHUNK)) of
        Inl e \<Rightarrow> (s, [Error e])
      | Inr c \<Rightarrow>
          (let r = send_tunnel_segment (iv @ c) s in
           if raises (snd r) then r
           else let q = tunnel_loop A media_key padded offsets ivs (fst r) in (fst q, snd r @ snd q)))"
| "tunnel_loop A media_key padded _ _ s = (s, [])"

definition tunnel_plaintext :: "bytes \<Rightarrow> exn + bytes" where
  "tunnel_plaintext frame_json =
     andThen (to_be 2 (length frame_json)) (\<lambda>len.
       Inr (pad_pkcs7 ([0x00, 0x01] @ len @ frame_json @ (if odd (length frame_json) then [0x00] else []))))"

definition chunk_offsets :: "bytes \<Rightarrow> nat list" where
  "chunk_offsets padded = map (\<lambda>i. i * TUNNEL_CHUNK) [0..<(length padded + TUNNEL_CHUNK - 1) div TUNNEL_CHUNK]"

text \<open>\<open>ivs\<close> lists the random initialization vector of each record.\<close>

definition send_tunnel_frame ::
    "cipher \<Rightarrow> bytes \<Rightarrow> bytes list \<Rightarrow> bytes \<Rightarrow> relay_session \<Rightarrow> relay_session \<times> relay_effect list" where
  "send_tunnel_frame A media_key ivs frame_json s =
     (case tunnel_plaintext frame_json of
        Inl e \<Rightarrow> (s, [Error e])
      | Inr padded \<Rightarrow> tunnel_loop A media_key padded (chunk_offsets padded) ivs s)"

section \<open>Closing\<close>

definition cancel_video :: "relay_session \<Rightarrow> relay_session" where
  "cancel_video s = (if rs_video s = VideoPending then s\<lparr>rs_video := VideoCancelled\<rparr> else s)"

definition on_connection_closed :: "exn option \<Rightarrow> relay_session \<Rightarrow> relay_session \<times> relay_effect list" where
  "on_connection_closed error s =
     (if rs_closed s then (s, [])
      else let s1 = cancel_video (s\<lparr>rs_closed := True,
                      rs_conversations := map (\<lambda>(cid, k). (cid, close k)) (rs_conversations s)\<rparr>)
           in (s1\<lparr>rs_close_handler := False\<rparr>, if rs_close_handler s then [SessionClosed error] else []))"

text \<open>How waiting for the video ends: \<open>s\<close> is the session when the future is done or the
  timeout has passed. Cancelling the future cancels the shielded wait, and that is no timeout.\<close>

definition wait_for_video :: "relay_session \<Rightarrow> exn + nat" where
  "wait_for_video s =
     (case rs_video s of
        VideoReady cid \<Rightarrow> Inr cid
      | VideoCancelled \<Rightarrow> Inl CancelledError
      | VideoPending \<Rightarrow> Inl (SessionError ''Failed to start the video: the device opened no video conversation''))"

text \<open>\<^verbatim>\<open>set_close_handler\<close>, told whether there is a handler.\<close>

definition set_session_close_handler :: "bool \<Rightarrow> relay_session \<Rightarrow> relay_session" where
  [simp]: "set_session_close_handler h s = s\<lparr>rs_close_handler := h\<rparr>"

text \<open>The loop of \<^verbatim>\<open>async_close\<close> over the live dictionary. Awaiting a conversation suspends
  exactly when it had a retransmit task; \<open>inbound cid\<close> lists the segments the reader routes
  meanwhile, with the clock. A dictionary that grew ends the iteration with a RuntimeError.\<close>

fun route_all :: "(bytes \<times> nat) list \<Rightarrow> relay_session \<Rightarrow> relay_session \<times> relay_effect list" where
  "route_all [] s = (s, [])"
| "route_all ((raw, ms) # rest) s =
     (let r = route raw ms s; q = route_all rest (fst r) in (fst q, snd r @ snd q))"

fun close_loop ::
    "(nat \<Rightarrow> (bytes \<times> nat) list) \<Rightarrow> nat \<Rightarrow> nat list \<Rightarrow> relay_session \<Rightarrow>
     relay_session \<times> relay_effect list \<times> exn option" where
  "close_loop inbound n cids s =
     (if length (rs_conversations s) \<noteq> n
      then (s, [], Some (RuntimeError ''dictionary changed size during iteration''))
      else case cids of
        [] \<Rightarrow> (s, [], None)
      | cid # rest \<Rightarrow>
          (case map_of (rs_conversations s) cid of
             None \<Rightarrow> close_loop inbound n rest s
           | Some k \<Rightarrow>
               let s1 = put_conversation cid (fst (close_conversation k)) s;
                   r = (if snd (close_conversation k) then route_all (inbound cid) s1 else (s1, []))
               in case close_loop inbound n rest (fst r) of (s2, es, e) \<Rightarrow> (s2, snd r @ es, e)))"

declare close_loop.simps [simp del]

text \<open>The state, the effects, and the exception \<^verbatim>\<open>async_close\<close> itself ends with.\<close>

definition close_session ::
    "(nat \<Rightarrow> (bytes \<times> nat) list) \<Rightarrow> relay_session \<Rightarrow> relay_session \<times> relay_effect list \<times> exn option" where
  "close_session inbound s =
     (let s0 = s\<lparr>rs_closed := True\<rparr>
      in case close_loop inbound (length (rs_conversations s0)) (map fst (rs_conversations s0)) s0 of
           (s1, es, Some e) \<Rightarrow> (s1, es, Some e)
         | (s1, es, None) \<Rightarrow>
             (let s2 = (cancel_video s1)\<lparr>rs_close_handler := False\<rparr>;
                  c = close_connection (rs_connection s2)
              in (s2\<lparr>rs_connection := fst c\<rparr>, es @ concat (map connection_output (snd c)), None)))"

section \<open>Frames of segments\<close>

text \<open>The frame a segment is sent in.\<close>

definition segment_frame :: "bytes \<Rightarrow> bytes \<Rightarrow> bytes" where
  "segment_frame media_key raw = framed (FRAME_MEDIA, media_payload media_key raw)"

lemma write_segment_eq:
  "length raw + 24 < 65536 \<Longrightarrow>
     write_segment raw c = (if rc_closed c \<or> \<not> rc_writer c then [] else [Wrote (segment_frame (rc_media_key c) raw)])"
  by (simp add: write_segment_def write_frame_def media_frame_eq relay_frame_eq media_payload_def
      segment_frame_def framed_def)

definition writable :: "connection \<Rightarrow> bool" where
  "writable c \<longleftrightarrow> rc_writer c \<and> \<not> rc_closed c"

lemma transmit_output:
  "length raw \<le> 1400 \<Longrightarrow> writable c \<Longrightarrow>
     conversation_output c cid (Transmit raw) = [Sent (segment_frame (rc_media_key c) raw)]"
  by (simp add: write_segment_eq writable_def)

lemma outputs_simps [simp]:
  "outputs c cid [] = []" "outputs c cid (es @ fs) = outputs c cid es @ outputs c cid fs"
  "outputs c cid (e # es) = conversation_output c cid e @ outputs c cid es"
  by (simp_all add: outputs_def)

lemma unwrap_segment_frame:
  "length raw + 24 < 65536 \<Longrightarrow> unwrap_media_frame key (drop 4 (segment_frame key raw)) = Inr raw"
  by (simp add: segment_frame_def framed_def unwrap_media_payload)

section \<open>Invariant\<close>

lemma kcp_step_conversation: "kcp_conversation (fst (kcp_step k e)) = kcp_conversation k"
proof (cases e)
  case (Input s ms)
  then show ?thesis by (simp add: input_segment_def Let_def)
next
  case (Send m clock)
  then show ?thesis using send_loop_frame by (simp add: send_def)
next
  case (Tick ms)
  then show ?thesis
    by (simp add: retransmit_turn_def retransmit_once_def close_def disarm_retransmit_def Let_def split: prod.split)
qed (simp_all add: set_message_handler_def close_def disarm_retransmit_def)

definition session_inv :: "relay_session \<Rightarrow> bool" where
  "session_inv s \<longleftrightarrow>
     distinct (map fst (rs_conversations s)) \<and>
     (\<forall>cid k. map_of (rs_conversations s) cid = Some k \<longrightarrow> kcp_inv k \<and> kcp_conversation k = cid) \<and>
     map_of (rs_conversations s) CONTROL_CONVERSATION \<noteq> None \<and>
     (\<forall>cid. rs_video s = VideoReady cid \<longrightarrow> cid = VIDEO_CONVERSATION \<and> map_of (rs_conversations s) cid \<noteq> None)"

lemma session_invD:
  "session_inv s \<Longrightarrow> map_of (rs_conversations s) cid = Some k \<Longrightarrow> kcp_inv k \<and> kcp_conversation k = cid"
  by (simp add: session_inv_def)

lemma map_of_update: "map_of (AList.update cid k al) = (map_of al)(cid \<mapsto> k)"
  by (rule ext) (simp add: update_conv)

text \<open>The conversation an operation works on, and the state it leaves.\<close>

lemma conversation_found: "map_of (rs_conversations s) cid = Some k \<Longrightarrow> conversation cid s = (s, k)"
  by (simp add: conversation_def)

lemma conversation_created: "map_of (rs_conversations s) cid = None \<Longrightarrow>
    conversation cid s = (s\<lparr>rs_conversations := rs_conversations s @ [(cid, new_conversation cid)]\<rparr>, new_conversation cid)"
  by (simp add: conversation_def)

definition the_conversation :: "nat \<Rightarrow> relay_session \<Rightarrow> kcp" where
  "the_conversation cid s = (case map_of (rs_conversations s) cid of None \<Rightarrow> new_conversation cid | Some k \<Rightarrow> k)"

lemma new_conversation_id: "kcp_conversation (new_conversation cid) = cid"
  by (simp add: new_conversation_def)

lemma the_conversation_inv: "session_inv s \<Longrightarrow> kcp_inv (the_conversation cid s) \<and> kcp_conversation (the_conversation cid s) = cid"
  by (auto simp: the_conversation_def kcp_inv_new new_conversation_id dest: session_invD split: option.split)

lemma on_conversation_eq:
  "fst (on_conversation cid e s) = s\<lparr>rs_conversations :=
     AList.update cid (fst (kcp_step (the_conversation cid s) e)) (rs_conversations s)\<rparr>"
  "snd (on_conversation cid e s) = outputs (rs_connection s) cid (snd (kcp_step (the_conversation cid s) e))"
proof -
  have u: "AList.update cid k (al @ [(cid, x)]) = AList.update cid k al" if "map_of al cid = None" for al k and x :: kcp
    using that by (induction al) auto
  show "fst (on_conversation cid e s) = s\<lparr>rs_conversations :=
     AList.update cid (fst (kcp_step (the_conversation cid s) e)) (rs_conversations s)\<rparr>"
    "snd (on_conversation cid e s) = outputs (rs_connection s) cid (snd (kcp_step (the_conversation cid s) e))"
    by (cases "map_of (rs_conversations s) cid";
        simp add: on_conversation_def conversation_found conversation_created the_conversation_def
          put_conversation_def Let_def u)+
qed

lemma session_inv_update:
  assumes "session_inv s" "kcp_inv k" "kcp_conversation k = cid" "v = rs_video s \<or> v = VideoReady cid \<and> cid = VIDEO_CONVERSATION"
  shows "session_inv (s\<lparr>rs_video := v, rs_conversations := AList.update cid k (rs_conversations s)\<rparr>)"
proof -
  let ?al = "rs_conversations s" and ?al' = "AList.update cid k (rs_conversations s)"
  have m: "map_of ?al' c = (if c = cid then Some k else map_of ?al c)" for c
    by (simp add: map_of_update)
  have d: "distinct (map fst ?al')"
    using assms(1) by (intro distinct_update) (simp add: session_inv_def)
  have "kcp_inv x \<and> kcp_conversation x = c" if "map_of ?al' c = Some x" for c x
    using that assms(2,3) session_invD [OF assms(1), of c x] by (simp add: m split: if_splits)
  moreover have "map_of ?al' CONTROL_CONVERSATION \<noteq> None"
  proof -
    have "map_of ?al CONTROL_CONVERSATION \<noteq> None" using assms(1) unfolding session_inv_def by blast
    then show ?thesis by (simp add: m)
  qed
  moreover have "c = VIDEO_CONVERSATION \<and> map_of ?al' c \<noteq> None" if "v = VideoReady c" for c
    using that assms(4) assms(1) [unfolded session_inv_def] by (auto simp: m)
  moreover have f: "rs_conversations (s\<lparr>rs_video := v, rs_conversations := ?al'\<rparr>) = ?al'"
    "rs_video (s\<lparr>rs_video := v, rs_conversations := ?al'\<rparr>) = v"
    by simp_all
  ultimately show ?thesis
    unfolding session_inv_def f using d by blast
qed

lemma on_conversation_inv:
  assumes "session_inv s"
  shows "session_inv (fst (on_conversation cid e s))"
  using session_inv_update [OF assms, of "fst (kcp_step (the_conversation cid s) e)" cid "rs_video s"]
    the_conversation_inv [OF assms, of cid]
  by (simp add: on_conversation_eq kcp_step_inv kcp_step_conversation)

definition mark_video :: "nat \<Rightarrow> relay_session \<Rightarrow> relay_session" where
  "mark_video cid s =
     (if map_of (rs_conversations s) cid = None \<and> cid = VIDEO_CONVERSATION \<and> rs_video s = VideoPending
      then s\<lparr>rs_video := VideoReady cid\<rparr> else s)"

lemma route_eq:
  "route raw ms s =
     (case parse_segment raw of
        None \<Rightarrow> (s, [])
      | Some segment \<Rightarrow> on_conversation (seg_conversation segment) (Input segment ms)
          (mark_video (seg_conversation segment) s))"
  by (simp add: route_def mark_video_def Let_def split: option.split)

lemma mark_video_fields [simp]:
  "rs_conversations (mark_video cid s) = rs_conversations s"
  "rs_connection (mark_video cid s) = rs_connection s"
  "rs_closed (mark_video cid s) = rs_closed s"
  "the_conversation c (mark_video cid s) = the_conversation c s"
  by (simp_all add: mark_video_def the_conversation_def)

lemma route_inv:
  assumes "session_inv s"
  shows "session_inv (fst (route raw ms s))"
proof (cases "parse_segment raw")
  case None
  then show ?thesis using assms by (simp add: route_eq)
next
  case (Some segment)
  let ?cid = "seg_conversation segment"
  have "session_inv (s\<lparr>rs_video := rs_video (mark_video ?cid s), rs_conversations :=
      AList.update ?cid (fst (kcp_step (the_conversation ?cid s) (Input segment ms))) (rs_conversations s)\<rparr>)"
    using the_conversation_inv [OF assms, of ?cid]
    by (intro session_inv_update assms kcp_step_inv)
      (simp_all only: kcp_step_conversation, simp add: mark_video_def)
  moreover have "mark_video ?cid s = s\<lparr>rs_video := rs_video (mark_video ?cid s)\<rparr>"
    by (simp add: mark_video_def)
  ultimately show ?thesis
    unfolding route_eq Some option.case on_conversation_eq by (metis mark_video_fields(1,4) relay_session.fold_congs(1) relay_session.update_convs(2))
qed

section \<open>The session as a component\<close>

text \<open>What the connection reports reaches the handlers the session installed on it.\<close>

fun forward :: "nat \<Rightarrow> connection_effect \<Rightarrow> relay_session \<Rightarrow> relay_session \<times> relay_effect list" where
  "forward ms (Segment raw) s = route raw ms s"
| "forward ms (ClosedWith e) s = on_connection_closed e s"
| "forward ms (Wrote frame) s = (s, [Sent frame])"
| "forward ms (WriteFailed e) s = (s, [Error e])"

fun forward_all :: "nat \<Rightarrow> connection_effect list \<Rightarrow> relay_session \<Rightarrow> relay_session \<times> relay_effect list" where
  "forward_all ms [] s = (s, [])"
| "forward_all ms (e # es) s =
     (let r = forward ms e s; q = forward_all ms es (fst r) in (fst q, snd r @ snd q))"

definition on_connection :: "connection_event \<Rightarrow> nat \<Rightarrow> relay_session \<Rightarrow> relay_session \<times> relay_effect list" where
  "on_connection e ms s =
     (let r = connection_step (rs_connection s) e
      in forward_all ms (snd r) (s\<lparr>rs_connection := fst r\<rparr>))"

text \<open>\<^verbatim>\<open>async_connect\<close>: the handlers are installed and the connection is dialled; a handshake
  that fails closes the connection, which reaches the session.\<close>

definition connect_session ::
    "cipher \<Rightarrow> relay_token \<Rightarrow> handshake_signer \<Rightarrow> string \<Rightarrow> string \<Rightarrow> string \<Rightarrow> bytes \<Rightarrow> bytes \<Rightarrow>
     exn option \<Rightarrow> ending \<Rightarrow> bytes \<Rightarrow> nat \<Rightarrow> relay_session \<Rightarrow> relay_session \<times> relay_effect list \<times> (exn + bytes)" where
  "connect_session A token signer device_id uid client_random iv1 iv2 dialled fin input ms s =
     (let c = set_close_handler True (set_segment_handler True (rs_connection s)) in
      case connect A token signer device_id uid client_random iv1 iv2 dialled fin input c of
        (c1, es, r) \<Rightarrow> (let q = forward_all ms es (s\<lparr>rs_connection := c1\<rparr>) in (fst q, snd q, r)))"

datatype session_event =
    OnConnection connection_event nat
  | SendTo nat bytes "nat \<Rightarrow> nat"
  | TickOf nat nat
  | HandlerOf nat bool
  | OnClosed bool

text \<open>Sends, retransmit turns and handler changes reach conversations that exist;
  \<open>OnClosed\<close> installs or removes the session's own close handler.\<close>

fun session_step :: "relay_session \<Rightarrow> session_event \<Rightarrow> relay_session \<times> relay_effect list" where
  "session_step s (OnConnection e ms) = on_connection e ms s"
| "session_step s (SendTo cid m clock) =
     (if map_of (rs_conversations s) cid = None then (s, []) else on_conversation cid (Send m clock) s)"
| "session_step s (TickOf cid ms) =
     (if map_of (rs_conversations s) cid = None then (s, []) else on_conversation cid (Tick ms) s)"
| "session_step s (HandlerOf cid h) =
     (if map_of (rs_conversations s) cid = None then (s, []) else on_conversation cid (SetHandler h) s)"
| "session_step s (OnClosed h) = (set_session_close_handler h s, [])"

lemma map_of_map_values: "map_of (map (\<lambda>(c, k). (c, f k)) al) = map_option f \<circ> map_of al"
  by (rule ext) (induction al; auto)

lemma connection_closed_inv: "session_inv s \<Longrightarrow> session_inv (fst (on_connection_closed e s))"
proof -
  assume s: "session_inv s"
  have keys: "map fst (map (\<lambda>(c, k). (c, close k)) al) = map fst al" for al :: "(nat \<times> kcp) list"
    by (induction al) auto
  have c: "kcp_inv (close k)" "kcp_conversation (close k) = kcp_conversation k" if "kcp_inv k" for k
    using that by (simp_all add: kcp_inv_close) (simp add: close_def disarm_retransmit_def)
  show ?thesis
    using s unfolding session_inv_def on_connection_closed_def
    by (auto simp: Let_def cancel_video_def map_of_map_values keys c simp del: map_of_eq_Some_iff map_map)
qed

lemma session_inv_fields:
  "session_inv (s\<lparr>rs_connection := c\<rparr>) = session_inv s" "session_inv (s\<lparr>rs_close_handler := h\<rparr>) = session_inv s"
  by (simp_all add: session_inv_def)

lemma forward_inv: "session_inv s \<Longrightarrow> session_inv (fst (forward ms e s))"
  by (cases e) (simp_all add: route_inv connection_closed_inv)

lemma forward_all_inv: "session_inv s \<Longrightarrow> session_inv (fst (forward_all ms es s))"
  by (induction es arbitrary: s) (simp_all add: Let_def forward_inv)

lemma session_step_inv: "session_inv s \<Longrightarrow> session_inv (fst (session_step s e))"
  by (cases e) (simp_all add: on_conversation_inv on_connection_def Let_def forward_all_inv session_inv_fields)

interpretation session: transducer session_step session_inv
  by unfold_locales (rule session_step_inv)

lemma new_session_inv: "session_inv (new_session key)"
  by (simp add: session_inv_def new_session_def kcp_inv_new new_conversation_id)

section \<open>Routing\<close>

lemma route_parsed:
  assumes "parse_segment raw = Some segment"
  shows "rs_conversations (fst (route raw ms s)) = AList.update (seg_conversation segment)
      (fst (input_segment segment ms (the_conversation (seg_conversation segment) s))) (rs_conversations s)"
    "rs_connection (fst (route raw ms s)) = rs_connection s"
    "rs_closed (fst (route raw ms s)) = rs_closed s"
    "rs_video (fst (route raw ms s)) = rs_video (mark_video (seg_conversation segment) s)"
    "snd (route raw ms s) = outputs (rs_connection s) (seg_conversation segment)
       (snd (input_segment segment ms (the_conversation (seg_conversation segment) s)))"
  using assms by (simp_all add: route_eq on_conversation_eq)

lemma push_output:
  assumes "\<not> kcp_closed k" "seg_command g = CMD_PUSH" "writable c"
  shows "\<exists>before ack. outputs c cid (snd (input_segment g ms k)) =
      before @ [Sent (segment_frame (rc_media_key c) ack)] \<and> length ack = 24 \<and>
    parse_segment ack = Some \<lparr>seg_conversation = kcp_conversation k mod 2 ^ 32, seg_command = CMD_ACK,
      seg_fragment = 0, seg_window = 512, seg_timestamp = seg_timestamp g mod 2 ^ 32,
      seg_sequence = seg_sequence g mod 2 ^ 32,
      seg_unacknowledged = kcp_next_receive (fst (input_segment g ms k)) mod 2 ^ 32, seg_data = []\<rparr>"
proof -
  let ?k1 = "fst (accept g (retire_pending (seg_unacknowledged g) k))"
  let ?h = "\<lparr>seg_conversation = kcp_conversation ?k1, seg_command = CMD_ACK, seg_fragment = 0,
    seg_window = RECEIVE_WINDOW, seg_timestamp = seg_timestamp g, seg_sequence = seg_sequence g,
    seg_unacknowledged = kcp_next_receive ?k1, seg_data = []\<rparr>"
  have e: "snd (input_segment g ms k) =
      snd (accept g (retire_pending (seg_unacknowledged g) k)) @ [Transmit (header_bytes ?h)]"
    "fst (input_segment g ms k) = ?k1"
    using assms(1,2) by (simp_all add: input_segment_def Let_def acknowledge_eq command_defs)
  have p: "parse_segment (header_bytes ?h) = Some (mask_segment ?h)"
    by (rule parse_header_data(2)) (simp_all add: CMD_ACK_def)
  show ?thesis
    using assms(3) p
    by (intro exI [of _ "outputs c cid (snd (accept g (retire_pending (seg_unacknowledged g) k)))"]
        exI [of _ "header_bytes ?h"])
      (simp add: e transmit_output mask_segment_def RECEIVE_WINDOW_def del: conversation_output.simps)
qed

section \<open>The tunnel\<close>

definition tunnel_segment :: "nat \<Rightarrow> bytes \<Rightarrow> kcp_segment" where
  "tunnel_segment sn rec = \<lparr>seg_conversation = SIGNALING_CONVERSATION, seg_command = CMD_PUSH, seg_fragment = 0,
     seg_window = TUNNEL_WINDOW, seg_timestamp = 0, seg_sequence = sn mod 2 ^ 32, seg_unacknowledged = 0,
     seg_data = rec\<rparr>"

definition tunnel_raw :: "nat \<Rightarrow> bytes \<Rightarrow> bytes" where
  "tunnel_raw sn rec = header_bytes (tunnel_segment sn rec) @ rec"

lemma tunnel_raw_segment:
  "length rec \<le> 1376 \<Longrightarrow> parse_segment (tunnel_raw sn rec) = Some (tunnel_segment sn rec)"
proof -
  assume l: "length rec \<le> 1376"
  have "mask_segment (tunnel_segment sn rec) = tunnel_segment sn rec"
    by (simp add: mask_segment_def tunnel_segment_def SIGNALING_CONVERSATION_def TUNNEL_WINDOW_def)
  then show ?thesis
    using l parse_header_data(1) [of "tunnel_segment sn rec" rec]
    by (simp add: tunnel_raw_def tunnel_segment_def command_defs)
qed

lemma send_tunnel_segment_eq:
  assumes "length rec \<le> 1376" "writable (rs_connection s)"
  shows "send_tunnel_segment rec s = (s\<lparr>rs_signaling_sequence := rs_signaling_sequence s + 1\<rparr>,
     [Sent (segment_frame (rc_media_key (rs_connection s)) (tunnel_raw (rs_signaling_sequence s) rec))])"
proof -
  have "le_bytes 4 (x mod 4294967296) = le_bytes 4 x" for x by (rule le_bytes_4_mod)
  then have b: "build_segment SIGNALING_CONVERSATION CMD_PUSH 0 TUNNEL_WINDOW 0 (rs_signaling_sequence s) 0 rec =
      Inr (tunnel_raw (rs_signaling_sequence s) rec)"
    using assms(1) by (simp add: build_segment_eq tunnel_raw_def tunnel_segment_def command_defs header_bytes_def)
  have "length (tunnel_raw (rs_signaling_sequence s) rec) + 24 < 65536"
    using assms(1) by (simp add: tunnel_raw_def)
  then show ?thesis
    using assms(2) by (simp add: send_tunnel_segment_def b write_segment_eq writable_def)
qed

text \<open>What the device does with a tunnel segment: decrypt its payload behind the IV.\<close>

definition tunnel_read :: "cipher \<Rightarrow> bytes \<Rightarrow> bytes \<Rightarrow> exn + bytes" where
  "tunnel_read A media_key raw =
     andThen (from_option ValueError (parse_segment raw)) (\<lambda>g.
       cbc_decryptor A media_key (take 16 (seg_data g)) (drop 16 (seg_data g)))"

lemma tunnel_loop_sends:
  assumes "cbc_laws A" "length key = 16" "length padded mod 16 = 0"
    and "length ivs = length offsets" "\<forall>iv \<in> set ivs. length iv = 16" "\<forall>ofs \<in> set offsets. ofs mod 16 = 0"
    and "writable (rs_connection s)"
  shows "\<exists>raws. tunnel_loop A key padded offsets ivs s =
      (s\<lparr>rs_signaling_sequence := rs_signaling_sequence s + length offsets\<rparr>,
       map (\<lambda>raw. Sent (segment_frame (rc_media_key (rs_connection s)) raw)) raws) \<and>
    traverse (tunnel_read A key) raws = Inr (map (\<lambda>ofs. slice padded ofs (ofs + TUNNEL_CHUNK)) offsets) \<and>
    (\<exists>recs. raws = map (\<lambda>(sn, rec). tunnel_raw sn rec)
        (zip [rs_signaling_sequence s..<rs_signaling_sequence s + length offsets] recs) \<and>
      length recs = length offsets \<and> list_all (\<lambda>rec. length rec \<le> 1376) recs)"
  using assms(4-7)
proof (induction offsets arbitrary: ivs s)
  case Nil
  then show ?case by simp
next
  case (Cons ofs offsets)
  then obtain iv ivs' where ivs: "ivs = iv # ivs'" by (cases ivs) auto
  let ?c = "slice padded ofs (ofs + TUNNEL_CHUNK)"
  have "(length padded - ofs) mod 16 = 0"
    using assms(3) Cons.prems(3) by (auto simp: mod_eq_0_iff_dvd)
  then have al: "length ?c mod 16 = 0"
    by (simp add: length_slice TUNNEL_CHUNK_def min_def)
  obtain ct where ct: "cbc_encryptor A key iv ?c = Inr ct" "length ct = length ?c" "cbc_decryptor A key iv ct = Inr ?c"
    using cbc_lawsE [OF assms(1) aes_key_size_16 [OF assms(2)] _ al] Cons.prems(2) ivs by auto
  have iv: "length iv = 16" using Cons.prems(2) ivs by simp
  have len: "length (iv @ ct) \<le> 1376"
    using iv ct(2) by (simp add: length_slice TUNNEL_CHUNK_def)
  let ?s1 = "s\<lparr>rs_signaling_sequence := rs_signaling_sequence s + 1\<rparr>"
  let ?raw = "tunnel_raw (rs_signaling_sequence s) (iv @ ct)"
  obtain raws recs where IH: "tunnel_loop A key padded offsets ivs' ?s1 =
      (?s1\<lparr>rs_signaling_sequence := rs_signaling_sequence ?s1 + length offsets\<rparr>,
       map (\<lambda>raw. Sent (segment_frame (rc_media_key (rs_connection ?s1)) raw)) raws)"
    "traverse (tunnel_read A key) raws = Inr (map (\<lambda>ofs. slice padded ofs (ofs + TUNNEL_CHUNK)) offsets)"
    "raws = map (\<lambda>(sn, rec). tunnel_raw sn rec)
        (zip [rs_signaling_sequence ?s1..<rs_signaling_sequence ?s1 + length offsets] recs)"
    "length recs = length offsets" "list_all (\<lambda>rec. length rec \<le> 1376) recs"
    using Cons.IH [of ivs' ?s1] Cons.prems ivs by auto
  have read: "tunnel_read A key ?raw = Inr ?c"
    using len iv ct(3) by (simp add: tunnel_read_def tunnel_raw_segment tunnel_segment_def)
  have up: "[rs_signaling_sequence s..<rs_signaling_sequence s + length (ofs # offsets)] =
      rs_signaling_sequence s # [rs_signaling_sequence ?s1..<rs_signaling_sequence ?s1 + length offsets]"
    by (simp add: upt_conv_Cons del: upt_Suc)
  show ?case
    unfolding up
    by (intro exI [of _ "?raw # raws"] conjI exI [of _ "(iv @ ct) # recs"])
      (use IH read len Cons.prems(4) in \<open>simp_all add: ivs aes_cbc_encrypt_raw_def ct(1) send_tunnel_segment_eq Let_def del: upt_Suc\<close>)
qed

lemma chunk_offsets_cover: "concat (map (\<lambda>ofs. slice padded ofs (ofs + TUNNEL_CHUNK)) (chunk_offsets padded)) = padded"
proof -
  have "concat (map (\<lambda>i. slice padded (i * TUNNEL_CHUNK) (i * TUNNEL_CHUNK + TUNNEL_CHUNK)) [0..<n]) =
      take (n * TUNNEL_CHUNK) padded" for n
  proof (induction n)
    case (Suc n)
    then show ?case
      using take_add [of "n * TUNNEL_CHUNK" TUNNEL_CHUNK padded] by (simp add: slice_def add.commute)
  qed simp
  moreover have "length padded \<le> (length padded + TUNNEL_CHUNK - 1) div TUNNEL_CHUNK * TUNNEL_CHUNK"
    using div_mult_mod_eq [of "length padded + TUNNEL_CHUNK - 1" TUNNEL_CHUNK]
      mod_less_divisor [of TUNNEL_CHUNK "length padded + TUNNEL_CHUNK - 1"]
    by (simp add: TUNNEL_CHUNK_def)
  ultimately show ?thesis by (simp add: chunk_offsets_def comp_def)
qed

lemma chunk_offsets_aligned: "\<forall>ofs \<in> set (chunk_offsets padded). ofs mod 16 = 0"
proof -
  have "i * 1312 mod 16 = 0" for i :: nat
    by (simp add: mod_mult_right_eq [symmetric])
  then show ?thesis by (auto simp: chunk_offsets_def TUNNEL_CHUNK_def)
qed

text \<open>How many records the tunnel cuts a frame into.\<close>

definition tunnel_records :: "bytes \<Rightarrow> nat" where
  "tunnel_records frame_json = (16 * ((length frame_json + length frame_json mod 2 + 4) div 16 + 1) + 1311) div 1312"

lemma tunnel_padded:
  assumes "length frame_json < 65536"
  shows "tunnel_plaintext frame_json =
      Inr (pad_pkcs7 ([0x00, 0x01] @ be_bytes 2 (length frame_json) @ frame_json @ (if odd (length frame_json) then [0x00] else [])))"
    and "length (chunk_offsets (pad_pkcs7 ([0x00, 0x01] @ be_bytes 2 (length frame_json) @ frame_json @
      (if odd (length frame_json) then [0x00] else [])))) = tunnel_records frame_json"
proof -
  let ?body = "[0x00, 0x01] @ be_bytes 2 (length frame_json) @ frame_json @ (if odd (length frame_json) then [0x00] else [])"
  show "tunnel_plaintext frame_json = Inr (pad_pkcs7 ?body)"
    using assms by (simp add: tunnel_plaintext_def to_be_def)
  have "length ?body = length frame_json + length frame_json mod 2 + 4"
    by (simp add: odd_iff_mod_2_eq_one)
  then have "length (pad_pkcs7 ?body) = 16 * ((length frame_json + length frame_json mod 2 + 4) div 16 + 1)"
    by (simp only: length_pad_pkcs7_eq)
  then show "length (chunk_offsets (pad_pkcs7 ?body)) = tunnel_records frame_json"
    by (simp add: chunk_offsets_def TUNNEL_CHUNK_def tunnel_records_def)
qed

text \<open>A frame sent through a tunnel that can be written to.\<close>

lemma tunnel_frame_sent:
  assumes "cbc_laws A" "length key = 16" "length frame_json < 65536" "writable (rs_connection s)"
    and "\<forall>iv \<in> set ivs. length iv = 16" "length ivs = tunnel_records frame_json"
  obtains raws where "send_tunnel_frame A key ivs frame_json s =
      (s\<lparr>rs_signaling_sequence := rs_signaling_sequence s + length ivs\<rparr>,
       map (\<lambda>raw. Sent (segment_frame (rc_media_key (rs_connection s)) raw)) raws)"
proof -
  define padded where "padded = pad_pkcs7 ([0x00, 0x01] @ be_bytes 2 (length frame_json) @ frame_json @
      (if odd (length frame_json) then [0x00] else []))"
  have n: "length ivs = length (chunk_offsets padded)"
    using tunnel_padded(2) [OF assms(3)] assms(6) by (simp add: padded_def)
  have al: "length padded mod 16 = 0" by (simp add: padded_def)
  obtain raws where "tunnel_loop A key padded (chunk_offsets padded) ivs s =
      (s\<lparr>rs_signaling_sequence := rs_signaling_sequence s + length (chunk_offsets padded)\<rparr>,
       map (\<lambda>raw. Sent (segment_frame (rc_media_key (rs_connection s)) raw)) raws)"
    using tunnel_loop_sends [OF assms(1,2) al n assms(5) chunk_offsets_aligned assms(4)] by blast
  then show ?thesis
    by (intro that) (simp only: send_tunnel_frame_def tunnel_padded(1) [OF assms(3)] sum.case padded_def [symmetric] n)
qed

section \<open>Closing\<close>

lemma closed_input: "kcp_closed k \<Longrightarrow> input_segment g ms k = (k, [])"
  by (simp add: input_segment_def)

text \<open>Segments of known conversations change no key, close nothing and open nothing.\<close>

definition known_segment :: "relay_session \<Rightarrow> bytes \<Rightarrow> bool" where
  "known_segment s raw \<longleftrightarrow>
     (case parse_segment raw of None \<Rightarrow> True | Some g \<Rightarrow> seg_conversation g \<in> set (map fst (rs_conversations s)))"

lemma keys_update: "cid \<in> set (map fst al) \<Longrightarrow> map fst (AList.update cid k al) = map fst al"
  by (induction al) auto

definition closed_among :: "nat set \<Rightarrow> relay_session \<Rightarrow> bool" where
  "closed_among cids s \<longleftrightarrow> (\<forall>cid \<in> cids. \<forall>k. map_of (rs_conversations s) cid = Some k \<longrightarrow> kcp_closed k)"

text \<open>The parts of the session a routed segment leaves alone.\<close>

definition same_frame :: "relay_session \<Rightarrow> relay_session \<Rightarrow> bool" where
  "same_frame s t \<longleftrightarrow> map fst (rs_conversations t) = map fst (rs_conversations s) \<and>
     rs_connection t = rs_connection s \<and> rs_closed t = rs_closed s \<and> rs_close_handler t = rs_close_handler s"

lemma same_frame_refl [simp]: "same_frame s s"
  by (simp add: same_frame_def)

lemma same_frame_trans: "same_frame s t \<Longrightarrow> same_frame t u \<Longrightarrow> same_frame s u"
  by (simp add: same_frame_def)

lemma route_known:
  assumes "known_segment s raw"
  shows "same_frame s (fst (route raw ms s))"
    and "closed_among cids s \<Longrightarrow> closed_among cids (fst (route raw ms s))"
proof -
  show "same_frame s (fst (route raw ms s))"
  proof (cases "parse_segment raw")
    case None
    then show ?thesis by (simp add: route_eq)
  next
    case (Some g)
    have "rs_close_handler (fst (route raw ms s)) = rs_close_handler s"
      by (simp add: route_eq Some on_conversation_eq mark_video_def)
    moreover have "map fst (rs_conversations (fst (route raw ms s))) = map fst (rs_conversations s)"
      unfolding route_parsed(1) [OF Some]
      by (rule keys_update) (use assms Some in \<open>simp only: known_segment_def option.case\<close>)
    ultimately show ?thesis
      unfolding same_frame_def using route_parsed(2,3) [OF Some] by blast
  qed
  show "closed_among cids (fst (route raw ms s))" if c: "closed_among cids s"
  proof (cases "parse_segment raw")
    case None
    then show ?thesis using c by (simp add: route_eq)
  next
    case (Some g)
    have "kcp_closed (fst (input_segment g ms (the_conversation (seg_conversation g) s)))"
      if "seg_conversation g \<in> cids"
    proof -
      obtain k where k: "map_of (rs_conversations s) (seg_conversation g) = Some k"
        using assms Some weak_map_of_SomeI by (fastforce simp: known_segment_def)
      then have "kcp_closed k" using c that by (auto simp: closed_among_def)
      then show ?thesis using k by (simp add: the_conversation_def closed_input)
    qed
    then show ?thesis
      using c unfolding closed_among_def route_parsed(1) [OF Some] by (auto simp: map_of_update)
  qed
qed

lemma known_same_frame: "same_frame s t \<Longrightarrow> known_segment t raw = known_segment s raw"
proof -
  assume "same_frame s t"
  then have "set (map fst (rs_conversations t)) = set (map fst (rs_conversations s))"
    unfolding same_frame_def by metis
  then show ?thesis unfolding known_segment_def by (simp only:)
qed

lemma route_all_known:
  "\<forall>(raw, ms) \<in> set ins. known_segment s raw \<Longrightarrow>
     same_frame s (fst (route_all ins s)) \<and> (closed_among cids s \<longrightarrow> closed_among cids (fst (route_all ins s)))"
proof (induction ins arbitrary: s)
  case Nil
  then show ?case by simp
next
  case (Cons rm ins)
  obtain raw ms where rm: "rm = (raw, ms)" by (cases rm)
  have k: "known_segment s raw" using Cons.prems by (simp add: rm)
  let ?t = "fst (route raw ms s)"
  have f: "same_frame s ?t" by (rule route_known(1) [OF k])
  then have "\<forall>(raw, ms) \<in> set ins. known_segment ?t raw"
    using Cons.prems by (auto simp: known_same_frame)
  from Cons.IH [OF this] f route_known(2) [OF k, of cids ms] show ?case
    by (auto simp: rm Let_def intro: same_frame_trans)
qed

lemma put_closed:
  assumes "map_of (rs_conversations s) cid = Some k" "closed_among cids s"
  shows "same_frame s (put_conversation cid (close k) s) \<and>
    closed_among (insert cid cids) (put_conversation cid (close k) s)"
proof -
  have "cid \<in> set (map fst (rs_conversations s))"
    using map_of_SomeD [OF assms(1)] by force
  then show ?thesis
    using assms(2) by (auto simp: same_frame_def put_conversation_def keys_update closed_among_def map_of_update)
qed

lemma close_loop_known:
  assumes "n = length (rs_conversations s)" "\<forall>cid. \<forall>(raw, ms) \<in> set (inbound cid). known_segment s raw"
    and "closed_among cids s"
  shows "\<exists>t es. close_loop inbound n todo s = (t, es, None) \<and> same_frame s t \<and> closed_among (cids \<union> set todo) t"
  using assms
proof (induction todo arbitrary: s cids)
  case Nil
  then show ?case by (simp add: close_loop.simps)
next
  case (Cons cid todo)
  show ?case
  proof (cases "map_of (rs_conversations s) cid")
    case None
    have "closed_among (insert cid cids) s"
      using Cons.prems(3) None by (simp add: closed_among_def)
    with Cons.IH [of s "insert cid cids"] Cons.prems(1,2) obtain t es where
      t: "close_loop inbound n todo s = (t, es, None)" "same_frame s t" "closed_among (insert cid cids \<union> set todo) t"
      by metis
    have "close_loop inbound n (cid # todo) s = close_loop inbound n todo s"
      using Cons.prems(1) None by (subst close_loop.simps) simp
    with t show ?thesis by (intro exI [of _ t] exI [of _ es]) simp
  next
    case (Some k)
    let ?s1 = "put_conversation cid (close k) s"
    let ?r = "if kcp_retransmit_task k then route_all (inbound cid) ?s1 else (?s1, [])"
    have s1: "same_frame s ?s1" "closed_among (insert cid cids) ?s1"
      using put_closed [OF Some Cons.prems(3)] by simp_all
    have "\<forall>(raw, ms) \<in> set (inbound cid). known_segment ?s1 raw"
      using Cons.prems(2) by (simp add: known_same_frame [OF s1(1)])
    then have r: "same_frame s (fst ?r)" "closed_among (insert cid cids) (fst ?r)"
      using route_all_known [of "inbound cid" ?s1 "insert cid cids"] s1 by (auto intro: same_frame_trans)
    then have "length (rs_conversations (fst ?r)) = n"
      using Cons.prems(1) by (metis length_map same_frame_def)
    moreover have "\<forall>cid. \<forall>(raw, ms) \<in> set (inbound cid). known_segment (fst ?r) raw"
      using Cons.prems(2) by (simp add: known_same_frame [OF r(1)])
    ultimately obtain t es where t: "close_loop inbound n todo (fst ?r) = (t, es, None)"
      "same_frame (fst ?r) t" "closed_among (insert cid cids \<union> set todo) t"
      using Cons.IH [of "fst ?r" "insert cid cids"] r(2) by metis
    then show ?thesis
      using Cons.prems(1) same_frame_trans [OF r(1) t(2)] Some
      by (subst close_loop.simps) (simp add: Let_def)
  qed
qed

text \<open>After the connection is lost: the session is closed, nobody reads, every conversation is closed.\<close>

definition all_closed :: "relay_session \<Rightarrow> bool" where
  "all_closed s \<longleftrightarrow> list_all (\<lambda>(cid, k). kcp_closed k) (rs_conversations s)"

definition gone :: "relay_session \<Rightarrow> bool" where
  "gone s \<longleftrightarrow> rs_closed s \<and> \<not> rc_reading (rs_connection s) \<and> all_closed s"

fun quiet :: "relay_effect \<Rightarrow> bool" where
  "quiet (Received cid m) = False"
| "quiet (SessionClosed e) = False"
| "quiet _ = True"

lemma list_all_update: "list_all P al \<Longrightarrow> P (c, k) \<Longrightarrow> list_all P (AList.update c k al)"
  by (induction al) auto

lemma list_all_map_of: "list_all P al \<Longrightarrow> map_of al c = Some k \<Longrightarrow> P (c, k)"
  using map_of_SomeD by (fastforce simp: list_all_iff)

lemma connection_output_quiet: "list_all quiet (concat (map connection_output es))"
proof -
  have "list_all quiet (connection_output e)" for e by (cases e) simp_all
  then show ?thesis by (induction es) simp_all
qed

lemma raised_output_quiet: "list_all is_raised es \<Longrightarrow> list_all quiet (outputs c cid es)"
proof (induction es)
  case (Cons e es)
  then show ?case by (cases e) simp_all
qed simp

lemma gone_conversation:
  assumes "gone s" "map_of (rs_conversations s) cid \<noteq> None"
  shows "gone (fst (on_conversation cid e s)) \<and> list_all quiet (snd (on_conversation cid e s))"
proof -
  from assms(2) obtain k where k: "map_of (rs_conversations s) cid = Some k" by blast
  have "kcp_closed k"
    using list_all_map_of [OF assms(1) [unfolded gone_def all_closed_def, THEN conjunct2, THEN conjunct2] k] by simp
  with closed_step [of k e] assms(1) show ?thesis
    by (simp add: on_conversation_eq the_conversation_def k gone_def all_closed_def list_all_update raised_output_quiet)
qed

lemma unread_step:
  assumes "\<not> rc_reading c"
  shows "\<not> rc_reading (fst (connection_step c e))"
    and "list_all (\<lambda>x. case x of Segment raw \<Rightarrow> False | _ \<Rightarrow> True) (snd (connection_step c e))"
  using assms
  by (cases e; simp add: read_turn_def read_failed_def close_connection_def notify_closed_def set_close_handler_def
      set_segment_handler_def write_segment_def write_frame_def keepalive_turn_def split: sum.split)+

lemma gone_forward:
  "gone s \<Longrightarrow> list_all (\<lambda>x. case x of Segment raw \<Rightarrow> False | _ \<Rightarrow> True) es \<Longrightarrow>
     fst (forward_all ms es s) = s \<and> list_all quiet (snd (forward_all ms es s))"
proof (induction es)
  case (Cons e es)
  then show ?case by (cases e) (simp_all add: Let_def on_connection_closed_def gone_def)
qed simp

lemma gone_step: "gone s \<Longrightarrow> gone (fst (session_step s e)) \<and> list_all quiet (snd (session_step s e))"
proof (cases e)
  case (OnConnection ce ms)
  assume s: "gone s"
  let ?r = "connection_step (rs_connection s) ce"
  have "gone (s\<lparr>rs_connection := fst ?r\<rparr>)"
    using s unread_step(1) [of "rs_connection s" ce] by (simp add: gone_def all_closed_def)
  with gone_forward [of "s\<lparr>rs_connection := fst ?r\<rparr>" "snd ?r" ms] unread_step(2) [of "rs_connection s" ce] s
  show ?thesis by (simp add: OnConnection on_connection_def Let_def gone_def)
next
  case (OnClosed h)
  assume "gone s"
  then show ?thesis by (simp add: OnClosed gone_def all_closed_def)
qed (simp_all add: gone_conversation)

interpretation session: closable session_step session_inv gone quiet
  by unfold_locales (rule gone_step)

section \<open>Properties\<close>

text \<open>
  C16: Every conversation the device opens is serviced, known or not, listened to or not: a push
  routed into it is acknowledged on the same conversation with the same sequence number, in a
  media frame that unwraps under the session's key, and no other conversation changes.
\<close>

theorem routed_push_acknowledged:
  assumes "session_inv s" "writable (rs_connection s)" "parse_segment raw = Some g" "seg_command g = CMD_PUSH"
    and "\<not> kcp_closed (the_conversation (seg_conversation g) s)"
  shows "(\<exists>before frame ack a. snd (route raw ms s) = before @ [Sent frame] \<and>
      unwrap_media_frame (rc_media_key (rs_connection s)) (drop 4 frame) = Inr ack \<and>
      parse_segment ack = Some a \<and> seg_command a = CMD_ACK \<and>
      seg_conversation a = seg_conversation g \<and> seg_sequence a = seg_sequence g) \<and>
    (\<forall>cid. cid \<noteq> seg_conversation g \<longrightarrow>
      map_of (rs_conversations (fst (route raw ms s))) cid = map_of (rs_conversations s) cid)"
proof -
  let ?c = "seg_conversation g" and ?key = "rc_media_key (rs_connection s)"
  have id: "kcp_conversation (the_conversation ?c s) = ?c"
    using the_conversation_inv [OF assms(1)] by simp
  have b: "?c mod 2 ^ 32 = ?c" "seg_sequence g mod 2 ^ 32 = seg_sequence g"
    using parse_segment_valid [OF assms(3)] by (simp_all add: valid_segment_def)
  obtain before ack where out: "snd (route raw ms s) = before @ [Sent (segment_frame ?key ack)]"
    and ack: "length ack = 24" "parse_segment ack = Some \<lparr>seg_conversation = ?c mod 2 ^ 32, seg_command = CMD_ACK,
      seg_fragment = 0, seg_window = 512, seg_timestamp = seg_timestamp g mod 2 ^ 32,
      seg_sequence = seg_sequence g mod 2 ^ 32,
      seg_unacknowledged = kcp_next_receive (fst (input_segment g ms (the_conversation ?c s))) mod 2 ^ 32,
      seg_data = []\<rparr>"
    using push_output [OF assms(5,4,2), of ?c ms] unfolding route_parsed(5) [OF assms(3)] id by blast
  have u: "unwrap_media_frame ?key (drop 4 (segment_frame ?key ack)) = Inr ack"
    by (rule unwrap_segment_frame) (simp add: ack(1))
  have "\<forall>cid. cid \<noteq> ?c \<longrightarrow> map_of (rs_conversations (fst (route raw ms s))) cid = map_of (rs_conversations s) cid"
    by (simp add: route_parsed(1) [OF assms(3)] map_of_update)
  moreover have "seg_conversation a = ?c \<and> seg_sequence a = seg_sequence g \<and> seg_command a = CMD_ACK"
    if "parse_segment ack = Some a" for a
    using that ack(2) b by auto
  ultimately show ?thesis
    using out u ack(2) by blast
qed

text \<open>A session whose socket is open, as \<^verbatim>\<open>async_connect\<close> leaves it.\<close>

definition connected_session :: "bytes \<Rightarrow> relay_session" where
  "connected_session key = (new_session key)\<lparr>rs_connection :=
     \<lparr>rc_media_key = key, rc_writer = True, rc_segment_handler = True, rc_close_handler = True,
      rc_reading = True, rc_keepalive = True, rc_closed = False\<rparr>\<rparr>"

lemma connected_session_inv [simp]: "session_inv (connected_session key)"
  unfolding connected_session_def session_inv_fields by (rule new_session_inv)

lemma connected_session_fields [simp]:
  "writable (rs_connection (connected_session key))"
  "rc_media_key (rs_connection (connected_session key)) = key"
  "rs_conversations (connected_session key) = [(CONTROL_CONVERSATION, new_conversation CONTROL_CONVERSATION)]"
  "rs_signaling_sequence (connected_session key) = 0" "rs_video (connected_session key) = VideoPending"
  "\<not> rs_closed (connected_session key)"
  by (simp_all add: connected_session_def writable_def new_session_def)

definition sample_push :: "nat \<Rightarrow> nat \<Rightarrow> kcp_segment" where
  "sample_push cid sn = \<lparr>seg_conversation = cid, seg_command = CMD_PUSH, seg_fragment = 0, seg_window = 512,
     seg_timestamp = 7, seg_sequence = sn, seg_unacknowledged = 0, seg_data = [1, 2, 3]\<rparr>"

definition sample_raw :: "nat \<Rightarrow> nat \<Rightarrow> bytes" where
  "sample_raw cid sn = header_bytes (sample_push cid sn) @ [1, 2, 3]"

lemma sample_raw_segment: "cid < 2 ^ 32 \<Longrightarrow> sn < 2 ^ 32 \<Longrightarrow> parse_segment (sample_raw cid sn) = Some (sample_push cid sn)"
  using parse_header_data(1) [of "sample_push cid sn" "[1, 2, 3]"]
  by (simp add: sample_raw_def sample_push_def mask_segment_def command_defs)

lemma routed_push_acknowledged_witness:
  "\<exists>before frame ack a. snd (route (sample_raw VIDEO_CONVERSATION 0) 5 (connected_session [9])) = before @ [Sent frame] \<and>
      unwrap_media_frame [9] (drop 4 frame) = Inr ack \<and>
      parse_segment ack = Some a \<and> seg_command a = CMD_ACK \<and>
      seg_conversation a = VIDEO_CONVERSATION \<and> seg_sequence a = 0"
proof -
  let ?s = "connected_session [9]"
  have "parse_segment (sample_raw VIDEO_CONVERSATION 0) = Some (sample_push VIDEO_CONVERSATION 0)"
    by (rule sample_raw_segment) (simp_all add: VIDEO_CONVERSATION_def)
  moreover have "\<not> kcp_closed (the_conversation (seg_conversation (sample_push VIDEO_CONVERSATION 0)) ?s)"
    by (simp add: the_conversation_def sample_push_def VIDEO_CONVERSATION_def CONTROL_CONVERSATION_def new_conversation_def)
  ultimately show ?thesis
    using routed_push_acknowledged [of ?s "sample_raw VIDEO_CONVERSATION 0" "sample_push VIDEO_CONVERSATION 0" 5]
    by (simp add: sample_push_def [of VIDEO_CONVERSATION])
qed

text \<open>
  C21: The tunnel carries a signaling frame whole: its records decrypt, in order, to the padded
  message 00 01, the length, the JSON and a NUL when it is odd; each goes out once, as a push of
  the signaling conversation in a segment of its own, under consecutive sequence numbers.
\<close>

theorem tunnel_carries_frame:
  assumes "cbc_laws A" "length key = 16" "length frame_json < 65536" "writable (rs_connection s)"
    and "\<forall>iv \<in> set ivs. length iv = 16"
    and "length ivs = (16 * ((length frame_json + length frame_json mod 2 + 4) div 16 + 1) + 1311) div 1312"
  shows "\<exists>raws. send_tunnel_frame A key ivs frame_json s =
      (s\<lparr>rs_signaling_sequence := rs_signaling_sequence s + length ivs\<rparr>,
       map (\<lambda>raw. Sent (segment_frame (rc_media_key (rs_connection s)) raw)) raws) \<and>
    map (\<lambda>raw. map_option (\<lambda>g. (seg_conversation g, seg_command g, seg_sequence g)) (parse_segment raw)) raws =
      map (\<lambda>sn. Some (SIGNALING_CONVERSATION, CMD_PUSH, sn mod 2 ^ 32))
        [rs_signaling_sequence s..<rs_signaling_sequence s + length ivs] \<and>
    andThen (traverse (tunnel_read A key) raws) (\<lambda>records. unpad_pkcs7 (concat records)) =
      Inr ([0x00, 0x01] @ be_bytes 2 (length frame_json) @ frame_json @ (if odd (length frame_json) then [0x00] else []))"
proof -
  let ?body = "[0x00, 0x01] @ be_bytes 2 (length frame_json) @ frame_json @ (if odd (length frame_json) then [0x00] else [])"
  define padded where "padded = pad_pkcs7 ?body"
  have t: "tunnel_plaintext frame_json = Inr padded" and n: "length ivs = length (chunk_offsets padded)"
    using tunnel_padded [OF assms(3)] assms(6) by (simp_all add: padded_def tunnel_records_def)
  have al: "length padded mod 16 = 0" by (simp add: padded_def)
  obtain raws recs where r: "tunnel_loop A key padded (chunk_offsets padded) ivs s =
      (s\<lparr>rs_signaling_sequence := rs_signaling_sequence s + length (chunk_offsets padded)\<rparr>,
       map (\<lambda>raw. Sent (segment_frame (rc_media_key (rs_connection s)) raw)) raws)"
    "traverse (tunnel_read A key) raws = Inr (map (\<lambda>ofs. slice padded ofs (ofs + TUNNEL_CHUNK)) (chunk_offsets padded))"
    "raws = map (\<lambda>(sn, rec). tunnel_raw sn rec)
        (zip [rs_signaling_sequence s..<rs_signaling_sequence s + length (chunk_offsets padded)] recs)"
    "length recs = length (chunk_offsets padded)" "list_all (\<lambda>rec. length rec \<le> 1376) recs"
    using tunnel_loop_sends [OF assms(1,2) al n assms(5) chunk_offsets_aligned assms(4)] by blast
  have p: "map (\<lambda>raw. map_option (\<lambda>g. (seg_conversation g, seg_command g, seg_sequence g)) (parse_segment raw))
        (map (\<lambda>(sn, rec). tunnel_raw sn rec) (zip sns recs)) =
      map (\<lambda>sn. Some (SIGNALING_CONVERSATION, CMD_PUSH, sn mod 2 ^ 32)) sns"
    if "length sns = length recs" for sns
    using that r(5)
    by (induction sns recs rule: list_induct2) (simp_all add: tunnel_raw_segment, simp_all add: tunnel_segment_def)
  have u: "andThen (traverse (tunnel_read A key) raws) (\<lambda>records. unpad_pkcs7 (concat records)) = Inr ?body"
    by (simp only: r(2) andThen.simps chunk_offsets_cover padded_def unpad_pad)
  show ?thesis
  proof (intro exI [of _ raws] conjI)
    show "send_tunnel_frame A key ivs frame_json s =
      (s\<lparr>rs_signaling_sequence := rs_signaling_sequence s + length ivs\<rparr>,
       map (\<lambda>raw. Sent (segment_frame (rc_media_key (rs_connection s)) raw)) raws)"
      by (simp only: send_tunnel_frame_def t sum.case r(1) n)
    show "map (\<lambda>raw. map_option (\<lambda>g. (seg_conversation g, seg_command g, seg_sequence g)) (parse_segment raw)) raws =
      map (\<lambda>sn. Some (SIGNALING_CONVERSATION, CMD_PUSH, sn mod 2 ^ 32))
        [rs_signaling_sequence s..<rs_signaling_sequence s + length ivs]"
      unfolding n by (subst r(3), rule p) (simp add: r(4))
    show "andThen (traverse (tunnel_read A key) raws) (\<lambda>records. unpad_pkcs7 (concat records)) = Inr ?body" by (rule u)
  qed
qed

lemma tunnel_carries_frame_witness:
  "\<exists>raws. send_tunnel_frame flip_cipher (replicate 16 1) [replicate 16 2] [3, 4, 5] (connected_session [9]) =
      ((connected_session [9])\<lparr>rs_signaling_sequence := 1\<rparr>, map (\<lambda>raw. Sent (segment_frame [9] raw)) raws) \<and>
    andThen (traverse (tunnel_read flip_cipher (replicate 16 1)) raws) (\<lambda>records. unpad_pkcs7 (concat records)) =
      Inr [0, 1, 0, 3, 3, 4, 5, 0]"
proof -
  have b: "be_bytes 2 (length [3, 4, 5 :: byte]) = [0, 3]" by code_simp
  have e: "\<forall>iv \<in> set [replicate 16 (2 :: byte)]. length iv = 16" "length (replicate 16 (1 :: byte)) = 16"
    "length [replicate 16 (2 :: byte)] =
      (16 * ((length [3, 4, 5 :: byte] + length [3, 4, 5 :: byte] mod 2 + 4) div 16 + 1) + 1311) div 1312"
    by simp_all
  have "\<exists>raws. send_tunnel_frame flip_cipher (replicate 16 1) [replicate 16 2] [3, 4, 5] (connected_session [9]) =
      ((connected_session [9])\<lparr>rs_signaling_sequence := rs_signaling_sequence (connected_session [9]) + length [replicate 16 (2 :: byte)]\<rparr>,
       map (\<lambda>raw. Sent (segment_frame (rc_media_key (rs_connection (connected_session [9]))) raw)) raws) \<and>
    andThen (traverse (tunnel_read flip_cipher (replicate 16 1)) raws) (\<lambda>records. unpad_pkcs7 (concat records)) =
      Inr ([0x00, 0x01] @ be_bytes 2 (length [3, 4, 5 :: byte]) @ [3, 4, 5] @
        (if odd (length [3, 4, 5 :: byte]) then [0x00] else []))"
    using tunnel_carries_frame [OF flip_cipher_cbc e(2) _ connected_session_fields(1) [of "[9]"] e(1,3)] by fastforce
  then show ?thesis unfolding b by simp
qed

text \<open>
  C17: Whatever the relay, the peers and the application do to a connected session, its table of
  conversations stays consistent: each is registered once and under its own id, each is
  well-formed, the control conversation is there, and the video future only ever resolves to
  conversation 1, which is in the table.
\<close>

theorem session_table_consistent:
  "let s = fst (run session_step (connected_session key) es) in
    distinct (map fst (rs_conversations s)) \<and>
    list_all (\<lambda>(cid, k). kcp_conversation k = cid \<and> kcp_inv k) (rs_conversations s) \<and>
    map_of (rs_conversations s) CONTROL_CONVERSATION \<noteq> None \<and>
    (case rs_video s of VideoReady cid \<Rightarrow> cid = VIDEO_CONVERSATION \<and> map_of (rs_conversations s) cid \<noteq> None | _ \<Rightarrow> True)"
proof -
  let ?s = "fst (run session_step (connected_session key) es)"
  have s: "session_inv ?s" by (rule session.run_inv) simp
  then have "list_all (\<lambda>(cid, k). kcp_conversation k = cid \<and> kcp_inv k) (rs_conversations ?s)"
    unfolding list_all_iff session_inv_def by (auto simp del: map_of_eq_Some_iff dest: map_of_is_SomeI)
  with s show ?thesis
    unfolding session_inv_def Let_def by (auto split: video_future.split simp del: map_of_eq_Some_iff)
qed

text \<open>
  C33: A relay that fails under an open session closes every conversation and is reported once;
  after it no operation delivers a message, reports a close again, or reopens anything. Whoever
  still waits for the video gets a CancelledError, not one of the SDK's errors.
\<close>

theorem lost_connection_silences_session:
  assumes "\<not> rs_closed s" "rc_reading (rs_connection s)" "rc_close_handler (rs_connection s)"
  shows "snd (session_step s (OnConnection (ReadFailed e) ms)) =
      (if rs_close_handler s then [SessionClosed (Some e)] else []) \<and>
    (rs_video s = VideoPending \<longrightarrow>
       wait_for_video (fst (session_step s (OnConnection (ReadFailed e) ms))) = Inl CancelledError) \<and>
    all_closed (fst (run session_step s (OnConnection (ReadFailed e) ms # es))) \<and>
    list_all quiet (snd (run session_step (fst (session_step s (OnConnection (ReadFailed e) ms))) es))"
proof -
  let ?t = "fst (session_step s (OnConnection (ReadFailed e) ms))"
  have closed: "list_all (\<lambda>(cid, k). kcp_closed k) (map (\<lambda>(cid, k). (cid, close k)) al)" for al :: "(nat \<times> kcp) list"
    by (induction al) (auto simp: close_def disarm_retransmit_def)
  have "gone ?t"
    using assms closed
    by (simp add: on_connection_def read_failed_def notify_closed_def Let_def on_connection_closed_def
        gone_def all_closed_def cancel_video_def)
  from session.closed_run [OF this, of es] have "all_closed (fst (run session_step ?t es))"
    "list_all quiet (snd (run session_step ?t es))"
    by (simp_all add: gone_def)
  with assms show ?thesis
    by (simp add: on_connection_def read_failed_def notify_closed_def Let_def on_connection_closed_def
        cancel_video_def wait_for_video_def)
qed

lemma lost_connection_silences_session_witness:
  "snd (session_step (connected_session [9]) (OnConnection (ReadFailed TimeoutError) 5)) = [] \<and>
   all_closed (fst (run session_step (connected_session [9]) [OnConnection (ReadFailed TimeoutError) 5, SendTo 0 [1] (\<lambda>_. 6)]))"
proof -
  have "\<not> rs_closed (connected_session [9])" "rc_reading (rs_connection (connected_session [9]))"
    "rc_close_handler (rs_connection (connected_session [9]))" "\<not> rs_close_handler (connected_session [9])"
    by (simp_all add: connected_session_def new_session_def)
  then show ?thesis
    using lost_connection_silences_session [of "connected_session [9]" TimeoutError 5 "[SendTo 0 [1] (\<lambda>_. 6)]"]
    by (simp del: session_step.simps run.simps)
qed

text \<open>
  Closing a session while only segments of known conversations arrive ends normally: every
  conversation is closed, the waiter for the video is released, the close handler is dropped and
  the connection is shut, both its loops and its socket.
\<close>

theorem clean_close:
  assumes "session_inv s" "connection_inv (rs_connection s)" "\<forall>cid. \<forall>(raw, ms) \<in> set (inbound cid). known_segment s raw"
  shows "\<exists>t es. close_session inbound s = (t, es, None) \<and> rs_closed t \<and> all_closed t \<and>
    rs_video t \<noteq> VideoPending \<and> \<not> rs_close_handler t \<and> dead (rs_connection t)"
proof -
  let ?s = "s\<lparr>rs_closed := True\<rparr>"
  have "known_segment ?s raw = known_segment s raw" for raw
    by (simp add: known_segment_def split: option.split)
  then have "\<forall>cid. \<forall>(raw, ms) \<in> set (inbound cid). known_segment ?s raw"
    using assms(3) by simp
  from close_loop_known [OF refl this, of "{}" "map fst (rs_conversations s)"] obtain t es where
    t: "close_loop inbound (length (rs_conversations ?s)) (map fst (rs_conversations s)) ?s = (t, es, None)"
      "same_frame ?s t" "closed_among (set (map fst (rs_conversations s))) t"
    by (auto simp: closed_among_def)
  have keys: "map fst (rs_conversations t) = map fst (rs_conversations s)" and c: "rs_connection t = rs_connection s" "rs_closed t"
    using t(2) by (simp_all add: same_frame_def)
  have d: "distinct (map fst (rs_conversations t))"
    unfolding keys using assms(1) by (simp only: session_inv_def)
  have "kcp_closed k" if "(cid, k) \<in> set (rs_conversations t)" for cid k
  proof -
    have "cid \<in> set (map fst (rs_conversations s))"
      unfolding keys [symmetric] using that by force
    with t(3) map_of_is_SomeI [OF d that] show ?thesis
      unfolding closed_among_def by blast
  qed
  then have "all_closed t"
    unfolding all_closed_def list_all_iff by blast
  then show ?thesis
    using close_makes_dead [OF assms(2)] c t(1)
    by (simp add: close_session_def Let_def cancel_video_def all_closed_def)
qed

definition busy_session :: relay_session where
  "busy_session = fst (session_step (connected_session [9]) (SendTo CONTROL_CONVERSATION [1] (\<lambda>_. 6)))"

lemma clean_close_witness:
  "\<exists>t es. close_session (\<lambda>cid. [(sample_raw CONTROL_CONVERSATION 0, 8)]) busy_session = (t, es, None) \<and>
    rs_closed t \<and> all_closed t \<and> rs_video t \<noteq> VideoPending \<and> \<not> rs_close_handler t \<and> dead (rs_connection t)"
proof (rule clean_close)
  show "session_inv busy_session" unfolding busy_session_def by (rule session_step_inv) simp
  show "connection_inv (rs_connection busy_session)"
    by (simp add: busy_session_def on_conversation_eq connected_session_def connection_inv_def new_session_def)
  have "parse_segment (sample_raw CONTROL_CONVERSATION 0) = Some (sample_push CONTROL_CONVERSATION 0)"
    by (rule sample_raw_segment) (simp_all add: CONTROL_CONVERSATION_def)
  then show "\<forall>cid. \<forall>(raw, ms) \<in> set [(sample_raw CONTROL_CONVERSATION 0, 8)]. known_segment busy_session raw"
    by (simp add: known_segment_def sample_push_def busy_session_def on_conversation_eq)
qed

lemma close_race:
  assumes "rs_conversations s = (cid, k) # others" "kcp_retransmit_task k" "inbound cid = [(raw, ms)]"
    and "parse_segment raw = Some g" "seg_conversation g \<notin> set (map fst (rs_conversations s))"
  shows "\<exists>t es. close_session inbound s = (t, es, Some (RuntimeError ''dictionary changed size during iteration'')) \<and>
    rs_closed t \<and> rs_connection t = rs_connection s \<and> rs_close_handler t = rs_close_handler s"
proof -
  let ?s = "s\<lparr>rs_closed := True\<rparr>"
  let ?s1 = "put_conversation cid (close k) ?s"
  let ?t = "fst (route raw ms ?s1)"
  have m: "map_of (rs_conversations ?s) cid = Some k" using assms(1) by simp
  have keys: "map fst (rs_conversations ?s1) = map fst (rs_conversations s)"
    using keys_update [of cid "rs_conversations s" "close k"] assms(1) by (simp add: put_conversation_def)
  have "length (AList.update c x al) = length al + 1" if "c \<notin> set (map fst al)" for c x and al :: "(nat \<times> kcp) list"
    using that by (induction al) auto
  from this [of "seg_conversation g" "rs_conversations ?s1"] have
    l: "length (rs_conversations ?t) = length (rs_conversations s) + 1"
    using assms(5) keys unfolding route_parsed(1) [OF assms(4)] by (metis length_map)
  have stop: "close_loop inbound (length (rs_conversations s)) rest ?t =
      (?t, [], Some (RuntimeError ''dictionary changed size during iteration''))" for rest
    using l by (subst close_loop.simps) simp
  have "close_loop inbound (length (rs_conversations s)) (map fst (rs_conversations s)) ?s =
      (?t, snd (route raw ms ?s1), Some (RuntimeError ''dictionary changed size during iteration''))"
    using m assms(2,3) stop
    by (subst close_loop.simps) (simp add: assms(1) Let_def)
  moreover have "rs_closed ?t" "rs_connection ?t = rs_connection s"
    by (simp_all add: route_parsed [OF assms(4)] put_conversation_def)
  moreover have "rs_close_handler ?t = rs_close_handler s"
    using assms(4) by (simp add: route_eq on_conversation_eq mark_video_def put_conversation_def)
  ultimately show ?thesis
    by (simp add: close_session_def Let_def)
qed

lemma busy_session_conversations:
  "\<exists>k. rs_conversations busy_session = [(CONTROL_CONVERSATION, k)] \<and> kcp_retransmit_task k"
proof -
  let ?k = "fst (kcp_step (new_conversation CONTROL_CONVERSATION) (Send [1] (\<lambda>_. 6)))"
  have c: "rs_conversations busy_session = [(CONTROL_CONVERSATION, ?k)]"
    unfolding busy_session_def
    by (subst session_step.simps) (simp add: on_conversation_eq(1) the_conversation_def del: kcp_step.simps)
  have t: "kcp_retransmit_task ?k"
  proof -
    obtain raw where "build_segment CONTROL_CONVERSATION CMD_PUSH 0 RECEIVE_WINDOW (now_milliseconds 6) 0 0 (chunk [1] 0) = Inr raw"
      using push_total [of 0 "chunk [1] 0" CONTROL_CONVERSATION RECEIVE_WINDOW "now_milliseconds 6" 0 0]
      by (auto simp: chunk_def MAX_SEGMENT_SIZE_def slice_def)
    then show ?thesis
      by (simp add: send_def chunk_count_def MAX_SEGMENT_SIZE_def new_conversation_def Let_def arm_retransmit_def)
  qed
  show ?thesis using c t by blast
qed

text \<open>
  Closing races with the reader: when the device opens a new conversation while the first one
  is being awaited, \<^verbatim>\<open>async_close\<close> ends with a RuntimeError of the dictionary it iterates, the
  connection stays open and the waiter for the video is not released.
\<close>

theorem close_race_leaves_connection_open:
  assumes "rs_conversations s = (cid, k) # others" "kcp_retransmit_task k" "inbound cid = [(raw, ms)]"
    and "parse_segment raw = Some g" "seg_conversation g \<notin> set (map fst (rs_conversations s))"
  shows "\<exists>t es. close_session inbound s = (t, es, Some (RuntimeError ''dictionary changed size during iteration'')) \<and>
    rs_closed t \<and> rs_connection t = rs_connection s \<and> rs_close_handler t = rs_close_handler s"
  by (rule close_race) (fact assms)+

lemma close_race_leaves_connection_open_witness:
  "\<exists>t es. close_session (\<lambda>cid. if cid = CONTROL_CONVERSATION then [(sample_raw VIDEO_CONVERSATION 0, 8)] else []) busy_session =
     (t, es, Some (RuntimeError ''dictionary changed size during iteration'')) \<and>
    rs_closed t \<and> rs_connection t = rs_connection busy_session \<and> rs_close_handler t = rs_close_handler busy_session"
proof -
  obtain k where c: "rs_conversations busy_session = [(CONTROL_CONVERSATION, k)]" and t: "kcp_retransmit_task k"
    using busy_session_conversations by blast
  have p: "parse_segment (sample_raw VIDEO_CONVERSATION 0) = Some (sample_push VIDEO_CONVERSATION 0)"
    by (rule sample_raw_segment) (simp_all add: VIDEO_CONVERSATION_def)
  show ?thesis
    by (rule close_race_leaves_connection_open [OF c t _ p])
      (simp_all add: c sample_push_def VIDEO_CONVERSATION_def CONTROL_CONVERSATION_def)
qed

end
