(* ===== verification/Envelope.thy ===== *)
theory Envelope
  imports Handshake_Signer
begin

text \<open>
  Models \<^verbatim>\<open>src/tuya_ipc_p2p_sdk/signaling/envelope.py\<close>: the binary envelope
  \<^verbatim>\<open>2.2 | crc32 | seq | src | body\<close> of every signaling payload, and the encrypted JSON it
  carries. The lemmas give what an accepted frame looks like, the round trip of frames, and
  that a payload decodes to the data it was built from.
\<close>

section \<open>Model\<close>

definition VERSION :: bytes where "VERSION = [0x32, 0x2E, 0x32]"
definition HEADER_LENGTH :: nat where "HEADER_LENGTH = 15"
definition SOURCE_LENGTH :: nat where "SOURCE_LENGTH = 4"
definition SIG_QUERY_PROTOCOL :: nat where "SIG_QUERY_PROTOCOL = 22"
definition SESSION_PROTOCOL :: nat where "SESSION_PROTOCOL = 302"

record decoded_frame =
  df_sequence :: nat
  df_source :: bytes
  df_body :: bytes

definition encode_frame :: "nat \<Rightarrow> bytes \<Rightarrow> bytes \<Rightarrow> exn + bytes" where
  "encode_frame sequence source body =
     andThen (to_be 4 sequence) (\<lambda>seq.
       let tail = seq @ take SOURCE_LENGTH source @ body
       in Inr (VERSION @ be_bytes 4 (unat (crc32 tail)) @ tail))"

definition decode_frame :: "bytes \<Rightarrow> exn + decoded_frame" where
  "decode_frame payload =
     (if length payload < HEADER_LENGTH \<or> slice payload 0 3 \<noteq> VERSION
      then Inl (ProtocolError ''Failed to decode envelope: not a 2.2 frame'')
      else let want = from_be (slice payload 3 7); got = unat (crc32 (drop 7 payload))
        in if got \<noteq> want then Inl (ProtocolError ''Failed to decode envelope: crc32'')
           else Inr \<lparr>df_sequence = from_be (slice payload 7 11), df_source = slice payload 11 HEADER_LENGTH,
                     df_body = drop HEADER_LENGTH payload\<rparr>)"

definition payload_message :: "json \<Rightarrow> int \<Rightarrow> nat \<Rightarrow> json_object" where
  "payload_message data epoch_seconds protocol =
     [(''data'', data), (''protocol'', JInt (int protocol)), (''t'', JInt epoch_seconds)]"

definition encode_payload :: "cipher \<Rightarrow> bytes \<Rightarrow> nat \<Rightarrow> bytes \<Rightarrow> json \<Rightarrow> int \<Rightarrow> nat \<Rightarrow> exn + bytes" where
  "encode_payload A key sequence source data epoch_seconds protocol =
     andThen (aes_ecb_encrypt A key (dump_json (JObj (payload_message data epoch_seconds protocol))))
       (\<lambda>body. encode_frame sequence source body)"

definition decode_payload :: "cipher \<Rightarrow> bytes \<Rightarrow> bytes \<Rightarrow> exn + json_object" where
  "decode_payload A key payload =
     andThen (decode_frame payload) (\<lambda>frame.
     andThen (aes_ecb_decrypt A key (df_body frame)) (\<lambda>plain.
     andThen (parse_json_object plain) (\<lambda>decoded.
       from_option (ProtocolError ''Failed to decode payload: no data object'')
         (optional_object decoded ''data''))))"

section \<open>Frames\<close>

lemma from_be_4: "x < 4294967296 \<Longrightarrow> from_be (be_bytes 4 x) = x"
  by (simp add: from_be_be_bytes)

lemma unat_word_32: "unat (w :: 32 word) < 4294967296"
proof -
  have "unat w < 2 ^ LENGTH(32)" by (rule unsigned_less)
  then show ?thesis by simp
qed

text \<open>A frame as the wire has it: sequence, source and body behind the version and the CRC of
  all three.\<close>

definition frame_bytes :: "nat \<Rightarrow> bytes \<Rightarrow> bytes \<Rightarrow> bytes" where
  "frame_bytes sequence source body =
     (let tail = be_bytes 4 sequence @ source @ body in VERSION @ be_bytes 4 (unat (crc32 tail)) @ tail)"

lemma encode_frame_eq:
  "encode_frame sequence source body =
     (if sequence < 2 ^ 32 then Inr (frame_bytes sequence (take 4 source) body) else Inl OverflowError)"
  by (simp add: encode_frame_def to_be_def frame_bytes_def SOURCE_LENGTH_def Let_def)

lemma decode_frame_bytes:
  assumes "sequence < 2 ^ 32" "length source = 4"
  shows "decode_frame (frame_bytes sequence source body) =
     Inr \<lparr>df_sequence = sequence, df_source = source, df_body = body\<rparr>"
proof -
  define tail where "tail = be_bytes 4 sequence @ source @ body"
  define crc where "crc = unat (crc32 tail)"
  define p where "p = frame_bytes sequence source body"
  have p: "p = VERSION @ be_bytes 4 crc @ tail"
    by (simp add: p_def frame_bytes_def tail_def crc_def Let_def)
  have v: "length VERSION = 3" by (simp add: VERSION_def)
  have s1: "slice p 0 3 = VERSION" and s2: "slice p 3 7 = be_bytes 4 crc" and d: "drop 7 p = tail"
    and s3: "slice p 7 11 = be_bytes 4 sequence" and s4: "slice p 11 15 = source" and d2: "drop 15 p = body"
    using slice_mid [of "[]" 0 3 VERSION "be_bytes 4 crc @ tail"] slice_mid [of VERSION 3 7 "be_bytes 4 crc" tail]
      slice_mid [of "VERSION @ be_bytes 4 crc" 7 11 "be_bytes 4 sequence" "source @ body"]
      slice_mid [of "VERSION @ be_bytes 4 crc @ be_bytes 4 sequence" 11 15 source body] v assms(2)
    by (simp_all add: p tail_def)
  have "15 \<le> length p" using v assms(2) by (simp add: p tail_def)
  moreover have "from_be (be_bytes 4 crc) = crc" "from_be (be_bytes 4 sequence) = sequence"
    using assms(1) unat_word_32 by (simp_all add: from_be_4 crc_def)
  ultimately show ?thesis
    unfolding p_def [symmetric] by (simp add: decode_frame_def HEADER_LENGTH_def s1 s2 s3 s4 d d2 Let_def crc_def)
qed

lemma decode_frame_sound:
  assumes "decode_frame p = Inr f"
  shows "p = frame_bytes (df_sequence f) (df_source f) (df_body f) \<and> df_sequence f < 2 ^ 32 \<and> length (df_source f) = 4"
proof -
  have len: "15 \<le> length p" and v: "slice p 0 3 = VERSION" and crc: "unat (crc32 (drop 7 p)) = from_be (slice p 3 7)"
    and f: "f = \<lparr>df_sequence = from_be (slice p 7 11), df_source = slice p 11 15, df_body = drop 15 p\<rparr>"
    using assms by (auto simp: decode_frame_def Let_def HEADER_LENGTH_def split: if_splits)
  have l: "length (slice p 3 7) = 4" "length (slice p 7 11) = 4" "length (slice p 11 15) = 4"
    using len by (simp_all add: lengths)
  have b: "be_bytes 4 (from_be (slice p 3 7)) = slice p 3 7" "be_bytes 4 (from_be (slice p 7 11)) = slice p 7 11"
    using be_bytes_from_be [of "slice p 3 7"] be_bytes_from_be [of "slice p 7 11"] l by simp_all
  have tail: "drop 7 p = slice p 7 11 @ slice p 11 15 @ drop 15 p"
  proof -
    have "slice p 7 (length p) = slice p 7 11 @ slice p 11 15 @ slice p 15 (length p)"
      using len slice_join [of 7 11 "length p" p] slice_join [of 11 15 "length p" p] by simp
    then show ?thesis by (simp add: slice_to_end)
  qed
  have "p = slice p 0 3 @ slice p 3 7 @ drop 7 p"
    using len slice_join [of 0 3 "length p" p] slice_join [of 3 7 "length p" p]
    by (simp add: slice_to_end slice_zero)
  then have "p = VERSION @ be_bytes 4 (unat (crc32 (drop 7 p))) @ drop 7 p"
    using v crc b(1) by simp
  then have "p = frame_bytes (df_sequence f) (df_source f) (df_body f)"
    by (simp add: frame_bytes_def f b(2) Let_def flip: tail)
  moreover have "df_sequence f < 2 ^ 32"
    using from_be_bound [of "slice p 7 11"] l by (simp add: f)
  ultimately show ?thesis using l by (simp add: f)
qed

interpretation envelope: codec "\<lambda>f. encode_frame (df_sequence f) (df_source f) (df_body f)" decode_frame
  "\<lambda>f. df_sequence f < 2 ^ 32 \<and> length (df_source f) = 4"
  by unfold_locales (auto simp: encode_frame_eq decode_frame_bytes)

lemma decode_frame_errors: "decode_frame p = Inl e \<Longrightarrow> is_tuya_error e"
  by (auto simp: decode_frame_def Let_def split: if_splits)

section \<open>Payloads\<close>

lemma payload_decodes:
  assumes "ecb_laws A" "aes_key_size key" "sequence < 2 ^ 32" "4 \<le> length source"
    and "wf_json (JObj data)" "int_in_range t" "int_in_range (int protocol)"
  shows "\<exists>payload body. encode_payload A key sequence source (JObj data) t protocol = Inr payload \<and>
    decode_payload A key payload = Inr data \<and>
    decode_frame payload = Inr \<lparr>df_sequence = sequence, df_source = take 4 source, df_body = body\<rparr>"
proof -
  let ?m = "payload_message (JObj data) t protocol"
  obtain c where c: "aes_ecb_encrypt A key (dump_json (JObj ?m)) = Inr c"
    "aes_ecb_decrypt A key c = Inr (dump_json (JObj ?m))"
    using aes_ecb_roundtrip [OF assms(1,2)] by blast
  have "wf_json (JObj ?m)" using assms(5-7) by (simp add: payload_message_def)
  then have "parse_json_object (dump_json (JObj ?m)) = Inr ?m" by (rule parse_dump_object)
  then show ?thesis
    using c assms(3,4) decode_frame_bytes [of sequence "take 4 source" c]
    by (simp add: encode_payload_def encode_frame_eq decode_payload_def payload_message_def optional_object_def)
qed

text \<open>All that a holder of the local key finds in a payload: the sequence number of its frame and the
  whole message around the data.\<close>

definition opened :: "cipher \<Rightarrow> bytes \<Rightarrow> bytes \<Rightarrow> exn + nat \<times> json_object" where
  "opened A key payload =
     andThen (decode_frame payload) (\<lambda>frame.
     andThen (aes_ecb_decrypt A key (df_body frame)) (\<lambda>plain.
     andThen (parse_json_object plain) (\<lambda>message. Inr (df_sequence frame, message))))"

lemma payload_opens:
  assumes "ecb_laws A" "aes_key_size key" "sequence < 2 ^ 32" "4 \<le> length source"
    and "wf_json (JObj data)" "int_in_range t" "int_in_range (int protocol)"
    and "encode_payload A key sequence source (JObj data) t protocol = Inr payload"
  shows "opened A key payload = Inr (sequence, payload_message (JObj data) t protocol)"
proof -
  let ?m = "payload_message (JObj data) t protocol"
  obtain c where c: "aes_ecb_encrypt A key (dump_json (JObj ?m)) = Inr c"
    "aes_ecb_decrypt A key c = Inr (dump_json (JObj ?m))"
    using aes_ecb_roundtrip [OF assms(1,2)] by blast
  have "wf_json (JObj ?m)" using assms(5-7) by (simp add: payload_message_def)
  then have "parse_json_object (dump_json (JObj ?m)) = Inr ?m" by (rule parse_dump_object)
  moreover have "payload = frame_bytes sequence (take 4 source) c"
    using assms(3,8) c(1) by (simp add: encode_payload_def encode_frame_eq)
  ultimately show ?thesis
    using c(2) assms(3,4) decode_frame_bytes [of sequence "take 4 source" c] by (simp add: opened_def)
qed

section \<open>Properties\<close>

text \<open>
  C29: A signaling frame is accepted exactly when it is the version, the CRC-32 of everything
  behind the CRC, and that sequence, source and body; what is accepted is what encoding those
  fields gives, and everything else is refused with a protocol error.
\<close>

theorem envelope_accepts_exactly:
  "case decode_frame payload of
     Inr f \<Rightarrow> encode_frame (df_sequence f) (df_source f) (df_body f) = Inr payload
   | Inl e \<Rightarrow> is_tuya_error e \<and> (\<nexists>sequence source body. sequence < 2 ^ 32 \<and> length source = 4 \<and>
        encode_frame sequence source body = Inr payload)"
proof (cases "decode_frame payload")
  case (Inl e)
  have "decode_frame payload \<noteq> Inl e" if "sequence < 2 ^ 32" "length source = 4"
    "encode_frame sequence source body = Inr payload" for sequence source body
    using that decode_frame_bytes [of sequence source body] by (auto simp: encode_frame_eq)
  then show ?thesis using Inl decode_frame_errors [OF Inl] by auto
next
  case (Inr f)
  then show ?thesis using decode_frame_sound [OF Inr] by (auto simp: encode_frame_eq)
qed

text \<open>
  A signaling payload decodes to the data object it was built from under the same local
  key, for every sequence number in range, every source of at least four bytes and every
  object of serializable members.
\<close>

theorem payload_roundtrip:
  assumes "ecb_laws A" "aes_key_size key" "sequence < 2 ^ 32" "4 \<le> length source"
    and "wf_json (JObj data)" "int_in_range t" "int_in_range (int protocol)"
  shows "\<exists>payload. encode_payload A key sequence source (JObj data) t protocol = Inr payload \<and>
    decode_payload A key payload = Inr data"
  using payload_decodes [OF assms] by blast

lemma payload_roundtrip_witness:
  "\<exists>payload. encode_payload flip_cipher (replicate 16 1) 5 [1, 2, 3, 4] (JObj [(''a'', JNull)]) 0 200 = Inr payload \<and>
    decode_payload flip_cipher (replicate 16 1) payload = Inr [(''a'', JNull)]"
  by (rule payload_roundtrip) (simp_all add: flip_cipher_ecb int_in_range_small)

end
