(* ===== verification/Moto_Client.thy ===== *)
theory Moto_Client
  imports Envelope
begin

text \<open>
  Models \<^verbatim>\<open>src/tuya_ipc_p2p_sdk/signaling/moto_client.py\<close>, the signaling channel of one
  session over the MQTT broker, and \<^verbatim>\<open>signaling/relay_frames.py\<close>, the copies of the offer
  and the candidates that ride the relay. The broker library is outside the repository: what
  connecting, subscribing and publishing come to is an argument of type \<open>mqtt_outcome\<close>. The
  reader task is the flag \<open>mo_reading\<close>, with one call of \<open>read_message\<close> per message; the
  exceptions its callbacks raise are an argument, since the session provides them.

  The lemmas show that whatever arrives leaves the reader running, that every field of what a
  channel publishes is read back by whoever holds the local key (\<open>device_reads\<close>, a reader of the
  device's side), that a peer of the same session dispatches it and every other ignores it, and
  that nothing is published or dispatched once the channel is closed.
\<close>

section \<open>Relay copies of the signaling\<close>

definition relay_header :: "string \<Rightarrow> string \<Rightarrow> string \<Rightarrow> string \<Rightarrow> string \<Rightarrow> json_object" where
  "relay_header message_type uid device_id session_id trace_id =
     [(''type'', JStr message_type), (''from'', JStr uid), (''to'', JStr device_id),
      (''sessionid'', JStr session_id), (''moto_id'', JStr []), (''trace_id'', JStr trace_id),
      (''path'', JStr ''relay'')]"

definition offer_skills :: json_object where
  "offer_skills = [(''is_pre'', JInt 0), (''p2p_skill'', JInt 1635), (''security_level'', JInt 3)]"

definition relay_offer_frame ::
    "string \<Rightarrow> string \<Rightarrow> string \<Rightarrow> string \<Rightarrow> string \<Rightarrow> json \<Rightarrow> json \<Rightarrow> json \<Rightarrow> bytes" where
  "relay_offer_frame uid device_id session_id trace_id sdp ice_servers tcp_token log_config =
     dump_json (JObj
       [(''header'', JObj (dict_update (relay_header ''offer'' uid device_id session_id trace_id) offer_skills)),
        (''msg'', JObj [(''sdp'', JStr sdp), (''preconnect'', JBool True), (''token'', ice_servers),
                        (''tcp_token'', tcp_token), (''log'', log_config)])])"

definition relay_candidate_frame :: "string \<Rightarrow> string \<Rightarrow> string \<Rightarrow> string \<Rightarrow> string \<Rightarrow> bytes" where
  "relay_candidate_frame uid device_id session_id trace_id candidate =
     dump_json (JObj
       [(''header'', JObj (relay_header ''candidate'' uid device_id session_id trace_id)),
        (''msg'', JObj [(''candidate'', JStr candidate)])])"

section \<open>The channel\<close>

record moto =
  mo_uid :: string
  mo_device_id :: string
  mo_session_id :: string
  mo_key :: bytes
  mo_publish_topic :: string
  mo_subscribe_topic :: string
  mo_source :: bytes
  mo_sequence :: nat
  mo_connected :: bool
  mo_reading :: bool

datatype moto_effect =
    Subscribed string
  | Published string bytes
  | Answer string
  | RemoteCandidate string
  | Disconnected int
  | BrokerClosed

datatype mqtt_outcome = Accepted | MqttError string | OSError string | TimedOut | Failed exn

definition new_moto :: "string \<Rightarrow> string \<Rightarrow> string \<Rightarrow> string \<Rightarrow> bytes \<Rightarrow> moto" where
  "new_moto uid device_id session_id local_key source =
     \<lparr>mo_uid = uid, mo_device_id = device_id, mo_session_id = session_id, mo_key = str_encode local_key,
      mo_publish_topic = ''smart/mb/out/'' @ device_id, mo_subscribe_topic = ''smart/mb/in/'' @ device_id,
      mo_source = source, mo_sequence = 0, mo_connected = False, mo_reading = False\<rparr>"

text \<open>The exception an outcome raises where nothing translates it.\<close>

fun outcome_error :: "mqtt_outcome \<Rightarrow> exn option" where
  "outcome_error Accepted = None"
| "outcome_error (MqttError m) = Some (OtherError (''MqttError: '' @ m))"
| "outcome_error (OSError m) = Some (SocketError m)"
| "outcome_error TimedOut = Some TimeoutError"
| "outcome_error (Failed e) = Some e"

fun connect_error :: "mqtt_outcome \<Rightarrow> exn option" where
  "connect_error (MqttError m) = Some (ConnectionError (''Failed to connect the signaling broker: '' @ m))"
| "connect_error (OSError m) = Some (ConnectionError (''Failed to connect the signaling broker: '' @ m))"
| "connect_error TimedOut = Some (ConnectionError ''Failed to connect the signaling broker: '')"
| "connect_error outcome = outcome_error outcome"

fun publish_error :: "mqtt_outcome \<Rightarrow> exn option" where
  "publish_error (MqttError m) = Some (ConnectionError (''Failed to publish: '' @ m))"
| "publish_error outcome = outcome_error outcome"

text \<open>\<open>entering\<close> and \<open>subscribing\<close> are the outcomes of connecting and of the subscription,
  which stands outside the translation of the errors.\<close>

definition moto_connect :: "mqtt_outcome \<Rightarrow> mqtt_outcome \<Rightarrow> moto \<Rightarrow> moto \<times> moto_effect list \<times> exn option" where
  "moto_connect entering subscribing m =
     (case connect_error entering of
        Some e \<Rightarrow> (m, [], Some e)
      | None \<Rightarrow>
          (let m1 = m\<lparr>mo_connected := True\<rparr> in
           case outcome_error subscribing of
             Some e \<Rightarrow> (m1, [], Some e)
           | None \<Rightarrow> (m1\<lparr>mo_reading := True\<rparr>, [Subscribed (mo_subscribe_topic m)], None)))"

definition dispatch :: "string option \<Rightarrow> json_object \<Rightarrow> moto_effect list" where
  "dispatch message_type message =
     (if message_type = Some ''answer''
      then (case optional_str message ''sdp'' of None \<Rightarrow> [] | Some sdp \<Rightarrow> [Answer sdp])
      else if message_type = Some ''candidate''
      then (case optional_str message ''candidate'' of None \<Rightarrow> [] | Some c \<Rightarrow> [RemoteCandidate c])
      else if message_type = Some ''disconnect''
      then [Disconnected (case optional_int message ''close_reason'' of None \<Rightarrow> 0 | Some r \<Rightarrow> r)]
      else [])"

definition consume :: "cipher \<Rightarrow> moto \<Rightarrow> bytes \<Rightarrow> exn + moto_effect list" where
  "consume A m payload =
     (case decode_payload A (mo_key m) payload of
        Inl e \<Rightarrow> (if is_tuya_error e then Inr [] else Inl e)
      | Inr data \<Rightarrow>
          (case (optional_object data ''header'', optional_object data ''msg'') of
             (Some header, Some message) \<Rightarrow>
               (case optional_str header ''sessionid'' of
                  Some sid \<Rightarrow> if sid \<noteq> mo_session_id m then Inr []
                             else Inr (dispatch (optional_str header ''type'') message)
                | None \<Rightarrow> Inr (dispatch (optional_str header ''type'') message))
           | _ \<Rightarrow> Inr []))"

text \<open>One turn of the reader: \<open>None\<close> is a payload that is not bytes, and \<open>callback\<close> gives the
  exception the session's callback raises, if any, which ends the reader.\<close>

definition read_message :: "cipher \<Rightarrow> (moto_effect \<Rightarrow> exn option) \<Rightarrow> bytes option \<Rightarrow> moto \<Rightarrow> moto \<times> moto_effect list" where
  "read_message A callback payload m =
     (if \<not> mo_reading m then (m, [])
      else case payload of
        None \<Rightarrow> (m, [])
      | Some p \<Rightarrow>
          (case consume A m p of
             Inl e \<Rightarrow> (m\<lparr>mo_reading := False\<rparr>, [])
           | Inr es \<Rightarrow> (m\<lparr>mo_reading := list_all (\<lambda>e. callback e = None) es\<rparr>, es)))"

text \<open>The connection to the broker ends: the reader logs what ended it and stops. The client is kept,
  so publishing is still tried.\<close>

definition reader_ended :: "moto \<Rightarrow> moto" where
  "reader_ended m = m\<lparr>mo_reading := False\<rparr>"

section \<open>Publishing\<close>

definition moto_header :: "string \<Rightarrow> string \<Rightarrow> moto \<Rightarrow> json_object" where
  "moto_header message_type trace_id m =
     (let header = [(''type'', JStr message_type), (''from'', JStr (mo_uid m)), (''to'', JStr (mo_device_id m)),
                    (''sessionid'', JStr (mo_session_id m)), (''moto_id'', JStr []), (''path'', JStr ''mqtt'')]
      in if trace_id = [] then header else dict_set ''trace_id'' (JStr trace_id) header)"

text \<open>\<open>t\<close> is the time of day in seconds.\<close>

definition async_publish ::
    "cipher \<Rightarrow> int \<Rightarrow> mqtt_outcome \<Rightarrow> nat \<Rightarrow> json \<Rightarrow> moto \<Rightarrow> moto \<times> moto_effect list \<times> exn option" where
  "async_publish A t outcome protocol data m =
     (if \<not> mo_connected m
      then (m, [], Some (ConnectionError ''Failed to publish: the signaling broker is not connected''))
      else let m1 = m\<lparr>mo_sequence := mo_sequence m + 1\<rparr> in
        case encode_payload A (mo_key m) (mo_sequence m1) (mo_source m) data t protocol of
          Inl e \<Rightarrow> (m1, [], Some e)
        | Inr payload \<Rightarrow>
            (case publish_error outcome of
               Some e \<Rightarrow> (m1, [], Some e)
             | None \<Rightarrow> (m1, [Published (mo_publish_topic m) payload], None)))"

datatype outbound =
    SigQuery
  | Offer string json string json json
  | LocalCandidate string
  | Disconnect int

definition sig_query_data :: json where
  "sig_query_data = JObj [(''reqType'', JStr ''sigQry'')]"

definition offer_data :: "string \<Rightarrow> json \<Rightarrow> string \<Rightarrow> json \<Rightarrow> json \<Rightarrow> moto \<Rightarrow> json" where
  "offer_data sdp ice_servers trace_id tcp_token log_config m =
     JObj [(''header'', JObj (dict_update (moto_header ''offer'' trace_id m) offer_skills)),
           (''msg'', JObj [(''sdp'', JStr sdp), (''preconnect'', JBool True), (''token'', ice_servers),
                           (''tcp_token'', tcp_token), (''log'', log_config)])]"

definition candidate_data :: "string \<Rightarrow> moto \<Rightarrow> json" where
  "candidate_data candidate m =
     JObj [(''header'', JObj (moto_header ''candidate'' [] m)), (''msg'', JObj [(''candidate'', JStr candidate)])]"

definition disconnect_data :: "int \<Rightarrow> moto \<Rightarrow> json" where
  "disconnect_data close_reason m =
     JObj [(''header'', JObj (moto_header ''disconnect'' [] m)),
           (''msg'', JObj [(''close_reason'', JInt close_reason), (''close_reason_local'', JInt 0)])]"

fun outbound_data :: "outbound \<Rightarrow> moto \<Rightarrow> json" where
  "outbound_data SigQuery m = sig_query_data"
| "outbound_data (Offer sdp ice_servers trace_id tcp_token log_config) m =
     offer_data sdp ice_servers trace_id tcp_token log_config m"
| "outbound_data (LocalCandidate candidate) m = candidate_data candidate m"
| "outbound_data (Disconnect close_reason) m = disconnect_data close_reason m"

fun outbound_protocol :: "outbound \<Rightarrow> nat" where
  "outbound_protocol SigQuery = SIG_QUERY_PROTOCOL"
| "outbound_protocol _ = SESSION_PROTOCOL"

definition send_outbound :: "cipher \<Rightarrow> int \<Rightarrow> mqtt_outcome \<Rightarrow> outbound \<Rightarrow> moto \<Rightarrow> moto \<times> moto_effect list \<times> exn option" where
  "send_outbound A t outcome p m = async_publish A t outcome (outbound_protocol p) (outbound_data p m) m"

text \<open>Closing swallows whatever leaving the broker raises.\<close>

definition close_moto :: "moto \<Rightarrow> moto \<times> moto_effect list" where
  "close_moto m = (m\<lparr>mo_reading := False, mo_connected := False\<rparr>, if mo_connected m then [BrokerClosed] else [])"

section \<open>What is published\<close>

fun wf_outbound :: "outbound \<Rightarrow> bool" where
  "wf_outbound (Offer sdp ice_servers trace_id tcp_token log_config) \<longleftrightarrow>
     wf_json ice_servers \<and> wf_json tcp_token \<and> wf_json log_config"
| "wf_outbound (Disconnect close_reason) \<longleftrightarrow> int_in_range close_reason"
| "wf_outbound _ \<longleftrightarrow> True"

text \<open>What a message of the session comes to at the side that receives it.\<close>

fun received :: "outbound \<Rightarrow> moto_effect list" where
  "received (LocalCandidate candidate) = (if candidate = [] then [] else [RemoteCandidate candidate])"
| "received (Disconnect close_reason) = [Disconnected close_reason]"
| "received _ = []"

text \<open>What a device makes of a payload of this channel: it takes every field there is, and nothing
  from a message with a field missing or with another constant. A message reads as its sequence
  number, its time, its protocol, the addressing of its header and its content.\<close>

record signal =
  sg_sequence :: nat
  sg_time :: int
  sg_protocol :: int
  sg_addressing :: "(string \<times> string \<times> string) option"
  sg_content :: outbound

definition has_fields :: "json_object \<Rightarrow> json_object \<Rightarrow> bool" where
  "has_fields expected source \<longleftrightarrow> list_all (\<lambda>(key, v). map_of source key = Some v) expected"

fun text_field :: "json_object \<Rightarrow> string \<Rightarrow> string option" where
  "text_field source key = Option.bind (map_of source key) as_str"

definition read_offer :: "json_object \<Rightarrow> json_object \<Rightarrow> outbound option" where
  "read_offer header msg =
     (case (text_field msg ''sdp'', map_of msg ''token'', map_of msg ''tcp_token'', map_of msg ''log'') of
        (Some sdp, Some ice_servers, Some tcp_token, Some log_config) \<Rightarrow>
          if has_fields offer_skills header \<and> has_fields [(''preconnect'', JBool True)] msg
          then Some (Offer sdp ice_servers (case text_field header ''trace_id'' of None \<Rightarrow> [] | Some trace_id \<Rightarrow> trace_id)
                 tcp_token log_config)
          else None
      | _ \<Rightarrow> None)"

definition read_content :: "json_object \<Rightarrow> json_object \<Rightarrow> outbound option" where
  "read_content header msg =
     (let kind = text_field header ''type'' in
      if kind = Some ''offer'' then read_offer header msg
      else if kind = Some ''candidate'' then map_option LocalCandidate (text_field msg ''candidate'')
      else if kind = Some ''disconnect'' \<and> has_fields [(''close_reason_local'', JInt 0)] msg
      then map_option Disconnect (optional_int msg ''close_reason'')
      else None)"

definition read_data :: "json_object \<Rightarrow> ((string \<times> string \<times> string) option \<times> outbound) option" where
  "read_data data =
     (if has_fields [(''reqType'', JStr ''sigQry'')] data then Some (None, SigQuery)
      else case (optional_object data ''header'', optional_object data ''msg'') of
        (Some header, Some msg) \<Rightarrow>
          (case (text_field header ''from'', text_field header ''to'', text_field header ''sessionid'') of
             (Some sender, Some receiver, Some session_id) \<Rightarrow>
               if has_fields [(''moto_id'', JStr []), (''path'', JStr ''mqtt'')] header
               then map_option (Pair (Some (sender, receiver, session_id))) (read_content header msg)
               else None
           | _ \<Rightarrow> None)
      | _ \<Rightarrow> None)"

definition device_reads :: "cipher \<Rightarrow> bytes \<Rightarrow> bytes \<Rightarrow> signal option" where
  "device_reads A key payload =
     (case opened A key payload of
        Inl e \<Rightarrow> None
      | Inr (sequence, message) \<Rightarrow>
          (case (optional_object message ''data'', optional_int message ''t'', optional_int message ''protocol'') of
             (Some data, Some t, Some protocol) \<Rightarrow>
               map_option (\<lambda>(addressing, content). \<lparr>sg_sequence = sequence, sg_time = t, sg_protocol = protocol,
                  sg_addressing = addressing, sg_content = content\<rparr>) (read_data data)
           | _ \<Rightarrow> None))"

text \<open>The message a side means to publish.\<close>

fun intended :: "moto \<Rightarrow> nat \<times> int \<times> outbound \<Rightarrow> signal" where
  "intended m (sequence, t, p) =
     \<lparr>sg_sequence = sequence, sg_time = t, sg_protocol = (if p = SigQuery then 22 else 302),
      sg_addressing = (if p = SigQuery then None else Some (mo_uid m, mo_device_id m, mo_session_id m)),
      sg_content = p\<rparr>"

definition dispatched :: "moto \<Rightarrow> json_object \<Rightarrow> moto_effect list" where
  "dispatched m data =
     (case (optional_object data ''header'', optional_object data ''msg'') of
        (Some header, Some message) \<Rightarrow>
          (if optional_str header ''sessionid'' \<in> {None, Some (mo_session_id m)}
           then dispatch (optional_str header ''type'') message else [])
      | _ \<Rightarrow> [])"

lemma consume_decoded: "decode_payload A (mo_key m) payload = Inr data \<Longrightarrow> consume A m payload = Inr (dispatched m data)"
  by (auto simp: consume_def dispatched_def split: option.split)

lemma length_dec_digits: "length (dec_digits n) \<le> Suc n"
proof (induction n rule: dec_digits.induct)
  case (1 n)
  then show ?case by (subst dec_digits.simps) (cases "n < 10"; simp; linarith)
qed

lemma int_in_range_below: "\<bar>i\<bar> < 4000 \<Longrightarrow> int_in_range i"
  using length_dec_digits [of "nat \<bar>i\<bar>"] by (simp add: int_in_range_def MAX_INT_DIGITS_def)

lemma int_in_range_protocol: "int_in_range (int (outbound_protocol p))"
  by (cases p) (simp_all add: SIG_QUERY_PROTOCOL_def SESSION_PROTOCOL_def int_in_range_below)

lemma outbound_object:
  assumes "wf_outbound p"
  obtains data where "outbound_data p m = JObj data" "wf_json (JObj data)"
proof (cases p)
  case SigQuery
  then show ?thesis using that by (simp add: sig_query_data_def)
next
  case (Offer sdp ice_servers trace_id tcp_token log_config)
  then show ?thesis
    using that assms
    by (cases "trace_id = []") (auto simp: offer_data_def moto_header_def offer_skills_def dict_update_def
        int_in_range_below Let_def)
next
  case (LocalCandidate candidate)
  then show ?thesis using that by (simp add: candidate_data_def moto_header_def)
next
  case (Disconnect close_reason)
  then show ?thesis using that assms by (simp add: disconnect_data_def moto_header_def int_in_range_below)
qed

lemma outbound_dispatched:
  assumes "outbound_data p m = JObj data" "mo_session_id m \<noteq> []"
  shows "dispatched peer data = (if mo_session_id peer = mo_session_id m then received p else [])"
proof (cases p)
  case SigQuery
  then show ?thesis using assms by (auto simp: sig_query_data_def dispatched_def optional_object_def)
next
  case (Offer sdp ice_servers trace_id tcp_token log_config)
  then show ?thesis
    using assms by (auto simp: offer_data_def moto_header_def offer_skills_def dict_update_def dispatched_def Let_def
        optional_object_def optional_str_def dispatch_def)
next
  case (LocalCandidate candidate)
  then show ?thesis
    using assms by (auto simp: candidate_data_def moto_header_def dispatched_def
        optional_object_def optional_str_def dispatch_def)
next
  case (Disconnect close_reason)
  then show ?thesis
    using assms by (auto simp: disconnect_data_def moto_header_def dispatched_def
        optional_object_def optional_str_def optional_int_def dispatch_def)
qed

lemma outbound_read:
  "outbound_data p m = JObj data \<Longrightarrow>
     read_data data = Some (if p = SigQuery then None else Some (mo_uid m, mo_device_id m, mo_session_id m), p)"
  by (cases p) (auto simp: sig_query_data_def offer_data_def candidate_data_def disconnect_data_def moto_header_def
      offer_skills_def dict_update_def Let_def read_data_def has_fields_def optional_object_def optional_int_def
      read_content_def read_offer_def)

lemma outbound_data_sequence: "outbound_data p (m\<lparr>mo_sequence := n\<rparr>) = outbound_data p m"
  by (cases p) (simp_all add: offer_data_def candidate_data_def disconnect_data_def moto_header_def)

text \<open>One message published over a broker that takes it, and the wire between two sides.\<close>

definition publish_step :: "cipher \<Rightarrow> moto \<Rightarrow> int \<times> outbound \<Rightarrow> moto \<times> moto_effect list" where
  "publish_step A m tp = (case send_outbound A (fst tp) Accepted (snd tp) m of (m', es, _) \<Rightarrow> (m', es))"

definition reader_step :: "cipher \<Rightarrow> moto \<Rightarrow> bytes \<Rightarrow> moto \<times> moto_effect list" where
  "reader_step A m payload = read_message A (\<lambda>_. None) (Some payload) m"

fun payloads :: "moto_effect list \<Rightarrow> bytes list" where
  "payloads [] = []"
| "payloads (Published topic payload # es) = payload # payloads es"
| "payloads (_ # es) = payloads es"

definition publishing :: "cipher \<Rightarrow> moto \<Rightarrow> bool" where
  "publishing A m \<longleftrightarrow> mo_connected m \<and> aes_key_size (mo_key m) \<and> 4 \<le> length (mo_source m) \<and> mo_session_id m \<noteq> []"

lemma send_outbound_payload:
  assumes "ecb_laws A" "publishing A m" "Suc (mo_sequence m) < 2 ^ 32" "int_in_range t" "wf_outbound p"
  obtains payload data body where
    "send_outbound A t Accepted p m =
       (m\<lparr>mo_sequence := Suc (mo_sequence m)\<rparr>, [Published (mo_publish_topic m) payload], None)"
    "decode_payload A (mo_key m) payload = Inr data" "outbound_data p m = JObj data"
    "decode_frame payload = Inr \<lparr>df_sequence = Suc (mo_sequence m), df_source = take 4 (mo_source m), df_body = body\<rparr>"
proof -
  obtain data where d: "outbound_data p m = JObj data" "wf_json (JObj data)"
    using outbound_object [OF assms(5)] .
  obtain payload body where e:
    "encode_payload A (mo_key m) (Suc (mo_sequence m)) (mo_source m) (JObj data) t (outbound_protocol p) = Inr payload"
    and k: "decode_payload A (mo_key m) payload = Inr data"
    "decode_frame payload = Inr \<lparr>df_sequence = Suc (mo_sequence m), df_source = take 4 (mo_source m), df_body = body\<rparr>"
    using payload_decodes [OF assms(1) _ assms(3) _ d(2) assms(4) int_in_range_protocol [of p],
        of "mo_key m" "mo_source m"] assms(2)
    by (auto simp: publishing_def)
  have "send_outbound A t Accepted p m =
      (m\<lparr>mo_sequence := Suc (mo_sequence m)\<rparr>, [Published (mo_publish_topic m) payload], None)"
    using e d(1) assms(2) by (simp add: send_outbound_def async_publish_def publishing_def)
  then show ?thesis using that k d(1) by blast
qed

lemma publish_step_payload:
  assumes "ecb_laws A" "publishing A m" "Suc (mo_sequence m) < 2 ^ 32" "int_in_range t" "wf_outbound p"
  obtains payload data body where
    "publish_step A m (t, p) = (m\<lparr>mo_sequence := Suc (mo_sequence m)\<rparr>, [Published (mo_publish_topic m) payload])"
    "decode_payload A (mo_key m) payload = Inr data" "outbound_data p m = JObj data"
    "decode_frame payload = Inr \<lparr>df_sequence = Suc (mo_sequence m), df_source = take 4 (mo_source m), df_body = body\<rparr>"
proof (rule send_outbound_payload [OF assms], goal_cases)
  case (1 payload data body)
  then show ?thesis using that by (simp add: publish_step_def)
qed

lemma reader_step_decoded:
  "mo_reading peer \<Longrightarrow> decode_payload A (mo_key peer) payload = Inr data \<Longrightarrow>
     reader_step A peer payload = (peer, dispatched peer data)"
  by (cases peer) (simp add: reader_step_def read_message_def consume_decoded list_all_iff)

lemma published_read:
  assumes "ecb_laws A" "publishing A m" "Suc (mo_sequence m) < 2 ^ 32" "int_in_range t" "wf_outbound p"
    and "publish_step A m (t, p) = (m', [Published topic payload])"
  shows "device_reads A (mo_key m) payload = Some (intended m (Suc (mo_sequence m), t, p))"
proof -
  obtain data where d: "outbound_data p m = JObj data" "wf_json (JObj data)"
    using outbound_object [OF assms(5)] .
  have e: "encode_payload A (mo_key m) (Suc (mo_sequence m)) (mo_source m) (JObj data) t (outbound_protocol p) = Inr payload"
    using assms(2,6) d(1)
    by (auto simp: publish_step_def send_outbound_def async_publish_def publishing_def Let_def split: sum.splits)
  have "opened A (mo_key m) payload = Inr (Suc (mo_sequence m), payload_message (JObj data) t (outbound_protocol p))"
    using assms(2) by (intro payload_opens [OF assms(1) _ assms(3) _ d(2) assms(4) int_in_range_protocol e])
      (simp_all add: publishing_def)
  then show ?thesis
    using outbound_read [OF d(1)]
    by (cases p) (simp_all add: device_reads_def payload_message_def optional_object_def optional_int_def
        SIG_QUERY_PROTOCOL_def SESSION_PROTOCOL_def)
qed

text \<open>An operation of the session: what is published is read as what was meant, and reaches a peer.\<close>

lemma published_received:
  assumes "ecb_laws A" "publishing A m" "mo_sequence m + length ps < 2 ^ 32"
    and "list_all (\<lambda>tp. int_in_range (fst tp) \<and> wf_outbound (snd tp)) ps"
    and "mo_reading peer" "mo_key peer = mo_key m"
  shows "map (device_reads A (mo_key m)) (payloads (snd (run (publish_step A) m ps))) =
      map (Some \<circ> intended m) (zip [Suc (mo_sequence m)..<Suc (mo_sequence m + length ps)] ps) \<and>
    run (reader_step A) peer (payloads (snd (run (publish_step A) m ps))) =
      (peer, if mo_session_id peer = mo_session_id m then concat (map (received \<circ> snd) ps) else [])"
  using assms(2-4,6)
proof (induction ps arbitrary: m)
  case Nil
  then show ?case by simp
next
  case (Cons tp ps)
  obtain t p where tp: "tp = (t, p)" by (cases tp)
  let ?m = "m\<lparr>mo_sequence := Suc (mo_sequence m)\<rparr>"
  have seq: "Suc (mo_sequence m) < 2 ^ 32" and wf: "int_in_range t" "wf_outbound p"
    using Cons.prems(2,3) by (simp_all add: tp)
  obtain payload data body where p:
    "publish_step A m (t, p) = (?m, [Published (mo_publish_topic m) payload])"
    "decode_payload A (mo_key m) payload = Inr data" "outbound_data p m = JObj data"
    using publish_step_payload [OF assms(1) Cons.prems(1) seq wf] by metis
  have r: "reader_step A peer payload =
      (peer, if mo_session_id peer = mo_session_id m then received p else [])"
    using reader_step_decoded [OF assms(5), of A payload data] p(2) Cons.prems(4)
      outbound_dispatched [OF p(3), of peer] Cons.prems(1)
    by (simp add: publishing_def)
  note d = published_read [OF assms(1) Cons.prems(1) seq wf p(1)]
  have i: "intended ?m = intended m" by (rule ext) (auto split: prod.splits)
  have "publishing A ?m" using Cons.prems(1) by (simp add: publishing_def)
  from Cons.IH [OF this] Cons.prems show ?case
    by (simp add: tp p(1) r d i Let_def upt_conv_Cons del: upt_Suc)
qed

lemma decode_payload_errors:
  assumes "\<And>c. length c mod 16 = 0 \<Longrightarrow> \<exists>plain. ecb_decryptor A key c = Inr plain"
    and "decode_payload A key payload = Inl e"
  shows "is_tuya_error e \<or> e = beyond_model"
proof -
  have "is_tuya_error e" if "aes_ecb_decrypt A key c = Inl e" for c e
    using that assms(1) [of c] unpad_errors
    by (auto simp: aes_ecb_decrypt_def misaligned_def AES_BLOCK_SIZE_def split: if_splits)
  moreover have "is_tuya_error e \<or> e = beyond_model" if "parse_json_object raw = Inl e" for raw e
    using parse_json_total [of raw] that by simp
  ultimately show ?thesis
    using assms(2) decode_frame_errors
    by (auto simp: decode_payload_def andThen_Inl_iff split: option.splits elim!: from_option.elims)
qed

section \<open>Properties\<close>

text \<open>
  C9: What a channel publishes is what it means. Of the queries, offers, candidates and disconnects
  sent over a broker that takes them, whoever holds the local key reads every one, in order: the
  sequence number, counting up, the time, the protocol, who it is from, for whom and in which
  session, and the content with every field of it, the description and the tokens of an offer
  included. A channel of this SDK under the same key that reads them dispatches exactly the
  candidates and disconnects, which are what it has callbacks for, when it belongs to the
  session, and nothing when it belongs to another.
\<close>

theorem signaling_reaches_peer:
  assumes "ecb_laws A" "publishing A m" "mo_sequence m + length ps < 2 ^ 32"
    and "list_all (\<lambda>tp. int_in_range (fst tp) \<and> wf_outbound (snd tp)) ps"
    and "mo_reading peer" "mo_key peer = mo_key m"
  shows "map (device_reads A (mo_key m)) (payloads (snd (run (publish_step A) m ps))) =
      map (Some \<circ> intended m) (zip [Suc (mo_sequence m)..<Suc (mo_sequence m + length ps)] ps) \<and>
    run (reader_step A) peer (payloads (snd (run (publish_step A) m ps))) =
      (peer, if mo_session_id peer = mo_session_id m then concat (map (received \<circ> snd) ps) else [])"
  using published_received [OF assms] .

definition sample_channel :: "string \<Rightarrow> moto" where
  "sample_channel session_id = (new_moto ''u'' ''d'' session_id ''0123456789abcdef'' [1, 2, 3, 4])
     \<lparr>mo_connected := True, mo_reading := True\<rparr>"

lemma sample_channel_publishing: "session_id \<noteq> [] \<Longrightarrow> publishing A (sample_channel session_id)"
  using length_str_encode [of "''0123456789abcdef''"]
  by (simp add: publishing_def sample_channel_def new_moto_def ascii_def)

lemma signaling_reaches_peer_witness:
  "let offer = Offer ''v=0'' (JList []) ''t'' (JObj [(''credential'', JStr ''c'')]) JNull;
       payloads = payloads (snd (run (publish_step flip_cipher) (sample_channel ''s'')
         [(0, SigQuery), (1, offer), (2, LocalCandidate ''a=candidate''), (3, Disconnect 4)]))
   in map (map_option sg_content \<circ> device_reads flip_cipher (mo_key (sample_channel ''s''))) payloads =
        [Some SigQuery, Some offer, Some (LocalCandidate ''a=candidate''), Some (Disconnect 4)] \<and>
      run (reader_step flip_cipher) (sample_channel ''s'') payloads =
        (sample_channel ''s'', [RemoteCandidate ''a=candidate'', Disconnected 4])"
proof -
  let ?offer = "Offer ''v=0'' (JList []) ''t'' (JObj [(''credential'', JStr ''c'')]) JNull"
  let ?ps = "[(0, SigQuery), (1, ?offer), (2, LocalCandidate ''a=candidate''), (3, Disconnect 4)] :: (int \<times> outbound) list"
  have p: "map (device_reads flip_cipher (mo_key (sample_channel ''s'')))
        (payloads (snd (run (publish_step flip_cipher) (sample_channel ''s'') ?ps))) =
      map (Some \<circ> intended (sample_channel ''s'')) (zip [Suc (mo_sequence (sample_channel ''s''))..<
        Suc (mo_sequence (sample_channel ''s'') + length ?ps)] ?ps) \<and>
    run (reader_step flip_cipher) (sample_channel ''s'')
        (payloads (snd (run (publish_step flip_cipher) (sample_channel ''s'') ?ps))) =
      (sample_channel ''s'', if mo_session_id (sample_channel ''s'') = mo_session_id (sample_channel ''s'')
        then concat (map (received \<circ> snd) ?ps) else [])"
    by (rule signaling_reaches_peer [OF flip_cipher_ecb sample_channel_publishing])
      (simp_all add: int_in_range_below sample_channel_def new_moto_def)
  have "map (map_option sg_content \<circ> device_reads flip_cipher (mo_key (sample_channel ''s'')))
        (payloads (snd (run (publish_step flip_cipher) (sample_channel ''s'') ?ps))) =
      map (map_option sg_content) (map (Some \<circ> intended (sample_channel ''s''))
        (zip [Suc (mo_sequence (sample_channel ''s''))..<Suc (mo_sequence (sample_channel ''s'') + length ?ps)] ?ps))"
    unfolding p [THEN conjunct1, symmetric] by simp
  also have "\<dots> = [Some SigQuery, Some ?offer, Some (LocalCandidate ''a=candidate''), Some (Disconnect 4)]"
    by (simp add: upt_conv_Cons sample_channel_def new_moto_def)
  finally show ?thesis unfolding Let_def using p [THEN conjunct2] by simp
qed

text \<open>
  No payload stops the reader by itself: under a local key the cipher takes, whatever bytes
  arrive are dispatched or dropped, at most one callback runs, and it runs only for a payload
  that decodes under the local key and names this session or none.
\<close>

theorem inbound_payloads_contained:
  assumes "\<And>c. length c mod 16 = 0 \<Longrightarrow> \<exists>plain. ecb_decryptor A (mo_key m) c = Inr plain"
  shows "case consume A m payload of
      Inl e \<Rightarrow> e = beyond_model
    | Inr es \<Rightarrow> es = [] \<or>
        (\<exists>data header message e. decode_payload A (mo_key m) payload = Inr data \<and>
           optional_object data ''header'' = Some header \<and> optional_object data ''msg'' = Some message \<and>
           optional_str header ''sessionid'' \<in> {None, Some (mo_session_id m)} \<and>
           es = [e] \<and> dispatch (optional_str header ''type'') message = [e])"
proof (cases "decode_payload A (mo_key m) payload")
  case (Inl e)
  then show ?thesis using decode_payload_errors [OF assms Inl] by (auto simp: consume_def)
next
  case (Inr data)
  have "dispatch t message = [] \<or> (\<exists>e. dispatch t message = [e])" for t message
    by (auto simp: dispatch_def split: option.split)
  then show ?thesis
    using Inr by (auto simp: consume_decoded dispatched_def split: option.splits)
qed

lemma inbound_payloads_contained_witness:
  "case consume flip_cipher (sample_channel ''s'') [1, 2, 3] of Inl e \<Rightarrow> e = beyond_model | Inr es \<Rightarrow> es = []"
proof -
  have "\<exists>plain. ecb_decryptor flip_cipher (mo_key (sample_channel ''s'')) c = Inr plain" if "length c mod 16 = 0" for c
    using that sample_channel_publishing [of "''s''" flip_cipher]
    by (simp add: flip_cipher_def publishing_def Let_def)
  moreover have "decode_payload flip_cipher k [1, 2, 3] \<noteq> Inr data" for k data
    by (simp add: decode_payload_def decode_frame_def HEADER_LENGTH_def)
  ultimately show ?thesis
    using inbound_payloads_contained [of flip_cipher "sample_channel ''s''" "[1, 2, 3]"]
    by (auto split: sum.splits)
qed

end
