(* ===== verification/Sdp.thy ===== *)
theory Sdp
  imports Crypto Text
begin

text \<open>
  Models \<^verbatim>\<open>src/tuya_ipc_p2p_sdk/signaling/offer.py\<close> and
  \<^verbatim>\<open>signaling/answer.py\<close>: the SDP text the client offers, and the three fields it reads out
  of the device's answer. The lemmas show that reading back an SDP of that shape gives the
  credentials and the key it was built with, exactly when an answer is refused, and with which
  exception.
\<close>

section \<open>Offer\<close>

record sdp_offer =
  offer_sdp :: string
  offer_ice_ufrag :: string
  offer_ice_password :: string
  offer_aes_key :: bytes
  offer_session_id :: string

definition build_offer :: "string \<Rightarrow> string \<Rightarrow> nat \<Rightarrow> string \<Rightarrow> string \<Rightarrow> bytes \<Rightarrow> sdp_offer" where
  "build_offer uid session_id epoch_seconds ice_ufrag ice_password aes_key =
     (let lines = [
        ''v=0'',
        ''o=- '' @ dec_digits epoch_seconds @ '' 1 IN IP4 127.0.0.1'',
        ''s=-'',
        ''t=0 0'',
        ''a=group:BUNDLE imm0'',
        ''a=msid-semantic: WMS '' @ session_id,
        ''m=application 9 imm 6001'',
        ''c=IN IP4 0.0.0.0'',
        ''a=rtcp:9 IN IP4 0.0.0.0'',
        ''a=ice-ufrag:'' @ ice_ufrag,
        ''a=ice-pwd:'' @ ice_password,
        ''a=ice-options:trickle'',
        ''a=aes-key:'' @ hex aes_key,
        ''a=mid:imm0'',
        ''a=rtpmap:6001 AES/KCP 330'',
        ''a=ssrc:0 cname:'' @ uid,
        '''']
      in \<lparr>offer_sdp = join CRLF lines, offer_ice_ufrag = ice_ufrag, offer_ice_password = ice_password,
          offer_aes_key = aes_key, offer_session_id = session_id\<rparr>)"

section \<open>Answer\<close>

definition UFRAG_PREFIX :: string where "UFRAG_PREFIX = ''a=ice-ufrag:''"
definition PASSWORD_PREFIX :: string where "PASSWORD_PREFIX = ''a=ice-pwd:''"
definition AES_KEY_PREFIX :: string where "AES_KEY_PREFIX = ''a=aes-key:''"

lemmas prefix_defs = UFRAG_PREFIX_def PASSWORD_PREFIX_def AES_KEY_PREFIX_def

record sdp_answer =
  answer_ice_ufrag :: string
  answer_ice_password :: string
  answer_aes_key :: bytes

text \<open>The loop over the lines, carrying the three fields read so far.\<close>

fun scan_answer :: "string list \<Rightarrow> string \<times> string \<times> bytes \<Rightarrow> exn + string \<times> string \<times> bytes" where
  "scan_answer [] acc = Inr acc"
| "scan_answer (raw_line # rest) (ufrag, pwd, key) =
     (let line = rstrip_chars {CHR 0x0D} raw_line in
      if starts_with UFRAG_PREFIX line then scan_answer rest (remove_prefix UFRAG_PREFIX line, pwd, key)
      else if starts_with PASSWORD_PREFIX line then scan_answer rest (ufrag, remove_prefix PASSWORD_PREFIX line, key)
      else if starts_with AES_KEY_PREFIX line
      then andThen (from_hex (remove_prefix AES_KEY_PREFIX line)) (\<lambda>k. scan_answer rest (ufrag, pwd, k))
      else scan_answer rest (ufrag, pwd, key))"

definition parse_answer :: "string \<Rightarrow> exn + sdp_answer" where
  "parse_answer sdp =
     andThen (scan_answer (splitlines sdp) ([], [], [])) (\<lambda>(ufrag, pwd, key).
       if ufrag = [] \<or> pwd = [] \<or> length key \<noteq> MEDIA_KEY_SIZE
       then Inl (ProtocolError ''Failed to parse answer'')
       else Inr \<lparr>answer_ice_ufrag = ufrag, answer_ice_password = pwd, answer_aes_key = key\<rparr>)"

section \<open>Laws\<close>

lemma one_line_rstrip: "one_line l \<Longrightarrow> rstrip_chars {CHR 0x0D} l = l"
  by (rule rstrip_chars_none) (auto simp: one_line_def list_all_iff line_break_def)

lemma prefixes_differ:
  "starts_with UFRAG_PREFIX l \<Longrightarrow> \<not> starts_with PASSWORD_PREFIX l \<and> \<not> starts_with AES_KEY_PREFIX l"
  "starts_with PASSWORD_PREFIX l \<Longrightarrow> \<not> starts_with UFRAG_PREFIX l \<and> \<not> starts_with AES_KEY_PREFIX l"
  "starts_with AES_KEY_PREFIX l \<Longrightarrow> \<not> starts_with UFRAG_PREFIX l \<and> \<not> starts_with PASSWORD_PREFIX l"
  using starts_with_nth [of UFRAG_PREFIX l 6] starts_with_nth [of PASSWORD_PREFIX l 6]
    starts_with_nth [of AES_KEY_PREFIX l 2] starts_with_nth [of UFRAG_PREFIX l 2]
    starts_with_nth [of PASSWORD_PREFIX l 2]
  by (auto simp: prefix_defs)

text \<open>Lines that carry none of the three fields are skipped.\<close>

definition other_line :: "string \<Rightarrow> bool" where
  "other_line l \<longleftrightarrow> one_line l \<and> \<not> starts_with UFRAG_PREFIX l \<and> \<not> starts_with PASSWORD_PREFIX l \<and>
     \<not> starts_with AES_KEY_PREFIX l"

lemma scan_other: "list_all other_line ls \<Longrightarrow> scan_answer (ls @ rest) acc = scan_answer rest acc"
  by (induction ls arbitrary: acc) (auto simp: other_line_def one_line_rstrip Let_def split_paired_all)

lemma scan_fields:
  "one_line u \<Longrightarrow> scan_answer ((UFRAG_PREFIX @ u) # rest) (a, b, c) = scan_answer rest (u, b, c)"
  "one_line p \<Longrightarrow> scan_answer ((PASSWORD_PREFIX @ p) # rest) (a, b, c) = scan_answer rest (a, p, c)"
  "scan_answer ((AES_KEY_PREFIX @ hex k) # rest) (a, b, c) = scan_answer rest (a, b, k)"
proof -
  have l: "one_line UFRAG_PREFIX" "one_line PASSWORD_PREFIX" "one_line AES_KEY_PREFIX" "one_line (hex k)"
  proof -
    show "one_line (hex k)" by (rule printable_one_line [OF hex_printable])
  qed (simp_all add: prefix_defs one_line_def line_break_def)
  have e: "starts_with UFRAG_PREFIX (UFRAG_PREFIX @ u)" "starts_with PASSWORD_PREFIX (PASSWORD_PREFIX @ p)"
    "starts_with AES_KEY_PREFIX (AES_KEY_PREFIX @ hex k)"
    by simp_all
  show "one_line u \<Longrightarrow> scan_answer ((UFRAG_PREFIX @ u) # rest) (a, b, c) = scan_answer rest (u, b, c)"
    by (simp add: one_line_rstrip one_line_append l Let_def)
  show "one_line p \<Longrightarrow> scan_answer ((PASSWORD_PREFIX @ p) # rest) (a, b, c) = scan_answer rest (a, p, c)"
    using prefixes_differ(2) [OF e(2)] by (simp add: one_line_rstrip one_line_append l Let_def)
  show "scan_answer ((AES_KEY_PREFIX @ hex k) # rest) (a, b, c) = scan_answer rest (a, b, k)"
    using prefixes_differ(3) [OF e(3)] by (simp add: one_line_rstrip one_line_append l Let_def from_hex_hex)
qed

lemma scan_errors: "scan_answer ls acc = Inl e \<Longrightarrow> e = ValueError"
  by (induction ls acc rule: scan_answer.induct)
    (auto simp: Let_def andThen_Inl_iff from_hex_errors split: if_splits)

section \<open>Properties\<close>

text \<open>
  An answer that has the three fields anywhere among other lines, each line ended by CR LF,
  is accepted with exactly those credentials and that key; in particular the SDP the client
  itself offers reads back as the credentials and the media key it commits to.
\<close>

theorem answer_roundtrip:
  assumes "list_all other_line (l0 @ l1 @ l2 @ l3)" "one_line ufrag" "one_line password"
    and "ufrag \<noteq> []" "password \<noteq> []" "length key = 16"
  shows "parse_answer (concat (map (\<lambda>l. l @ CRLF)
      (l0 @ [UFRAG_PREFIX @ ufrag] @ l1 @ [PASSWORD_PREFIX @ password] @ l2 @ [AES_KEY_PREFIX @ hex key] @ l3)))
    = Inr \<lparr>answer_ice_ufrag = ufrag, answer_ice_password = password, answer_aes_key = key\<rparr>"
proof -
  let ?ls = "l0 @ [UFRAG_PREFIX @ ufrag] @ l1 @ [PASSWORD_PREFIX @ password] @ l2 @ [AES_KEY_PREFIX @ hex key] @ l3"
  have "one_line UFRAG_PREFIX" "one_line PASSWORD_PREFIX" "one_line AES_KEY_PREFIX"
    by (simp_all add: prefix_defs one_line_def line_break_def)
  moreover have "one_line (hex key)" by (rule printable_one_line [OF hex_printable])
  moreover have "list_all one_line (l0 @ l1 @ l2 @ l3)"
    using assms(1) by (auto simp: list_all_iff other_line_def)
  ultimately have "splitlines (concat (map (\<lambda>l. l @ CRLF) ?ls)) = ?ls"
    using assms(2,3) by (intro splitlines_lines) (simp add: one_line_append)
  moreover have "scan_answer ?ls ([], [], []) = Inr (ufrag, password, key)"
    using assms(1-3) scan_other [of l3 "[]"]
    by (simp add: scan_other scan_fields del: scan_answer.simps(2))
  ultimately show ?thesis
    using assms(4-6) by (simp add: parse_answer_def MEDIA_KEY_SIZE_def)
qed

lemma offer_lines:
  "offer_sdp (build_offer uid sid t ufrag password key) = concat (map (\<lambda>l. l @ CRLF)
     ([''v=0'', ''o=- '' @ dec_digits t @ '' 1 IN IP4 127.0.0.1'', ''s=-'', ''t=0 0'', ''a=group:BUNDLE imm0'',
       ''a=msid-semantic: WMS '' @ sid, ''m=application 9 imm 6001'', ''c=IN IP4 0.0.0.0'', ''a=rtcp:9 IN IP4 0.0.0.0'']
      @ [UFRAG_PREFIX @ ufrag] @ [] @ [PASSWORD_PREFIX @ password] @ [''a=ice-options:trickle'']
      @ [AES_KEY_PREFIX @ hex key]
      @ [''a=mid:imm0'', ''a=rtpmap:6001 AES/KCP 330'', ''a=ssrc:0 cname:'' @ uid]))"
  unfolding join_terminated [symmetric] by (simp add: build_offer_def Let_def prefix_defs)

lemma answer_roundtrip_witness:
  "parse_answer (offer_sdp (build_offer ''u'' ''s'' 7 ''frag'' ''pass'' (replicate 16 0xAB))) =
     Inr \<lparr>answer_ice_ufrag = ''frag'', answer_ice_password = ''pass'', answer_aes_key = replicate 16 0xAB\<rparr>"
  unfolding offer_lines
  by (rule answer_roundtrip)
    (simp_all add: other_line_def one_line_def line_break_def starts_with_def prefix_defs dec_digits.simps [of 7] char_of_def bit_0)

text \<open>
  Parsing an answer ends with the SDK's protocol error when a field is missing, empty or a
  key of another size, except that a key line that is not hexadecimal raises a bare
  ValueError, which callers that catch only the SDK's errors do not handle.
\<close>

theorem answer_failures:
  "case parse_answer sdp of
     Inr a \<Rightarrow> answer_ice_ufrag a \<noteq> [] \<and> answer_ice_password a \<noteq> [] \<and> length (answer_aes_key a) = 16
   | Inl e \<Rightarrow> is_tuya_error e \<and> (\<exists>fields. scan_answer (splitlines sdp) ([], [], []) = Inr fields)
       \<or> e = ValueError \<and> \<not> is_tuya_error e \<and> scan_answer (splitlines sdp) ([], [], []) = Inl ValueError"
proof (cases "scan_answer (splitlines sdp) ([], [], [])")
  case (Inl e)
  then show ?thesis using scan_errors [OF Inl] by (simp add: parse_answer_def)
next
  case (Inr f)
  then show ?thesis by (cases f) (simp add: parse_answer_def MEDIA_KEY_SIZE_def)
qed

end
