(* ===== verification/Control.thy ===== *)
theory Control
  imports Crypto
begin

text \<open>
  Models \<^verbatim>\<open>src/tuya_ipc_p2p_sdk/control.py\<close>: the channel-0 packets that authenticate the
  session and start the video. All fields are little-endian; a packet is the magic, a type, and
  either the three 32-byte fields of the authentication or flag, sub-command, length and
  payload of a command. The lemmas give the layout of the authentication packet, the round trip
  of commands, what parsing does to truncated packets, and what the start burst decodes to.
\<close>

section \<open>Model\<close>

definition CONTROL_MAGIC :: nat where "CONTROL_MAGIC = 0x12345678"
definition TYPE_AUTH :: nat where "TYPE_AUTH = 1"
definition AUTH_USERNAME :: string where "AUTH_USERNAME = ''admin''"
definition AUTH_FIELD_LENGTH :: nat where "AUTH_FIELD_LENGTH = 32"
definition AUTH_BODY_LENGTH :: nat where "AUTH_BODY_LENGTH = AUTH_FIELD_LENGTH * 3"
definition COMMAND_HEADER_LENGTH :: nat where "COMMAND_HEADER_LENGTH = 20"
definition MINIMUM_PACKET_LENGTH :: nat where "MINIMUM_PACKET_LENGTH = 8"

lemmas control_constants = CONTROL_MAGIC_def TYPE_AUTH_def AUTH_FIELD_LENGTH_def AUTH_BODY_LENGTH_def
  COMMAND_HEADER_LENGTH_def MINIMUM_PACKET_LENGTH_def

definition CAPABILITY_PAYLOAD :: bytes where
  "CAPABILITY_PAYLOAD =
     str_encode (''{'' @ [CHR 0x22] @ ''cmd'' @ [CHR 0x22] @ '':'' @ [CHR 0x22] @ ''capability_exchange_req'' @
       [CHR 0x22] @ '','' @ [CHR 0x22] @ ''protocol_version'' @ [CHR 0x22] @ '':1,'' @
       [CHR 0x22] @ ''data'' @ [CHR 0x22] @ '':{'' @ [CHR 0x22] @ ''capabilities'' @ [CHR 0x22] @ '':{'' @
       [CHR 0x22] @ ''opus_encode'' @ [CHR 0x22] @ '':1,'' @ [CHR 0x22] @ ''opus_decode'' @ [CHR 0x22] @
       '':1}}}'') @ [0x00]"

record control_packet =
  ctl_type :: nat
  ctl_flag :: nat
  ctl_sub_command :: nat
  ctl_payload :: bytes

definition auth_credential :: "string \<Rightarrow> string \<Rightarrow> string" where
  "auth_credential device_password local_key = md5_hex (Str (device_password @ ''||'' @ local_key))"

definition build_auth :: "string \<Rightarrow> string \<Rightarrow> bytes" where
  "build_auth username credential =
     (let body = replicate AUTH_BODY_LENGTH 0;
          body1 = set_slice body 0 (length username) (str_encode username);
          body2 = set_slice body1 AUTH_FIELD_LENGTH (AUTH_FIELD_LENGTH + length credential)
                    (str_encode credential)
      in le_bytes 4 CONTROL_MAGIC @ le_bytes 4 TYPE_AUTH @ body2)"

text \<open>\<^verbatim>\<open>x & 0xFFFFFFFF\<close> on a Python integer of any sign.\<close>

definition mask32 :: "int \<Rightarrow> nat" where
  "mask32 x = nat (x mod 2 ^ 32)"

definition build_command :: "int \<Rightarrow> int \<Rightarrow> int \<Rightarrow> bytes \<Rightarrow> exn + bytes" where
  "build_command packet_type flag sub_command payload =
     andThen (if flag < 0 then Inl OverflowError else to_le 4 (nat flag)) (\<lambda>flag_bytes.
     andThen (to_le 4 (length payload)) (\<lambda>len. Inr (concat [
       le_bytes 4 CONTROL_MAGIC,
       le_bytes 4 (mask32 packet_type),
       flag_bytes,
       le_bytes 4 (mask32 sub_command),
       len,
       payload])))"

definition uint32 :: "int \<Rightarrow> bytes" where
  "uint32 x = le_bytes 4 (mask32 x)"

definition start_sequence :: "string \<Rightarrow> string \<Rightarrow> exn + bytes list" where
  "start_sequence credential username = traverse id [
     Inr (build_auth username credential),
     build_command 0 0 0x0A (uint32 0x00010001),
     build_command 0 0 0x15 CAPABILITY_PAYLOAD,
     build_command 2 0 0x02 (uint32 0),
     build_command 0x00010004 0 0x09 (uint32 0 @ uint32 4),
     build_command 0x00010003 0 0x06 (uint32 0 @ uint32 0),
     build_command 0x00010005 0 0x00040006 (uint32 0 @ uint32 4)]"

definition is_control :: "bytes \<Rightarrow> bool" where
  "is_control plaintext \<longleftrightarrow>
     MINIMUM_PACKET_LENGTH \<le> length plaintext \<and> from_le (slice plaintext 0 4) = CONTROL_MAGIC"

definition parse_control :: "bytes \<Rightarrow> control_packet option" where
  "parse_control plaintext =
     (if length plaintext < COMMAND_HEADER_LENGTH \<or> \<not> is_control plaintext then None
      else let len = from_le (slice plaintext 16 20);
               available = length plaintext - COMMAND_HEADER_LENGTH;
               stop = COMMAND_HEADER_LENGTH + min len available
           in Some \<lparr>ctl_type = from_le (slice plaintext 4 8), ctl_flag = from_le (slice plaintext 8 12),
                    ctl_sub_command = from_le (slice plaintext 12 16),
                    ctl_payload = slice plaintext COMMAND_HEADER_LENGTH stop\<rparr>)"

section \<open>Commands\<close>

lemma mask32_bound: "mask32 x < 2 ^ 32"
  using pos_mod_bound [of "2 ^ 32" x] pos_mod_sign [of "2 ^ 32" x] by (simp add: mask32_def nat_less_iff)

lemma mask32_nat: "n < 2 ^ 32 \<Longrightarrow> mask32 (int n) = n"
  by (simp add: mask32_def)

text \<open>The bytes of a command with fields in range.\<close>

definition command_bytes :: "control_packet \<Rightarrow> bytes" where
  "command_bytes p = le_bytes 4 CONTROL_MAGIC @ le_bytes 4 (ctl_type p) @ le_bytes 4 (ctl_flag p) @
     le_bytes 4 (ctl_sub_command p) @ le_bytes 4 (length (ctl_payload p)) @ ctl_payload p"

definition valid_packet :: "control_packet \<Rightarrow> bool" where
  "valid_packet p \<longleftrightarrow> ctl_type p < 2 ^ 32 \<and> ctl_flag p < 2 ^ 32 \<and> ctl_sub_command p < 2 ^ 32 \<and>
     length (ctl_payload p) < 2 ^ 32"

lemma build_command_eq:
  "0 \<le> flag \<Longrightarrow> flag < 2 ^ 32 \<Longrightarrow> length payload < 2 ^ 32 \<Longrightarrow>
     build_command ty flag sub payload = Inr (command_bytes \<lparr>ctl_type = mask32 ty, ctl_flag = nat flag,
       ctl_sub_command = mask32 sub, ctl_payload = payload\<rparr>)"
  by (simp add: build_command_def command_bytes_def to_le_def nat_less_iff)

lemma command_slices:
  fixes p rest
  defines "raw \<equiv> command_bytes p @ rest"
  shows "slice raw 0 4 = le_bytes 4 CONTROL_MAGIC"
    "slice raw 4 8 = le_bytes 4 (ctl_type p)"
    "slice raw 8 12 = le_bytes 4 (ctl_flag p)"
    "slice raw 12 16 = le_bytes 4 (ctl_sub_command p)"
    "slice raw 16 20 = le_bytes 4 (length (ctl_payload p))"
    "slice raw 20 (20 + n) = take n (ctl_payload p @ rest)"
    "length raw = 20 + length (ctl_payload p) + length rest"
proof -
  show "slice raw 20 (20 + n) = take n (ctl_payload p @ rest)"
    by (simp add: raw_def command_bytes_def slice_def)
qed (simp_all add: raw_def command_bytes_def slices)

lemma from_le_4_small: "x < 4294967296 \<Longrightarrow> from_le (le_bytes 4 x) = x"
  by (simp add: from_le_le_bytes)

text \<open>Parsing reads a command back, whatever follows it in the record.\<close>

lemma parse_command_bytes:
  assumes "valid_packet p"
  shows "parse_control (command_bytes p @ rest) = Some p"
proof -
  have m: "from_le (le_bytes 4 CONTROL_MAGIC) = CONTROL_MAGIC"
    by (simp add: CONTROL_MAGIC_def from_le_4_small)
  have c: "is_control (command_bytes p @ rest)"
    unfolding is_control_def command_slices m by (simp add: MINIMUM_PACKET_LENGTH_def)
  have n: "length (ctl_payload p) < 4294967296" "ctl_type p < 4294967296" "ctl_flag p < 4294967296"
    "ctl_sub_command p < 4294967296"
    using assms by (simp_all add: valid_packet_def)
  show ?thesis
    using c n unfolding parse_control_def COMMAND_HEADER_LENGTH_def Let_def command_slices
    by (simp add: from_le_4_small)
qed

definition encode_packet :: "control_packet \<Rightarrow> exn + bytes" where
  "encode_packet p = build_command (int (ctl_type p)) (int (ctl_flag p)) (int (ctl_sub_command p)) (ctl_payload p)"

lemma encode_packet_eq: "valid_packet p \<Longrightarrow> encode_packet p = Inr (command_bytes p)"
  by (cases p) (simp add: encode_packet_def valid_packet_def build_command_eq mask32_nat)

interpretation control: framed_codec encode_packet "\<lambda>raw. from_option ValueError (parse_control raw)"
  valid_packet ctl_payload 20
proof unfold_locales
  fix p assume v: "valid_packet p"
  show "\<exists>w. encode_packet p = Inr w \<and> from_option ValueError (parse_control w) = Inr p"
    using parse_command_bytes [OF v, of "[]"] encode_packet_eq [OF v] by simp
next
  fix p w assume "valid_packet p" "encode_packet p = Inr w"
  then show "length w = 20 + length (ctl_payload p)"
    using command_slices(7) [of p "[]"] by (auto simp: encode_packet_eq)
qed

section \<open>Authentication\<close>

lemma set_slice_prefix:
  "length v \<le> n \<Longrightarrow> set_slice (replicate n 0 @ rest) 0 (length v) v = v @ replicate (n - length v) 0 @ rest"
  by (simp add: set_slice_def drop_append)

lemma build_auth_layout:
  assumes "ascii username" "length username \<le> 32" "ascii credential" "length credential \<le> 32"
  shows "build_auth username credential = le_bytes 4 CONTROL_MAGIC @ le_bytes 4 1 @
     str_encode username @ replicate (32 - length username) 0 @
     str_encode credential @ replicate (32 - length credential) 0 @ replicate 32 0"
proof -
  have u: "length (str_encode username) = length username" and c: "length (str_encode credential) = length credential"
    using assms length_str_encode by blast+
  have r: "replicate 96 0 = replicate 32 0 @ replicate 64 (0 :: byte)" "replicate 64 0 = replicate 32 0 @ replicate 32 (0 :: byte)"
    by (simp_all flip: replicate_add)
  have b1: "set_slice (replicate 96 0) 0 (length username) (str_encode username) =
      (str_encode username @ replicate (32 - length username) 0) @ replicate 64 0"
    using set_slice_prefix [of "str_encode username" 32 "replicate 64 0"] assms(2) u by (simp add: r(1))
  have "set_slice ((str_encode username @ replicate (32 - length username) 0) @ replicate 64 0) 32
      (32 + length credential) (str_encode credential) =
    (str_encode username @ replicate (32 - length username) 0) @ str_encode credential @
      drop (length credential) (replicate 64 0)"
    using assms(2) u by (simp add: set_slice_def)
  also have "drop (length credential) (replicate 64 (0 :: byte)) = replicate (32 - length credential) 0 @ replicate 32 0"
    using assms(4) unfolding r(2) by (simp add: drop_append)
  finally show ?thesis
    unfolding build_auth_def Let_def control_constants by (simp add: b1)
qed

lemma capability_length: "length CAPABILITY_PAYLOAD = 113"
  by (simp add: CAPABILITY_PAYLOAD_def length_str_encode ascii_def)

lemma uint32_length [simp]: "length (uint32 x) = 4"
  by (simp add: uint32_def)

text \<open>A command with flag zero and a short payload, with what it decodes to.\<close>

lemma plain_command:
  assumes "length payload < 1000"
  shows "\<exists>raw. build_command ty 0 sub payload = Inr raw \<and> parse_control raw =
     Some \<lparr>ctl_type = mask32 ty, ctl_flag = 0, ctl_sub_command = mask32 sub, ctl_payload = payload\<rparr>"
proof -
  let ?p = "\<lparr>ctl_type = mask32 ty, ctl_flag = 0, ctl_sub_command = mask32 sub, ctl_payload = payload\<rparr>"
  have v: "valid_packet ?p"
    using assms mask32_bound [of ty] mask32_bound [of sub] by (simp add: valid_packet_def)
  show ?thesis
    using build_command_eq [of 0 payload ty sub] parse_command_bytes [OF v, of "[]"] assms by simp
qed

section \<open>Properties\<close>

text \<open>
  Every channel-0 command reads back as it was built: type, flag, sub-command and payload
  are recovered from the packet even when further bytes follow it, for every value that fits
  the 32-bit fields.
\<close>

theorem control_roundtrip:
  assumes "0 \<le> flag" "flag < 2 ^ 32" "length payload < 2 ^ 32"
  shows "\<exists>raw. build_command ty flag sub payload = Inr raw \<and> is_control raw \<and>
    parse_control (raw @ rest) = Some \<lparr>ctl_type = mask32 ty, ctl_flag = nat flag,
       ctl_sub_command = mask32 sub, ctl_payload = payload\<rparr>"
proof -
  let ?p = "\<lparr>ctl_type = mask32 ty, ctl_flag = nat flag, ctl_sub_command = mask32 sub, ctl_payload = payload\<rparr>"
  have v: "valid_packet ?p"
    using assms mask32_bound [of ty] mask32_bound [of sub] by (simp add: valid_packet_def nat_less_iff)
  have "is_control (command_bytes ?p)"
    using parse_command_bytes [OF v, of "[]"] by (simp add: parse_control_def split: if_splits)
  then show ?thesis
    using build_command_eq [OF assms, of ty sub] parse_command_bytes [OF v, of rest] by auto
qed

lemma control_roundtrip_witness:
  "\<exists>raw. build_command 2 0 (- 1) [1, 2] = Inr raw \<and> is_control raw \<and>
    parse_control (raw @ [9]) = Some \<lparr>ctl_type = 2, ctl_flag = 0, ctl_sub_command = 4294967295, ctl_payload = [1, 2]\<rparr>"
  using control_roundtrip [of 0 "[1, 2]" 2 "- 1" "[9]"] by (simp add: mask32_def)

text \<open>
  The burst that starts the video can always be built: seven packets, the authentication
  first, with the user name and the 32-character credential each in its own zero-padded field,
  then the six commands the device expects, which decode to their types, sub-commands and
  arguments.
\<close>

theorem start_burst:
  "\<exists>commands. start_sequence (auth_credential device_password local_key) AUTH_USERNAME =
      Inr (build_auth AUTH_USERNAME (auth_credential device_password local_key) # commands) \<and>
    length (build_auth AUTH_USERNAME (auth_credential device_password local_key)) = 104 \<and>
    slice (build_auth AUTH_USERNAME (auth_credential device_password local_key)) 8 13 = str_encode ''admin'' \<and>
    slice (build_auth AUTH_USERNAME (auth_credential device_password local_key)) 40 72 =
      str_encode (auth_credential device_password local_key) \<and>
    map (map_option (\<lambda>p. (ctl_type p, ctl_flag p, ctl_sub_command p, ctl_payload p)) \<circ> parse_control) commands =
      [Some (0, 0, 0x0A, uint32 0x00010001), Some (0, 0, 0x15, CAPABILITY_PAYLOAD), Some (2, 0, 0x02, uint32 0),
       Some (0x00010004, 0, 0x09, uint32 0 @ uint32 4), Some (0x00010003, 0, 0x06, uint32 0 @ uint32 0),
       Some (0x00010005, 0, 0x00040006, uint32 0 @ uint32 4)]"
proof -
  let ?c = "auth_credential device_password local_key"
  let ?a = "build_auth AUTH_USERNAME ?c"
  have c: "length ?c = 32" "ascii ?c"
    by (simp_all add: auth_credential_def md5_hex_def ascii_hex)
  have a: "?a = le_bytes 4 CONTROL_MAGIC @ le_bytes 4 1 @ str_encode ''admin'' @ replicate 27 0 @
      str_encode ?c @ replicate 32 0"
    using build_auth_layout [of AUTH_USERNAME ?c] c by (simp add: AUTH_USERNAME_def ascii_def)
  have l: "length (str_encode ''admin'') = 5" "length (str_encode ?c) = 32"
    using c length_str_encode [of "''admin''"] length_str_encode [of ?c] by (simp_all add: ascii_def)
  have f1: "slice ?a 8 13 = str_encode ''admin''"
    unfolding a using l slice_mid [of "le_bytes 4 CONTROL_MAGIC @ le_bytes 4 1" 8 13 "str_encode ''admin''"] by simp
  have f2: "slice ?a 40 72 = str_encode ?c"
    unfolding a using l slice_mid [of "le_bytes 4 CONTROL_MAGIC @ le_bytes 4 1 @ str_encode ''admin'' @ replicate 27 0"
        40 72 "str_encode ?c"] by simp
  have f3: "length ?a = 104" unfolding a using l by simp
  obtain r1 where r1: "build_command 0 0 0x0A (uint32 0x00010001) = Inr r1" "parse_control r1 =
      Some \<lparr>ctl_type = 0, ctl_flag = 0, ctl_sub_command = 0x0A, ctl_payload = uint32 0x00010001\<rparr>"
    using plain_command [of "uint32 0x00010001" 0 "0x0A"] by (auto simp: mask32_def)
  obtain r2 where r2: "build_command 0 0 0x15 CAPABILITY_PAYLOAD = Inr r2" "parse_control r2 =
      Some \<lparr>ctl_type = 0, ctl_flag = 0, ctl_sub_command = 0x15, ctl_payload = CAPABILITY_PAYLOAD\<rparr>"
    using plain_command [of CAPABILITY_PAYLOAD 0 "0x15"] by (auto simp: mask32_def capability_length)
  obtain r3 where r3: "build_command 2 0 0x02 (uint32 0) = Inr r3" "parse_control r3 =
      Some \<lparr>ctl_type = 2, ctl_flag = 0, ctl_sub_command = 2, ctl_payload = uint32 0\<rparr>"
    using plain_command [of "uint32 0" 2 2] by (auto simp: mask32_def)
  obtain r4 where r4: "build_command 0x00010004 0 0x09 (uint32 0 @ uint32 4) = Inr r4" "parse_control r4 =
      Some \<lparr>ctl_type = 0x00010004, ctl_flag = 0, ctl_sub_command = 0x09, ctl_payload = uint32 0 @ uint32 4\<rparr>"
    using plain_command [of "uint32 0 @ uint32 4" "0x00010004" "0x09"] by (auto simp: mask32_def)
  obtain r5 where r5: "build_command 0x00010003 0 0x06 (uint32 0 @ uint32 0) = Inr r5" "parse_control r5 =
      Some \<lparr>ctl_type = 0x00010003, ctl_flag = 0, ctl_sub_command = 0x06, ctl_payload = uint32 0 @ uint32 0\<rparr>"
    using plain_command [of "uint32 0 @ uint32 0" "0x00010003" "0x06"] by (auto simp: mask32_def)
  obtain r6 where r6: "build_command 0x00010005 0 0x00040006 (uint32 0 @ uint32 4) = Inr r6" "parse_control r6 =
      Some \<lparr>ctl_type = 0x00010005, ctl_flag = 0, ctl_sub_command = 0x00040006, ctl_payload = uint32 0 @ uint32 4\<rparr>"
    using plain_command [of "uint32 0 @ uint32 4" "0x00010005" "0x00040006"] by (auto simp: mask32_def)
  have "start_sequence ?c AUTH_USERNAME = Inr (?a # [r1, r2, r3, r4, r5, r6])"
    unfolding start_sequence_def traverse.simps id_apply andThen.simps r1(1) r2(1) r3(1) r4(1) r5(1) r6(1) ..
  then show ?thesis
    using f1 f2 f3 r1(2) r2(2) r3(2) r4(2) r5(2) r6(2)
    by (intro exI [of _ "[r1, r2, r3, r4, r5, r6]"]) simp
qed

end
