(* ===== verification/Media.thy ===== *)
theory Media
  imports Bytes
begin

text \<open>
  Models \<^verbatim>\<open>src/tuya_ipc_p2p_sdk/media.py\<close>: the channel-1 packets inside one decrypted
  record. Each is preceded by its length in four little-endian bytes and is found by the marker
  at offset 16 of its header. The lemmas show what an extracted packet is (\<open>packet_at\<close>), that
  the scan never goes back, and that a record made of well-formed packets yields exactly them.
\<close>

section \<open>Model\<close>

definition MEDIA_HEADER_LENGTH :: nat where "MEDIA_HEADER_LENGTH = 20"
definition MEDIA_OFFSET_FIELD :: nat where "MEDIA_OFFSET_FIELD = 12"
definition MAX_FRAME_SIZE :: nat where "MAX_FRAME_SIZE = 4 * 2 ^ 20"
definition MEDIA_MARKER :: bytes where "MEDIA_MARKER = [0x00, 0xFF, 0x50, 0x3C]"
definition MARKER_OFFSET :: nat where "MARKER_OFFSET = 16"
definition LENGTH_PREFIX_LENGTH :: nat where "LENGTH_PREFIX_LENGTH = 4"

lemmas media_constants = MEDIA_HEADER_LENGTH_def MEDIA_OFFSET_FIELD_def MARKER_OFFSET_def
  LENGTH_PREFIX_LENGTH_def

text \<open>\<^verbatim>\<open>header >= _LENGTH_PREFIX_LENGTH\<close> is written on the marker position, which is the
  header position plus \<open>MARKER_OFFSET\<close>.\<close>

lemma find_from_bounds: "find_from needle hay c = Some m \<Longrightarrow> c \<le> m \<and> m < length hay"
  by (auto simp: find_from_def find_upt_Some)

function extract_from :: "bytes \<Rightarrow> nat \<Rightarrow> bytes list" where
  "extract_from rec cursor =
     (case find_from MEDIA_MARKER rec cursor of
        None \<Rightarrow> []
      | Some marker_position \<Rightarrow>
          let header = marker_position - MARKER_OFFSET;
              len = from_le (slice rec (header - LENGTH_PREFIX_LENGTH) header)
          in if LENGTH_PREFIX_LENGTH + MARKER_OFFSET \<le> marker_position \<and>
                MEDIA_HEADER_LENGTH \<le> len \<and> len \<le> MAX_FRAME_SIZE \<and> header + len \<le> length rec
             then slice rec header (header + len) # extract_from rec (header + len)
             else extract_from rec (marker_position + length MEDIA_MARKER))"
  by pat_completeness auto
termination
  by (relation "measure (\<lambda>(rec, cursor). length rec - cursor)")
    (auto simp: media_constants MEDIA_MARKER_def dest!: find_from_bounds, arith)

declare extract_from.simps [simp del]

definition extract_media_packets :: "bytes \<Rightarrow> bytes list" where
  "extract_media_packets rec = extract_from rec 0"

lemma marker_simps: "length MEDIA_MARKER = 4" "MEDIA_MARKER \<noteq> []"
  by (simp_all add: MEDIA_MARKER_def)

section \<open>What is extracted\<close>

definition packet_ok :: "bytes \<Rightarrow> bool" where
  "packet_ok p \<longleftrightarrow> MEDIA_HEADER_LENGTH \<le> length p \<and> length p \<le> MAX_FRAME_SIZE \<and>
     slice p MARKER_OFFSET MEDIA_HEADER_LENGTH = MEDIA_MARKER"

definition packet_at :: "bytes \<Rightarrow> nat \<Rightarrow> bytes \<Rightarrow> bool" where
  "packet_at rec h p \<longleftrightarrow> packet_ok p \<and> LENGTH_PREFIX_LENGTH \<le> h \<and> h + length p \<le> length rec \<and>
     p = slice rec h (h + length p) \<and> from_le (slice rec (h - LENGTH_PREFIX_LENGTH) h) = length p"

text \<open>Positions of the packets: each marker lies behind the packet before it.\<close>

fun spaced :: "nat \<Rightarrow> (nat \<times> bytes) list \<Rightarrow> bool" where
  "spaced c [] = True"
| "spaced c ((h, p) # hps) = (c \<le> h + MARKER_OFFSET \<and> spaced (h + length p) hps)"

lemma spaced_mono: "spaced c hps \<Longrightarrow> c' \<le> c \<Longrightarrow> spaced c' hps"
  by (cases hps) auto

lemma slice_slice: "slice (slice xs a b) c d = slice xs (a + c) (min b (a + d))"
proof -
  have "take (d - c) (drop c (take (b - a) (drop a xs))) = take (min (d - c) (b - a - c)) (drop (a + c) xs)"
    by (simp add: drop_take min.commute add.commute)
  moreover have "min (d - c) (b - a - c) = min b (a + d) - (a + c)" by simp
  ultimately show ?thesis by (simp add: slice_def)
qed

lemma length_slice_within: "h + n \<le> length xs \<Longrightarrow> length (slice xs h (h + n)) = n"
  by (simp add: lengths)

lemma extract_from_sound:
  "\<exists>hs. length hs = length (extract_from rec c) \<and> spaced c (zip hs (extract_from rec c)) \<and>
     (\<forall>(h, p) \<in> set (zip hs (extract_from rec c)). packet_at rec h p)"
proof (induction rec c rule: extract_from.induct)
  case (1 rec c)
  show ?case
  proof (cases "find_from MEDIA_MARKER rec c")
    case None
    then show ?thesis by (simp add: extract_from.simps [of rec c])
  next
    case (Some m)
    let ?h = "m - 16" and ?len = "from_le (slice rec (m - 16 - 4) (m - 16))"
    have m: "c \<le> m" "m + 4 \<le> length rec" "slice rec m (m + 4) = MEDIA_MARKER"
      using Some find_from_Some [of MEDIA_MARKER rec c m] by (auto simp: occurs_at_def marker_simps)
    show ?thesis
    proof (cases "4 + 16 \<le> m \<and> 20 \<le> ?len \<and> ?len \<le> MAX_FRAME_SIZE \<and> ?h + ?len \<le> length rec")
      case True
      let ?p = "slice rec ?h (?h + ?len)"
      have e: "extract_from rec c = ?p # extract_from rec (?h + ?len)"
        unfolding extract_from.simps [of rec c] Some option.case Let_def media_constants
        using True by (rule if_P)
      obtain hs where hs: "length hs = length (extract_from rec (?h + ?len))"
        "spaced (?h + ?len) (zip hs (extract_from rec (?h + ?len)))"
        "\<forall>(h, p) \<in> set (zip hs (extract_from rec (?h + ?len))). packet_at rec h p"
        using "1.IH"(1) [OF Some refl refl] True by (auto simp: media_constants)
      have t: "20 \<le> m" "20 \<le> ?len" "?len \<le> MAX_FRAME_SIZE" "?h + ?len \<le> length rec"
        using True by linarith+
      from t(1) have h: "4 \<le> ?h" "c \<le> ?h + 16" using m(1) by linarith+
      from length_slice_within [OF t(4)] have lp: "length ?p = ?len" .
      have "slice ?p 16 20 = MEDIA_MARKER"
      proof -
        have "min (?h + ?len) (?h + 20) = m + 4" using t(1,2) by linarith
        then show ?thesis using t(1) m(3) by (simp add: slice_slice)
      qed
      then have "packet_at rec ?h ?p"
        unfolding packet_at_def packet_ok_def media_constants lp using t(2-4) h(1) by (intro conjI refl)
      then show ?thesis
        using hs h(2) unfolding e
        by (intro exI [of _ "?h # hs"]) (simp only: list.size zip_Cons_Cons spaced.simps lp media_constants, simp)
    next
      case False
      have e: "extract_from rec c = extract_from rec (m + 4)"
        unfolding extract_from.simps [of rec c] Some option.case Let_def media_constants marker_simps
        using False by (rule if_not_P)
      have "\<exists>hs. length hs = length (extract_from rec (m + 4)) \<and> spaced (m + 4) (zip hs (extract_from rec (m + 4))) \<and>
          (\<forall>(h, p) \<in> set (zip hs (extract_from rec (m + 4))). packet_at rec h p)"
        using "1.IH"(2) [OF Some refl refl] False by (simp add: media_constants marker_simps)
      then show ?thesis
        unfolding e using m(1) by (elim exE conjE, intro exI conjI) (assumption, erule spaced_mono, simp_all)
    qed
  qed
qed

section \<open>Records made of packets\<close>

definition prefixed :: "bytes \<Rightarrow> bytes" where
  "prefixed p = le_bytes 4 (length p) @ p"

lemma length_prefixed [simp, lengths]: "length (prefixed p) = 4 + length p"
  by (simp add: prefixed_def)

text \<open>A packet whose length and header fields do not spell the marker themselves.\<close>

definition clean_packet :: "bytes \<Rightarrow> bool" where
  "clean_packet p \<longleftrightarrow> packet_ok p \<and> (\<forall>j < 20. \<not> occurs_at MEDIA_MARKER (prefixed p) j)"

lemma occurs_at_append_left:
  "j + length needle \<le> length hay \<Longrightarrow> occurs_at needle (hay @ more) j = occurs_at needle hay j"
  by (simp add: occurs_at_def slices)

lemma occurs_at_append_right: "occurs_at needle (pre @ hay) (length pre + j) = occurs_at needle hay j"
  by (simp add: occurs_at_def slice_def)

lemma extract_from_packet:
  assumes p: "clean_packet p" and c: "length pre = c"
  shows "extract_from (pre @ prefixed p @ rest) c = p # extract_from (pre @ prefixed p @ rest) (c + 4 + length p)"
proof -
  let ?r = "pre @ prefixed p @ rest"
  have ok: "20 \<le> length p" "length p \<le> MAX_FRAME_SIZE" "slice p 16 20 = MEDIA_MARKER"
    using p by (simp_all add: clean_packet_def packet_ok_def media_constants)
  have lp: "length (prefixed p) = 4 + length p" by (simp add: prefixed_def)
  have occ: "occurs_at MEDIA_MARKER ?r (c + j) = occurs_at MEDIA_MARKER (prefixed p) j"
    if "j \<le> length p" for j
    using that c lp occurs_at_append_right [of MEDIA_MARKER pre "prefixed p @ rest" j]
      occurs_at_append_left [of j MEDIA_MARKER "prefixed p" rest]
    by (simp add: MEDIA_MARKER_def)
  have "slice (prefixed p) 20 24 = MEDIA_MARKER"
    using ok by (simp add: prefixed_def slices)
  then have at: "occurs_at MEDIA_MARKER (prefixed p) 20"
    using lp ok by (simp add: occurs_at_def MEDIA_MARKER_def)
  have "find_from MEDIA_MARKER ?r c = Some (c + 20)"
  proof -
    have "\<not> occurs_at MEDIA_MARKER ?r j" if "c \<le> j" "j < c + 20" for j
      using that occ [of "j - c"] p ok by (simp add: clean_packet_def)
    then show ?thesis
      using occ [of 20] at ok by (subst find_from_Some) (auto simp: MEDIA_MARKER_def)
  qed
  moreover have "slice ?r c (c + 4) = le_bytes 4 (length p)"
    using slice_mid [of pre c "c + 4" "le_bytes 4 (length p)" "p @ rest"] c by (simp add: prefixed_def)
  moreover have "slice ?r (c + 4) (c + 4 + length p) = p"
    using slice_mid [of "pre @ le_bytes 4 (length p)" "c + 4" "c + 4 + length p" p rest] c
    by (simp add: prefixed_def)
  moreover have "length p mod 4294967296 = length p"
    using ok(2) by (simp add: MAX_FRAME_SIZE_def)
  ultimately show ?thesis
    using ok c lp by (subst extract_from.simps) (simp add: Let_def media_constants from_le_le_bytes ac_simps)
qed

lemma find_from_end: "length hay \<le> c \<Longrightarrow> find_from needle hay c = None"
  by (simp add: find_from_def)

lemma extract_from_packets:
  "list_all clean_packet ps \<Longrightarrow> length pre = c \<Longrightarrow>
     extract_from (pre @ concat (map prefixed ps)) c = ps"
proof (induction ps arbitrary: pre c)
  case Nil
  then show ?case by (simp add: extract_from.simps [of pre] find_from_end)
next
  case (Cons p ps)
  have "extract_from (pre @ prefixed p @ concat (map prefixed ps)) (c + 4 + length p) = ps"
    using Cons.IH [of "pre @ prefixed p" "c + 4 + length p"] Cons.prems by simp
  then show ?case
    using extract_from_packet [of p pre c "concat (map prefixed ps)"] Cons.prems by simp
qed

section \<open>Properties\<close>

text \<open>
  Whatever a decrypted record holds, every packet taken out of it lies inside the record,
  carries the media marker at offset 16, is between 20 bytes and 4 MiB long, and is exactly as
  long as the four bytes before it say; the markers of the packets are found in increasing
  positions, each behind the packet before it.
\<close>

theorem extracted_packets_sound:
  "\<exists>hs. length hs = length (extract_media_packets rec) \<and> spaced 0 (zip hs (extract_media_packets rec)) \<and>
     list_all (\<lambda>(h, p). packet_at rec h p) (zip hs (extract_media_packets rec))"
  unfolding extract_media_packets_def list_all_iff by (rule extract_from_sound)

text \<open>
  A record in which each packet follows its own length yields exactly those packets, in
  order, whatever image bytes they carry, as long as no length or header field happens to
  spell the marker.
\<close>

theorem extract_concatenated:
  assumes "list_all clean_packet ps"
  shows "extract_media_packets (concat (map prefixed ps)) = ps"
  using extract_from_packets [OF assms, of "[]" 0] by (simp add: extract_media_packets_def)

lemma extract_concatenated_witness:
  "extract_media_packets (concat (map prefixed [replicate 16 1 @ MEDIA_MARKER @ [0xFF, 0xD8]])) =
     [replicate 16 1 @ MEDIA_MARKER @ [0xFF, 0xD8]]"
proof (rule extract_concatenated)
  have "\<not> occurs_at MEDIA_MARKER (prefixed (replicate 16 1 @ MEDIA_MARKER @ [0xFF, 0xD8])) j" if "j < 20" for j
  proof -
    have "\<forall>j \<in> set [0..<20]. \<not> occurs_at MEDIA_MARKER (prefixed (replicate 16 1 @ MEDIA_MARKER @ [0xFF, 0xD8])) j"
      by code_simp
    then show ?thesis using that by simp
  qed
  then show "list_all clean_packet [replicate 16 1 @ MEDIA_MARKER @ [0xFF, 0xD8]]"
    by (simp add: clean_packet_def packet_ok_def media_constants MAX_FRAME_SIZE_def slice_def MEDIA_MARKER_def)
qed

end
