(* ===== verification/Jpeg_Reassembler.thy ===== *)
theory Jpeg_Reassembler
  imports Media
begin

text \<open>
  Models \<^verbatim>\<open>src/tuya_ipc_p2p_sdk/jpeg_reassembler.py\<close>: chunks of an image are placed at
  their offset in a growing buffer; a packet that starts a new image hands the previous one
  back, cut behind its last end-of-image marker. The lemmas give the invariant of the buffer
  (its size is the furthest byte written and never passes 4 MiB), what a completed frame looks
  like, and that any order of the chunks of an image rebuilds it.
\<close>

section \<open>Model\<close>

definition SOI :: bytes where "SOI = [0xFF, 0xD8]"
definition EOI :: bytes where "EOI = [0xFF, 0xD9]"
definition MARKER_LENGTH :: nat where "MARKER_LENGTH = 2"
definition MINIMUM_FRAME_LENGTH :: nat where "MINIMUM_FRAME_LENGTH = 4"

definition starts_with_soi :: "bytes \<Rightarrow> bool" where
  "starts_with_soi data \<longleftrightarrow> slice data 0 2 = SOI"

record reassembler =
  ra_buffer :: "bytes option"
  ra_max_end :: nat

definition new_reassembler :: reassembler where
  "new_reassembler = \<lparr>ra_buffer = None, ra_max_end = 0\<rparr>"

definition flush :: "reassembler \<Rightarrow> bytes option" where
  "flush r =
     (case ra_buffer r of
        None \<Rightarrow> None
      | Some buffer \<Rightarrow>
          if ra_max_end r < MINIMUM_FRAME_LENGTH then None
          else let data = slice buffer 0 (ra_max_end r) in
            if \<not> starts_with_soi data then None
            else (case rfind EOI data of
                None \<Rightarrow> None
              | Some end_at \<Rightarrow>
                  if end_at < MARKER_LENGTH then None else Some (slice data 0 (end_at + 2))))"

text \<open>\<^verbatim>\<open>buffer.extend(bytes(n))\<close> and the assignment of a slice that lies in the buffer.\<close>

definition extend_to :: "nat \<Rightarrow> bytes \<Rightarrow> bytes" where
  "extend_to n buffer = (if n > length buffer then buffer @ replicate (n - length buffer) 0 else buffer)"

definition assign_slice :: "bytes \<Rightarrow> nat \<Rightarrow> nat \<Rightarrow> bytes \<Rightarrow> bytes" where
  "assign_slice buffer a b payload = take a buffer @ payload @ drop b buffer"

definition push :: "bytes \<Rightarrow> reassembler \<Rightarrow> reassembler \<times> bytes option" where
  "push packet r =
     (if length packet \<le> MEDIA_HEADER_LENGTH then (r, None)
      else let offset = from_be (slice packet MEDIA_OFFSET_FIELD (MEDIA_OFFSET_FIELD + 4));
               payload = drop MEDIA_HEADER_LENGTH packet;
               begins = offset = 0 \<and> starts_with_soi payload;
               completed = (if begins then flush r else None);
               r1 = (if begins then \<lparr>ra_buffer = Some [], ra_max_end = 0\<rparr> else r)
           in case ra_buffer r1 of
                None \<Rightarrow> (r1, completed)
              | Some buffer \<Rightarrow>
                  let stop = offset + length payload in
                  if stop > MAX_FRAME_SIZE then (r1, completed)
                  else (\<lparr>ra_buffer = Some (assign_slice (extend_to stop buffer) offset stop payload),
                         ra_max_end = max (ra_max_end r1) stop\<rparr>, completed))"

definition reset :: "reassembler \<Rightarrow> reassembler" where
  "reset r = \<lparr>ra_buffer = None, ra_max_end = 0\<rparr>"

section \<open>Placing chunks\<close>

definition place :: "nat \<times> bytes \<Rightarrow> bytes \<Rightarrow> bytes" where
  "place c buffer =
     assign_slice (extend_to (fst c + length (snd c)) buffer) (fst c) (fst c + length (snd c)) (snd c)"

lemma length_extend_to: "length (extend_to n b) = max n (length b)"
  by (simp add: extend_to_def)

lemma length_place: "length (place c b) = max (fst c + length (snd c)) (length b)"
  by (simp add: place_def assign_slice_def length_extend_to)

lemma nth_extend_to: "i < length b \<Longrightarrow> extend_to n b ! i = b ! i"
  by (simp add: extend_to_def nth_append)

lemma nth_place_in: "fst c \<le> i \<Longrightarrow> i < fst c + length (snd c) \<Longrightarrow> place c b ! i = snd c ! (i - fst c)"
proof -
  assume i: "fst c \<le> i" "i < fst c + length (snd c)"
  then have "i - fst c < length (snd c)" by linarith
  with i show ?thesis by (simp add: place_def assign_slice_def length_extend_to nth_append)
qed

lemma nth_place_out:
  assumes "i < fst c \<or> fst c + length (snd c) \<le> i" "i < length b"
  shows "place c b ! i = b ! i"
  using assms by (auto simp: place_def assign_slice_def nth_append length_extend_to nth_extend_to)

section \<open>Invariant\<close>

definition ra_inv :: "reassembler \<Rightarrow> bool" where
  "ra_inv r \<longleftrightarrow> ra_max_end r \<le> MAX_FRAME_SIZE \<and>
     (case ra_buffer r of None \<Rightarrow> True | Some b \<Rightarrow> length b = ra_max_end r)"

definition jpeg_ok :: "bytes \<Rightarrow> bool" where
  "jpeg_ok f \<longleftrightarrow> 4 \<le> length f \<and> length f \<le> MAX_FRAME_SIZE \<and> take 2 f = SOI \<and> drop (length f - 2) f = EOI"

lemma ra_inv_new [simp]: "ra_inv new_reassembler" "ra_inv (reset r)"
  by (simp_all add: ra_inv_def new_reassembler_def reset_def)

text \<open>The offset and the payload of a packet, and whether it begins an image.\<close>

definition packet_chunk :: "bytes \<Rightarrow> nat \<times> bytes" where
  "packet_chunk packet = (from_be (slice packet 12 16), drop 20 packet)"

definition begins_frame :: "nat \<times> bytes \<Rightarrow> bool" where
  "begins_frame c \<longleftrightarrow> fst c = 0 \<and> starts_with_soi (snd c)"

definition chunk_ok :: "nat \<times> bytes \<Rightarrow> bool" where
  "chunk_ok c \<longleftrightarrow> fst c + length (snd c) \<le> MAX_FRAME_SIZE"

lemma push_cases:
  assumes "20 < length packet"
  shows "push packet r =
     (let c = packet_chunk packet; b = (if begins_frame c then Some [] else ra_buffer r);
          e = (if begins_frame c then 0 else ra_max_end r)
      in (case b of
            None \<Rightarrow> r
          | Some buffer \<Rightarrow>
              if chunk_ok c then \<lparr>ra_buffer = Some (place c buffer), ra_max_end = max e (fst c + length (snd c))\<rparr>
              else \<lparr>ra_buffer = Some buffer, ra_max_end = e\<rparr>,
          if begins_frame c then flush r else None))"
  using assms
  by (auto simp: push_def packet_chunk_def begins_frame_def chunk_ok_def place_def media_constants Let_def
      split: option.splits)

lemma push_short: "length packet \<le> 20 \<Longrightarrow> push packet r = (r, None)"
  by (simp add: push_def media_constants)

lemma push_inv: "ra_inv r \<Longrightarrow> ra_inv (fst (push packet r))"
  by (cases "20 < length packet")
    (auto simp: push_cases push_short ra_inv_def chunk_ok_def length_place Let_def max.commute
      split: option.splits)

lemma flush_jpeg:
  assumes "ra_inv r" "flush r = Some f"
  shows "jpeg_ok f"
proof -
  obtain b e where b: "ra_buffer r = Some b" "starts_with_soi (slice b 0 (ra_max_end r))"
    "rfind EOI (slice b 0 (ra_max_end r)) = Some e" "2 \<le> e" "f = slice (slice b 0 (ra_max_end r)) 0 (e + 2)"
    using assms(2)
    by (auto simp: flush_def Let_def MARKER_LENGTH_def split: option.splits if_splits)
  have len: "length b = ra_max_end r" "ra_max_end r \<le> MAX_FRAME_SIZE"
    using assms(1) b(1) by (simp_all add: ra_inv_def)
  then have d: "slice b 0 (ra_max_end r) = b" by (simp add: slice_def)
  have occ: "e + 2 \<le> length b" "slice b e (e + 2) = EOI"
    using b(3) d by (auto simp: rfind_Some EOI_def occurs_at_def)
  have f: "f = take (e + 2) b" using b(5) unfolding d by (simp add: slice_def)
  have "length f = e + 2" using f occ(1) by simp
  moreover have "take 2 f = SOI"
    using b(2) f unfolding d by (simp add: starts_with_soi_def slice_def min_def)
  moreover have "drop e f = EOI"
    using occ f by (simp add: slice_def drop_take)
  ultimately show ?thesis
    using b(4) occ(1) len by (simp add: jpeg_ok_def)
qed

text \<open>The reassembler as a component: packets and resets in, images out.\<close>

datatype ra_event = Packet bytes | Reset

fun ra_step :: "reassembler \<Rightarrow> ra_event \<Rightarrow> reassembler \<times> bytes list" where
  "ra_step r (Packet p) = (fst (push p r), case snd (push p r) of None \<Rightarrow> [] | Some f \<Rightarrow> [f])"
| "ra_step r Reset = (reset r, [])"

interpretation jpeg: transducer ra_step ra_inv
proof unfold_locales
  fix s e assume "ra_inv s"
  then show "ra_inv (fst (ra_step s e))" by (cases e) (simp_all add: push_inv)
qed

lemma ra_step_jpeg: "ra_inv r \<Longrightarrow> list_all jpeg_ok (snd (ra_step r e))"
proof (cases e)
  case (Packet p)
  assume r: "ra_inv r"
  have "jpeg_ok f" if "snd (push p r) = Some f" for f
    using that flush_jpeg [OF r]
    by (cases "20 < length p") (auto simp: push_cases push_short Let_def split: if_splits)
  then show ?thesis using Packet by (auto split: option.split)
qed simp

section \<open>Rebuilding an image\<close>

text \<open>A chunk of the image \<open>f\<close>.\<close>

definition chunk_of :: "bytes \<Rightarrow> nat \<times> bytes \<Rightarrow> bool" where
  "chunk_of f c \<longleftrightarrow> snd c \<noteq> [] \<and> fst c + length (snd c) \<le> length f \<and>
     slice f (fst c) (fst c + length (snd c)) = snd c"

definition covers :: "bytes \<Rightarrow> (nat \<times> bytes) list \<Rightarrow> bool" where
  "covers f cs \<longleftrightarrow> (\<forall>i < length f. \<exists>c \<in> set cs. fst c \<le> i \<and> i < fst c + length (snd c))"

text \<open>The buffer agrees with the image on every byte written so far.\<close>

definition agrees :: "bytes \<Rightarrow> (nat \<times> bytes) list \<Rightarrow> bytes \<Rightarrow> bool" where
  "agrees f cs b \<longleftrightarrow> length b \<le> length f \<and>
     (\<forall>c \<in> set cs. \<forall>i. fst c \<le> i \<longrightarrow> i < fst c + length (snd c) \<longrightarrow> i < length b \<and> b ! i = f ! i)"

lemma agrees_place:
  assumes "agrees f cs b" "chunk_of f c"
  shows "agrees f (c # cs) (place c b)"
proof -
  have c: "fst c + length (snd c) \<le> length f" "slice f (fst c) (fst c + length (snd c)) = snd c"
    using assms(2) by (simp_all add: chunk_of_def)
  have new: "place c b ! i = f ! i" if "fst c \<le> i" "i < fst c + length (snd c)" for i
  proof -
    have "place c b ! i = slice f (fst c) (fst c + length (snd c)) ! (i - fst c)"
      using nth_place_in [OF that] c(2) by simp
    also have "\<dots> = f ! i" using that c(1) by (subst nth_slice) auto
    finally show ?thesis .
  qed
  have old: "i < length b \<and> b ! i = f ! i" if "d \<in> set cs" "fst d \<le> i" "i < fst d + length (snd d)" for d i
    using assms(1) that by (auto simp: agrees_def)
  have "i < length (place c b) \<and> place c b ! i = f ! i"
    if "d \<in> set (c # cs)" "fst d \<le> i" "i < fst d + length (snd d)" for d i
  proof (cases "fst c \<le> i \<and> i < fst c + length (snd c)")
    case True
    then show ?thesis using new by (simp add: length_place less_max_iff_disj)
  next
    case False
    then have "d \<in> set cs" using that by auto
    with old that have "i < length b" "b ! i = f ! i" by blast+
    with False show ?thesis using nth_place_out [of i c b] by (auto simp: length_place)
  qed
  moreover have "length (place c b) \<le> length f"
    using c(1) assms(1) by (simp add: length_place agrees_def)
  ultimately show ?thesis by (simp add: agrees_def)
qed

lemma agrees_covers: "agrees f cs b \<Longrightarrow> covers f cs \<Longrightarrow> b = f"
proof (rule nth_equalityI)
  assume a: "agrees f cs b" "covers f cs"
  show l: "length b = length f"
  proof (rule ccontr)
    assume "length b \<noteq> length f"
    then have "length b < length f" using a(1) by (simp add: agrees_def)
    then show False using a by (fastforce simp: agrees_def covers_def)
  qed
  fix i assume "i < length b"
  then have "i < length f" using l by simp
  then show "b ! i = f ! i" using a unfolding agrees_def covers_def by blast
qed

abbreviation push_all :: "bytes list \<Rightarrow> reassembler \<Rightarrow> reassembler" where
  "push_all ps r \<equiv> foldl (\<lambda>r p. fst (push p r)) r ps"

definition fills :: "bytes \<Rightarrow> (nat \<times> bytes) list \<Rightarrow> reassembler \<Rightarrow> bool" where
  "fills f cs r \<longleftrightarrow> (\<exists>b. r = \<lparr>ra_buffer = Some b, ra_max_end = length b\<rparr> \<and> agrees f cs b)"

text \<open>A further packet of the image, not its first one, completes nothing and is placed.\<close>

lemma push_chunk:
  assumes "fills f cs r" "length f \<le> MAX_FRAME_SIZE" "20 < length p" "chunk_of f (packet_chunk p)"
    "\<not> begins_frame (packet_chunk p)"
  shows "fills f (packet_chunk p # cs) (fst (push p r)) \<and> snd (push p r) = None"
proof -
  let ?c = "packet_chunk p"
  obtain b where b: "r = \<lparr>ra_buffer = Some b, ra_max_end = length b\<rparr>" "agrees f cs b"
    using assms(1) by (auto simp: fills_def)
  have ok: "chunk_ok ?c" using assms(2,4) by (simp add: chunk_ok_def chunk_of_def)
  have "push p r = (\<lparr>ra_buffer = Some (place ?c b), ra_max_end = length (place ?c b)\<rparr>, None)"
    using assms(3,5) ok b(1) by (simp add: push_cases Let_def length_place max.commute)
  then show ?thesis
    using agrees_place [OF b(2) assms(4)] by (simp add: fills_def)
qed

lemma push_chunks:
  assumes "fills f cs r" "length f \<le> MAX_FRAME_SIZE"
    "\<forall>p \<in> set ps. 20 < length p \<and> chunk_of f (packet_chunk p) \<and> \<not> begins_frame (packet_chunk p)"
  shows "fills f (rev (map packet_chunk ps) @ cs) (push_all ps r)"
  using assms
proof (induction ps arbitrary: cs r)
  case Nil
  then show ?case by simp
next
  case (Cons p ps)
  then have "fills f (packet_chunk p # cs) (fst (push p r))"
    using push_chunk [of f cs r p] by simp
  with Cons.IH [of "packet_chunk p # cs" "fst (push p r)"] Cons.prems show ?case by simp
qed

lemma push_first:
  assumes "20 < length p" "begins_frame (packet_chunk p)" "chunk_of f (packet_chunk p)" "length f \<le> MAX_FRAME_SIZE"
  shows "fills f [packet_chunk p] (fst (push p r))" and "snd (push p r) = flush r"
proof -
  have "agrees f [] []" by (simp add: agrees_def)
  then have "agrees f [packet_chunk p] (place (packet_chunk p) [])"
    using assms(3) by (rule agrees_place)
  moreover have "chunk_ok (packet_chunk p)" using assms(3,4) by (simp add: chunk_ok_def chunk_of_def)
  ultimately show "fills f [packet_chunk p] (fst (push p r))" "snd (push p r) = flush r"
    using assms(1,2) by (simp_all add: push_cases Let_def fills_def length_place)
qed

lemma covers_rev: "covers f (rev cs @ [c]) = covers f (c # cs)"
  by (auto simp: covers_def)

lemma rfind_last:
  assumes "drop (length f - 2) f = EOI" "2 \<le> length f"
  shows "rfind EOI f = Some (length f - 2)"
proof -
  have "take 2 (drop (length f - 2) f) = drop (length f - 2) f"
    using assms(2) by simp
  then have "occurs_at EOI f (length f - 2)"
    using assms unfolding occurs_at_def slice_def by (simp add: EOI_def)
  moreover have "\<not> occurs_at EOI f j" if "length f - 2 < j" for j
  proof -
    have "length f < j + length EOI" using that assms(2) by (simp add: EOI_def)
    then show ?thesis by (simp add: occurs_at_def)
  qed
  ultimately show ?thesis by (simp add: rfind_Some EOI_def)
qed

lemma flush_full:
  assumes "jpeg_ok f"
  shows "flush \<lparr>ra_buffer = Some f, ra_max_end = length f\<rparr> = Some f"
proof -
  have "4 \<le> length f" "\<not> length f - 2 < 2" "take 2 f = SOI" "drop (length f - 2) f = EOI"
    using assms by (auto simp: jpeg_ok_def)
  then show ?thesis
    using rfind_last [of f] by (simp add: flush_def jpeg_ok_def MINIMUM_FRAME_LENGTH_def MARKER_LENGTH_def starts_with_soi_def slice_def Let_def)
qed

section \<open>A sequence of images\<close>

text \<open>The packets of one image: the one that starts it first, the others in any order.\<close>

definition image_packets :: "bytes \<Rightarrow> bytes list \<Rightarrow> bool" where
  "image_packets f ps \<longleftrightarrow> jpeg_ok f \<and> ps \<noteq> [] \<and> begins_frame (packet_chunk (hd ps)) \<and>
     (\<forall>p \<in> set ps. 20 < length p \<and> chunk_of f (packet_chunk p)) \<and>
     (\<forall>p \<in> set (tl ps). \<not> begins_frame (packet_chunk p)) \<and> covers f (map packet_chunk ps)"

definition full :: "bytes \<Rightarrow> reassembler" where
  "full f = \<lparr>ra_buffer = Some f, ra_max_end = length f\<rparr>"

definition completed :: "bytes option \<Rightarrow> bytes list" where
  "completed frame = (case frame of None \<Rightarrow> [] | Some f \<Rightarrow> [f])"

lemma run_packets: "fst (run ra_step r (map Packet ps)) = push_all ps r"
  by (induction ps arbitrary: r) (simp_all add: Let_def)

lemma push_chunks_silent:
  assumes "fills f cs r" "length f \<le> MAX_FRAME_SIZE"
    "\<forall>p \<in> set ps. 20 < length p \<and> chunk_of f (packet_chunk p) \<and> \<not> begins_frame (packet_chunk p)"
  shows "snd (run ra_step r (map Packet ps)) = []"
  using assms
proof (induction ps arbitrary: cs r)
  case Nil
  then show ?case by simp
next
  case (Cons p ps)
  then have "fills f (packet_chunk p # cs) (fst (push p r)) \<and> snd (push p r) = None"
    using push_chunk [of f cs r p] by simp
  with Cons.IH [of "packet_chunk p # cs" "fst (push p r)"] Cons.prems show ?case by (simp add: Let_def)
qed

lemma image_pushed:
  assumes "image_packets f ps"
  shows "run ra_step r (map Packet ps) = (full f, completed (flush r))"
proof -
  obtain p0 qs where ps: "ps = p0 # qs" using assms by (cases ps) (auto simp: image_packets_def)
  have len: "length f \<le> MAX_FRAME_SIZE" using assms by (simp add: image_packets_def jpeg_ok_def)
  have p0: "20 < length p0" "begins_frame (packet_chunk p0)" "chunk_of f (packet_chunk p0)"
    and qs: "\<forall>p \<in> set qs. 20 < length p \<and> chunk_of f (packet_chunk p) \<and> \<not> begins_frame (packet_chunk p)"
    using assms by (simp_all add: image_packets_def ps)
  note first = push_first [OF p0 len, of r]
  have "fills f (rev (map packet_chunk qs) @ [packet_chunk p0]) (push_all qs (fst (push p0 r)))"
    by (rule push_chunks [OF first(1) len qs])
  moreover have "covers f (rev (map packet_chunk qs) @ [packet_chunk p0])"
    using assms by (simp add: image_packets_def ps covers_rev)
  ultimately have "push_all qs (fst (push p0 r)) = full f"
    using agrees_covers by (auto simp: fills_def full_def)
  then show ?thesis
    using push_chunks_silent [OF first(1) len qs] first(2) run_packets [of "fst (push p0 r)" qs]
    by (simp add: ps Let_def completed_def prod_eq_iff)
qed

lemma images_pushed:
  "list_all (\<lambda>(f, ps). image_packets f ps) imgs \<Longrightarrow> imgs \<noteq> [] \<Longrightarrow>
     run ra_step r (map Packet (concat (map snd imgs))) =
       (full (fst (last imgs)), completed (flush r) @ map fst (butlast imgs))"
proof (induction imgs arbitrary: r)
  case Nil
  then show ?case by simp
next
  case (Cons img imgs)
  obtain f ps where img: "img = (f, ps)" by (cases img)
  have f: "image_packets f ps" using Cons.prems(1) by (simp add: img)
  then have "flush (full f) = Some f" using flush_full by (simp add: image_packets_def full_def)
  then show ?case
    using Cons.IH [of "full f"] Cons.prems(1) image_pushed [OF f, of r]
    by (cases "imgs = []") (simp_all add: img prod_eq_iff run_append completed_def)
qed

section \<open>Properties\<close>

text \<open>
  An image is rebuilt from its chunks in any order: after the packet that starts it, the
  other chunks may come permuted, repeated and overlapping, none of them hands anything back,
  and once they cover the image the next start of an image hands back exactly its bytes.
\<close>

theorem reassembles_any_order:
  assumes "jpeg_ok f"
    and "\<forall>p \<in> set (p0 # ps). 20 < length p \<and> chunk_of f (packet_chunk p)"
    and "begins_frame (packet_chunk p0)" and "\<forall>p \<in> set ps. \<not> begins_frame (packet_chunk p)"
    and "covers f (map packet_chunk (p0 # ps))"
    and "20 < length next_start" "begins_frame (packet_chunk next_start)"
  shows "snd (push next_start (push_all (p0 # ps) r)) = Some f
    \<and> (\<forall>i < length ps. snd (push (ps ! i) (push_all (p0 # take i ps) r)) = None)"
proof -
  have len: "length f \<le> MAX_FRAME_SIZE" using assms(1) by (simp add: jpeg_ok_def)
  have "fills f [packet_chunk p0] (fst (push p0 r))"
    using assms(2,3) len by (intro push_first(1)) simp_all
  then have fills: "fills f (rev (map packet_chunk qs) @ [packet_chunk p0]) (push_all qs (fst (push p0 r)))"
    if "set qs \<subseteq> set ps" for qs
    using assms(2,4) len that by (intro push_chunks) auto
  have none: "snd (push (ps ! i) (push_all (p0 # take i ps) r)) = None" if "i < length ps" for i
  proof -
    have "ps ! i \<in> set ps" using that by simp
    then show ?thesis
      using push_chunk [OF fills [OF set_take_subset] len] assms(2,4) by simp
  qed
  have "covers f (rev (map packet_chunk ps) @ [packet_chunk p0])"
    using assms(5) by (simp add: covers_rev)
  moreover have "fills f (rev (map packet_chunk ps) @ [packet_chunk p0]) (push_all ps (fst (push p0 r)))"
    by (rule fills) simp
  ultimately have "push_all (p0 # ps) r = \<lparr>ra_buffer = Some f, ra_max_end = length f\<rparr>"
    using agrees_covers by (auto simp: fills_def)
  then have "snd (push next_start (push_all (p0 # ps) r)) = Some f"
    using flush_full [OF assms(1)] assms(6,7) by (simp add: push_cases Let_def)
  with none show ?thesis by blast
qed

text \<open>A four-byte image in two halves, the second half sent twice.\<close>

lemma reassembles_any_order_witness:
  "snd (push (replicate 20 0 @ [0xFF, 0xD8])
       (push_all [replicate 20 0 @ [0xFF, 0xD8], replicate 15 0 @ [2] @ replicate 4 0 @ [0xFF, 0xD9],
                  replicate 15 0 @ [2] @ replicate 4 0 @ [0xFF, 0xD9]] new_reassembler))
     = Some [0xFF, 0xD8, 0xFF, 0xD9]"
proof -
  define p0 :: bytes where "p0 = replicate 20 0 @ [0xFF, 0xD8]"
  define p1 :: bytes where "p1 = replicate 15 0 @ [2] @ replicate 4 0 @ [0xFF, 0xD9]"
  let ?f = "[0xFF, 0xD8, 0xFF, 0xD9] :: bytes"
  have c: "packet_chunk p0 = (0, [0xFF, 0xD8])" "packet_chunk p1 = (2, [0xFF, 0xD9])"
    "length p0 = 22" "length p1 = 22"
    unfolding p0_def p1_def by code_simp+
  have "snd (push p0 (push_all [p0, p1, p1] new_reassembler)) = Some ?f \<and>
     (\<forall>i < length [p1, p1]. snd (push ([p1, p1] ! i) (push_all (p0 # take i [p1, p1]) new_reassembler)) = None)"
  proof (rule reassembles_any_order)
    show "covers ?f (map packet_chunk [p0, p1, p1])"
      by (auto simp: covers_def c less_Suc_eq)
  qed (auto simp: c chunk_of_def begins_frame_def starts_with_soi_def slice_def SOI_def EOI_def jpeg_ok_def MAX_FRAME_SIZE_def)
  then show ?thesis unfolding p0_def p1_def by blast
qed

text \<open>
  Under any sequence of packets and resets the buffer holds at most 4 MiB, as many bytes
  as the furthest one written, and every image that comes out is at most that large, starts
  with the start-of-image marker and ends with an end-of-image marker.
\<close>

theorem reassembler_bounded:
  "ra_inv (fst (run ra_step new_reassembler es)) \<and> list_all jpeg_ok (snd (run ra_step new_reassembler es))"
  using jpeg.run_inv [OF ra_inv_new(1)] jpeg.run_effects [OF ra_inv_new(1) ra_step_jpeg] by blast

end
