(* ===== verification/Ice_Responder.thy ===== *)
theory Ice_Responder
  imports Crypto Text
begin

unbundle bit_operations_syntax

text \<open>
  Models \<^verbatim>\<open>src/tuya_ipc_p2p_sdk/transport/ice_responder.py\<close>: the host candidate, the STUN
  binding success and the datagram handler. The probe socket and the bound socket are the
  operating system's: what they report is an argument. \<open>stun_message\<close>, \<open>signed_part\<close> and
  \<open>mapped_endpoint\<close> are the reading a STUN agent gives a message (RFC 5389), against which the
  responses are verified.
\<close>

section \<open>Candidates\<close>

definition STUN_MAGIC_COOKIE :: nat where "STUN_MAGIC_COOKIE = 0x2112A442"
definition BINDING_REQUEST :: nat where "BINDING_REQUEST = 0x0001"
definition BINDING_SUCCESS :: nat where "BINDING_SUCCESS = 0x0101"
definition ATTRIBUTE_XOR_MAPPED_ADDRESS :: nat where "ATTRIBUTE_XOR_MAPPED_ADDRESS = 0x0020"
definition ATTRIBUTE_MESSAGE_INTEGRITY :: nat where "ATTRIBUTE_MESSAGE_INTEGRITY = 0x0008"
definition ATTRIBUTE_FINGERPRINT :: nat where "ATTRIBUTE_FINGERPRINT = 0x8028"
definition FINGERPRINT_XOR :: "32 word" where "FINGERPRINT_XOR = 0x5354554E"
definition HOST_CANDIDATE_PRIORITY :: nat where "HOST_CANDIDATE_PRIORITY = 2130706431"
definition STUN_HEADER_LENGTH :: nat where "STUN_HEADER_LENGTH = 20"
definition INTEGRITY_LENGTH :: nat where "INTEGRITY_LENGTH = 24"
definition FINGERPRINT_LENGTH :: nat where "FINGERPRINT_LENGTH = 8"

lemmas stun_constants = STUN_MAGIC_COOKIE_def BINDING_REQUEST_def BINDING_SUCCESS_def
  ATTRIBUTE_XOR_MAPPED_ADDRESS_def ATTRIBUTE_MESSAGE_INTEGRITY_def ATTRIBUTE_FINGERPRINT_def
  STUN_HEADER_LENGTH_def INTEGRITY_LENGTH_def FINGERPRINT_LENGTH_def

text \<open>\<open>probe\<close> is the address the probe socket was routed from, or None on an OSError.\<close>

definition local_address :: "string option \<Rightarrow> string" where
  "local_address probe = (case probe of None \<Rightarrow> ''127.0.0.1'' | Some address \<Rightarrow> address)"

definition candidate_line :: "string \<Rightarrow> nat \<Rightarrow> string" where
  "candidate_line address port =
     ''a=candidate:'' @ dec_digits (unat (crc32 (str_encode address))) @ '' 1 udp '' @
     dec_digits HOST_CANDIDATE_PRIORITY @ '' '' @ address @ '' '' @ dec_digits port @ '' typ host'' @ CRLF"

section \<open>Addresses\<close>

text \<open>\<^verbatim>\<open>socket.inet_aton\<close>: one to four numbers joined by dots, each decimal, octal or
  hexadecimal as in C, the last one filling the bytes that are left, up to the first space.\<close>

definition number_in :: "nat \<Rightarrow> string \<Rightarrow> nat option" where
  "number_in base s =
     (if s \<noteq> [] \<and> list_all (\<lambda>c. case hex_value c of Some d \<Rightarrow> d < base | None \<Rightarrow> False) s
      then Some (foldl (\<lambda>n c. base * n + (case hex_value c of Some d \<Rightarrow> d | None \<Rightarrow> 0)) 0 s) else None)"

definition inet_number :: "string \<Rightarrow> nat option" where
  "inet_number s =
     (if starts_with ''0x'' s \<or> starts_with ''0X'' s then number_in 16 (drop 2 s)
      else if starts_with ''0'' s then number_in 8 s
      else number_in 10 s)"

fun inet_parts :: "nat \<Rightarrow> string list \<Rightarrow> bytes option" where
  "inet_parts left [] = None"
| "inet_parts left [s] =
     (case inet_number s of None \<Rightarrow> None | Some n \<Rightarrow> if n < 256 ^ left then Some (be_bytes left n) else None)"
| "inet_parts left (s # rest) =
     (case inet_number s of
        None \<Rightarrow> None
      | Some n \<Rightarrow> if n < 256 \<and> 1 < left then map_option ((#) (word_of_nat n)) (inet_parts (left - 1) rest) else None)"

definition inet_aton :: "string \<Rightarrow> bytes option" where
  "inet_aton s = inet_parts 4 (split_on (CHR ''.'') (takeWhile (\<lambda>c. \<not> hex_space c) s))"

section \<open>Building a response\<close>

definition attribute :: "nat \<Rightarrow> bytes \<Rightarrow> exn + bytes" where
  "attribute attribute_type v =
     (let padding = (4 - length v mod 4) mod 4 in
      andThen (to_be 2 attribute_type) (\<lambda>t.
      andThen (to_be 2 (length v)) (\<lambda>l. Inr (t @ l @ v @ replicate padding 0))))"

definition xor_mapped_address :: "string \<Rightarrow> nat \<Rightarrow> exn + bytes" where
  "xor_mapped_address address port =
     (let raw = (case inet_aton address of None \<Rightarrow> [0, 0, 0, 0] | Some raw \<Rightarrow> raw) in
      andThen (to_be 4 (from_be raw XOR STUN_MAGIC_COOKIE)) (\<lambda>xored.
      andThen (to_be 2 (port XOR drop_bit 16 STUN_MAGIC_COOKIE)) (\<lambda>p. Inr ([0x00, 0x01] @ p @ xored))))"

definition build_binding_success :: "bytes \<Rightarrow> string \<Rightarrow> nat \<Rightarrow> string \<Rightarrow> exn + bytes" where
  "build_binding_success transaction_id address port local_password =
     andThen (andThen (xor_mapped_address address port) (attribute ATTRIBUTE_XOR_MAPPED_ADDRESS)) (\<lambda>body.
     let header = be_bytes 2 BINDING_SUCCESS @ [0x00, 0x00] @ be_bytes 4 STUN_MAGIC_COOKIE @ transaction_id;
         message = header @ body
     in andThen (to_be 2 (length body + INTEGRITY_LENGTH)) (\<lambda>l1.
        let message = set_slice message 2 4 l1;
            integrity = hmac_sha1 (str_encode local_password) message
        in andThen (attribute ATTRIBUTE_MESSAGE_INTEGRITY integrity) (\<lambda>a1.
           let message = message @ a1
           in andThen (to_be 2 (length message - STUN_HEADER_LENGTH + FINGERPRINT_LENGTH)) (\<lambda>l2.
              let message = set_slice message 2 4 l2;
                  fingerprint = (crc32 message XOR FINGERPRINT_XOR) AND 0xFFFFFFFF
              in andThen (attribute ATTRIBUTE_FINGERPRINT (be_bytes 4 (unat fingerprint))) (\<lambda>a2. Inr (message @ a2))))))"

section \<open>The responder\<close>

record responder =
  ir_local_password :: string
  ir_transport :: bool

datatype responder_effect = Candidate string | Reply bytes str_or_bytes nat | SocketClosed

definition new_responder :: "string \<Rightarrow> responder" where
  "new_responder local_password = \<lparr>ir_local_password = local_password, ir_transport = False\<rparr>"

definition gather :: "string option \<Rightarrow> nat \<Rightarrow> responder \<Rightarrow> responder \<times> responder_effect list" where
  "gather probe port s = (s\<lparr>ir_transport := True\<rparr>, [Candidate (candidate_line (local_address probe) port)])"

fun host_text :: "str_or_bytes \<Rightarrow> exn + string" where
  "host_text (Str s) = Inr s"
| "host_text (Raw b) = utf8_decode b"

definition datagram_received :: "bytes \<Rightarrow> str_or_bytes \<Rightarrow> nat \<Rightarrow> responder \<Rightarrow> exn + responder_effect list" where
  "datagram_received data host port s =
     (if \<not> ir_transport s \<or> length data < STUN_HEADER_LENGTH then Inr []
      else if from_be (slice data 0 2) \<noteq> BINDING_REQUEST then Inr []
      else if from_be (slice data 4 8) \<noteq> STUN_MAGIC_COOKIE then Inr []
      else andThen (host_text host) (\<lambda>address.
           andThen (build_binding_success (slice data 8 20) address port (ir_local_password s)) (\<lambda>m.
             Inr [Reply m host port])))"

definition close_responder :: "responder \<Rightarrow> responder \<times> responder_effect list" where
  "close_responder s = (s\<lparr>ir_transport := False\<rparr>, if ir_transport s then [SocketClosed] else [])"

section \<open>Reading a STUN message\<close>

function stun_attributes :: "bytes \<Rightarrow> (nat \<times> bytes) list option" where
  "stun_attributes bs =
     (if bs = [] then Some []
      else if length bs < 4 then None
      else let l = from_be (slice bs 2 4); e = 4 + (l + 3) div 4 * 4
           in if length bs < e then None
              else map_option ((#) (from_be (slice bs 0 2), slice bs 4 (4 + l))) (stun_attributes (drop e bs)))"
  by pat_completeness auto
termination by (relation "measure length") auto

declare stun_attributes.simps [simp del]

text \<open>Type, transaction id and attributes of a message whose length field covers it.\<close>

definition stun_message :: "bytes \<Rightarrow> (nat \<times> bytes \<times> (nat \<times> bytes) list) option" where
  "stun_message m =
     (if length m < 20 \<or> from_be (slice m 4 8) \<noteq> 0x2112A442 \<or> from_be (slice m 2 4) \<noteq> length m - 20 then None
      else map_option (\<lambda>attributes. (from_be (slice m 0 2), slice m 8 20, attributes)) (stun_attributes (drop 20 m)))"

text \<open>What the integrity attribute at offset \<open>n\<close> signs: everything before it, with the length
  field counting the message up to its end.\<close>

definition signed_part :: "nat \<Rightarrow> bytes \<Rightarrow> bytes" where
  "signed_part n m = take 2 m @ be_bytes 2 (n + 24 - 20) @ slice m 4 n"

definition mapped_endpoint :: "bytes \<Rightarrow> bytes \<times> nat" where
  "mapped_endpoint v = (be_bytes 4 (from_be (slice v 4 8) XOR 0x2112A442), from_be (slice v 2 4) XOR 0x2112)"

section \<open>Laws\<close>

lemma attribute_eq:
  "t < 65536 \<Longrightarrow> length v < 65536 \<Longrightarrow>
     attribute t v = Inr (be_bytes 2 t @ be_bytes 2 (length v) @ v @ replicate ((4 - length v mod 4) mod 4) 0)"
proof -
  assume "t < 65536" "length v < 65536"
  then have "to_be 2 t = Inr (be_bytes 2 t)" "to_be 2 (length v) = Inr (be_bytes 2 (length v))"
    by (simp_all add: to_be_def)
  then show ?thesis by (simp only: attribute_def Let_def andThen.simps)
qed

lemma padded_length: "4 + (n + 3) div 4 * 4 = 4 + n + (4 - n mod 4) mod (4 :: nat)"
proof -
  obtain q r where n: "n = 4 * q + r" "r < 4"
    using mod_less_divisor [of 4 n] by (metis div_mult_mod_eq mult.commute zero_less_numeral)
  then consider "r = 0" | "r = 1" | "r = 2" | "r = 3" by linarith
  moreover have "(4 * q + r) mod 4 = r" using n(2) by simp
  ultimately show ?thesis unfolding n(1) by cases (simp_all only:, simp_all)
qed

lemma stun_attribute:
  assumes "t < 65536" "length v < 65536" "attribute t v = Inr a"
  shows "stun_attributes (a @ rest) = map_option ((#) (t, v)) (stun_attributes rest)"
proof -
  define p where "p = (4 - length v mod 4) mod 4"
  have a: "a = be_bytes 2 t @ be_bytes 2 (length v) @ v @ replicate p 0"
    using assms(3) unfolding attribute_eq [OF assms(1,2)] p_def by (simp only: sum.inject)
  have e: "4 + (length v + 3) div 4 * 4 = 4 + length v + p" unfolding p_def by (rule padded_length)
  have s: "slice (a @ rest) 0 2 = be_bytes 2 t" "slice (a @ rest) 2 4 = be_bytes 2 (length v)"
    "slice (a @ rest) 4 (4 + length v) = v"
    unfolding a by (simp_all add: slices)
  have d: "drop (4 + length v + p) (a @ rest) = rest" "\<not> length (a @ rest) < 4 + length v + p"
    "\<not> length (a @ rest) < 4"
    unfolding a by (simp_all add: drop_append)
  have ne: "a @ rest \<noteq> []" using d(3) by force
  have f: "from_be (be_bytes 2 t) = t" "from_be (be_bytes 2 (length v)) = length v"
    using assms(1,2) by (simp_all add: from_be_be_bytes)
  show ?thesis
    by (subst stun_attributes.simps) (simp only: s f e d ne Let_def if_False)
qed

lemma xor_bound: "x < 2 ^ n \<Longrightarrow> y < 2 ^ n \<Longrightarrow> x XOR y < (2 :: nat) ^ n"
  by (metis take_bit_xor take_bit_nat_eq_self take_bit_nat_less_exp)

lemma xor_twice: "(x XOR y) XOR y = (x :: nat)"
  by (simp add: xor.assoc)

lemma length_inet_parts: "inet_parts n parts = Some raw \<Longrightarrow> length raw = n"
  by (induction n parts arbitrary: raw rule: inet_parts.induct) (auto split: option.splits if_splits)

lemma length_inet_aton: "inet_aton address = Some raw \<Longrightarrow> length raw = 4"
  unfolding inet_aton_def by (rule length_inet_parts)

text \<open>The bytes of an address; anything that is not one is taken as 0.0.0.0.\<close>

definition address_bytes :: "string \<Rightarrow> bytes" where
  "address_bytes address = (case inet_aton address of None \<Rightarrow> [0, 0, 0, 0] | Some raw \<Rightarrow> raw)"

lemma length_address_bytes: "length (address_bytes address) = 4"
  by (simp add: address_bytes_def length_inet_aton split: option.split)

lemma xor_mapped_address_eq:
  assumes "port < 65536"
  shows "\<exists>v. xor_mapped_address address port = Inr v \<and> length v = 8 \<and>
    mapped_endpoint v = (address_bytes address, port)"
proof -
  define raw where "raw = address_bytes address"
  have l: "length raw = 4" unfolding raw_def by (rule length_address_bytes)
  have r: "from_be raw < 2 ^ 32" using from_be_bound [of raw] l by simp
  have x: "from_be raw XOR STUN_MAGIC_COOKIE < 2 ^ 32" "port XOR 0x2112 < 2 ^ 16"
    using xor_bound [of "from_be raw" 32 STUN_MAGIC_COOKIE] xor_bound [of port 16 "0x2112"] r assms(1)
    by (simp_all add: STUN_MAGIC_COOKIE_def)
  have s: "drop_bit 16 STUN_MAGIC_COOKIE = 0x2112" by (simp add: STUN_MAGIC_COOKIE_def drop_bit_eq_div)
  let ?v = "[0x00, 0x01] @ be_bytes 2 (port XOR 0x2112) @ be_bytes 4 (from_be raw XOR STUN_MAGIC_COOKIE)"
  have "slice ?v 2 4 = be_bytes 2 (port XOR 0x2112)" "slice ?v 4 8 = be_bytes 4 (from_be raw XOR STUN_MAGIC_COOKIE)"
    by (simp_all add: slices)
  moreover have "be_bytes 4 (from_be raw) = raw" using be_bytes_from_be [of raw] l by simp
  ultimately have "mapped_endpoint ?v = (raw, port)"
    using x by (simp add: mapped_endpoint_def from_be_be_bytes xor_twice STUN_MAGIC_COOKIE_def)
  then show ?thesis
    using x by (intro exI [of _ ?v])
      (simp add: xor_mapped_address_def raw_def [unfolded address_bytes_def, symmetric]
        raw_def [symmetric] s to_be_def)
qed

lemma from_be_pair: "from_be [a, b] = 256 * unat a + unat b"
  by (simp add: from_be_def)

lemma from_be_eq: "length bs = n \<Longrightarrow> x < 256 ^ n \<Longrightarrow> from_be bs = x \<longleftrightarrow> bs = be_bytes n x"
proof
  assume "length bs = n" "from_be bs = x"
  then show "bs = be_bytes n x" using be_bytes_from_be [of bs] by simp
next
  assume "x < 256 ^ n" "bs = be_bytes n x"
  then show "from_be bs = x" by (simp only: from_be_be_bytes mod_less)
qed

text \<open>The response byte by byte, for any attribute value of eight bytes.\<close>

definition stun_header :: "nat \<Rightarrow> bytes \<Rightarrow> bytes" where
  "stun_header l transaction_id =
     be_bytes 2 BINDING_SUCCESS @ be_bytes 2 l @ be_bytes 4 STUN_MAGIC_COOKIE @ transaction_id"

definition plain_attribute :: "nat \<Rightarrow> bytes \<Rightarrow> bytes" where
  "plain_attribute t v = be_bytes 2 t @ be_bytes 2 (length v) @ v"

definition integrity_of :: "string \<Rightarrow> bytes \<Rightarrow> bytes" where
  "integrity_of password m = plain_attribute ATTRIBUTE_MESSAGE_INTEGRITY (hmac_sha1 (str_encode password) m)"

definition fingerprint_of :: "bytes \<Rightarrow> bytes" where
  "fingerprint_of m = plain_attribute ATTRIBUTE_FINGERPRINT (be_bytes 4 (unat (crc32 m XOR FINGERPRINT_XOR)))"

definition response :: "bytes \<Rightarrow> string \<Rightarrow> bytes \<Rightarrow> bytes" where
  "response transaction_id password v =
     (let a0 = plain_attribute ATTRIBUTE_XOR_MAPPED_ADDRESS v;
          a1 = integrity_of password (stun_header 36 transaction_id @ a0)
      in stun_header 44 transaction_id @ a0 @ a1 @ fingerprint_of (stun_header 44 transaction_id @ a0 @ a1))"

lemma length_plain_attribute [simp]: "length (plain_attribute t v) = 4 + length v"
  by (simp add: plain_attribute_def)

lemma attribute_plain: "t < 65536 \<Longrightarrow> length v < 65536 \<Longrightarrow> length v mod 4 = 0 \<Longrightarrow> attribute t v = Inr (plain_attribute t v)"
  by (simp add: attribute_eq plain_attribute_def)

lemma length_integrity [simp]: "length (integrity_of password m) = 24" "length (fingerprint_of m) = 8"
  by (simp_all add: integrity_of_def fingerprint_of_def)

lemma length_stun_header: "length (stun_header l transaction_id) = 8 + length transaction_id"
  by (simp add: stun_header_def)

lemma set_length: "set_slice (stun_header l tid @ xs) 2 4 (be_bytes 2 l') = stun_header l' tid @ xs"
  unfolding stun_header_def set_slice_def by (simp add: drop_append)

lemma binding_success_layout:
  assumes "length transaction_id = 12" "xor_mapped_address address port = Inr v" "length v = 8"
  shows "build_binding_success transaction_id address port password = Inr (response transaction_id password v)"
proof -
  let ?a0 = "plain_attribute ATTRIBUTE_XOR_MAPPED_ADDRESS v" and ?h = "\<lambda>l. stun_header l transaction_id"
  let ?a1 = "integrity_of password (?h 36 @ ?a0)"
  have p0: "be_bytes 2 BINDING_SUCCESS @ [0x00, 0x00] @ be_bytes 4 STUN_MAGIC_COOKIE @ transaction_id = ?h 0"
    unfolding stun_header_def by (simp add: be_bytes_def numeral_2_eq_2)
  have at0: "attribute ATTRIBUTE_XOR_MAPPED_ADDRESS v = Inr ?a0"
    by (rule attribute_plain) (simp_all add: assms(3) ATTRIBUTE_XOR_MAPPED_ADDRESS_def)
  have at1: "attribute ATTRIBUTE_MESSAGE_INTEGRITY (hmac_sha1 (str_encode password) m) = Inr (integrity_of password m)" for m
    unfolding integrity_of_def by (rule attribute_plain) (simp_all add: ATTRIBUTE_MESSAGE_INTEGRITY_def)
  have at2: "attribute ATTRIBUTE_FINGERPRINT (be_bytes 4 (unat (crc32 m XOR FINGERPRINT_XOR))) = Inr (fingerprint_of m)" for m
    unfolding fingerprint_of_def by (rule attribute_plain) (simp_all add: ATTRIBUTE_FINGERPRINT_def)
  have m: "w AND 0xFFFFFFFF = w" for w :: "32 word"
  proof -
    have "(0xFFFFFFFF :: 32 word) = - 1" by simp
    then show ?thesis by (simp only: and.right_neutral)
  qed
  have t: "to_be 2 36 = Inr (be_bytes 2 36)" "to_be 2 44 = Inr (be_bytes 2 44)"
    by (simp_all add: to_be_def)
  have n: "length ?a0 + INTEGRITY_LENGTH = 36"
    "length ((?h 36 @ ?a0) @ ?a1) - STUN_HEADER_LENGTH + FINGERPRINT_LENGTH = 44"
    by (simp_all add: length_stun_header assms(1,3) INTEGRITY_LENGTH_def STUN_HEADER_LENGTH_def FINGERPRINT_LENGTH_def)
  have s2: "set_slice ((?h 36 @ ?a0) @ ?a1) 2 4 (be_bytes 2 44) = ?h 44 @ ?a0 @ ?a1"
    by (simp add: set_length)
  show ?thesis
    unfolding build_binding_success_def assms(2) andThen.simps at0 Let_def p0 n(1) t set_length at1 n(2) s2 m at2 response_def
    by simp
qed

lemma response_layout:
  fixes password :: string
  assumes "length transaction_id = 12" "length v = 8"
  defines "m \<equiv> response transaction_id password v"
  shows "length m = 64" "slice m 0 2 = be_bytes 2 BINDING_SUCCESS" "slice m 2 4 = be_bytes 2 44"
    "slice m 4 8 = be_bytes 4 STUN_MAGIC_COOKIE" "slice m 8 20 = transaction_id"
    "drop 20 m = plain_attribute ATTRIBUTE_XOR_MAPPED_ADDRESS v @
       integrity_of password (signed_part 32 m) @ fingerprint_of (take 56 m)"
proof -
  let ?a0 = "plain_attribute ATTRIBUTE_XOR_MAPPED_ADDRESS v" and ?h = "\<lambda>l. stun_header l transaction_id"
  let ?a1 = "integrity_of password (?h 36 @ ?a0)"
  let ?a2 = "fingerprint_of (?h 44 @ ?a0 @ ?a1)"
  have m: "m = ?h 44 @ ?a0 @ ?a1 @ ?a2" by (simp add: m_def response_def Let_def)
  have l: "length (?h n) = 20" for n by (simp add: length_stun_header assms(1))
  show "length m = 64" unfolding m by (simp add: l assms(2))
  show "slice m 0 2 = be_bytes 2 BINDING_SUCCESS" "slice m 2 4 = be_bytes 2 44"
    "slice m 4 8 = be_bytes 4 STUN_MAGIC_COOKIE" "slice m 8 20 = transaction_id"
    unfolding m stun_header_def using assms(1) by (simp_all add: slices)
  have "take 56 m = ?h 44 @ ?a0 @ ?a1" unfolding m by (simp add: l assms(2))
  moreover have "signed_part 32 m = ?h 36 @ ?a0"
    unfolding m signed_part_def stun_header_def using assms by (simp add: slices slice_zero)
  moreover have "drop 20 m = ?a0 @ ?a1 @ ?a2" unfolding m by (simp add: l)
  ultimately show "drop 20 m = ?a0 @ integrity_of password (signed_part 32 m) @ fingerprint_of (take 56 m)"
    by simp
qed

lemma stun_plain_attribute:
  "t < 65536 \<Longrightarrow> length v < 65536 \<Longrightarrow> length v mod 4 = 0 \<Longrightarrow>
     stun_attributes (plain_attribute t v @ rest) = map_option ((#) (t, v)) (stun_attributes rest)"
  by (rule stun_attribute) (assumption | rule attribute_plain)+

text \<open>A STUN binding request: the type, any length, the cookie, a transaction id, anything.\<close>

definition is_binding_request :: "bytes \<Rightarrow> bool" where
  "is_binding_request data \<longleftrightarrow> 20 \<le> length data \<and>
     take 2 data = [0x00, 0x01] \<and> take 4 (drop 4 data) = [0x21, 0x12, 0xA4, 0x42]"

lemma cookie_bytes: "be_bytes 4 STUN_MAGIC_COOKIE = [0x21, 0x12, 0xA4, 0x42]" "be_bytes 2 BINDING_REQUEST = [0x00, 0x01]"
proof -
  have n: "4 = Suc (Suc (Suc (Suc 0)))" "2 = Suc (Suc 0)" by simp_all
  have b: "be_bytes (Suc (Suc (Suc (Suc 0)))) x = [word_of_nat (x div 256 div 256 div 256 mod 256), word_of_nat (x div 256 div 256 mod 256),
      word_of_nat (x div 256 mod 256), word_of_nat (x mod 256)]"
    "be_bytes (Suc (Suc 0)) x = [word_of_nat (x div 256 mod 256), word_of_nat (x mod 256)]" for x
    by (simp_all add: be_bytes_def)
  show "be_bytes 4 STUN_MAGIC_COOKIE = [0x21, 0x12, 0xA4, 0x42]" "be_bytes 2 BINDING_REQUEST = [0x00, 0x01]"
    using b [of STUN_MAGIC_COOKIE] b [of BINDING_REQUEST] unfolding n [symmetric]
    by (simp_all add: STUN_MAGIC_COOKIE_def BINDING_REQUEST_def)
qed

lemma is_binding_request_iff:
  "is_binding_request data \<longleftrightarrow> 20 \<le> length data \<and>
     from_be (slice data 0 2) = BINDING_REQUEST \<and> from_be (slice data 4 8) = STUN_MAGIC_COOKIE"
proof (cases "20 \<le> length data")
  case True
  then have "length (slice data 0 2) = 2" "length (slice data 4 8) = 4" by (simp_all add: lengths)
  then have "from_be (slice data 0 2) = BINDING_REQUEST \<longleftrightarrow> take 2 data = [0x00, 0x01]"
    "from_be (slice data 4 8) = STUN_MAGIC_COOKIE \<longleftrightarrow> take 4 (drop 4 data) = [0x21, 0x12, 0xA4, 0x42]"
    using from_be_eq [of "slice data 0 2" 2 BINDING_REQUEST] from_be_eq [of "slice data 4 8" 4 STUN_MAGIC_COOKIE]
    by (simp_all add: cookie_bytes slice_def) (simp_all add: BINDING_REQUEST_def STUN_MAGIC_COOKIE_def)
  then show ?thesis by (simp add: is_binding_request_def)
qed (simp add: is_binding_request_def)

section \<open>Properties\<close>

text \<open>
  C31: The answer to a binding request is what an ICE agent accepts: a binding success of the same
  transaction whose length field covers it, with the XOR-mapped IPv4 address of the requester,
  the HMAC-SHA1 integrity over everything before it under the length it is defined for, and the
  fingerprint over everything before that, as the last attributes.
\<close>

theorem binding_success_verifies:
  assumes "length transaction_id = 12" "port < 65536"
  shows "\<exists>m mapped. build_binding_success transaction_id address port password = Inr m \<and>
    stun_message m = Some (BINDING_SUCCESS, transaction_id,
      [(ATTRIBUTE_XOR_MAPPED_ADDRESS, mapped),
       (ATTRIBUTE_MESSAGE_INTEGRITY, hmac_sha1 (str_encode password) (signed_part (length m - 32) m)),
       (ATTRIBUTE_FINGERPRINT, be_bytes 4 (unat (crc32 (take (length m - 8) m) XOR 0x5354554E)))]) \<and>
    take 2 mapped = [0x00, 0x01] \<and> mapped_endpoint mapped = (address_bytes address, port)"
proof -
  obtain v where v: "xor_mapped_address address port = Inr v" "length v = 8"
    "mapped_endpoint v = (address_bytes address, port)"
    using xor_mapped_address_eq [OF assms(2)] by blast
  have family: "take 2 v = [0x00, 0x01]"
    using v(1) by (auto simp: xor_mapped_address_def andThen_Inr_iff Let_def)
  let ?m = "response transaction_id password v"
  note r = response_layout [OF assms(1) v(2), of password]
  have f: "from_be (be_bytes 2 BINDING_SUCCESS) = BINDING_SUCCESS" "from_be (be_bytes 2 44) = 44"
    "from_be (be_bytes 4 STUN_MAGIC_COOKIE) = 0x2112A442"
    by (simp_all add: from_be_be_bytes BINDING_SUCCESS_def STUN_MAGIC_COOKIE_def)
  have "stun_attributes (drop 20 ?m) = Some [(ATTRIBUTE_XOR_MAPPED_ADDRESS, v),
      (ATTRIBUTE_MESSAGE_INTEGRITY, hmac_sha1 (str_encode password) (signed_part 32 ?m)),
      (ATTRIBUTE_FINGERPRINT, be_bytes 4 (unat (crc32 (take 56 ?m) XOR FINGERPRINT_XOR)))]"
  proof -
    have e: "stun_attributes [] = Some []" by (simp add: stun_attributes.simps)
    have a: "stun_attributes (plain_attribute ATTRIBUTE_XOR_MAPPED_ADDRESS v @ rest) =
        map_option ((#) (ATTRIBUTE_XOR_MAPPED_ADDRESS, v)) (stun_attributes rest)" for rest
      by (rule stun_plain_attribute) (simp_all add: v(2) stun_constants)
    have b: "stun_attributes (plain_attribute ATTRIBUTE_MESSAGE_INTEGRITY (hmac_sha1 k x) @ rest) =
        map_option ((#) (ATTRIBUTE_MESSAGE_INTEGRITY, hmac_sha1 k x)) (stun_attributes rest)" for k x rest
      by (rule stun_plain_attribute) (simp_all add: stun_constants)
    have "stun_attributes (plain_attribute ATTRIBUTE_FINGERPRINT (be_bytes 4 n) @ []) =
        map_option ((#) (ATTRIBUTE_FINGERPRINT, be_bytes 4 n)) (stun_attributes [])" for n
      by (rule stun_plain_attribute) (simp_all add: stun_constants)
    then have c: "stun_attributes (plain_attribute ATTRIBUTE_FINGERPRINT (be_bytes 4 n)) =
        Some [(ATTRIBUTE_FINGERPRINT, be_bytes 4 n)]" for n
      by (simp only: append_Nil2 e option.map)
    show ?thesis unfolding r(6) integrity_of_def fingerprint_of_def a b c option.map ..
  qed
  then have "stun_message ?m = Some (BINDING_SUCCESS, transaction_id,
      [(ATTRIBUTE_XOR_MAPPED_ADDRESS, v),
       (ATTRIBUTE_MESSAGE_INTEGRITY, hmac_sha1 (str_encode password) (signed_part (length ?m - 32) ?m)),
       (ATTRIBUTE_FINGERPRINT, be_bytes 4 (unat (crc32 (take (length ?m - 8) ?m) XOR 0x5354554E)))])"
    unfolding stun_message_def by (simp add: r(1-5) f FINGERPRINT_XOR_def)
  with binding_success_layout [OF assms(1) v(1,2), of password] v(3) family show ?thesis by blast
qed

lemma binding_success_verifies_witness:
  "\<exists>m mapped. build_binding_success (replicate 12 7) ''192.168.1.20'' 51234 ''secret'' = Inr m \<and>
    map_option fst (stun_message m) = Some BINDING_SUCCESS \<and> mapped_endpoint mapped = ([192, 168, 1, 20], 51234)"
proof -
  have "address_bytes ''192.168.1.20'' = [192, 168, 1, 20]" by code_simp
  then show ?thesis
    using binding_success_verifies [of "replicate 12 7" 51234 "''192.168.1.20''" "''secret''"] by auto
qed

text \<open>
  The responder answers every binding request that reaches its open socket, to the address it
  came from and under the request's transaction id, and nothing else: shorter datagrams, other
  message types, other cookies and whatever arrives after the socket is released get no answer.
\<close>

theorem answers_binding_requests_only:
  assumes "port < 65536"
  shows "if ir_transport s \<and> is_binding_request data
    then \<exists>m. build_binding_success (slice data 8 20) host port (ir_local_password s) = Inr m \<and>
           datagram_received data (Str host) port s = Inr [Reply m (Str host) port]
    else datagram_received data (Str host) port s = Inr []"
proof (cases "ir_transport s \<and> is_binding_request data")
  case True
  then have "length (slice data 8 20) = 12" by (auto simp: is_binding_request_def lengths)
  moreover obtain v where "xor_mapped_address host port = Inr v" "length v = 8"
    using xor_mapped_address_eq [OF assms] by blast
  ultimately have "build_binding_success (slice data 8 20) host port (ir_local_password s) =
      Inr (response (slice data 8 20) (ir_local_password s) v)"
    by (rule binding_success_layout)
  then show ?thesis
    using True by (simp add: datagram_received_def is_binding_request_iff STUN_HEADER_LENGTH_def)
next
  case False
  then show ?thesis
    by (auto simp: datagram_received_def is_binding_request_iff STUN_HEADER_LENGTH_def)
qed

lemma answers_binding_requests_only_witness:
  "\<exists>m. datagram_received ([0, 1, 0, 0, 0x21, 0x12, 0xA4, 0x42] @ replicate 12 7) (Str ''10.0.0.9'') 5000
     (fst (gather None 4000 (new_responder ''pw''))) = Inr [Reply m (Str ''10.0.0.9'') 5000]"
  using answers_binding_requests_only [of 5000 "fst (gather None 4000 (new_responder ''pw''))"
      "[0, 1, 0, 0, 0x21, 0x12, 0xA4, 0x42] @ replicate 12 7" "''10.0.0.9''"]
  by (auto simp: gather_def is_binding_request_def)

end
