(* ===== verification/Gateway_Signing.thy ===== *)
theory Gateway_Signing
  imports Crypto Models "HOL-Library.List_Lexorder" "HOL-Library.Char_ord"
begin

text \<open>
  Models \<^verbatim>\<open>src/tuya_ipc_p2p_sdk/const.py\<close>, \<^verbatim>\<open>gateway/signing.py\<close> and
  \<^verbatim>\<open>gateway/identity.py\<close>: the constants of the app build, the request signature, the body
  keys and the broker identity. Dictionaries of parameters are association lists; strings are
  ordered by code point.
\<close>

section \<open>Constants\<close>

definition PACKAGE_NAME :: string where "PACKAGE_NAME = ''com.tuya.smartlife''"
definition CERT_SHA256 :: string where
  "CERT_SHA256 = ''0F:C3:61:99:9C:C0:C3:5B:A8:AC:A5:7D:AA:55:93:A2'' @
     '':0C:F5:57:27:70:2E:A8:5A:D7:B3:22:89:49:F8:88:FE''"
definition DERIVED_KEY :: string where "DERIVED_KEY = ''jfg5rs5kkmrj5mxahugvucrsvw43t48x''"
definition APP_SECRET :: string where "APP_SECRET = ''r3me7ghmxjevrvnpemwmhw3fxtacphyg''"
definition COMPOSITE_KEY :: string where
  "COMPOSITE_KEY = PACKAGE_NAME @ ''_'' @ CERT_SHA256 @ ''_'' @ DERIVED_KEY @ ''_'' @ APP_SECRET"
definition CLIENT_ID :: string where "CLIENT_ID = ''ekmnwp9f5pnh3trdtpgy''"
definition CH_KEY :: string where "CH_KEY = ''ec9709a4''"
definition APP_VERSION :: string where "APP_VERSION = ''7.10.3''"
definition SDK_VERSION :: string where "SDK_VERSION = ''5.2.0''"
definition LANGUAGE :: string where "LANGUAGE = ''en_US''"
definition TTID :: string where "TTID = ''sdk_international@'' @ CLIENT_ID"
definition PARTNER_IDENTITY :: string where "PARTNER_IDENTITY = ''p1000018''"
definition CLIENT_ID_SALT :: string where "CLIENT_ID_SALT = ''sdkfasodifca''"
definition DEFAULT_DEVICE_FINGERPRINT :: string where "DEFAULT_DEVICE_FINGERPRINT = replicate 44 (CHR ''a'')"
definition DEFAULT_REGION :: string where "DEFAULT_REGION = ''us''"
definition CLOSE_REASON_BUSY :: int where "CLOSE_REASON_BUSY = 12"
definition BROKER_PORT :: nat where "BROKER_PORT = 8883"

definition gateway_url :: "string \<Rightarrow> string" where
  "gateway_url region = ''https://a1-'' @ region @ ''.lifeaiot.com/api.json''"

definition broker_host :: "string \<Rightarrow> string" where
  "broker_host region = ''m1-'' @ region @ ''.lifeaiot.com''"

section \<open>Signing\<close>

definition BODY_KEY_LENGTH :: nat where "BODY_KEY_LENGTH = 16"
definition MD5_HEX_LENGTH :: nat where "MD5_HEX_LENGTH = 32"

definition SIGN_WHITELIST :: "string list" where
  "SIGN_WHITELIST = [''a'', ''v'', ''lat'', ''lon'', ''lang'', ''deviceId'', ''appVersion'', ''ttid'', ''isH5'',
     ''h5Token'', ''os'', ''clientId'', ''postData'', ''time'', ''requestId'', ''et'', ''n4h5'', ''sid'', ''chKey'', ''sp'']"

definition sign :: "string \<Rightarrow> string \<Rightarrow> string" where
  "sign sign_string key = hmac_sha256_hex (Str key) (Str sign_string)"

text \<open>\<^verbatim>\<open>params[key]\<close>, for the keys of the dictionary.\<close>

definition param :: "(string \<times> string) list \<Rightarrow> string \<Rightarrow> string" where
  "param params key = (case map_of params key of None \<Rightarrow> [] | Some v \<Rightarrow> v)"

definition build_sign_string :: "(string \<times> string) list \<Rightarrow> string" where
  "build_sign_string params =
     join ''||'' (map (\<lambda>key. key @ ''='' @ param params key)
       (filter (\<lambda>key. param params key \<noteq> [] \<and> key \<in> set SIGN_WHITELIST) (sort (map fst params))))"

definition swap_sign_string :: "string \<Rightarrow> string" where
  "swap_sign_string v =
     (if length v \<noteq> MD5_HEX_LENGTH then v else slice v 8 16 @ slice v 0 8 @ slice v 24 32 @ slice v 16 24)"

definition post_data_sign_field :: "string \<Rightarrow> string" where
  "post_data_sign_field encrypted_post_data = swap_sign_string (md5_hex (Str encrypted_post_data))"

definition body_key :: "string \<Rightarrow> string \<Rightarrow> string \<Rightarrow> string" where
  "body_key request_id ecode key = take BODY_KEY_LENGTH (hmac_sha256_hex (Str request_id) (Str (key @ ''_'' @ ecode)))"

definition pre_login_body_key :: "string \<Rightarrow> string \<Rightarrow> string" where
  "pre_login_body_key request_id key = take BODY_KEY_LENGTH (hmac_sha256_hex (Str request_id) (Str key))"

section \<open>Broker identity\<close>

definition mqtt_client_id :: "string \<Rightarrow> string \<Rightarrow> string" where
  "mqtt_client_id device_fingerprint uid =
     PACKAGE_NAME @ ''_mb_'' @ device_fingerprint @ ''_'' @ md5_hex (Str (uid @ CLIENT_ID_SALT)) @ ''_DEFAULT''"

definition mqtt_username :: "string \<Rightarrow> string \<Rightarrow> string \<Rightarrow> string" where
  "mqtt_username sid ecode app_key =
     (let tail = slice (md5_hex (Str (md5_hex (Str app_key) @ ecode))) 16 32
      in PARTNER_IDENTITY @ ''_v1_'' @ app_key @ ''_'' @ CH_KEY @ ''_mb_'' @ sid @ tail)"

definition mqtt_password :: "string \<Rightarrow> string \<Rightarrow> string" where
  "mqtt_password ecode key = slice (md5_hex (Str (md5_hex (Str key) @ ecode))) 8 24"

definition build_mqtt_identity :: "account_session \<Rightarrow> string \<Rightarrow> mqtt_identity" where
  "build_mqtt_identity session region =
     \<lparr>mq_host = broker_host region, mq_port = BROKER_PORT,
      mq_client_id = mqtt_client_id (acc_device_fingerprint session) (acc_uid session),
      mq_username = mqtt_username (acc_sid session) (acc_ecode session) CLIENT_ID,
      mq_password = mqtt_password (acc_ecode session) COMPOSITE_KEY\<rparr>"

section \<open>Laws\<close>

lemma length_body_keys:
  "length (body_key r e k) = 16" "length (pre_login_body_key r k) = 16"
  by (simp_all add: body_key_def pre_login_body_key_def BODY_KEY_LENGTH_def)

lemma swap_sign_string_involution: "swap_sign_string (swap_sign_string v) = v"
proof (cases "length v = 32")
  case True
  have "v = slice v 0 8 @ slice v 8 16 @ slice v 16 24 @ slice v 24 32"
    using True by (simp add: slice_join slice_all)
  moreover have "length (slice v 0 8) = 8" "length (slice v 8 16) = 8" "length (slice v 16 24) = 8" "length (slice v 24 32) = 8"
    using True by (simp_all add: lengths)
  ultimately obtain a b c d where v: "v = a @ b @ c @ d" and "length a = 8" "length b = 8" "length c = 8" "length d = 8"
    by blast
  then show ?thesis by (simp add: swap_sign_string_def MD5_HEX_LENGTH_def slices)
qed (simp add: swap_sign_string_def MD5_HEX_LENGTH_def)

lemma param_member: "param params key \<noteq> [] \<Longrightarrow> key \<in> set (map fst params)"
  by (auto simp: param_def split: option.splits dest: map_of_SomeD intro: rev_image_eqI)

text \<open>What of a dictionary enters the sign string.\<close>

definition signed_keys :: "(string \<times> string) list \<Rightarrow> string list" where
  "signed_keys params = filter (\<lambda>key. param params key \<noteq> [] \<and> key \<in> set SIGN_WHITELIST) (sort (map fst params))"

lemma signed_keys_laws:
  assumes "distinct (map fst params)"
  shows "sorted (signed_keys params)" "distinct (signed_keys params)"
    "set (signed_keys params) = {key \<in> set SIGN_WHITELIST. param params key \<noteq> []}"
  using assms param_member [of params]
  by (auto simp: signed_keys_def sorted_filter [of id, simplified] distinct_sort)

lemma build_sign_string_cong:
  assumes "distinct (map fst p)" "distinct (map fst q)" "\<forall>key \<in> set SIGN_WHITELIST. param p key = param q key"
  shows "build_sign_string p = build_sign_string q"
proof -
  have "set (signed_keys p) = set (signed_keys q)"
    using assms by (auto simp: signed_keys_laws)
  then have k: "signed_keys p = signed_keys q"
    using assms(1,2) by (intro sorted_distinct_set_unique) (simp_all add: signed_keys_laws)
  have "map (\<lambda>key. key @ ''='' @ param p key) (signed_keys p) = map (\<lambda>key. key @ ''='' @ param q key) (signed_keys q)"
    unfolding k using assms(3) signed_keys_laws(3) [OF assms(2)] by (intro map_cong) auto
  then show ?thesis by (simp add: build_sign_string_def signed_keys_def)
qed

section \<open>Properties\<close>

text \<open>
  The sign string is canonical: it depends only on the non-empty values of the whitelisted
  parameters, not on the order of the dictionary nor on any other parameter, so the gateway
  rebuilds the same string from the form it receives.
\<close>

theorem sign_string_canonical:
  assumes "distinct (map fst p)" "distinct (map fst q)" "\<forall>key \<in> set SIGN_WHITELIST. param p key = param q key"
  shows "build_sign_string p = build_sign_string q"
  by (rule build_sign_string_cong [OF assms])

lemma sign_string_canonical_witness:
  "build_sign_string [(''v'', ''1''), (''sign'', ''zz''), (''a'', ''x''), (''et'', [])] = build_sign_string [(''a'', ''x''), (''v'', ''1'')]"
  by (rule sign_string_canonical) (simp_all add: SIGN_WHITELIST_def param_def)

end
