(* ===== verification/Stream_Session.thy ===== *)
theory Stream_Session
  imports Relay_Session Moto_Client Sdp Control Jpeg_Reassembler Ice_Responder Gateway_Signing
begin

text \<open>
  Models \<^verbatim>\<open>src/tuya_ipc_p2p_sdk/stream_session.py\<close>: one streaming session from the
  signaling to the images. The record \<open>stream\<close> holds the session and the components it owns,
  each in its own model; the two futures are values. The callbacks the components were given
  are the handlers of this theory, and \<open>stream_step\<close> routes what a component reports to
  them: an inbound broker message, a datagram, an event of the relay, the task that publishes a
  gathered candidate.

  \<^verbatim>\<open>async_start\<close> is a sequence of operations, one per method it awaits; where it waits for a
  future, the events handled meanwhile are an argument, and a future that is then still pending is
  the timeout. Events that arrive while it publishes are taken at the next wait: publishing
  reads nothing they change. Dialling has the twelve attempts of the code, with what the network
  answers to each as an argument.
\<close>

section \<open>State\<close>

definition RELAY_DIAL_ATTEMPTS :: nat where "RELAY_DIAL_ATTEMPTS = 12"
definition RENDEZVOUS_SUFFIX_LENGTH :: nat where "RENDEZVOUS_SUFFIX_LENGTH = 8"

datatype answer_future = AnswerPending | Answered sdp_answer | AnswerFailed exn | AnswerCancelled

record stream =
  ss_config :: stream_config
  ss_uid :: string
  ss_reassembler :: reassembler
  ss_candidates :: "string list"
  ss_candidate_tasks :: "string list"
  ss_moto :: "moto option"
  ss_relay :: "relay_session option"
  ss_ice :: "responder option"
  ss_answer :: answer_future
  ss_ended :: "string option"
  ss_answer_key :: bytes
  ss_frames :: nat
  ss_closing :: bool
  ss_receive_key :: "bytes option"
  ss_media_handler :: bool

text \<open>\<open>ss_receive_key\<close> and \<open>ss_media_handler\<close> are the closures installed as message handlers
  of the control and of the video conversation.\<close>

definition new_stream :: "stream_config \<Rightarrow> string \<Rightarrow> stream" where
  "new_stream config uid =
     \<lparr>ss_config = config, ss_uid = uid, ss_reassembler = new_reassembler, ss_candidates = [],
      ss_candidate_tasks = [], ss_moto = None, ss_relay = None, ss_ice = None, ss_answer = AnswerPending,
      ss_ended = None, ss_answer_key = [], ss_frames = 0, ss_closing = False, ss_receive_key = None,
      ss_media_handler = False\<rparr>"

datatype stream_effect =
    Frame bytes
  | Signaling moto_effect
  | Relay relay_effect
  | Ice responder_effect
  | HandlerFailed exn

section \<open>Callbacks\<close>

definition answer_done :: "stream \<Rightarrow> bool" where
  "answer_done s \<longleftrightarrow> ss_answer s \<noteq> AnswerPending"

definition finish :: "string \<Rightarrow> stream \<Rightarrow> stream" where
  "finish reason s = (if ss_ended s = None then s\<lparr>ss_ended := Some reason\<rparr> else s)"

text \<open>The session after the callback, and the exception that leaves it. What \<open>on_control_record\<close>
  parses is only logged, and parsing is total.\<close>

definition on_answer :: "string \<Rightarrow> stream \<Rightarrow> stream \<times> exn option" where
  "on_answer sdp s =
     (if answer_done s then (s, None)
      else case parse_answer sdp of
        Inr answer \<Rightarrow> (s\<lparr>ss_answer := Answered answer\<rparr>, None)
      | Inl e \<Rightarrow> if is_tuya_error e then (s\<lparr>ss_answer := AnswerFailed e\<rparr>, None) else (s, Some e))"

definition refusal_message :: "int \<Rightarrow> string" where
  "refusal_message close_reason =
     ''Failed to start the session: the device refused it (close_reason='' @ dump_int close_reason @ '')''"

definition on_device_disconnect :: "int \<Rightarrow> stream \<Rightarrow> stream" where
  "on_device_disconnect close_reason s =
     finish (''device disconnect, close_reason='' @ dump_int close_reason)
       (if answer_done s then s
        else s\<lparr>ss_answer := AnswerFailed
          ((if close_reason = CLOSE_REASON_BUSY then DeviceBusyError else SessionError) (refusal_message close_reason))\<rparr>)"

definition on_relay_closed :: "exn option \<Rightarrow> stream \<Rightarrow> stream" where
  "on_relay_closed error s =
     finish (case error of Some e \<Rightarrow> ''relay closed: '' @ error_text e | None \<Rightarrow> ''relay closed'') s"

definition on_local_candidate :: "string \<Rightarrow> stream \<Rightarrow> stream" where
  "on_local_candidate candidate s =
     (let s1 = s\<lparr>ss_candidates := ss_candidates s @ [candidate]\<rparr>
      in if ss_moto s = None then s1
         else s1\<lparr>ss_candidate_tasks := ss_candidate_tasks s1 @ [candidate]\<rparr>)"

definition on_control_record :: "cipher \<Rightarrow> bytes \<Rightarrow> bytes \<Rightarrow> exn option" where
  "on_control_record A receive_key rec =
     (case decrypt_record A receive_key rec of
        Inl e \<Rightarrow> if is_tuya_error e then None else Some e
      | Inr plaintext \<Rightarrow> None)"

fun push_packets :: "bytes list \<Rightarrow> stream \<Rightarrow> stream \<times> stream_effect list" where
  "push_packets [] s = (s, [])"
| "push_packets (packet # packets) s =
     (case push packet (ss_reassembler s) of
        (r, None) \<Rightarrow> push_packets packets (s\<lparr>ss_reassembler := r\<rparr>)
      | (r, Some frame) \<Rightarrow>
          (let q = push_packets packets (s\<lparr>ss_reassembler := r, ss_frames := ss_frames s + 1\<rparr>)
           in (fst q, Frame frame # snd q)))"

definition on_media_record :: "cipher \<Rightarrow> bytes \<Rightarrow> stream \<Rightarrow> stream \<times> stream_effect list" where
  "on_media_record A rec s =
     (case decrypt_record A (ss_answer_key s) rec of
        Inl e \<Rightarrow> if is_tuya_error e then (s, []) else (s, [HandlerFailed e])
      | Inr plaintext \<Rightarrow>
          if is_control plaintext then (s, [])
          else push_packets (extract_media_packets plaintext) s)"

section \<open>What the components report\<close>

fun absorb_relay :: "cipher \<Rightarrow> relay_effect \<Rightarrow> stream \<Rightarrow> stream \<times> stream_effect list" where
  "absorb_relay A (SessionClosed error) s = (on_relay_closed error s, [])"
| "absorb_relay A (Received cid message) s =
     (if cid = VIDEO_CONVERSATION \<and> ss_media_handler s then on_media_record A message s
      else if cid = CONTROL_CONVERSATION
      then (case ss_receive_key s of
              None \<Rightarrow> (s, [])
            | Some key \<Rightarrow>
                (case on_control_record A key message of None \<Rightarrow> (s, []) | Some e \<Rightarrow> (s, [HandlerFailed e])))
      else (s, []))"
| "absorb_relay A e s = (s, [Relay e])"

definition absorb_moto :: "moto_effect \<Rightarrow> stream \<Rightarrow> stream \<times> exn option" where
  "absorb_moto e s =
     (case e of Answer sdp \<Rightarrow> on_answer sdp s
      | Disconnected close_reason \<Rightarrow> (on_device_disconnect close_reason s, None)
      | _ \<Rightarrow> (s, None))"

definition absorb_ice :: "responder_effect \<Rightarrow> stream \<Rightarrow> stream \<times> stream_effect list" where
  "absorb_ice e s = (case e of Candidate c \<Rightarrow> (on_local_candidate c s, []) | _ \<Rightarrow> (s, [Ice e]))"

fun absorb_all :: "('e \<Rightarrow> stream \<Rightarrow> stream \<times> stream_effect list) \<Rightarrow> 'e list \<Rightarrow> stream \<Rightarrow> stream \<times> stream_effect list" where
  "absorb_all f [] s = (s, [])"
| "absorb_all f (e # es) s = (let r = f e s; q = absorb_all f es (fst r) in (fst q, snd r @ snd q))"

definition on_relay :: "cipher \<Rightarrow> session_event \<Rightarrow> stream \<Rightarrow> stream \<times> stream_effect list" where
  "on_relay A e s =
     (case ss_relay s of
        None \<Rightarrow> (s, [])
      | Some relay \<Rightarrow>
          (let r = session_step relay e in absorb_all (absorb_relay A) (snd r) (s\<lparr>ss_relay := Some (fst r)\<rparr>)))"

text \<open>The reader of the signaling channel: the callback that raises ends it.\<close>

definition on_mqtt :: "cipher \<Rightarrow> bytes option \<Rightarrow> stream \<Rightarrow> stream" where
  "on_mqtt A payload s =
     (case ss_moto s of
        None \<Rightarrow> s
      | Some m \<Rightarrow>
          (let r = read_message A (\<lambda>e. snd (absorb_moto e s)) payload m
           in foldl (\<lambda>s e. fst (absorb_moto e s)) (s\<lparr>ss_moto := Some (fst r)\<rparr>) (snd r)))"

definition on_mqtt_ended :: "stream \<Rightarrow> stream" where
  "on_mqtt_ended s = (case ss_moto s of None \<Rightarrow> s | Some m \<Rightarrow> s\<lparr>ss_moto := Some (reader_ended m)\<rparr>)"

lemma on_mqtt_ended_parts [simp]:
  "ss_config (on_mqtt_ended s) = ss_config s" "ss_uid (on_mqtt_ended s) = ss_uid s"
  "ss_reassembler (on_mqtt_ended s) = ss_reassembler s" "ss_candidates (on_mqtt_ended s) = ss_candidates s"
  "ss_candidate_tasks (on_mqtt_ended s) = ss_candidate_tasks s" "ss_relay (on_mqtt_ended s) = ss_relay s"
  "ss_ice (on_mqtt_ended s) = ss_ice s" "ss_answer (on_mqtt_ended s) = ss_answer s" "ss_ended (on_mqtt_ended s) = ss_ended s"
  "ss_answer_key (on_mqtt_ended s) = ss_answer_key s" "ss_frames (on_mqtt_ended s) = ss_frames s"
  "ss_closing (on_mqtt_ended s) = ss_closing s" "ss_receive_key (on_mqtt_ended s) = ss_receive_key s"
  "ss_media_handler (on_mqtt_ended s) = ss_media_handler s"
  "ss_moto (on_mqtt_ended s) = map_option reader_ended (ss_moto s)"
  by (simp_all add: on_mqtt_ended_def split: option.split)

definition on_datagram :: "bytes \<Rightarrow> str_or_bytes \<Rightarrow> nat \<Rightarrow> stream \<Rightarrow> stream \<times> stream_effect list" where
  "on_datagram data host port s =
     (case ss_ice s of
        None \<Rightarrow> (s, [])
      | Some ice \<Rightarrow>
          (case datagram_received data host port ice of
             Inl e \<Rightarrow> (s, [HandlerFailed e])
           | Inr es \<Rightarrow> absorb_all absorb_ice es s))"

text \<open>A turn of the oldest task that trickles a candidate; errors of the SDK are suppressed.\<close>

definition send_candidate :: "cipher \<Rightarrow> int \<Rightarrow> mqtt_outcome \<Rightarrow> stream \<Rightarrow> stream \<times> stream_effect list" where
  "send_candidate A t outcome s =
     (case (ss_candidate_tasks s, ss_moto s) of
        (candidate # tasks, Some m) \<Rightarrow>
          (case send_outbound A t outcome (LocalCandidate candidate) m of
             (m1, es, error) \<Rightarrow>
               (s\<lparr>ss_moto := Some m1, ss_candidate_tasks := tasks\<rparr>,
                map Signaling es @ (case error of
                  Some e \<Rightarrow> if is_tuya_error e then [] else [HandlerFailed e] | None \<Rightarrow> [])))
      | _ \<Rightarrow> (s, []))"

datatype stream_event =
    Mqtt "bytes option"
  | MqttEnded
  | Datagram bytes str_or_bytes nat
  | OnRelay session_event
  | CandidateTask int mqtt_outcome

fun stream_step :: "cipher \<Rightarrow> stream \<Rightarrow> stream_event \<Rightarrow> stream \<times> stream_effect list" where
  "stream_step A s (Mqtt payload) = (on_mqtt A payload s, [])"
| "stream_step A s MqttEnded = (on_mqtt_ended s, [])"
| "stream_step A s (Datagram data host port) = on_datagram data host port s"
| "stream_step A s (OnRelay e) = on_relay A e s"
| "stream_step A s (CandidateTask t outcome) = send_candidate A t outcome s"

section \<open>Starting\<close>

text \<open>A coroutine that runs to its end: the state it leaves, its effects, and its result or
  the exception that leaves it.\<close>

type_synonym 'a action = "stream \<Rightarrow> stream \<times> stream_effect list \<times> (exn + 'a)"

definition sbind :: "'a action \<Rightarrow> ('a \<Rightarrow> 'b action) \<Rightarrow> 'b action" where
  "sbind f g s =
     (case f s of
        (s1, es, Inl e) \<Rightarrow> (s1, es, Inl e)
      | (s1, es, Inr x) \<Rightarrow> (case g x s1 of (s2, fs, r) \<Rightarrow> (s2, es @ fs, r)))"

text \<open>\<^verbatim>\<open>contextlib.suppress(TuyaIpcP2pError)\<close>.\<close>

definition suppress :: "unit action \<Rightarrow> unit action" where
  "suppress f s =
     (case f s of
        (s1, es, Inl e) \<Rightarrow> (s1, es, if is_tuya_error e then Inr () else Inl e)
      | (s1, es, Inr x) \<Rightarrow> (s1, es, Inr x))"

definition connect_signaling :: "string \<Rightarrow> bytes \<Rightarrow> mqtt_outcome \<Rightarrow> mqtt_outcome \<Rightarrow> unit action" where
  "connect_signaling session_id source entering subscribing s =
     (let m = new_moto (ss_uid s) (sc_device_id (ss_config s)) session_id (sc_local_key (ss_config s)) source in
      case moto_connect entering subscribing m of
        (m1, es, error) \<Rightarrow>
          (s\<lparr>ss_moto := Some m1\<rparr>, map Signaling es, case error of Some e \<Rightarrow> Inl e | None \<Rightarrow> Inr ()))"

definition publish_signaling :: "cipher \<Rightarrow> int \<times> mqtt_outcome \<Rightarrow> outbound \<Rightarrow> unit action" where
  "publish_signaling A at p s =
     (case ss_moto s of
        None \<Rightarrow> (s, [], Inl (SessionError ''Failed to publish: the session has no signaling client''))
      | Some m \<Rightarrow>
          (case send_outbound A (fst at) (snd at) p m of
             (m1, es, error) \<Rightarrow>
               (s\<lparr>ss_moto := Some m1\<rparr>, map Signaling es, case error of Some e \<Rightarrow> Inl e | None \<Rightarrow> Inr ())))"

definition publish_offer ::
    "cipher \<Rightarrow> int \<times> mqtt_outcome \<Rightarrow> int \<times> mqtt_outcome \<Rightarrow> sdp_offer \<Rightarrow> string \<Rightarrow> relay_token \<Rightarrow> unit action" where
  "publish_offer A query_at offer_at offer trace_id token s =
     sbind (suppress (publish_signaling A query_at SigQuery)) (\<lambda>_.
       publish_signaling A offer_at
         (Offer (offer_sdp offer) (ice_servers_as_json (ss_config s)) trace_id (token_as_json token)
            (log_config_as_json (ss_config s)))) s"

definition gather_candidates :: "string \<Rightarrow> string option \<Rightarrow> nat \<Rightarrow> unit action" where
  "gather_candidates ice_password probe port s =
     (let g = gather probe port (new_responder ice_password);
          r = absorb_all absorb_ice (snd g) (s\<lparr>ss_ice := Some (fst g)\<rparr>)
      in (fst r, snd r, Inr ()))"

text \<open>Waiting: \<open>events\<close> are those handled until the coroutine resumes, be it because its future
  is done or because the time ran out. A future that is done lets the loop handle more of what has
  already arrived before the coroutine runs again.\<close>

definition await_answer :: "cipher \<Rightarrow> stream_event list \<Rightarrow> sdp_answer action" where
  "await_answer A events s =
     (let w = run (stream_step A) s events in
      (fst w, snd w,
       case ss_answer (fst w) of
         Answered answer \<Rightarrow> Inr answer
       | AnswerFailed e \<Rightarrow> Inl e
       | AnswerCancelled \<Rightarrow> Inl CancelledError
       | AnswerPending \<Rightarrow> Inl (SessionError ''Failed to start the session: the device sent no answer'')))"

section \<open>Dialling the relay\<close>

text \<open>What the network and the device make of one attempt, and the events handled while it
  lasts and while the session backs off after it.\<close>

record attempt =
  at_random :: string
  at_iv1 :: bytes
  at_iv2 :: bytes
  at_dialled :: "exn option"
  at_ending :: ending
  at_input :: bytes
  at_ms :: nat
  at_events :: "stream_event list"

definition connect_attempt ::
    "cipher \<Rightarrow> relay_token \<Rightarrow> handshake_signer \<Rightarrow> bytes \<Rightarrow> attempt \<Rightarrow> stream \<Rightarrow>
     relay_session \<times> relay_effect list \<times> (exn + bytes)" where
  "connect_attempt A token signer media_key a s =
     connect_session A token signer (sc_device_id (ss_config s)) (ss_uid s) (at_random a) (at_iv1 a) (at_iv2 a)
       (at_dialled a) (at_ending a) (at_input a) (at_ms a) (new_session media_key)"

fun dial_loop ::
    "cipher \<Rightarrow> relay_token \<Rightarrow> handshake_signer \<Rightarrow> bytes \<Rightarrow> attempt list \<Rightarrow> exn option \<Rightarrow> relay_session action" where
  "dial_loop A token signer media_key [] last_error s =
     (s, [], Inl (SessionError (''Failed to connect the relay: '' @
        (case last_error of None \<Rightarrow> ''None'' | Some e \<Rightarrow> error_text e))))"
| "dial_loop A token signer media_key (a # attempts) last_error s =
     (if ss_ended s \<noteq> None
      then (s, [], Inl (SessionError ''Failed to connect the relay: the session ended while dialling''))
      else case connect_attempt A token signer media_key a s of
        (relay, es, Inr rest) \<Rightarrow> (s, map Relay es, Inr relay)
      | (relay, es, Inl e) \<Rightarrow>
          if \<not> is_tuya_error e then (s, map Relay es, Inl e)
          else (case close_session (\<lambda>_. []) relay of
            (_, fs, Some e2) \<Rightarrow> (s, map Relay (es @ fs), Inl e2)
          | (_, fs, None) \<Rightarrow>
              (let w = run (stream_step A) s (at_events a) in
               case dial_loop A token signer media_key attempts (Some e) (fst w) of
                 (s2, hs, r) \<Rightarrow> (s2, map Relay (es @ fs) @ snd w @ hs, r))))"

definition dial_relay :: "cipher \<Rightarrow> (nat \<Rightarrow> attempt) \<Rightarrow> relay_token \<Rightarrow> bytes \<Rightarrow> relay_session action" where
  "dial_relay A attempts token media_key s =
     (case new_signer (rt_credential token) (expire_timestamp token) (sc_device_id (ss_config s))
             (rt_session_id token) (ss_uid s) of
        Inl e \<Rightarrow> (s, [], Inl e)
      | Inr signer \<Rightarrow>
          (case endpoint token of
             Inl e \<Rightarrow> (s, [], Inl e)
           | Inr _ \<Rightarrow> dial_loop A token signer media_key (map attempts [1..<RELAY_DIAL_ATTEMPTS + 1]) None s))"

section \<open>Bringing the media up\<close>

fun relay_result :: "relay_effect list \<Rightarrow> exn + unit" where
  "relay_result [] = Inr ()"
| "relay_result (Error e # es) = Inl e"
| "relay_result (_ # es) = relay_result es"

definition on_the_relay :: "(relay_session \<Rightarrow> relay_session \<times> relay_effect list) \<Rightarrow> unit action" where
  "on_the_relay f s =
     (case ss_relay s of
        None \<Rightarrow> (s, [], Inl (SessionError ''Failed to send: the session has no relay''))
      | Some relay \<Rightarrow> (let r = f relay in (s\<lparr>ss_relay := Some (fst r)\<rparr>, map Relay (snd r), relay_result (snd r))))"

definition tunnel_frames :: "sdp_offer \<Rightarrow> string \<Rightarrow> relay_token \<Rightarrow> stream \<Rightarrow> bytes list" where
  "tunnel_frames offer trace_id token s =
     relay_offer_frame (ss_uid s) (sc_device_id (ss_config s)) (offer_session_id offer) trace_id (offer_sdp offer)
       (ice_servers_as_json (ss_config s)) (token_as_json token) (log_config_as_json (ss_config s)) #
     map (relay_candidate_frame (ss_uid s) (sc_device_id (ss_config s)) (offer_session_id offer) trace_id)
       (ss_candidates s)"

text \<open>\<open>ivs i\<close> are the initialization vectors of the records of the \<open>i\<close>-th frame.\<close>

fun send_tunnel_frames :: "cipher \<Rightarrow> bytes \<Rightarrow> (nat \<Rightarrow> bytes list) \<Rightarrow> nat \<Rightarrow> bytes list \<Rightarrow> unit action" where
  "send_tunnel_frames A media_key ivs i [] s = (s, [], Inr ())"
| "send_tunnel_frames A media_key ivs i (frame # frames) s =
     sbind (on_the_relay (send_tunnel_frame A media_key (ivs i) frame)) (\<lambda>_.
       send_tunnel_frames A media_key ivs (Suc i) frames) s"

definition tunnel_signaling :: "cipher \<Rightarrow> (nat \<Rightarrow> bytes list) \<Rightarrow> sdp_offer \<Rightarrow> string \<Rightarrow> relay_token \<Rightarrow> unit action" where
  "tunnel_signaling A ivs offer trace_id token s =
     send_tunnel_frames A (offer_aes_key offer) ivs 0 (tunnel_frames offer trace_id token s) s"

text \<open>\<open>ivs i\<close> and \<open>clock i\<close> are the initialization vector and the clock of the \<open>i\<close>-th packet.\<close>

fun send_packets :: "cipher \<Rightarrow> bytes \<Rightarrow> (nat \<Rightarrow> bytes) \<Rightarrow> (nat \<Rightarrow> nat \<Rightarrow> nat) \<Rightarrow> nat \<Rightarrow> bytes list \<Rightarrow> unit action" where
  "send_packets A send_key ivs clock i [] s = (s, [], Inr ())"
| "send_packets A send_key ivs clock i (packet # packets) s =
     (case encrypt_record A (ivs i) send_key packet of
        Inl e \<Rightarrow> (s, [], Inl e)
      | Inr rec \<Rightarrow>
          sbind (on_the_relay (\<lambda>relay. session_step relay (SendTo CONTROL_CONVERSATION rec (clock i)))) (\<lambda>_.
            send_packets A send_key ivs clock (Suc i) packets) s)"

definition send_channel_zero ::
    "cipher \<Rightarrow> (nat \<Rightarrow> bytes) \<Rightarrow> (nat \<Rightarrow> nat \<Rightarrow> nat) \<Rightarrow> bytes \<Rightarrow> bytes \<Rightarrow> unit action" where
  "send_channel_zero A ivs clock send_key receive_key s =
     sbind (on_the_relay (\<lambda>relay. session_step relay (HandlerOf CONTROL_CONVERSATION True))) (\<lambda>_ s1.
       (case start_sequence (auth_credential (sc_device_password (ss_config s)) (sc_local_key (ss_config s))) AUTH_USERNAME of
          Inl e \<Rightarrow> (s1\<lparr>ss_receive_key := Some receive_key\<rparr>, [], Inl e)
        | Inr packets \<Rightarrow>
            send_packets A send_key ivs clock 0 packets (s1\<lparr>ss_receive_key := Some receive_key\<rparr>))) s"

definition await_video :: "cipher \<Rightarrow> stream_event list \<Rightarrow> unit action" where
  "await_video A events s =
     (let w = run (stream_step A) s events in
      case ss_relay (fst w) of
        None \<Rightarrow> (fst w, snd w, Inl (SessionError ''Failed to send: the session has no relay''))
      | Some relay \<Rightarrow>
          (case wait_for_video relay of
             Inl e \<Rightarrow> (fst w, snd w, Inl e)
           | Inr cid \<Rightarrow>
               ((fst w)\<lparr>ss_relay := Some (fst (session_step relay (HandlerOf cid True))), ss_media_handler := True\<rparr>,
                snd w, Inr ())))"

section \<open>Start and close\<close>

text \<open>The outcome of everything a start asks of the clock, of randomness, of the broker, of the
  sockets and of the device.\<close>

record start_script =
  st_seconds :: nat
  st_picks :: "nat list"
  st_trace_ms :: nat
  st_offer_seconds :: nat
  st_source :: bytes
  st_entering :: mqtt_outcome
  st_subscribing :: mqtt_outcome
  st_query :: "int \<times> mqtt_outcome"
  st_offer :: "int \<times> mqtt_outcome"
  st_probe :: "string option"
  st_port :: nat
  st_before_answer :: "stream_event list"
  st_attempts :: "nat \<Rightarrow> attempt"
  st_tunnel_ivs :: "nat \<Rightarrow> bytes list"
  st_control_ivs :: "nat \<Rightarrow> bytes"
  st_clock :: "nat \<Rightarrow> nat \<Rightarrow> nat"
  st_before_video :: "stream_event list"

definition session_token :: "start_script \<Rightarrow> stream_config \<Rightarrow> relay_token" where
  "session_token x config = with_session_id (sc_relay_token config)
     (sc_device_id config @ dec_digits (st_seconds x) @ random_alphanumeric (take RENDEZVOUS_SUFFIX_LENGTH (st_picks x)))"

definition session_trace_id :: "start_script \<Rightarrow> stream_config \<Rightarrow> string" where
  "session_trace_id x config =
     p2p_trace_id (sc_p2p_session config) @ ''_'' @ sc_device_id config @ ''_'' @ dec_digits (st_trace_ms x)"

definition session_offer :: "start_script \<Rightarrow> stream_config \<Rightarrow> string \<Rightarrow> sdp_offer" where
  "session_offer x config uid =
     (let p2p = sc_p2p_session config
      in build_offer uid (p2p_session_id p2p) (st_offer_seconds x) (p2p_ice_ufrag p2p) (p2p_ice_password p2p) (p2p_aes_key p2p))"

definition install_relay :: "relay_session \<Rightarrow> unit action" where
  "install_relay relay s = (s\<lparr>ss_relay := Some (fst (session_step relay (OnClosed True)))\<rparr>, [], Inr ())"

text \<open>The part of \<^verbatim>\<open>async_start\<close> behind the answer.\<close>

definition after_answer ::
    "cipher \<Rightarrow> start_script \<Rightarrow> sdp_offer \<Rightarrow> string \<Rightarrow> relay_token \<Rightarrow> sdp_answer \<Rightarrow> unit action" where
  "after_answer A x offer trace_id token answer s =
     (sbind (dial_relay A (st_attempts x) token (offer_aes_key offer)) (\<lambda>relay.
      sbind (install_relay relay) (\<lambda>_.
      sbind (tunnel_signaling A (st_tunnel_ivs x) offer trace_id token) (\<lambda>_.
      sbind (send_channel_zero A (st_control_ivs x) (st_clock x) (offer_aes_key offer) (answer_aes_key answer)) (\<lambda>_.
      await_video A (st_before_video x)))))) (s\<lparr>ss_answer_key := answer_aes_key answer\<rparr>)"

definition start :: "cipher \<Rightarrow> start_script \<Rightarrow> unit action" where
  "start A x s =
     (let config = ss_config s; p2p = sc_p2p_session config;
          token = session_token x config; trace_id = session_trace_id x config;
          offer = session_offer x config (ss_uid s)
      in sbind (connect_signaling (p2p_session_id p2p) (st_source x) (st_entering x) (st_subscribing x)) (\<lambda>_.
         sbind (publish_offer A (st_query x) (st_offer x) offer trace_id token) (\<lambda>_.
         sbind (gather_candidates (p2p_ice_password p2p) (st_probe x) (st_port x)) (\<lambda>_.
         sbind (await_answer A (st_before_answer x)) (after_answer A x offer trace_id token)))) s)"

text \<open>\<open>inbound\<close> is what arrives on the relay while its conversations are closed, \<open>at\<close> the time
  and the outcome of publishing the disconnect.\<close>

definition close_ice :: "stream \<Rightarrow> stream \<times> stream_effect list" where
  "close_ice s =
     (case ss_ice s of
        None \<Rightarrow> (s, [])
      | Some ice \<Rightarrow> (s\<lparr>ss_ice := None\<rparr>, map Ice (snd (close_responder ice))))"

definition close_relay :: "cipher \<Rightarrow> (nat \<Rightarrow> (bytes \<times> nat) list) \<Rightarrow> unit action" where
  "close_relay A inbound s =
     (case ss_relay s of
        None \<Rightarrow> (s, [], Inr ())
      | Some relay \<Rightarrow>
          (case close_session inbound relay of
             (r, es, error) \<Rightarrow>
               (let q = absorb_all (absorb_relay A) es (s\<lparr>ss_relay := Some r\<rparr>) in
                case error of
                  Some e \<Rightarrow> (fst q, snd q, Inl e)
                | None \<Rightarrow> ((fst q)\<lparr>ss_relay := None\<rparr>, snd q, Inr ()))))"

definition close_signaling :: "cipher \<Rightarrow> int \<times> mqtt_outcome \<Rightarrow> unit action" where
  "close_signaling A at s =
     (case ss_moto s of
        None \<Rightarrow> (s, [], Inr ())
      | Some m \<Rightarrow>
          (case send_outbound A (fst at) (snd at) (Disconnect 4) m of
             (m1, es, error) \<Rightarrow>
               (case error of
                  Some e \<Rightarrow>
                    if is_tuya_error e
                    then (s\<lparr>ss_moto := None\<rparr>, map Signaling (es @ snd (close_moto m1)), Inr ())
                    else (s\<lparr>ss_moto := None\<rparr>, map Signaling es, Inl e)
                | None \<Rightarrow> (s\<lparr>ss_moto := None\<rparr>, map Signaling (es @ snd (close_moto m1)), Inr ()))))"

definition close_stream :: "cipher \<Rightarrow> (nat \<Rightarrow> (bytes \<times> nat) list) \<Rightarrow> int \<times> mqtt_outcome \<Rightarrow> unit action" where
  "close_stream A inbound at s =
     (if ss_closing s then (s, [], Inr ())
      else let s1 = (finish ''closed'' (s\<lparr>ss_closing := True\<rparr>))\<lparr>ss_candidate_tasks := []\<rparr>;
               s2 = (if answer_done s1 then s1 else s1\<lparr>ss_answer := AnswerCancelled\<rparr>);
               i = close_ice s2
           in case sbind (close_relay A inbound) (\<lambda>_. close_signaling A at) (fst i) of
                (s3, es, r) \<Rightarrow> (s3, snd i @ es, r))"

text \<open>\<^verbatim>\<open>async_wait_closed\<close>: the reason the session ended, once it has.\<close>

definition wait_closed :: "stream \<Rightarrow> string option" where
  "wait_closed s = ss_ended s"

end
