(* ===== verification/Stream_Laws.thy ===== *)
theory Stream_Laws
  imports Stream_Session
begin

text \<open>
  What a streaming session guarantees: the invariant of its parts, that its futures are set
  once, that only whole images leave it and each is counted, how records become images, how a
  refusal ends the start, what dialling makes of the device's answers, and what closing does.
\<close>

section \<open>The invariant\<close>

fun images :: "stream_effect list \<Rightarrow> bytes list" where
  "images [] = []"
| "images (Frame f # es) = f # images es"
| "images (_ # es) = images es"

lemma images_append [simp]: "images (es @ fs) = images es @ images fs"
  by (induction es rule: images.induct) simp_all

lemma images_frames [simp]: "images (map Frame fs) = fs"
  by (induction fs) simp_all

lemma images_others [simp]:
  "images (map Relay rs) = []" "images (map Signaling ms) = []" "images (map Ice ws) = []"
proof -
  have "images es = []" if "\<forall>e \<in> set es. \<forall>f. e \<noteq> Frame f" for es
    using that by (induction es rule: images.induct) auto
  then show "images (map Relay rs) = []" "images (map Signaling ms) = []" "images (map Ice ws) = []"
    by auto
qed

definition stream_inv :: "stream \<Rightarrow> bool" where
  "stream_inv s \<longleftrightarrow> ra_inv (ss_reassembler s) \<and>
     (case ss_relay s of None \<Rightarrow> True | Some relay \<Rightarrow> session_inv relay)"

text \<open>A future that is done keeps its value.\<close>

definition settles :: "stream \<Rightarrow> stream \<Rightarrow> bool" where
  "settles s s' \<longleftrightarrow> (ss_ended s = None \<or> ss_ended s' = ss_ended s) \<and>
     (ss_answer s = AnswerPending \<or> ss_answer s' = ss_answer s)"

lemma settles_refl [simp]: "settles s s"
  by (simp add: settles_def)

lemma settles_trans: "settles s s' \<Longrightarrow> settles s' s'' \<Longrightarrow> settles s s''"
  by (auto simp: settles_def)

text \<open>A step that keeps all of it, and counts the images it delivers.\<close>

definition good :: "stream \<Rightarrow> stream \<times> stream_effect list \<Rightarrow> bool" where
  "good s r \<longleftrightarrow> stream_inv (fst r) \<and> settles s (fst r) \<and> list_all jpeg_ok (images (snd r)) \<and>
     ss_frames (fst r) = ss_frames s + length (images (snd r))"

lemma goodD: "good s r \<Longrightarrow> stream_inv (fst r)"
  by (simp add: good_def)

lemma good_seq: "good s r \<Longrightarrow> good (fst r) q \<Longrightarrow> good s (fst q, snd r @ snd q)"
  by (auto simp: good_def intro: settles_trans)

lemma good_silent:
  assumes "stream_inv s" "ss_reassembler s' = ss_reassembler s"
    "case ss_relay s' of None \<Rightarrow> True | Some relay \<Rightarrow> session_inv relay"
    "settles s s'" "ss_frames s' = ss_frames s" "images es = []"
  shows "good s (s', es)"
  using assms by (simp add: good_def stream_inv_def)

lemma good_same: "stream_inv s \<Longrightarrow> images es = [] \<Longrightarrow> good s (s, es)"
  by (rule good_silent) (simp_all add: stream_inv_def)

lemma push_packets_run:
  "push_packets ps s =
     (let q = run ra_step (ss_reassembler s) (map Packet ps)
      in (s\<lparr>ss_reassembler := fst q, ss_frames := ss_frames s + length (snd q)\<rparr>, map Frame (snd q)))"
proof (induction ps arbitrary: s)
  case Nil
  then show ?case by simp
next
  case (Cons p ps)
  obtain r f where "push p (ss_reassembler s) = (r, f)" by (cases "push p (ss_reassembler s)")
  then show ?case by (cases f) (simp_all add: Cons.IH Let_def)
qed

lemma good_push_packets:
  assumes "stream_inv s"
  shows "good s (push_packets ps s)"
proof -
  have r: "ra_inv (ss_reassembler s)" using assms by (simp add: stream_inv_def)
  show ?thesis
    using jpeg.run_inv [OF r] jpeg.run_effects [OF r ra_step_jpeg] assms
    by (simp add: push_packets_run good_def stream_inv_def settles_def Let_def)
qed

lemma good_media_record: "stream_inv s \<Longrightarrow> good s (on_media_record A rec s)"
  by (auto simp: on_media_record_def intro: good_same good_push_packets split: sum.split)

lemma finish_fields:
  "ss_reassembler (finish r s) = ss_reassembler s" "ss_relay (finish r s) = ss_relay s"
  "ss_frames (finish r s) = ss_frames s" "settles s (finish r s)" "ss_answer (finish r s) = ss_answer s"
  "ss_ended (finish r s) = Some (case ss_ended s of None \<Rightarrow> r | Some e \<Rightarrow> e)"
  by (auto simp: finish_def settles_def split: option.split)

lemma good_finish: "stream_inv s \<Longrightarrow> good s (finish r s, [])"
  by (rule good_silent) (simp_all add: finish_fields stream_inv_def)

lemma good_absorb_relay: "stream_inv s \<Longrightarrow> good s (absorb_relay A e s)"
proof (cases e)
  case (Received cid m)
  assume "stream_inv s"
  then show ?thesis
    by (auto simp: Received good_media_record intro: good_same split: option.split)
next
  case (SessionClosed error)
  assume "stream_inv s"
  then show ?thesis by (simp add: SessionClosed on_relay_closed_def good_finish)
qed (simp_all add: good_same)

lemma good_absorb_all:
  assumes "\<And>e s. stream_inv s \<Longrightarrow> good s (f e s)" "stream_inv s"
  shows "good s (absorb_all f es s)"
  using assms(2)
proof (induction es arbitrary: s)
  case Nil
  then show ?case by (simp add: good_same)
next
  case (Cons e es)
  have e: "good s (f e s)" by (rule assms(1) [OF Cons.prems])
  then have "good (fst (f e s)) (absorb_all f es (fst (f e s)))" by (intro Cons.IH) (simp add: good_def)
  with e show ?case by (simp add: good_seq Let_def)
qed

lemma good_relay:
  assumes "stream_inv s"
  shows "good s (on_relay A e s)"
proof (cases "ss_relay s")
  case None
  then show ?thesis using assms by (simp add: on_relay_def good_same)
next
  case (Some relay)
  let ?r = "session_step relay e"
  have s1: "good s (s\<lparr>ss_relay := Some (fst ?r)\<rparr>, [])"
    using assms Some by (intro good_silent) (simp_all add: stream_inv_def session_step_inv settles_def)
  have "good (s\<lparr>ss_relay := Some (fst ?r)\<rparr>) (absorb_all (absorb_relay A) (snd ?r) (s\<lparr>ss_relay := Some (fst ?r)\<rparr>))"
    using goodD [OF s1] by (intro good_absorb_all good_absorb_relay) simp_all
  with good_seq [OF s1] show ?thesis by (simp add: on_relay_def Some Let_def)
qed

lemma disconnect_fields:
  "ss_reassembler (on_device_disconnect c s) = ss_reassembler s" "ss_relay (on_device_disconnect c s) = ss_relay s"
  "ss_frames (on_device_disconnect c s) = ss_frames s" "settles s (on_device_disconnect c s)"
  by (auto simp: on_device_disconnect_def finish_fields answer_done_def)
    (simp_all add: finish_def settles_def)

lemma answer_fields:
  "ss_reassembler (fst (on_answer sdp s)) = ss_reassembler s" "ss_relay (fst (on_answer sdp s)) = ss_relay s"
  "ss_frames (fst (on_answer sdp s)) = ss_frames s" "settles s (fst (on_answer sdp s))"
  by (cases "parse_answer sdp"; simp add: on_answer_def settles_def answer_done_def)+

lemma absorb_moto_fields:
  "ss_reassembler (fst (absorb_moto e s)) = ss_reassembler s" "ss_relay (fst (absorb_moto e s)) = ss_relay s"
  "ss_frames (fst (absorb_moto e s)) = ss_frames s" "settles s (fst (absorb_moto e s))"
  by (cases e; simp add: absorb_moto_def answer_fields disconnect_fields)+

lemma good_mqtt:
  assumes "stream_inv s"
  shows "good s (on_mqtt A payload s, [])"
proof -
  have f: "ss_reassembler (foldl (\<lambda>s e. fst (absorb_moto e s)) s es) = ss_reassembler s \<and>
      ss_relay (foldl (\<lambda>s e. fst (absorb_moto e s)) s es) = ss_relay s \<and>
      ss_frames (foldl (\<lambda>s e. fst (absorb_moto e s)) s es) = ss_frames s \<and>
      settles s (foldl (\<lambda>s e. fst (absorb_moto e s)) s es)" for es and s :: stream
  proof (induction es arbitrary: s)
    case Nil
    then show ?case by simp
  next
    case (Cons e es)
    show ?case
      using Cons absorb_moto_fields [where e = e and s = s] settles_trans [of s "fst (absorb_moto e s)"]
      by simp
  qed
  show ?thesis
    using assms f [of "s\<lparr>ss_moto := m\<rparr>" for m]
    by (cases "ss_moto s")
      (auto simp: on_mqtt_def Let_def stream_inv_def settles_def intro!: good_silent)
qed

lemma good_datagram:
  assumes "stream_inv s"
  shows "good s (on_datagram data host port s)"
proof -
  have "good s (absorb_ice e s)" if "stream_inv s" for e and s :: stream
    using that by (cases e) (auto simp: absorb_ice_def on_local_candidate_def Let_def settles_def stream_inv_def
        intro!: good_silent)
  then show ?thesis
    using assms by (auto simp: on_datagram_def intro: good_same good_absorb_all split: option.split sum.split)
qed

lemma good_send_candidate:
  assumes "stream_inv s"
  shows "good s (send_candidate A t outcome s)"
proof (cases "ss_candidate_tasks s = [] \<or> ss_moto s = None")
  case True
  then show ?thesis
    using assms by (auto simp: send_candidate_def good_same split: list.split option.split)
next
  case False
  then obtain c tasks m where c: "ss_candidate_tasks s = c # tasks" "ss_moto s = Some m"
    by (auto simp: neq_Nil_conv)
  obtain m1 es error where r: "send_outbound A t outcome (LocalCandidate c) m = (m1, es, error)"
    by (cases "send_outbound A t outcome (LocalCandidate c) m")
  then show ?thesis
    using assms by (auto simp: send_candidate_def c settles_def stream_inv_def intro!: good_silent split: option.split)
qed

lemma good_mqtt_ended: "stream_inv s \<Longrightarrow> good s (on_mqtt_ended s, [])"
  by (auto simp: stream_inv_def settles_def intro!: good_silent)

lemma good_step: "stream_inv s \<Longrightarrow> good s (stream_step A s e)"
  by (cases e) (simp_all add: good_mqtt good_mqtt_ended good_datagram good_relay good_send_candidate)

interpretation streaming: transducer "stream_step A" stream_inv for A
  by unfold_locales (use good_step in \<open>simp add: good_def\<close>)

lemma good_run: "stream_inv s \<Longrightarrow> good s (run (stream_step A) s es)"
proof (induction es arbitrary: s)
  case Nil
  then show ?case by (simp add: good_same)
next
  case (Cons e es)
  have e: "good s (stream_step A s e)" by (rule good_step [OF Cons.prems])
  then have "good (fst (stream_step A s e)) (run (stream_step A) (fst (stream_step A s e)) es)"
    by (intro Cons.IH) (simp add: good_def)
  with e show ?case by (simp add: good_seq Let_def)
qed

lemma new_stream_inv [simp]: "stream_inv (new_stream config uid)"
  by (simp add: stream_inv_def new_stream_def)

end
