(* ===== verification/Stream_Media.thy ===== *)
theory Stream_Media
  imports Stream_Laws
begin

text \<open>
  From the wire to the images: the media frames of the video conversation, as the relay
  connection reads them, through the conversation that reorders them, the records it delivers,
  the packets in the records and the images they make up.
\<close>

section \<open>Records\<close>

text \<open>The packets of a record under the session's key; none for what does not decrypt and for
  control packets.\<close>

definition record_packets :: "cipher \<Rightarrow> bytes \<Rightarrow> bytes \<Rightarrow> bytes list" where
  "record_packets A key rec =
     (case decrypt_record A key rec of
        Inl e \<Rightarrow> []
      | Inr plaintext \<Rightarrow> if is_control plaintext then [] else extract_media_packets plaintext)"

abbreviation feed :: "reassembler \<Rightarrow> bytes list \<Rightarrow> reassembler \<times> bytes list" where
  "feed r packets \<equiv> run ra_step r (map Packet packets)"

lemma media_record_feed:
  "images (snd (on_media_record A rec s)) = snd (feed (ss_reassembler s) (record_packets A (ss_answer_key s) rec))"
  "ss_reassembler (fst (on_media_record A rec s)) = fst (feed (ss_reassembler s) (record_packets A (ss_answer_key s) rec))"
  by (simp_all add: on_media_record_def record_packets_def push_packets_run Let_def split: sum.split)

text \<open>What handling media leaves alone.\<close>

definition same_media :: "stream \<Rightarrow> stream \<Rightarrow> bool" where
  "same_media s t \<longleftrightarrow> ss_media_handler t = ss_media_handler s \<and> ss_answer_key t = ss_answer_key s \<and>
     ss_relay t = ss_relay s"

lemma media_record_same: "same_media s (fst (on_media_record A rec s))"
  by (simp add: on_media_record_def same_media_def push_packets_run Let_def split: sum.split)

fun video_messages :: "relay_effect list \<Rightarrow> bytes list" where
  "video_messages [] = []"
| "video_messages (Received cid m # es) = (if cid = VIDEO_CONVERSATION then m # video_messages es else video_messages es)"
| "video_messages (_ # es) = video_messages es"

definition all_packets :: "cipher \<Rightarrow> bytes \<Rightarrow> bytes list \<Rightarrow> bytes list" where
  "all_packets A key recs = concat (map (record_packets A key) recs)"

lemma all_packets_simps [simp]:
  "all_packets A key [] = []" "all_packets A key (r # rs) = record_packets A key r @ all_packets A key rs"
  "all_packets A key (rs @ qs) = all_packets A key rs @ all_packets A key qs"
  by (simp_all add: all_packets_def)

lemma feed_append:
  "fst (feed r (ps @ qs)) = fst (feed (fst (feed r ps)) qs)"
  "snd (feed r (ps @ qs)) = snd (feed r ps) @ snd (feed (fst (feed r ps)) qs)"
  by (simp_all add: run_append)

lemma absorb_relay_feed:
  assumes "ss_media_handler s"
  shows "images (snd (absorb_relay A e s)) =
      snd (feed (ss_reassembler s) (all_packets A (ss_answer_key s) (video_messages [e])))"
    and "ss_reassembler (fst (absorb_relay A e s)) =
      fst (feed (ss_reassembler s) (all_packets A (ss_answer_key s) (video_messages [e])))"
    and "same_media s (fst (absorb_relay A e s))"
proof -
  consider (video) m where "e = Received VIDEO_CONVERSATION m" | (other) cid m where "e = Received cid m" "cid \<noteq> VIDEO_CONVERSATION"
    | (closed) x where "e = SessionClosed x" | (plain) "\<nexists>cid m. e = Received cid m" "\<nexists>x. e = SessionClosed x"
    by (cases e) auto
  then have "images (snd (absorb_relay A e s)) =
        snd (feed (ss_reassembler s) (all_packets A (ss_answer_key s) (video_messages [e]))) \<and>
      ss_reassembler (fst (absorb_relay A e s)) =
        fst (feed (ss_reassembler s) (all_packets A (ss_answer_key s) (video_messages [e]))) \<and>
      same_media s (fst (absorb_relay A e s))"
  proof cases
    case video
    then show ?thesis using assms media_record_feed media_record_same by simp
  next
    case other
    then show ?thesis by (simp add: same_media_def split: option.split)
  next
    case closed
    then show ?thesis by (simp add: on_relay_closed_def finish_def same_media_def)
  next
    case plain
    then show ?thesis by (cases e) (simp_all add: same_media_def)
  qed
  then show "images (snd (absorb_relay A e s)) =
      snd (feed (ss_reassembler s) (all_packets A (ss_answer_key s) (video_messages [e])))"
    and "ss_reassembler (fst (absorb_relay A e s)) =
      fst (feed (ss_reassembler s) (all_packets A (ss_answer_key s) (video_messages [e])))"
    and "same_media s (fst (absorb_relay A e s))"
    by simp_all
qed

lemma video_messages_Cons: "video_messages (e # es) = video_messages [e] @ video_messages es"
  by (cases e) simp_all

lemma video_messages_append [simp]: "video_messages (es @ fs) = video_messages es @ video_messages fs"
  by (induction es rule: video_messages.induct) simp_all

lemma absorb_all_feed:
  "ss_media_handler s \<Longrightarrow>
     images (snd (absorb_all (absorb_relay A) es s)) =
       snd (feed (ss_reassembler s) (all_packets A (ss_answer_key s) (video_messages es))) \<and>
     ss_reassembler (fst (absorb_all (absorb_relay A) es s)) =
       fst (feed (ss_reassembler s) (all_packets A (ss_answer_key s) (video_messages es))) \<and>
     same_media s (fst (absorb_all (absorb_relay A) es s))"
proof (induction es arbitrary: s)
  case Nil
  then show ?case by (simp add: same_media_def)
next
  case (Cons e es)
  let ?s = "fst (absorb_relay A e s)"
  note e = absorb_relay_feed [OF Cons.prems, of A e]
  have "ss_media_handler ?s" "ss_answer_key ?s = ss_answer_key s"
    using e(3) Cons.prems by (simp_all add: same_media_def)
  with Cons.IH [of ?s] e show ?case
    unfolding video_messages_Cons [of e es] all_packets_simps(3) feed_append
    by (simp add: Let_def same_media_def)
qed

section \<open>Frames\<close>

text \<open>A connection that reads frames and hands their segments on.\<close>

definition reading :: "connection \<Rightarrow> bool" where
  "reading c \<longleftrightarrow> rc_reading c \<and> \<not> rc_closed c \<and> rc_segment_handler c"

definition media_event :: "bytes \<Rightarrow> nat \<Rightarrow> bytes \<Rightarrow> stream_event" where
  "media_event key ms raw = OnRelay (OnConnection (FrameRead FRAME_MEDIA (media_payload key raw)) ms)"

lemma frame_routed:
  assumes "reading (rs_connection relay)" "length raw + 20 < 65536"
  shows "session_step relay (OnConnection (FrameRead FRAME_MEDIA (media_payload (rc_media_key (rs_connection relay)) raw)) ms) =
    route raw ms relay"
  using assms
  by (simp add: reading_def on_connection_def read_turn_def unwrap_media_payload Let_def FRAME_MEDIA_def FRAME_KEEPALIVE_def)

lemma video_outputs: "video_messages (outputs c VIDEO_CONVERSATION es) = delivered es"
proof (induction es)
  case Nil
  then show ?case by simp
next
  case (Cons e es)
  have "video_messages (concat (map connection_output cs)) = []" for cs
  proof (induction cs)
    case (Cons c cs)
    then show ?case by (cases c) simp_all
  qed simp
  with Cons show ?case by (cases e) simp_all
qed

definition from_video :: "bytes \<Rightarrow> bool" where
  "from_video raw \<longleftrightarrow> own_segment VIDEO_CONVERSATION raw \<and> length raw \<le> 1400"

lemma video_frame_step:
  assumes "ss_relay s = Some relay" "ss_media_handler s" "reading (rs_connection relay)" "from_video raw"
    and "map_of (rs_conversations relay) VIDEO_CONVERSATION = Some k"
  obtains g relay' where
    "parse_segment raw = Some g" "rs_connection relay' = rs_connection relay"
    "map_of (rs_conversations relay') VIDEO_CONVERSATION = Some (fst (input_segment g ms k))"
    "ss_relay (fst (stream_step A s (media_event (rc_media_key (rs_connection relay)) ms raw))) = Some relay'"
    "ss_media_handler (fst (stream_step A s (media_event (rc_media_key (rs_connection relay)) ms raw)))"
    "ss_answer_key (fst (stream_step A s (media_event (rc_media_key (rs_connection relay)) ms raw))) = ss_answer_key s"
    "ss_reassembler (fst (stream_step A s (media_event (rc_media_key (rs_connection relay)) ms raw))) =
       fst (feed (ss_reassembler s) (all_packets A (ss_answer_key s) (delivered (snd (input_segment g ms k)))))"
    "images (snd (stream_step A s (media_event (rc_media_key (rs_connection relay)) ms raw))) =
       snd (feed (ss_reassembler s) (all_packets A (ss_answer_key s) (delivered (snd (input_segment g ms k)))))"
proof -
  obtain g where g: "parse_segment raw = Some g" "seg_conversation g = VIDEO_CONVERSATION"
    using assms(4) by (auto simp: from_video_def own_segment_def VIDEO_CONVERSATION_def)
  define r where "r = route raw ms relay"
  have k: "the_conversation VIDEO_CONVERSATION relay = k" using assms(5) by (simp add: the_conversation_def)
  have r: "rs_connection (fst r) = rs_connection relay"
    "map_of (rs_conversations (fst r)) VIDEO_CONVERSATION = Some (fst (input_segment g ms k))"
    "video_messages (snd r) = delivered (snd (input_segment g ms k))"
    unfolding r_def by (simp_all add: route_parsed [OF g(1)] g(2) k map_of_update video_outputs)
  have e: "stream_step A s (media_event (rc_media_key (rs_connection relay)) ms raw) =
      absorb_all (absorb_relay A) (snd r) (s\<lparr>ss_relay := Some (fst r)\<rparr>)"
    using assms(1,3,4) frame_routed [of relay raw ms]
    by (simp add: media_event_def on_relay_def from_video_def Let_def r_def)
  have "ss_media_handler (s\<lparr>ss_relay := Some (fst r)\<rparr>)" using assms(2) by simp
  from absorb_all_feed [OF this, of A "snd r"] r assms(2) that [of g "fst r"] g(1) show ?thesis
    unfolding e by (simp add: same_media_def)
qed

section \<open>Records of packets\<close>

lemma packets_not_control: "list_all clean_packet ps \<Longrightarrow> \<not> is_control (concat (map prefixed ps))"
proof (cases ps)
  case Nil
  then show ?thesis by (simp add: is_control_def MINIMUM_PACKET_LENGTH_def)
next
  case (Cons p qs)
  assume "list_all clean_packet ps"
  then have "length p \<le> MAX_FRAME_SIZE" by (simp add: Cons clean_packet_def packet_ok_def)
  moreover have "slice (concat (map prefixed ps)) 0 4 = le_bytes 4 (length p)"
    using slice_mid [of "[]" 0 4 "le_bytes 4 (length p)" "p @ concat (map prefixed qs)"] by (simp add: Cons prefixed_def)
  ultimately show ?thesis
    by (auto simp: is_control_def from_le_le_bytes CONTROL_MAGIC_def MAX_FRAME_SIZE_def)
qed

lemma record_of_packets:
  assumes "cbc_laws A" "length key = 16" "length iv = 16" "list_all clean_packet ps"
    and "encrypt_record A iv key (concat (map prefixed ps)) = Inr rec"
  shows "record_packets A key rec = ps"
proof -
  have "decrypt_record A key rec = Inr (concat (map prefixed ps))"
    using record_roundtrip [OF assms(1-3), of "concat (map prefixed ps)"] assms(5) by (metis sum.inject(2))
  then show ?thesis
    using packets_not_control [OF assms(4)] extract_from_packets [OF assms(4), of "[]" 0]
    by (simp add: record_packets_def extract_media_packets_def)
qed

lemma records_of_groups:
  assumes "cbc_laws A" "length key = 16"
  shows "list_all (\<lambda>(iv, ps). length iv = 16 \<and> list_all clean_packet ps) groups \<Longrightarrow>
    traverse (\<lambda>(iv, ps). encrypt_record A iv key (concat (map prefixed ps))) groups = Inr recs \<Longrightarrow>
    all_packets A key recs = concat (map snd groups)"
proof (induction groups arbitrary: recs)
  case Nil
  then show ?case by simp
next
  case (Cons g groups)
  obtain iv ps where g: "g = (iv, ps)" by (cases g)
  obtain r rs where r: "encrypt_record A iv key (concat (map prefixed ps)) = Inr r" "recs = r # rs"
    "traverse (\<lambda>(iv, ps). encrypt_record A iv key (concat (map prefixed ps))) groups = Inr rs"
    using Cons.prems(2) by (auto simp: g andThen_Inr_iff)
  then show ?case
    using Cons.IH [of rs] Cons.prems(1) record_of_packets [OF assms, of iv ps r] by (simp add: g)
qed

lemma all_packets_nonempty: "all_packets A key (filter (\<lambda>r. r \<noteq> []) recs) = all_packets A key recs"
proof -
  have "record_packets A key [] = []"
    by (simp add: record_packets_def decrypt_record_def require_media_key_def AES_BLOCK_SIZE_def)
  then show ?thesis by (induction recs) simp_all
qed

lemma length_map_filter: "length (List.map_filter f xs) \<le> length xs"
  by (simp add: map_filter_def)

lemma sent_from_video:
  "list_all from_video (transmitted (snd (run kcp_step (new_conversation VIDEO_CONVERSATION) (sends msgs))))"
proof -
  have short: "list_all effect_ok es \<Longrightarrow> list_all (\<lambda>raw. length raw \<le> 1400) (transmitted es)" for es
    by (induction es rule: transmitted.induct) (simp_all add: MAX_SEGMENT_SIZE_def)
  show ?thesis
    using sends_own [of "new_conversation VIDEO_CONVERSATION" msgs]
      short [OF kcp.run_effects [OF kcp_inv_new kcp_step_effects, of VIDEO_CONVERSATION "sends msgs"]]
    by (simp add: from_video_def list_all_iff new_conversation_id)
qed

section \<open>A sample\<close>

text \<open>Two four-byte images of two packets each, in one record of four packets.\<close>

definition sample_packets :: "bytes list" where
  "sample_packets = [replicate 12 0 @ [0, 0, 0, 0] @ MEDIA_MARKER @ [0xFF, 0xD8],
     replicate 12 0 @ [0, 0, 0, 2] @ MEDIA_MARKER @ [0xFF, 0xD9]]"

lemma sample_packets_clean: "list_all clean_packet sample_packets"
proof -
  have "list_all (\<lambda>p. \<forall>j \<in> set [0..<20]. \<not> occurs_at MEDIA_MARKER (prefixed p) j) sample_packets"
    by code_simp
  moreover have "list_all packet_ok sample_packets"
    by (simp add: sample_packets_def packet_ok_def media_constants MAX_FRAME_SIZE_def slice_def MEDIA_MARKER_def)
  ultimately show ?thesis by (auto simp: clean_packet_def list_all_iff)
qed

lemma sample_packets_image: "image_packets [0xFF, 0xD8, 0xFF, 0xD9] sample_packets"
proof -
  have c: "map packet_chunk sample_packets = [(0, [0xFF, 0xD8]), (2, [0xFF, 0xD9])]"
    "map length sample_packets = [22, 22]"
    by code_simp+
  obtain p0 p1 where p: "sample_packets = [p0, p1]" by (simp add: sample_packets_def)
  show ?thesis
    using c by (auto simp: p image_packets_def jpeg_ok_def begins_frame_def starts_with_soi_def slice_def SOI_def EOI_def
        chunk_of_def covers_def less_Suc_eq MAX_FRAME_SIZE_def)
qed

definition sample_raw_token :: json_object where
  "sample_raw_token = [(''urls'', JList [JStr ''tcp4:relay:443'']), (''username'', JStr ''9:u''),
     (''credential'', JStr (replicate 16 (CHR ''c''))), (''sessionId'', JStr ''r'')]"

definition sample_config :: stream_config where
  "sample_config = \<lparr>sc_device_id = ''d'', sc_local_key = ''0123456789abcdef'', sc_device_password = ''p'', sc_moto_id = ''m'',
     sc_p2p_session = \<lparr>p2p_session_id = ''s'', p2p_aes_key = replicate 16 7, p2p_ice_ufrag = ''f'', p2p_ice_password = ''w'',
       p2p_trace_id = ''t'', p2p_uid = None\<rparr>,
     sc_relay_token = \<lparr>rt_urls = [''tcp4:relay:443''], rt_username = ''9:u'', rt_credential = replicate 16 (CHR ''c''),
       rt_session_id = ''r'', rt_raw = sample_raw_token\<rparr>,
     sc_ice_servers = [], sc_log_config = None\<rparr>"

definition watching :: stream where
  "watching = (new_stream sample_config ''u'')\<lparr>ss_answer_key := replicate 16 9, ss_media_handler := True,
     ss_relay := Some ((connected_session [5])\<lparr>rs_conversations :=
       [(CONTROL_CONVERSATION, new_conversation CONTROL_CONVERSATION), (VIDEO_CONVERSATION, listening VIDEO_CONVERSATION)]\<rparr>)\<rparr>"

end
