(* ===== verification/Stream_Start.thy ===== *)
theory Stream_Start
  imports Stream_Media
begin

text \<open>
  How a streaming session starts and ends: what the device's refusal and a malformed answer make
  of the wait for the answer, what dialling does with the attempts the network gives it, what
  the device reads of the start burst, and what closing releases.
\<close>

section \<open>Waiting for the answer\<close>

lemma mqtt_decoded:
  assumes "ss_moto s = Some m" "mo_reading m" "decode_payload A (mo_key m) payload = Inr data"
    and "dispatched m data = [e]"
  shows "on_mqtt A (Some payload) s =
    fst (absorb_moto e (s\<lparr>ss_moto := Some (m\<lparr>mo_reading := snd (absorb_moto e s) = None\<rparr>)\<rparr>))"
  using assms(2,4) consume_decoded [OF assms(3)] by (simp add: on_mqtt_def assms(1) read_message_def)

text \<open>A channel whose reader has stopped hears nothing more.\<close>

lemma stopped_reader:
  "ss_moto s = Some m \<Longrightarrow> \<not> mo_reading m \<Longrightarrow> run (stream_step A) s (map Mqtt inbound) = (s, [])"
proof (induction inbound)
  case Nil
  then show ?case by simp
next
  case (Cons p ps)
  then have "on_mqtt A p s = s" by (cases s) (simp add: on_mqtt_def read_message_def)
  with Cons show ?case by (simp add: Let_def)
qed

text \<open>What becomes of the relay: only its own events touch it.\<close>

lemma absorb_relay_relay [simp]: "ss_relay (fst (absorb_all (absorb_relay A) es s)) = ss_relay s"
proof (induction es arbitrary: s)
  case (Cons e es)
  have "ss_relay (fst (absorb_relay A e s)) = ss_relay s"
    by (cases e) (auto simp: on_media_record_def push_packets_run on_relay_closed_def finish_fields Let_def split: sum.split option.split)
  with Cons show ?case by (simp add: Let_def)
qed simp

lemma on_mqtt_parts:
  "ss_relay (on_mqtt A payload s) = ss_relay s" "ss_reassembler (on_mqtt A payload s) = ss_reassembler s"
  "ss_media_handler (on_mqtt A payload s) = ss_media_handler s" "ss_answer_key (on_mqtt A payload s) = ss_answer_key s"
proof -
  have one: "ss_media_handler (fst (absorb_moto e s)) = ss_media_handler s \<and> ss_answer_key (fst (absorb_moto e s)) = ss_answer_key s"
    for e and s :: stream
    by (cases e)
      (auto simp: absorb_moto_def on_answer_def on_device_disconnect_def finish_def split: sum.split)
  have "ss_relay (foldl (\<lambda>s e. fst (absorb_moto e s)) s es) = ss_relay s \<and>
      ss_reassembler (foldl (\<lambda>s e. fst (absorb_moto e s)) s es) = ss_reassembler s \<and>
      ss_media_handler (foldl (\<lambda>s e. fst (absorb_moto e s)) s es) = ss_media_handler s \<and>
      ss_answer_key (foldl (\<lambda>s e. fst (absorb_moto e s)) s es) = ss_answer_key s" for es and s :: stream
    by (induction es arbitrary: s) (simp_all add: one absorb_moto_fields)
  then show "ss_relay (on_mqtt A payload s) = ss_relay s" "ss_reassembler (on_mqtt A payload s) = ss_reassembler s"
    "ss_media_handler (on_mqtt A payload s) = ss_media_handler s" "ss_answer_key (on_mqtt A payload s) = ss_answer_key s"
    by (simp_all add: on_mqtt_def Let_def split: option.split)
qed

lemma on_datagram_parts:
  "ss_relay (fst (on_datagram data host port s)) = ss_relay s" "ss_reassembler (fst (on_datagram data host port s)) = ss_reassembler s"
  "ss_media_handler (fst (on_datagram data host port s)) = ss_media_handler s"
  "ss_answer_key (fst (on_datagram data host port s)) = ss_answer_key s" "images (snd (on_datagram data host port s)) = []"
proof -
  have "ss_relay (fst (absorb_all absorb_ice es s)) = ss_relay s \<and> ss_reassembler (fst (absorb_all absorb_ice es s)) = ss_reassembler s \<and>
      ss_media_handler (fst (absorb_all absorb_ice es s)) = ss_media_handler s \<and>
      ss_answer_key (fst (absorb_all absorb_ice es s)) = ss_answer_key s \<and> images (snd (absorb_all absorb_ice es s)) = []"
    for es and s :: stream
  proof (induction es arbitrary: s)
    case (Cons e es)
    then show ?case by (cases e) (simp_all add: absorb_ice_def on_local_candidate_def Let_def)
  qed simp
  then show "ss_relay (fst (on_datagram data host port s)) = ss_relay s"
    "ss_reassembler (fst (on_datagram data host port s)) = ss_reassembler s"
    "ss_media_handler (fst (on_datagram data host port s)) = ss_media_handler s"
    "ss_answer_key (fst (on_datagram data host port s)) = ss_answer_key s" "images (snd (on_datagram data host port s)) = []"
    by (simp_all add: on_datagram_def split: option.split sum.split)
qed

lemma send_candidate_parts:
  "ss_relay (fst (send_candidate A t outcome s)) = ss_relay s" "ss_reassembler (fst (send_candidate A t outcome s)) = ss_reassembler s"
  "ss_media_handler (fst (send_candidate A t outcome s)) = ss_media_handler s"
  "ss_answer_key (fst (send_candidate A t outcome s)) = ss_answer_key s" "images (snd (send_candidate A t outcome s)) = []"
  by (auto simp: send_candidate_def split: list.split option.split prod.split)

lemma stream_step_relay:
  "ss_relay (fst (stream_step A s ev)) =
     (case ev of OnRelay e \<Rightarrow> map_option (\<lambda>r. fst (session_step r e)) (ss_relay s) | _ \<Rightarrow> ss_relay s)"
  by (cases ev) (simp_all add: on_mqtt_parts on_datagram_parts send_candidate_parts on_relay_def Let_def split: option.split)

text \<open>A cancelled video future stays cancelled.\<close>

lemma video_cancelled_step: "rs_video r = VideoCancelled \<Longrightarrow> rs_video (fst (session_step r e)) = VideoCancelled"
proof -
  have on: "rs_video (fst (on_conversation cid e r)) = rs_video r" for cid e r by (simp add: on_conversation_eq)
  have "rs_video (fst (forward_all ms es r)) = VideoCancelled" if "rs_video r = VideoCancelled" for ms es r
    using that
  proof (induction es arbitrary: r)
    case (Cons e es)
    then show ?case
      by (cases e) (simp_all add: Let_def route_def on on_connection_closed_def cancel_video_def split: option.split)
  qed simp
  then show "rs_video r = VideoCancelled \<Longrightarrow> rs_video (fst (session_step r e)) = VideoCancelled"
    by (cases e) (simp_all add: on on_connection_def Let_def)
qed

lemma video_cancelled_run:
  "ss_relay s = Some r \<Longrightarrow> rs_video r = VideoCancelled \<Longrightarrow>
   \<exists>r'. ss_relay (fst (run (stream_step A) s es)) = Some r' \<and> rs_video r' = VideoCancelled"
proof (induction es arbitrary: s r)
  case (Cons e es)
  have "\<exists>r'. ss_relay (fst (stream_step A s e)) = Some r' \<and> rs_video r' = VideoCancelled"
    using Cons.prems by (cases e) (simp_all add: stream_step_relay video_cancelled_step del: stream_step.simps session_step.simps)
  then show ?case using Cons.IH by (auto simp: Let_def simp del: stream_step.simps)
qed simp

section \<open>Dialling\<close>

definition signer_of :: "relay_token \<Rightarrow> stream \<Rightarrow> exn + handshake_signer" where
  "signer_of token s = new_signer (rt_credential token) (expire_timestamp token) (sc_device_id (ss_config s))
     (rt_session_id token) (ss_uid s)"

lemma dial_relay_loop:
  assumes "signer_of token s = Inr signer" "endpoint token = Inr e"
  shows "dial_relay A attempts token key s =
    dial_loop A token signer key (map attempts [1..<RELAY_DIAL_ATTEMPTS + 1]) None s"
  using assms by (simp add: dial_relay_def signer_of_def)

lemma connect_refused:
  assumes "16 \<le> length (rt_credential token)" "endpoint token = Inr address" "at_dialled a = Some x"
    and "is_os_error x"
  shows "connect_attempt A token signer key a s =
    ((new_session key)\<lparr>rs_connection := set_close_handler True (set_segment_handler True (new_connection key))\<rparr>, [],
     Inl (ConnectionError (dial_text address x)))"
  using assms
  by (simp add: connect_attempt_def connect_session_def connect_def dial_error_def CREDENTIAL_KEY_LENGTH_def
      new_session_def)

lemma close_unused:
  "\<exists>t. close_session inbound ((new_session key)\<lparr>rs_connection := set_close_handler True
      (set_segment_handler True (new_connection key))\<rparr>) = (t, [], None)"
  by (simp add: close_session_def new_session_def new_conversation_def close_loop.simps Let_def
      put_conversation_def close_connection_def new_connection_def set_close_handler_def set_segment_handler_def
      notify_closed_def cancel_video_def)

text \<open>Attempts the relay refuses at the socket pass without a trace.\<close>

definition refused_attempt :: "attempt \<Rightarrow> bool" where
  "refused_attempt a \<longleftrightarrow> at_events a = [] \<and> (case at_dialled a of None \<Rightarrow> False | Some e \<Rightarrow> is_os_error e)"

lemma dial_refused:
  assumes "16 \<le> length (rt_credential token)" "endpoint token = Inr address" "ss_ended s = None"
  shows "list_all refused_attempt as \<Longrightarrow>
    dial_loop A token signer key (as @ others) previous s =
    dial_loop A token signer key others
      (if as = [] then previous else Some (ConnectionError (dial_text address (the (at_dialled (last as)))))) s"
proof (induction as arbitrary: previous)
  case Nil
  then show ?case by simp
next
  case (Cons a as)
  obtain x where x: "at_dialled a = Some x" "at_events a = []" "is_os_error x"
    using Cons.prems by (auto simp: refused_attempt_def split: option.splits)
  obtain t where "close_session (\<lambda>_. []) ((new_session key)\<lparr>rs_connection := set_close_handler True
      (set_segment_handler True (new_connection key))\<rparr>) = (t, [], None)"
    using close_unused by blast
  then have "dial_loop A token signer key ((a # as) @ others) previous s =
      dial_loop A token signer key (as @ others) (Some (ConnectionError (dial_text address x))) s"
    using assms(3) x(2) by (simp add: connect_refused [OF assms(1,2) x(1,3)] Let_def split: prod.split)
  then show ?case using Cons x(1) by simp
qed

lemma connect_silent:
  assumes "16 \<le> length (rt_credential token)" "endpoint token = Inr e"
    and "at_dialled a = None" "at_ending a = Silent" "at_input a = []"
    and "assemble_handshake_frame A HANDSHAKE_REQUEST (str_encode (take 16 (rt_credential token))) (at_iv1 a)
      (str_encode (rt_session_id token)) (str_encode (rt_username token))
      (build_auth_request (sc_device_id (ss_config s)) (ss_uid s) (at_random a)) = Inr frame"
  obtains relay where "connect_attempt A token signer key a s = (relay, [Sent frame], Inl TimeoutError)"
proof -
  have n: "next_handshake_frame Silent [] = Inl TimeoutError"
    by (simp add: next_handshake_frame.simps [of Silent "[]"] read_frame_def FRAME_HEADER_LENGTH_def)
  show ?thesis
    using that assms
    by (simp add: connect_attempt_def connect_session_def connect_def handshake_def n Let_def CREDENTIAL_KEY_LENGTH_def
        close_connection_def notify_closed_def write_frame_def set_close_handler_def set_segment_handler_def
        new_session_def new_connection_def on_connection_closed_def)
qed

section \<open>The start burst\<close>

lemma on_the_relay_some:
  "ss_relay s = Some relay \<Longrightarrow> on_the_relay f s =
     (s\<lparr>ss_relay := Some (fst (f relay))\<rparr>, map Relay (snd (f relay)), relay_result (snd (f relay)))"
  by (simp add: on_the_relay_def Let_def)

lemma relay_result_sent: "relay_result (map (\<lambda>raw. Sent (f raw)) raws) = Inr ()"
  by (induction raws) simp_all

text \<open>A conversation that sends through the relay.\<close>

lemma send_on_relay:
  assumes "map_of (rs_conversations relay) cid = Some k" "writable (rs_connection relay)" "kcp_inv k"
    and "\<not> kcp_closed k" "chunk_count m \<le> 256"
  shows "snd (session_step relay (SendTo cid m clock)) =
      map (\<lambda>raw. Sent (segment_frame (rc_media_key (rs_connection relay)) raw)) (transmitted (snd (send clock m k)))"
    and "rs_connection (fst (session_step relay (SendTo cid m clock))) = rs_connection relay"
    and "map_of (rs_conversations (fst (session_step relay (SendTo cid m clock)))) cid = Some (fst (send clock m k))"
proof -
  have quiet: "snd (send clock m k) = map Transmit (transmitted (snd (send clock m k)))"
  proof -
    have "list_all (Not \<circ> is_raised) (snd (send_loop clock m (chunk_count m) [0..<chunk_count m] k))"
      using send_loop_segments [OF assms(5)] by blast
    moreover have "delivered (snd (send_loop clock m n is k)) = []" for n "is"
    proof (induction "is" arbitrary: k)
      case (Cons i rest)
      then show ?case unfolding send_loop_Cons by (simp add: Let_def split: sum.split)
    qed simp
    moreover have "es = map Transmit (transmitted es)" if "list_all (Not \<circ> is_raised) es" "delivered es = []" for es
      using that by (induction es rule: transmitted.induct) auto
    ultimately show ?thesis using assms(4) by (simp add: send_def)
  qed
  have short: "list_all effect_ok (snd (send clock m k))"
    using kcp_step_effects [OF assms(3), of "Send m clock"] by simp
  have outs: "outputs c cid (map Transmit raws) = map (\<lambda>raw. Sent (segment_frame (rc_media_key c) raw)) raws"
    if "list_all effect_ok (map Transmit raws)" "writable c" for c raws
    using that by (induction raws) (simp_all add: transmit_output MAX_SEGMENT_SIZE_def del: conversation_output.simps)
  have k: "the_conversation cid relay = k" using assms(1) by (simp add: the_conversation_def)
  have step: "session_step relay (SendTo cid m clock) = on_conversation cid (Send m clock) relay"
    using assms(1) by simp
  show "snd (session_step relay (SendTo cid m clock)) =
      map (\<lambda>raw. Sent (segment_frame (rc_media_key (rs_connection relay)) raw)) (transmitted (snd (send clock m k)))"
    unfolding step on_conversation_eq k using outs [OF _ assms(2)] short quiet by (metis kcp_step.simps(2))
  show "rs_connection (fst (session_step relay (SendTo cid m clock))) = rs_connection relay"
    unfolding step on_conversation_eq by simp
  show "map_of (rs_conversations (fst (session_step relay (SendTo cid m clock)))) cid = Some (fst (send clock m k))"
    unfolding step on_conversation_eq k by (simp add: map_of_update)
qed

lemma one_chunk: "length p \<le> 1000 \<Longrightarrow> length r = 16 + length (pad_pkcs7 p) \<Longrightarrow> chunk_count r = 1"
  by (simp add: length_pad_pkcs7_eq chunk_count_eq MAX_SEGMENT_SIZE_def)

lemma length_sent_one:
  assumes "\<not> kcp_closed k" "chunk_count m = 1"
  shows "length (sent_segments (snd (send clock m k))) = 1"
proof -
  have "length (sent_segments (snd (send_loop clock m 1 [0] k))) = length [0 :: nat]"
    using send_loop_segments [of 1 m "[0]" k clock] by (auto simp: fragments_of_def dest: map_eq_imp_length_eq)
  then show ?thesis using assms by (simp add: send_def del: send_loop.simps)
qed

lemma send_packets_run:
  assumes "cbc_laws A" "length key = 16" "\<And>i. length (ivs i) = 16"
  shows "ss_relay s = Some relay \<Longrightarrow> map_of (rs_conversations relay) CONTROL_CONVERSATION = Some k \<Longrightarrow>
    writable (rs_connection relay) \<Longrightarrow> kcp_inv k \<Longrightarrow> \<not> kcp_closed k \<Longrightarrow>
    list_all (\<lambda>p. length p \<le> 1000) packets \<Longrightarrow>
    \<exists>msgs s'. send_packets A key ivs clock i packets s =
        (s', map (\<lambda>raw. Relay (Sent (segment_frame (rc_media_key (rs_connection relay)) raw)))
           (transmitted (snd (run kcp_step k (sends msgs)))), Inr ()) \<and>
      ss_receive_key s' = ss_receive_key s \<and> traverse (decrypt_record A key) (map fst msgs) = Inr packets \<and>
      list_all (\<lambda>(m, clock). chunk_count m \<le> 256 \<and> m \<noteq> []) msgs \<and>
      length (sent_segments (snd (run kcp_step k (sends msgs)))) = length packets"
proof (induction packets arbitrary: i s relay k)
  case Nil
  then show ?case by (intro exI [of _ "[]"]) (simp add: sends_def)
next
  case (Cons p packets)
  obtain r where r: "encrypt_record A (ivs i) key p = Inr r" "length r = 16 + length (pad_pkcs7 p)"
    "decrypt_record A key r = Inr p"
    using record_roundtrip [OF assms(1,2,3)] .
  have one: "chunk_count r = 1" using one_chunk [OF _ r(2)] Cons.prems(6) by simp
  then have c: "chunk_count r \<le> 256" by simp
  let ?step = "session_step relay (SendTo CONTROL_CONVERSATION r (clock i))"
  note sent = send_on_relay [OF Cons.prems(2,3,4,5) c, of "clock i"]
  note after = send_segments [OF Cons.prems(5) c, of "clock i"]
  have inv: "kcp_inv (fst (send (clock i) r k))"
    using kcp_step_inv [OF Cons.prems(4), of "Send r (clock i)"] by simp
  let ?s = "s\<lparr>ss_relay := Some (fst ?step)\<rparr>"
  obtain msgs s' where rest: "send_packets A key ivs clock (Suc i) packets ?s =
      (s', map (\<lambda>raw. Relay (Sent (segment_frame (rc_media_key (rs_connection relay)) raw)))
         (transmitted (snd (run kcp_step (fst (send (clock i) r k)) (sends msgs)))), Inr ())"
    "ss_receive_key s' = ss_receive_key s" "traverse (decrypt_record A key) (map fst msgs) = Inr packets"
    "list_all (\<lambda>(m, clock). chunk_count m \<le> 256 \<and> m \<noteq> []) msgs"
    "length (sent_segments (snd (run kcp_step (fst (send (clock i) r k)) (sends msgs)))) = length packets"
    using Cons.IH [of ?s "fst ?step" "fst (send (clock i) r k)" "Suc i"] sent(2,3) inv after(4) Cons.prems(3,6)
    by (auto simp del: session_step.simps)
  have "on_the_relay (\<lambda>relay. session_step relay (SendTo CONTROL_CONVERSATION r (clock i))) s =
      (?s, map Relay (snd ?step), Inr ())"
    unfolding on_the_relay_some [OF Cons.prems(1)] sent(1) relay_result_sent ..
  then have "send_packets A key ivs clock i (p # packets) s =
      (s', map (\<lambda>raw. Relay (Sent (segment_frame (rc_media_key (rs_connection relay)) raw)))
         (transmitted (snd (run kcp_step k (sends ((r, clock i) # msgs))))), Inr ())"
    using rest(1) sent(1) by (simp add: r(1) sbind_def sends_def Let_def del: session_step.simps)
  moreover have "length (sent_segments (snd (run kcp_step k (sends ((r, clock i) # msgs))))) = length (p # packets)"
    using rest(5) length_sent_one [OF Cons.prems(5) one] by (simp add: sends_def Let_def)
  moreover have "r \<noteq> []" using r(2) by auto
  ultimately show ?case
    using rest(2,3,4) r(3) c by (intro exI [of _ "(r, clock i) # msgs"] exI [of _ s']) simp
qed

lemma start_packets:
  obtains packets where
    "start_sequence (auth_credential device_password local_key) AUTH_USERNAME = Inr packets"
    "list_all (\<lambda>p. length p \<le> 1000) packets" "length packets = 7"
proof -
  obtain commands where c: "start_sequence (auth_credential device_password local_key) AUTH_USERNAME =
      Inr (build_auth AUTH_USERNAME (auth_credential device_password local_key) # commands)"
    "length (build_auth AUTH_USERNAME (auth_credential device_password local_key)) = 104"
    using start_burst [of device_password local_key] by blast
  have l: "length raw = 20 + length payload" if "build_command ty 0 sub payload = Inr raw" for ty sub payload raw
    using that by (auto simp: build_command_def andThen_Inr_iff to_le_def split: if_splits)
  have "list_all (\<lambda>p. length p \<le> 1000) commands \<and> length commands = 6"
    using c(1) by (auto simp: start_sequence_def andThen_Inr_iff capability_length dest!: l)
  then show ?thesis using c by (intro that [OF c(1)]) simp_all
qed

text \<open>What a peer conversation is handed of everything a conversation sends.\<close>

lemma peer_reads_all:
  assumes "\<not> kcp_closed k" "kcp_next_send k = 0" "list_all (\<lambda>(m, clock). chunk_count m \<le> 256) msgs"
    and "length (sent_segments (snd (run kcp_step k (sends msgs)))) \<le> 2 ^ 32"
  shows "delivered (snd (run kcp_step (listening d) (inputs ms (sent_segments (snd (run kcp_step k (sends msgs))))))) =
    filter (\<lambda>m. m \<noteq> []) (map fst msgs)"
proof -
  let ?segs = "sent_segments (snd (run kcp_step k (sends msgs)))"
  note all = sends_segments [OF assms(1,3)]
  have sn: "seg_sequence (?segs ! i) = i" if "i < length ?segs" for i
  proof -
    have "map seg_sequence ?segs ! i = map (\<lambda>j. j mod 2 ^ 32) [0..<length ?segs] ! i"
      using all assms(2) by simp
    then show ?thesis using that assms(4) by simp
  qed
  have push: "list_all (\<lambda>s. seg_command s = CMD_PUSH) ?segs" using all by blast
  have w: "windowed ?segs" by (rule windowed_in_order) (rule sn)
  have "messages_upto (\<lambda>i. ?segs ! i) (length ?segs) = filter (\<lambda>m. m \<noteq> []) (map fst msgs)"
    using all by (simp add: messages_upto_def map_nth)
  with windowed_delivery(1) [OF w arrivals_of_stream [OF refl push sn], of d ms] show ?thesis by simp
qed

text \<open>The whole burst, and what the device reads of it.\<close>

lemma start_burst_read:
  assumes "cbc_laws A" "length send_key = 16" "\<And>i. length (ivs i) = 16"
    and "ss_relay s = Some relay" "session_inv relay" "writable (rs_connection relay)"
    and "map_of (rs_conversations relay) CONTROL_CONVERSATION = Some k" "\<not> kcp_closed k" "kcp_next_send k = 0"
  shows "\<exists>s' raws recs packets.
    send_channel_zero A ivs clock send_key receive_key s =
      (s', map (\<lambda>raw. Relay (Sent (segment_frame (rc_media_key (rs_connection relay)) raw))) raws, Inr ()) \<and>
    ss_receive_key s' = Some receive_key \<and>
    delivered (snd (run kcp_step (listening d) (inputs ms (List.map_filter parse_segment raws)))) = recs \<and>
    traverse (decrypt_record A send_key) recs = Inr packets \<and>
    start_sequence (auth_credential (sc_device_password (ss_config s)) (sc_local_key (ss_config s))) AUTH_USERNAME =
      Inr packets"
proof -
  let ?mk = "rc_media_key (rs_connection relay)"
  obtain packets where p:
    "start_sequence (auth_credential (sc_device_password (ss_config s)) (sc_local_key (ss_config s))) AUTH_USERNAME = Inr packets"
    "list_all (\<lambda>p. length p \<le> 1000) packets" "length packets = 7"
    using start_packets [of "sc_device_password (ss_config s)" "sc_local_key (ss_config s)"] .
  let ?r = "fst (session_step relay (HandlerOf CONTROL_CONVERSATION True))" and ?k = "set_message_handler True k"
  let ?s = "s\<lparr>ss_relay := Some ?r, ss_receive_key := Some receive_key\<rparr>"
  have h: "session_step relay (HandlerOf CONTROL_CONVERSATION True) = on_conversation CONTROL_CONVERSATION (SetHandler True) relay"
    using assms(7) by simp
  have conv: "the_conversation CONTROL_CONVERSATION relay = k" using assms(7) by (simp add: the_conversation_def)
  have r: "rs_connection ?r = rs_connection relay" "map_of (rs_conversations ?r) CONTROL_CONVERSATION = Some ?k"
    "snd (session_step relay (HandlerOf CONTROL_CONVERSATION True)) = []"
    unfolding h on_conversation_eq conv by (simp_all add: map_of_update)
  have k: "kcp_inv ?k" "\<not> kcp_closed ?k" "kcp_next_send ?k = 0"
    using kcp_step_inv [of k "SetHandler True"] session_invD [OF assms(5,7)] assms(8,9)
    by (simp_all add: set_message_handler_def)
  have relay_s: "ss_relay ?s = Some ?r" "writable (rs_connection ?r)" using r(1) assms(6) by simp_all
  obtain msgs s' where m: "send_packets A send_key ivs clock 0 packets ?s =
      (s', map (\<lambda>raw. Relay (Sent (segment_frame (rc_media_key (rs_connection ?r)) raw)))
         (transmitted (snd (run kcp_step ?k (sends msgs)))), Inr ())"
    "ss_receive_key s' = ss_receive_key ?s" "traverse (decrypt_record A send_key) (map fst msgs) = Inr packets"
    "list_all (\<lambda>(m, clock). chunk_count m \<le> 256 \<and> m \<noteq> []) msgs"
    "length (sent_segments (snd (run kcp_step ?k (sends msgs)))) = length packets"
    using send_packets_run [where ivs = ivs and clock = clock and i = 0, OF assms(1-3) relay_s(1) r(2) relay_s(2) k(1,2) p(2)]
    by blast
  have start: "send_channel_zero A ivs clock send_key receive_key s =
      (s', map (\<lambda>raw. Relay (Sent (segment_frame ?mk raw))) (transmitted (snd (run kcp_step ?k (sends msgs)))), Inr ())"
    using m(1) r(1,3) on_the_relay_some [OF assms(4)]
    by (simp add: send_channel_zero_def sbind_def p(1) del: session_step.simps)
  have "list_all (\<lambda>(m, clock). chunk_count m \<le> 256) msgs" "filter (\<lambda>m. m \<noteq> []) (map fst msgs) = map fst msgs"
    using m(4) by (auto simp: list_all_iff split_beta filter_id_conv)
  then have "delivered (snd (run kcp_step (listening d)
      (inputs ms (List.map_filter parse_segment (transmitted (snd (run kcp_step ?k (sends msgs)))))))) = map fst msgs"
    using peer_reads_all [OF k(2,3), of msgs d ms] m(5) p(3) by (simp add: sent_segments_def)
  then show ?thesis using start m(2,3) p(1) by auto
qed

section \<open>Properties\<close>

text \<open>
  C22: The device can read the start burst: on a freshly connected relay the session installs its
  reader of the control replies and writes media frames whose segments, read by the device's side
  of conversation 0, deliver records that decrypt under the offered key to exactly the
  authentication with the account's credential and the six start commands, in order.
\<close>

theorem device_reads_start_burst:
  assumes "cbc_laws A" "length send_key = 16" "\<And>i. length (ivs i) = 16"
    and "ss_relay s = Some relay" "session_inv relay" "writable (rs_connection relay)"
    and "map_of (rs_conversations relay) CONTROL_CONVERSATION = Some k" "\<not> kcp_closed k" "kcp_next_send k = 0"
  shows "\<exists>s' raws recs packets.
    send_channel_zero A ivs clock send_key receive_key s =
      (s', map (\<lambda>raw. Relay (Sent (segment_frame (rc_media_key (rs_connection relay)) raw))) raws, Inr ()) \<and>
    ss_receive_key s' = Some receive_key \<and>
    delivered (snd (run kcp_step (listening d) (inputs ms (List.map_filter parse_segment raws)))) = recs \<and>
    traverse (decrypt_record A send_key) recs = Inr packets \<and>
    start_sequence (auth_credential (sc_device_password (ss_config s)) (sc_local_key (ss_config s))) AUTH_USERNAME =
      Inr packets"
  using start_burst_read [OF assms] .

lemma device_reads_start_burst_witness:
  "\<exists>s' raws recs packets.
    send_channel_zero flip_cipher (\<lambda>_. replicate 16 1) (\<lambda>_ _. 0) (replicate 16 2) (replicate 16 3) watching =
      (s', map (\<lambda>raw. Relay (Sent (segment_frame [5] raw))) raws, Inr ()) \<and>
    delivered (snd (run kcp_step (listening 0) (inputs 0 (List.map_filter parse_segment raws)))) = recs \<and>
    traverse (decrypt_record flip_cipher (replicate 16 2)) recs = Inr packets \<and>
    start_sequence (auth_credential ''p'' ''0123456789abcdef'') AUTH_USERNAME = Inr packets"
proof -
  let ?relay = "the (ss_relay watching)"
  have "session_inv ?relay"
  proof -
    have "kcp_inv (new_conversation c)" "kcp_inv (set_message_handler True (new_conversation c))" for c
      using kcp_inv_new kcp_step_inv [OF kcp_inv_new, of c "SetHandler True"] by simp_all
    then show ?thesis
      by (simp add: session_inv_def watching_def connected_session_def new_session_def listening_def
          CONTROL_CONVERSATION_def VIDEO_CONVERSATION_def new_conversation_id set_message_handler_def)
  qed
  then show ?thesis
    using device_reads_start_burst [OF flip_cipher_cbc, of "replicate 16 2" "\<lambda>_. replicate 16 1" watching ?relay
        "new_conversation CONTROL_CONVERSATION" "\<lambda>_ _. 0" "replicate 16 3" 0 0]
    by (fastforce simp: watching_def new_stream_def sample_config_def connected_session_def new_session_def
        writable_def CONTROL_CONVERSATION_def VIDEO_CONVERSATION_def new_conversation_def)
qed

end
