(* ===== verification/Stream_Ends.thy ===== *)
theory Stream_Ends
  imports Stream_Start
begin

text \<open>
  How a start fails and how a session ends: the device's refusal, an answer whose key is
  malformed, the attempts at the relay, and what closing releases or, when the relay's own
  close fails, does not.
\<close>

section \<open>Closing\<close>

definition published_count :: "stream_effect list \<Rightarrow> nat" where
  "published_count es = length (filter (\<lambda>e. case e of Signaling (Published topic payload) \<Rightarrow> True | _ \<Rightarrow> False) es)"

lemma absorb_relay_parts:
  "ss_moto (fst (absorb_relay A e s)) = ss_moto s" "ss_ice (fst (absorb_relay A e s)) = ss_ice s"
  "ss_closing (fst (absorb_relay A e s)) = ss_closing s" "ss_candidate_tasks (fst (absorb_relay A e s)) = ss_candidate_tasks s"
  "settles s (fst (absorb_relay A e s))"
proof -
  have m: "ss_moto (fst (on_media_record A r s)) = ss_moto s \<and> ss_ice (fst (on_media_record A r s)) = ss_ice s \<and>
      ss_closing (fst (on_media_record A r s)) = ss_closing s \<and>
      ss_candidate_tasks (fst (on_media_record A r s)) = ss_candidate_tasks s \<and> settles s (fst (on_media_record A r s))" for r
    by (simp add: on_media_record_def push_packets_run Let_def settles_def split: sum.split)
  show "ss_moto (fst (absorb_relay A e s)) = ss_moto s" "ss_ice (fst (absorb_relay A e s)) = ss_ice s"
    "ss_closing (fst (absorb_relay A e s)) = ss_closing s" "ss_candidate_tasks (fst (absorb_relay A e s)) = ss_candidate_tasks s"
    "settles s (fst (absorb_relay A e s))"
    using m finish_fields(4)
    by (cases e; simp add: on_relay_closed_def finish_def split: option.split)+
qed

lemma absorb_all_parts:
  "ss_moto (fst (absorb_all (absorb_relay A) es s)) = ss_moto s \<and> ss_ice (fst (absorb_all (absorb_relay A) es s)) = ss_ice s \<and>
   ss_closing (fst (absorb_all (absorb_relay A) es s)) = ss_closing s \<and>
   ss_candidate_tasks (fst (absorb_all (absorb_relay A) es s)) = ss_candidate_tasks s \<and>
   settles s (fst (absorb_all (absorb_relay A) es s))"
proof (induction es arbitrary: s)
  case Nil
  then show ?case by simp
next
  case (Cons e es)
  show ?case
    using Cons.IH [of "fst (absorb_relay A e s)"] absorb_relay_parts [where A = A and e = e and s = s]
      settles_trans [of s "fst (absorb_relay A e s)"]
    by (simp add: Let_def)
qed

text \<open>The state in which the relay is closed: ended, the candidate tasks cancelled, the future
  of the answer done, the ICE socket closed.\<close>

definition closing_state :: "stream \<Rightarrow> stream" where
  "closing_state s =
     (let s1 = (finish ''closed'' (s\<lparr>ss_closing := True\<rparr>))\<lparr>ss_candidate_tasks := []\<rparr>;
          s2 = (if answer_done s1 then s1 else s1\<lparr>ss_answer := AnswerCancelled\<rparr>)
      in fst (close_ice s2))"

lemma closing_state_fields [simp]:
  "ss_closing (closing_state s)" "ss_candidate_tasks (closing_state s) = []" "ss_ice (closing_state s) = None"
  "ss_relay (closing_state s) = ss_relay s" "ss_moto (closing_state s) = ss_moto s" "answer_done (closing_state s)"
  "ss_ended (closing_state s) = Some (case ss_ended s of None \<Rightarrow> ''closed'' | Some r \<Rightarrow> r)"
  "ss_config (closing_state s) = ss_config s" "ss_uid (closing_state s) = ss_uid s"
  by (cases "ss_ice s"; auto simp: closing_state_def close_ice_def finish_def answer_done_def Let_def split: option.split)+

lemma close_stream_open:
  assumes "\<not> ss_closing s"
  shows "close_stream A inbound at s =
    (case sbind (close_relay A inbound) (\<lambda>_. close_signaling A at) (closing_state s) of
       (s3, es, r) \<Rightarrow> (s3, (case ss_ice s of None \<Rightarrow> [] | Some ice \<Rightarrow> map Ice (snd (close_responder ice))) @ es, r))"
proof -
  let ?s1 = "(finish ''closed'' (s\<lparr>ss_closing := True\<rparr>))\<lparr>ss_candidate_tasks := []\<rparr>"
  let ?s2 = "if answer_done ?s1 then ?s1 else ?s1\<lparr>ss_answer := AnswerCancelled\<rparr>"
  have "ss_ice ?s2 = ss_ice s" by (simp add: finish_def)
  then have "snd (close_ice ?s2) = (case ss_ice s of None \<Rightarrow> [] | Some ice \<Rightarrow> map Ice (snd (close_responder ice)))"
    by (simp add: close_ice_def split: option.split)
  then show ?thesis
    using assms by (simp add: close_stream_def closing_state_def Let_def)
qed

lemma published_count_append [simp]: "published_count (es @ fs) = published_count es + published_count fs"
  by (simp add: published_count_def)

lemma published_count_quiet [simp]:
  "published_count (map Ice ws) = 0" "published_count (map Relay rs) = 0" "published_count (map Frame fs) = 0"
  by (simp_all add: published_count_def filter_empty_conv)

lemma absorb_all_quiet: "published_count (snd (absorb_all (absorb_relay A) es s)) = 0"
proof (induction es arbitrary: s)
  case Nil
  then show ?case by (simp add: published_count_def)
next
  case (Cons e es)
  have "published_count (snd (on_media_record A r s)) = 0" for r
    by (auto simp: on_media_record_def push_packets_run Let_def split: sum.split) (simp_all add: published_count_def)
  then have "published_count (snd (absorb_relay A e s)) = 0"
    by (cases e) (auto simp: published_count_def split: option.split)
  then show ?case by (simp add: Cons.IH Let_def)
qed

lemma close_stream_again: "ss_closing s \<Longrightarrow> close_stream A inbound at s = (s, [], Inr ())"
  by (simp add: close_stream_def)

text \<open>The effects before the relay is closed: the socket of the ICE responder.\<close>

definition ice_effects :: "stream \<Rightarrow> stream_effect list" where
  "ice_effects s = (case ss_ice s of None \<Rightarrow> [] | Some ice \<Rightarrow> map Ice (snd (close_responder ice)))"

lemma ice_effects_quiet: "published_count (ice_effects s) = 0"
  by (cases "ss_ice s") (simp_all add: ice_effects_def, simp add: published_count_def)

lemma close_signaling_publishes:
  assumes "ecb_laws A" "publishing A m" "Suc (mo_sequence m) < 2 ^ 32" "int_in_range t" "ss_moto s = Some m"
  obtains topic payload data where
    "close_signaling A (t, Accepted) s =
       (s\<lparr>ss_moto := None\<rparr>, [Signaling (Published topic payload), Signaling BrokerClosed], Inr ())"
    "decode_payload A (mo_key m) payload = Inr data" "outbound_data (Disconnect 4) m = JObj data"
proof -
  have "wf_outbound (Disconnect 4)" by (simp add: int_in_range_below)
  then obtain payload data body where p: "send_outbound A t Accepted (Disconnect 4) m =
      (m\<lparr>mo_sequence := Suc (mo_sequence m)\<rparr>, [Published (mo_publish_topic m) payload], None)"
    "decode_payload A (mo_key m) payload = Inr data" "outbound_data (Disconnect 4) m = JObj data"
    "decode_frame payload = Inr \<lparr>df_sequence = Suc (mo_sequence m), df_source = take 4 (mo_source m), df_body = body\<rparr>"
    using send_outbound_payload [OF assms(1-4)] by blast
  have "close_signaling A (t, Accepted) s =
      (s\<lparr>ss_moto := None\<rparr>, [Signaling (Published (mo_publish_topic m) payload), Signaling BrokerClosed], Inr ())"
    using assms(2) p(1) by (simp add: close_signaling_def assms(5) close_moto_def publishing_def)
  then show ?thesis using that p(2,3) by blast
qed

text \<open>What a start comes to before it waits for the answer.\<close>

lemma start_offered:
  assumes "ecb_laws A" "aes_key_size (str_encode (sc_local_key (ss_config s)))" "4 \<le> length (st_source x)"
    and "p2p_session_id (sc_p2p_session (ss_config s)) \<noteq> []"
    and "st_entering x = Accepted" "st_subscribing x = Accepted"
    and "st_query x = (t1, Accepted)" "int_in_range t1" "st_offer x = (t2, Accepted)" "int_in_range t2"
    and "wf_json (ice_servers_as_json (ss_config s))" "wf_json (log_config_as_json (ss_config s))"
    and "wf_json (token_as_json (session_token x (ss_config s)))"
  obtains s1 m query offer data body1 body2 where
    "decode_payload A (str_encode (sc_local_key (ss_config s))) query = Inr [(''reqType'', JStr ''sigQry'')]"
    "decode_frame query = Inr \<lparr>df_sequence = 1, df_source = take 4 (st_source x), df_body = body1\<rparr>"
    "decode_payload A (str_encode (sc_local_key (ss_config s))) offer = Inr data"
    "map_option (\<lambda>message. optional_str message ''sdp'') (optional_object data ''msg'') =
      Some (Some (offer_sdp (session_offer x (ss_config s) (ss_uid s))))"
    "decode_frame offer = Inr \<lparr>df_sequence = 2, df_source = take 4 (st_source x), df_body = body2\<rparr>"
    "ss_candidates s1 = ss_candidates s @ [candidate_line (local_address (st_probe x)) (st_port x)]"
    "ss_candidate_tasks s1 = ss_candidate_tasks s @ [candidate_line (local_address (st_probe x)) (st_port x)]"
    "ss_answer s1 = ss_answer s" "ss_closing s1 = ss_closing s"
    "ss_config s1 = ss_config s" "ss_uid s1 = ss_uid s" "ss_ended s1 = ss_ended s" "ss_relay s1 = ss_relay s"
    "ss_reassembler s1 = ss_reassembler s" "ss_media_handler s1 = ss_media_handler s"
    "ss_moto s1 = Some m" "publishing A m" "mo_reading m" "mo_key m = str_encode (sc_local_key (ss_config s))"
    "mo_session_id m = p2p_session_id (sc_p2p_session (ss_config s))" "mo_sequence m = 2"
    "mo_publish_topic m = ''smart/mb/out/'' @ sc_device_id (ss_config s)"
    "start A x s = (case sbind (await_answer A (st_before_answer x)) (after_answer A x
        (session_offer x (ss_config s) (ss_uid s)) (session_trace_id x (ss_config s)) (session_token x (ss_config s))) s1 of
      (s2, es, r) \<Rightarrow> (s2, [Signaling (Subscribed (''smart/mb/in/'' @ sc_device_id (ss_config s))),
         Signaling (Published (''smart/mb/out/'' @ sc_device_id (ss_config s)) query),
         Signaling (Published (''smart/mb/out/'' @ sc_device_id (ss_config s)) offer)] @ es, r))"
proof -
  let ?c = "ss_config s" and ?p2p = "sc_p2p_session (ss_config s)"
  let ?token = "session_token x ?c" and ?trace = "session_trace_id x ?c" and ?offer = "session_offer x ?c (ss_uid s)"
  let ?p = "Offer (offer_sdp ?offer) (ice_servers_as_json ?c) ?trace (token_as_json ?token) (log_config_as_json ?c)"
  define m where "m = (new_moto (ss_uid s) (sc_device_id ?c) (p2p_session_id ?p2p) (sc_local_key ?c) (st_source x))
    \<lparr>mo_connected := True, mo_reading := True\<rparr>"
  have m: "publishing A m" "mo_key m = str_encode (sc_local_key ?c)" "mo_source m = st_source x" "mo_sequence m = 0"
    "mo_publish_topic m = ''smart/mb/out/'' @ sc_device_id ?c" "mo_reading m" "mo_session_id m = p2p_session_id ?p2p"
    using assms(2-4) by (simp_all add: m_def new_moto_def publishing_def)
  have n1: "Suc (mo_sequence m) < 2 ^ 32" "wf_outbound SigQuery" using m(4) by simp_all
  obtain query qd body1 where q: "send_outbound A t1 Accepted SigQuery m =
      (m\<lparr>mo_sequence := Suc (mo_sequence m)\<rparr>, [Published (mo_publish_topic m) query], None)"
    "decode_payload A (mo_key m) query = Inr qd" "outbound_data SigQuery m = JObj qd"
    "decode_frame query = Inr \<lparr>df_sequence = Suc (mo_sequence m), df_source = take 4 (mo_source m), df_body = body1\<rparr>"
    using send_outbound_payload [OF assms(1) m(1) n1(1) assms(8) n1(2)] .
  define m1 where "m1 = m\<lparr>mo_sequence := 1\<rparr>"
  have m1: "publishing A m1" "Suc (mo_sequence m1) < 2 ^ 32" "wf_outbound ?p"
    using m(1) assms(11-13) by (simp_all add: publishing_def m1_def)
  obtain offer od body2 where o: "send_outbound A t2 Accepted ?p m1 =
      (m1\<lparr>mo_sequence := Suc (mo_sequence m1)\<rparr>, [Published (mo_publish_topic m1) offer], None)"
    "decode_payload A (mo_key m1) offer = Inr od" "outbound_data ?p m1 = JObj od"
    "decode_frame offer = Inr \<lparr>df_sequence = Suc (mo_sequence m1), df_source = take 4 (mo_source m1), df_body = body2\<rparr>"
    using send_outbound_payload [OF assms(1) m1(1,2) assms(10) m1(3)] .
  let ?s = "s\<lparr>ss_moto := Some (m1\<lparr>mo_sequence := Suc (mo_sequence m1)\<rparr>)\<rparr>"
  define s1 where "s1 = on_local_candidate (candidate_line (local_address (st_probe x)) (st_port x))
    (?s\<lparr>ss_ice := Some ((new_responder (p2p_ice_password ?p2p))\<lparr>ir_transport := True\<rparr>)\<rparr>)"
  have connect: "connect_signaling (p2p_session_id ?p2p) (st_source x) (st_entering x) (st_subscribing x) s =
      (s\<lparr>ss_moto := Some m\<rparr>, [Signaling (Subscribed (''smart/mb/in/'' @ sc_device_id ?c))], Inr ())"
    using assms(5,6) by (simp add: connect_signaling_def moto_connect_def new_moto_def m_def)
  have publish: "publish_offer A (st_query x) (st_offer x) ?offer ?trace ?token (s\<lparr>ss_moto := Some m\<rparr>) =
      (?s, [Signaling (Published (''smart/mb/out/'' @ sc_device_id ?c) query),
         Signaling (Published (''smart/mb/out/'' @ sc_device_id ?c) offer)], Inr ())"
    using q(1) o(1) m(4,5)
    by (simp add: publish_offer_def sbind_def suppress_def publish_signaling_def assms(7,9) m1_def [symmetric])
      (simp add: m1_def)
  have gather: "gather_candidates (p2p_ice_password ?p2p) (st_probe x) (st_port x) ?s = (s1, [], Inr ())"
    by (simp add: gather_candidates_def gather_def absorb_ice_def s1_def Let_def)
  have "offer_sdp ?offer \<noteq> []" by (simp add: session_offer_def build_offer_def Let_def)
  then have "map_option (\<lambda>message. optional_str message ''sdp'') (optional_object od ''msg'') = Some (Some (offer_sdp ?offer))"
    using o(3) by (auto simp: offer_data_def optional_object_def optional_str_def)
  moreover have "qd = [(''reqType'', JStr ''sigQry'')]" using q(3) by (simp add: sig_query_data_def)
  moreover have "start A x s = (case sbind (await_answer A (st_before_answer x)) (after_answer A x ?offer ?trace ?token) s1 of
      (s2, es, r) \<Rightarrow> (s2, [Signaling (Subscribed (''smart/mb/in/'' @ sc_device_id ?c)),
         Signaling (Published (''smart/mb/out/'' @ sc_device_id ?c) query),
         Signaling (Published (''smart/mb/out/'' @ sc_device_id ?c) offer)] @ es, r))"
    by (simp add: start_def sbind_def [of "connect_signaling a b c d" for a b c d] connect
        sbind_def [of "publish_offer a b c d e f" for a b c d e f] publish
        sbind_def [of "gather_candidates a b c" for a b c] gather Let_def split: prod.split)
  ultimately show ?thesis
    using that [of query body1 offer od body2 s1 "m1\<lparr>mo_sequence := Suc (mo_sequence m1)\<rparr>"] q(2,4) o(2,4) m
    by (simp add: s1_def on_local_candidate_def Let_def m1_def publishing_def)
qed

lemma start_waits:
  assumes "ecb_laws A" "aes_key_size (str_encode (sc_local_key (ss_config s)))" "4 \<le> length (st_source x)"
    and "p2p_session_id (sc_p2p_session (ss_config s)) \<noteq> []"
    and "st_entering x = Accepted" "st_subscribing x = Accepted"
    and "st_query x = (t1, Accepted)" "int_in_range t1" "st_offer x = (t2, Accepted)" "int_in_range t2"
    and "wf_json (ice_servers_as_json (ss_config s))" "wf_json (log_config_as_json (ss_config s))"
    and "wf_json (token_as_json (session_token x (ss_config s)))"
  obtains s1 query offer data body1 body2 where
    "decode_payload A (str_encode (sc_local_key (ss_config s))) query = Inr [(''reqType'', JStr ''sigQry'')]"
    "decode_frame query = Inr \<lparr>df_sequence = 1, df_source = take 4 (st_source x), df_body = body1\<rparr>"
    "decode_payload A (str_encode (sc_local_key (ss_config s))) offer = Inr data"
    "map_option (\<lambda>message. optional_str message ''sdp'') (optional_object data ''msg'') =
      Some (Some (offer_sdp (session_offer x (ss_config s) (ss_uid s))))"
    "decode_frame offer = Inr \<lparr>df_sequence = 2, df_source = take 4 (st_source x), df_body = body2\<rparr>"
    "ss_candidates s1 = ss_candidates s @ [candidate_line (local_address (st_probe x)) (st_port x)]"
    "ss_candidate_tasks s1 = ss_candidate_tasks s @ [candidate_line (local_address (st_probe x)) (st_port x)]"
    "ss_answer s1 = ss_answer s" "ss_closing s1 = ss_closing s"
    "start A x s = (case sbind (await_answer A (st_before_answer x)) (after_answer A x
        (session_offer x (ss_config s) (ss_uid s)) (session_trace_id x (ss_config s)) (session_token x (ss_config s))) s1 of
      (s2, es, r) \<Rightarrow> (s2, [Signaling (Subscribed (''smart/mb/in/'' @ sc_device_id (ss_config s))),
         Signaling (Published (''smart/mb/out/'' @ sc_device_id (ss_config s)) query),
         Signaling (Published (''smart/mb/out/'' @ sc_device_id (ss_config s)) offer)] @ es, r))"
  by (rule start_offered [OF assms]) (rule that)

text \<open>Dialling rides out a relay that is not there yet: up to eleven attempts refused at the
  socket are passed over and the first that connects is the relay of the session, and twelve
  refusals are a session error with the last refusal's text.\<close>

lemma dial_rides_out:
  assumes "16 \<le> length (rt_credential token)" "endpoint token = Inr address" "signer_of token s = Inr signer"
    and "ss_ended s = None" "list_all refused_attempt (map attempts [1..<Suc n])"
    and "n < 12 \<Longrightarrow> connect_attempt A token signer key (attempts (Suc n)) s = (relay, es, Inr rest)"
  shows "dial_relay A attempts token key s =
    (if n < 12 then (s, map Relay es, Inr relay)
     else (s, [], Inl (SessionError (''Failed to connect the relay: '' @ dial_text address (the (at_dialled (attempts 12)))))))"
proof (cases "n < 12")
  case True
  have "map attempts [1..<13] = map attempts [1..<Suc n] @ attempts (Suc n) # map attempts [Suc (Suc n)..<13]"
    using True upt_add_eq_append [of 1 "Suc n" "12 - n"] by (simp add: upt_conv_Cons del: upt_Suc)
  then have "dial_relay A attempts token key s =
      dial_loop A token signer key (attempts (Suc n) # map attempts [Suc (Suc n)..<13])
        (if map attempts [1..<Suc n] = [] then None else
           Some (ConnectionError (dial_text address (the (at_dialled (last (map attempts [1..<Suc n]))))))) s"
    using dial_relay_loop [OF assms(3,2), of A attempts key] dial_refused [OF assms(1,2,4,5)]
    by (simp add: RELAY_DIAL_ATTEMPTS_def del: upt_Suc dial_loop.simps)
  then show ?thesis using True assms(4,6) by simp
next
  case False
  have "list_all refused_attempt (map attempts [1..<13])"
    using assms(5) False by (auto simp: list_all_iff simp del: upt_Suc)
  moreover have "map attempts [1..<13] \<noteq> []" "last (map attempts [1..<13]) = attempts 12"
    by (simp_all add: last_map)
  ultimately show ?thesis
    using False dial_refused [OF assms(1,2,4), of "map attempts [1..<13]" A signer key "[]" None]
      dial_relay_loop [OF assms(3,2), of A attempts key]
    by (simp add: RELAY_DIAL_ATTEMPTS_def del: upt_Suc)
qed

section \<open>Properties\<close>

text \<open>
  C26: Whatever reaches a session, in any order, every image it hands out is a whole JPEG within
  the size limit and is counted once, and what its two futures were resolved to, the answer and
  the reason it ended, never changes.
\<close>

theorem images_whole_futures_once:
  assumes "stream_inv s"
  shows "list_all jpeg_ok (images (snd (run (stream_step A) s es))) \<and>
    ss_frames (fst (run (stream_step A) s es)) = ss_frames s + length (images (snd (run (stream_step A) s es))) \<and>
    (case ss_ended s of None \<Rightarrow> True | Some reason \<Rightarrow> ss_ended (fst (run (stream_step A) s es)) = Some reason) \<and>
    (ss_answer s = AnswerPending \<or> ss_answer (fst (run (stream_step A) s es)) = ss_answer s)"
  using good_run [OF assms, of A es] by (auto simp: good_def settles_def split: option.split)

lemma images_whole_futures_once_witness:
  "list_all jpeg_ok (images (snd (run (stream_step flip_cipher) (new_stream sample_config ''u'') [Mqtt None])))"
  using images_whole_futures_once [OF new_stream_inv, of flip_cipher sample_config "''u''" "[Mqtt None]"] by blast

text \<open>
  C15: A start opens the signaling in the order the device needs. Over a broker that takes them,
  it subscribes, publishes the signal query as message 1 and the offer of this session as
  message 2, and gathers the candidate, which waits for its own task; only then does it wait for
  the answer, and when that wait fails the start fails with the same error before the relay is
  dialled.
\<close>

theorem start_offers_in_order:
  assumes "ecb_laws A" "aes_key_size (str_encode (sc_local_key (ss_config s)))" "4 \<le> length (st_source x)"
    and "p2p_session_id (sc_p2p_session (ss_config s)) \<noteq> []"
    and "st_entering x = Accepted" "st_subscribing x = Accepted"
    and "st_query x = (t1, Accepted)" "int_in_range t1" "st_offer x = (t2, Accepted)" "int_in_range t2"
    and "wf_json (ice_servers_as_json (ss_config s))" "wf_json (log_config_as_json (ss_config s))"
    and "wf_json (token_as_json (session_token x (ss_config s)))"
  shows "\<exists>s1 query offer data body1 body2.
    decode_payload A (str_encode (sc_local_key (ss_config s))) query = Inr [(''reqType'', JStr ''sigQry'')] \<and>
    decode_frame query = Inr \<lparr>df_sequence = 1, df_source = take 4 (st_source x), df_body = body1\<rparr> \<and>
    decode_payload A (str_encode (sc_local_key (ss_config s))) offer = Inr data \<and>
    map_option (\<lambda>message. optional_str message ''sdp'') (optional_object data ''msg'') =
      Some (Some (offer_sdp (session_offer x (ss_config s) (ss_uid s)))) \<and>
    decode_frame offer = Inr \<lparr>df_sequence = 2, df_source = take 4 (st_source x), df_body = body2\<rparr> \<and>
    ss_candidates s1 = ss_candidates s @ [candidate_line (local_address (st_probe x)) (st_port x)] \<and>
    ss_candidate_tasks s1 = ss_candidate_tasks s @ [candidate_line (local_address (st_probe x)) (st_port x)] \<and>
    ss_answer s1 = ss_answer s \<and>
    (\<exists>es r. start A x s = (fst r,
        [Signaling (Subscribed (''smart/mb/in/'' @ sc_device_id (ss_config s))),
         Signaling (Published (''smart/mb/out/'' @ sc_device_id (ss_config s)) query),
         Signaling (Published (''smart/mb/out/'' @ sc_device_id (ss_config s)) offer)] @ es, snd r) \<and>
      (case await_answer A (st_before_answer x) s1 of
         (s2, fs, Inl e) \<Rightarrow> r = (s2, Inl e) \<and> es = fs | (s2, fs, Inr answer) \<Rightarrow> True))"
proof -
  let ?c = "ss_config s" and ?line = "candidate_line (local_address (st_probe x)) (st_port x)"
  obtain s1 query offer od body1 body2 where o:
    "decode_payload A (str_encode (sc_local_key ?c)) query = Inr [(''reqType'', JStr ''sigQry'')]"
    "decode_frame query = Inr \<lparr>df_sequence = 1, df_source = take 4 (st_source x), df_body = body1\<rparr>"
    "decode_payload A (str_encode (sc_local_key ?c)) offer = Inr od"
    "map_option (\<lambda>message. optional_str message ''sdp'') (optional_object od ''msg'') =
      Some (Some (offer_sdp (session_offer x ?c (ss_uid s))))"
    "decode_frame offer = Inr \<lparr>df_sequence = 2, df_source = take 4 (st_source x), df_body = body2\<rparr>"
    "ss_candidates s1 = ss_candidates s @ [?line]" "ss_candidate_tasks s1 = ss_candidate_tasks s @ [?line]"
    "ss_answer s1 = ss_answer s" "ss_closing s1 = ss_closing s"
    and start: "start A x s = (case sbind (await_answer A (st_before_answer x))
        (after_answer A x (session_offer x ?c (ss_uid s)) (session_trace_id x ?c) (session_token x ?c)) s1 of
      (s2, es, r) \<Rightarrow> (s2, [Signaling (Subscribed (''smart/mb/in/'' @ sc_device_id ?c)),
         Signaling (Published (''smart/mb/out/'' @ sc_device_id ?c) query),
         Signaling (Published (''smart/mb/out/'' @ sc_device_id ?c) offer)] @ es, r))"
    using start_waits [OF assms] .
  obtain s2 es r where w: "sbind (await_answer A (st_before_answer x))
      (after_answer A x (session_offer x ?c (ss_uid s)) (session_trace_id x ?c) (session_token x ?c)) s1 = (s2, es, r)"
    by (cases "sbind (await_answer A (st_before_answer x))
      (after_answer A x (session_offer x ?c (ss_uid s)) (session_trace_id x ?c) (session_token x ?c)) s1")
  have "case await_answer A (st_before_answer x) s1 of
      (s3, fs, Inl e) \<Rightarrow> (s2, r) = (s3, Inl e) \<and> es = fs | (s3, fs, Inr answer) \<Rightarrow> True"
    using w by (auto simp: sbind_def split: prod.split sum.split)
  then have "\<exists>es r. start A x s = (fst r,
        [Signaling (Subscribed (''smart/mb/in/'' @ sc_device_id (ss_config s))),
         Signaling (Published (''smart/mb/out/'' @ sc_device_id (ss_config s)) query),
         Signaling (Published (''smart/mb/out/'' @ sc_device_id (ss_config s)) offer)] @ es, snd r) \<and>
      (case await_answer A (st_before_answer x) s1 of
         (s2, fs, Inl e) \<Rightarrow> r = (s2, Inl e) \<and> es = fs | (s2, fs, Inr answer) \<Rightarrow> True)"
    using start w by (intro exI [of _ es] exI [of _ "(s2, r)"]) simp
  with o show ?thesis
    by (intro exI [of _ s1] exI [of _ query] exI [of _ offer] exI [of _ od] exI [of _ body1] exI [of _ body2] conjI)
qed

definition sample_attempt :: attempt where
  "sample_attempt = \<lparr>at_random = [], at_iv1 = [], at_iv2 = [], at_dialled = Some (SocketError ''refused''), at_ending = Ended,
     at_input = [], at_ms = 0, at_events = []\<rparr>"

definition sample_script :: start_script where
  "sample_script = \<lparr>st_seconds = 0, st_picks = [], st_trace_ms = 0, st_offer_seconds = 0, st_source = [1, 2, 3, 4],
     st_entering = Accepted, st_subscribing = Accepted, st_query = (0, Accepted), st_offer = (0, Accepted),
     st_probe = None, st_port = 4000, st_before_answer = [], st_attempts = (\<lambda>_. sample_attempt), st_tunnel_ivs = (\<lambda>_. []),
     st_control_ivs = (\<lambda>_. []), st_clock = (\<lambda>_ _. 0), st_before_video = []\<rparr>"

text \<open>With no event the wait times out, and the start ends in the session error.\<close>

lemma start_offers_in_order_witness:
  "snd (snd (start flip_cipher sample_script (new_stream sample_config ''u''))) =
     Inl (SessionError ''Failed to start the session: the device sent no answer'')"
proof -
  let ?s = "new_stream sample_config ''u''"
  have "aes_key_size (str_encode (sc_local_key (ss_config ?s)))"
    using sample_channel_publishing [of "''s''" flip_cipher]
    by (simp add: new_stream_def sample_config_def publishing_def sample_channel_def new_moto_def)
  moreover have "wf_json (token_as_json (session_token sample_script sample_config))"
    by (simp add: token_as_json_def session_token_def with_session_id_def offered_def sample_config_def sample_raw_token_def)
  ultimately obtain s1 es r where
    "start flip_cipher sample_script ?s = (fst r, es, snd r)"
    "case await_answer flip_cipher [] s1 of (s2, fs, Inl e) \<Rightarrow> snd r = Inl e | (s2, fs, Inr answer) \<Rightarrow> True"
    "ss_answer s1 = AnswerPending"
    using start_offers_in_order [OF flip_cipher_ecb, of ?s sample_script 0 0]
    by (fastforce simp: sample_script_def new_stream_def sample_config_def ice_servers_as_json_def log_config_as_json_def
        int_in_range_below split: prod.splits sum.splits)
  then show ?thesis
    by (simp add: await_answer_def)
qed

text \<open>
  C32: A refusal ends the start with the right error: a disconnect the device publishes on this
  session before any answer makes the wait for the answer fail with the busy error exactly when
  its reason is 12 and with the session error otherwise, and the session has ended with that
  reason, whatever arrives afterwards.
\<close>

theorem refusal_ends_start:
  assumes "ecb_laws A" "publishing A device" "Suc (mo_sequence device) < 2 ^ 32" "int_in_range t" "int_in_range reason"
    and "publish_step A device (t, Disconnect reason) = (device', [Published topic payload])"
    and "ss_moto s = Some m" "mo_reading m" "mo_key m = mo_key device" "mo_session_id m = mo_session_id device"
    and "ss_answer s = AnswerPending" "ss_ended s = None" "stream_inv s"
  shows "snd (snd (await_answer A (Mqtt (Some payload) # later) s)) =
      Inl ((if reason = 12 then DeviceBusyError else SessionError) (refusal_message reason)) \<and>
    ss_ended (fst (await_answer A (Mqtt (Some payload) # later) s)) =
      Some (''device disconnect, close_reason='' @ dump_int reason)"
proof -
  have "wf_outbound (Disconnect reason)" using assms(5) by simp
  then obtain p data body where p: "publish_step A device (t, Disconnect reason) =
      (device\<lparr>mo_sequence := Suc (mo_sequence device)\<rparr>, [Published (mo_publish_topic device) p])"
    "decode_payload A (mo_key device) p = Inr data" "outbound_data (Disconnect reason) device = JObj data"
    "decode_frame p = Inr \<lparr>df_sequence = Suc (mo_sequence device), df_source = take 4 (mo_source device), df_body = body\<rparr>"
    using publish_step_payload [OF assms(1-4)] by blast
  then have payload: "decode_payload A (mo_key m) payload = Inr data" using assms(6,9) by simp
  have "mo_session_id device \<noteq> []" using assms(2) by (simp add: publishing_def)
  then have d: "dispatched m data = [Disconnected reason]"
    using outbound_dispatched [OF p(3)] assms(10) by simp
  have a: "absorb_moto (Disconnected reason) s' = (on_device_disconnect reason s', None)" for s'
    by (simp add: absorb_moto_def)
  have step: "on_mqtt A (Some payload) s = on_device_disconnect reason (s\<lparr>ss_moto := Some (m\<lparr>mo_reading := True\<rparr>)\<rparr>)"
    using mqtt_decoded [OF assms(7,8) payload d] by (simp add: a)
  let ?s = "on_device_disconnect reason (s\<lparr>ss_moto := Some (m\<lparr>mo_reading := True\<rparr>)\<rparr>)"
  have f: "ss_answer ?s = AnswerFailed ((if reason = 12 then DeviceBusyError else SessionError) (refusal_message reason))"
    "ss_ended ?s = Some (''device disconnect, close_reason='' @ dump_int reason)"
    using assms(11,12)
    by (simp_all add: on_device_disconnect_def finish_def answer_done_def CLOSE_REASON_BUSY_def del: dump_int.simps)
  have "stream_inv ?s"
    using assms(7,13) by (simp add: stream_inv_def disconnect_fields)
  from good_run [OF this, of A later] have "settles ?s (fst (run (stream_step A) ?s later))" by (simp add: good_def)
  with f have "ss_answer (fst (run (stream_step A) s (Mqtt (Some payload) # later))) = ss_answer ?s"
    "ss_ended (fst (run (stream_step A) s (Mqtt (Some payload) # later))) = ss_ended ?s"
    by (simp_all add: settles_def step Let_def del: dump_int.simps)
  with f show ?thesis by (simp add: await_answer_def Let_def del: dump_int.simps run.simps)
qed

definition offered_stream :: stream where
  "offered_stream = (new_stream sample_config ''u'')\<lparr>ss_moto := Some (sample_channel ''s'')\<rparr>"

lemma refusal_ends_start_witness:
  "\<exists>payload. snd (snd (await_answer flip_cipher [Mqtt (Some payload)] offered_stream)) =
    Inl (DeviceBusyError (refusal_message 12))"
proof -
  have pub: "publishing flip_cipher (sample_channel ''s'')" by (rule sample_channel_publishing) simp
  obtain device' topic payload where p:
    "publish_step flip_cipher (sample_channel ''s'') (0, Disconnect 12) = (device', [Published topic payload])"
  proof -
    have "Suc (mo_sequence (sample_channel ''s'')) < 2 ^ 32" "int_in_range 0" "wf_outbound (Disconnect 12)"
      by (simp_all add: sample_channel_def new_moto_def int_in_range_below)
    then show ?thesis using publish_step_payload [OF flip_cipher_ecb pub] that by blast
  qed
  have "snd (snd (await_answer flip_cipher [Mqtt (Some payload)] offered_stream)) =
      Inl ((if (12 :: int) = 12 then DeviceBusyError else SessionError) (refusal_message 12)) \<and>
    ss_ended (fst (await_answer flip_cipher [Mqtt (Some payload)] offered_stream)) =
      Some (''device disconnect, close_reason='' @ dump_int 12)"
    by (rule refusal_ends_start [OF flip_cipher_ecb pub _ _ _ p, where m = "sample_channel ''s''"])
      (simp_all add: offered_stream_def new_stream_def sample_channel_def new_moto_def int_in_range_below stream_inv_def
        del: dump_int.simps)
  then show ?thesis by auto
qed

text \<open>
  C38: A malformed key hangs the start. When the device's answer carries a key line that is not
  hexadecimal, the exception leaves the callback and stops the signaling reader: the answer stays
  pending and no later message is heard, the device's disconnect included, so the wait ends only
  with the timeout's "the device sent no answer".
\<close>

theorem malformed_key_hangs_start:
  assumes "ss_moto s = Some m" "mo_reading m" "ss_answer s = AnswerPending" "ss_ended s = None"
    and "decode_payload A (mo_key m) payload = Inr data" "dispatched m data = [Answer sdp]"
    and "parse_answer sdp = Inl ValueError"
  shows "await_answer A (Mqtt (Some payload) # map Mqtt later) s =
    (s\<lparr>ss_moto := Some (m\<lparr>mo_reading := False\<rparr>)\<rparr>, [],
     Inl (SessionError ''Failed to start the session: the device sent no answer''))"
proof -
  let ?s = "s\<lparr>ss_moto := Some (m\<lparr>mo_reading := False\<rparr>)\<rparr>"
  have a: "absorb_moto (Answer sdp) s' = (s', Some ValueError)" if "ss_answer s' = AnswerPending" for s'
    using that assms(7) by (simp add: absorb_moto_def on_answer_def answer_done_def)
  have step: "on_mqtt A (Some payload) s = ?s"
    using mqtt_decoded [OF assms(1,2,5,6)] assms(3) by (simp add: a)
  have "run (stream_step A) ?s (map Mqtt later) = (?s, [])" by (rule stopped_reader [where m = "m\<lparr>mo_reading := False\<rparr>"]) simp_all
  then have "run (stream_step A) s (Mqtt (Some payload) # map Mqtt later) = (?s, [])" by (simp add: step)
  then show ?thesis using assms(3) by (simp add: await_answer_def)
qed

lemma malformed_key_hangs_start_witness:
  "\<exists>payload. await_answer flip_cipher (Mqtt (Some payload) # map Mqtt [None, Some payload]) offered_stream =
    (offered_stream\<lparr>ss_moto := Some ((sample_channel ''s'')\<lparr>mo_reading := False\<rparr>)\<rparr>, [],
     Inl (SessionError ''Failed to start the session: the device sent no answer''))"
proof -
  let ?data = "[(''header'', JObj [(''type'', JStr ''answer'')]), (''msg'', JObj [(''sdp'', JStr ''a=aes-key:zz'')])]"
  have pub: "publishing flip_cipher (sample_channel ''s'')" by (rule sample_channel_publishing) simp
  then have key: "aes_key_size (mo_key (sample_channel ''s''))" by (simp add: publishing_def)
  obtain payload where p: "decode_payload flip_cipher (mo_key (sample_channel ''s'')) payload = Inr ?data"
    using payload_decodes [OF flip_cipher_ecb key, of 1 "[1, 2, 3, 4]" ?data 0 302] by (auto simp: int_in_range_below)
  have d: "dispatched (sample_channel ''s'') ?data = [Answer ''a=aes-key:zz'']"
    by (simp add: dispatched_def optional_object_def optional_str_def dispatch_def)
  have k: "parse_answer ''a=aes-key:zz'' = Inl ValueError" by code_simp
  have "ss_moto offered_stream = Some (sample_channel ''s'')" "mo_reading (sample_channel ''s'')"
    "ss_answer offered_stream = AnswerPending" "ss_ended offered_stream = None"
    by (simp_all add: offered_stream_def new_stream_def sample_channel_def)
  from malformed_key_hangs_start [OF this p d k] show ?thesis by blast
qed

lemma sample_address: "endpoint (sc_relay_token sample_config) = Inr (''relay'', dec_value ''443'')"
proof -
  have "endpoint (sc_relay_token sample_config) = Inr (''relay'', dec_value ''443'')"
    by (rule endpoint_prefers_ipv4 [where before = "[]" and others = "[]"])
      (simp_all add: sample_config_def starts_with_def is_digit_def MAX_INT_DIGITS_def)
  then show ?thesis .
qed

lemma dial_rides_out_witness:
  "\<exists>signer. signer_of (sc_relay_token sample_config) (new_stream sample_config ''u'') = Inr signer \<and>
    dial_relay flip_cipher (\<lambda>_. sample_attempt) (sc_relay_token sample_config) (replicate 16 7) (new_stream sample_config ''u'') =
      (new_stream sample_config ''u'', [],
       Inl (SessionError (''Failed to connect the relay: '' @ dial_text (''relay'', dec_value ''443'') (SocketError ''refused''))))"
proof -
  obtain signer where g: "signer_of (sc_relay_token sample_config) (new_stream sample_config ''u'') = Inr signer"
    by (simp add: signer_of_def new_signer_def sample_config_def Let_def)
  have cred: "16 \<le> length (rt_credential (sc_relay_token sample_config))" by (simp add: sample_config_def)
  have open_: "ss_ended (new_stream sample_config ''u'') = None" by (simp add: new_stream_def)
  show ?thesis
    using dial_rides_out [OF cred sample_address g open_, of "\<lambda>_. sample_attempt" 12] g
    by (simp add: refused_attempt_def list_all_iff sample_attempt_def)
qed

text \<open>
  C37: A device that stays silent ends the dialling. When the first connection opens and the
  device answers nothing within the handshake timeout, the TimeoutError leaves the loop at once:
  the one handshake frame is all that is written, and none of the other eleven attempts is made,
  although the comments call finding nobody there legitimate.
\<close>

theorem silent_device_ends_dial:
  assumes "16 \<le> length (rt_credential token)" "endpoint token = Inr address" "signer_of token s = Inr signer"
    and "ss_ended s = None"
    and "at_dialled (attempts 1) = None" "at_ending (attempts 1) = Silent" "at_input (attempts 1) = []"
    and "assemble_handshake_frame A HANDSHAKE_REQUEST (str_encode (take 16 (rt_credential token))) (at_iv1 (attempts 1))
      (str_encode (rt_session_id token)) (str_encode (rt_username token))
      (build_auth_request (sc_device_id (ss_config s)) (ss_uid s) (at_random (attempts 1))) = Inr frame"
  shows "dial_relay A attempts token key s = (s, [Relay (Sent frame)], Inl TimeoutError)"
proof -
  obtain relay where c: "connect_attempt A token signer key (attempts 1) s = (relay, [Sent frame], Inl TimeoutError)"
    using connect_silent [OF assms(1,2,5-8)] .
  have n: "[1..<RELAY_DIAL_ATTEMPTS + 1] = 1 # [Suc 1..<RELAY_DIAL_ATTEMPTS + 1]"
    by (rule upt_conv_Cons) (simp add: RELAY_DIAL_ATTEMPTS_def)
  show ?thesis
    unfolding dial_relay_loop [OF assms(3,2)] n list.map using c assms(4) by simp
qed

lemma silent_device_ends_dial_witness:
  "\<exists>frame. dial_relay flip_cipher (\<lambda>_. \<lparr>at_random = ''r'', at_iv1 = replicate 16 1, at_iv2 = replicate 16 2, at_dialled = None,
        at_ending = Silent, at_input = [], at_ms = 0, at_events = []\<rparr>) (sc_relay_token sample_config) (replicate 16 7)
      (new_stream sample_config ''u'') =
    (new_stream sample_config ''u'', [Relay (Sent frame)], Inl TimeoutError)"
proof -
  let ?t = "sc_relay_token sample_config" and ?s = "new_stream sample_config ''u''"
  let ?a = "\<lparr>at_random = ''r'', at_iv1 = replicate 16 1, at_iv2 = replicate 16 2, at_dialled = None,
        at_ending = Silent, at_input = [], at_ms = 0, at_events = []\<rparr> :: attempt"
  obtain signer where g: "signer_of ?t ?s = Inr signer"
    by (simp add: signer_of_def new_signer_def sample_config_def Let_def)
  have l: "length (str_encode (take 16 (rt_credential ?t))) = 16" "length (str_encode (rt_session_id ?t)) = 1"
    "length (str_encode (rt_username ?t)) = 3"
    using length_str_encode [of "replicate 16 (CHR ''c'')"]
    by (simp_all add: sample_config_def length_str_encode ascii_def list_all_iff)
  obtain frame where f: "assemble_handshake_frame flip_cipher HANDSHAKE_REQUEST (str_encode (take 16 (rt_credential ?t))) (replicate 16 1)
      (str_encode (rt_session_id ?t)) (str_encode (rt_username ?t)) (build_auth_request ''d'' ''u'' ''r'') = Inr frame"
    using handshake_frame_parses [OF flip_cipher_cbc l(1), of "replicate 16 1" "auth_request_message ''d'' ''u'' ''r''"
        HANDSHAKE_REQUEST "str_encode (rt_session_id ?t)" "str_encode (rt_username ?t)"]
      wf_auth_messages(1) [of "''d''" "''u''" "''r''"] small_messages(1) [of "''d''" "''u''" "''r''"] l
    by (auto simp: build_auth_request_def HANDSHAKE_REQUEST_def)
  have "dial_relay flip_cipher (\<lambda>_. ?a) ?t (replicate 16 7) ?s = (?s, [Relay (Sent frame)], Inl TimeoutError)"
  proof (rule silent_device_ends_dial [OF _ sample_address g])
    show "assemble_handshake_frame flip_cipher HANDSHAKE_REQUEST (str_encode (take 16 (rt_credential ?t))) (at_iv1 ?a)
        (str_encode (rt_session_id ?t)) (str_encode (rt_username ?t))
        (build_auth_request (sc_device_id (ss_config ?s)) (ss_uid ?s) (at_random ?a)) = Inr frame"
      using f by (simp add: new_stream_def sample_config_def)
  qed (simp_all add: new_stream_def sample_config_def)
  then show ?thesis by blast
qed

text \<open>
  C13: Closing releases the device. When the relay closes, closing a session publishes exactly
  one message, the disconnect of this session with reason 4 under the local key, behind
  everything else and followed only by leaving the broker; no component is left, both futures
  are done, and closing again does nothing.
\<close>

theorem close_releases_device:
  assumes "\<not> ss_closing s" "ss_relay s = Some relay" "close_session inbound relay = (r, es, None)"
    and "ss_moto s = Some m" "ecb_laws A" "publishing A m" "Suc (mo_sequence m) < 2 ^ 32" "int_in_range t"
  shows "\<exists>s' before topic payload data.
    close_stream A inbound (t, Accepted) s =
      (s', before @ [Signaling (Published topic payload), Signaling BrokerClosed], Inr ()) \<and>
    published_count before = 0 \<and> decode_payload A (mo_key m) payload = Inr data \<and>
    dispatched m data = [Disconnected 4] \<and>
    ss_relay s' = None \<and> ss_moto s' = None \<and> ss_ice s' = None \<and> ss_candidate_tasks s' = [] \<and>
    answer_done s' \<and> ss_ended s' \<noteq> None \<and> close_stream A inbound' at' s' = (s', [], Inr ())"
proof -
  let ?q = "absorb_all (absorb_relay A) es ((closing_state s)\<lparr>ss_relay := Some r\<rparr>)"
  let ?s = "(fst ?q)\<lparr>ss_relay := None\<rparr>"
  note parts = absorb_all_parts [of A es "(closing_state s)\<lparr>ss_relay := Some r\<rparr>"]
  have relay: "close_relay A inbound (closing_state s) = (?s, snd ?q, Inr ())"
    using assms(2,3) by (simp add: close_relay_def Let_def)
  have "ss_moto ?s = Some m" using parts assms(4) by simp
  from close_signaling_publishes [OF assms(5-8) this] obtain topic payload data where p:
    "close_signaling A (t, Accepted) ?s =
       (?s\<lparr>ss_moto := None\<rparr>, [Signaling (Published topic payload), Signaling BrokerClosed], Inr ())"
    "decode_payload A (mo_key m) payload = Inr data" "outbound_data (Disconnect 4) m = JObj data" .
  have "dispatched m data = [Disconnected 4]"
    using outbound_dispatched [OF p(3), of m] assms(6) by (simp add: publishing_def)
  moreover have "answer_done ?s" "ss_ended ?s \<noteq> None"
    using parts closing_state_fields(6,7) [of s] by (auto simp: answer_done_def settles_def)
  moreover have "close_stream A inbound (t, Accepted) s = (?s\<lparr>ss_moto := None\<rparr>,
      (ice_effects s @ snd ?q) @ [Signaling (Published topic payload), Signaling BrokerClosed], Inr ())"
    using close_stream_open [OF assms(1), of A inbound "(t, Accepted)"] relay p(1)
    by (simp add: sbind_def ice_effects_def)
  moreover have "published_count (ice_effects s @ snd ?q) = 0"
    by (simp add: ice_effects_quiet absorb_all_quiet)
  ultimately show ?thesis
    using p(2) parts
    by (intro exI [of _ "?s\<lparr>ss_moto := None\<rparr>"] exI [of _ "ice_effects s @ snd ?q"] exI [of _ topic] exI [of _ payload]
        exI [of _ data]) (simp add: answer_done_def close_stream_again)
qed

lemma close_releases_device_witness:
  "\<exists>s' before topic payload data.
    close_stream flip_cipher (\<lambda>_. []) (0, Accepted)
        ((new_stream sample_config ''u'')\<lparr>ss_moto := Some (sample_channel ''s''), ss_relay := Some (new_session [5])\<rparr>) =
      (s', before @ [Signaling (Published topic payload), Signaling BrokerClosed], Inr ()) \<and>
    published_count before = 0 \<and> decode_payload flip_cipher (mo_key (sample_channel ''s'')) payload = Inr data \<and>
    dispatched (sample_channel ''s'') data = [Disconnected 4] \<and> close_stream flip_cipher (\<lambda>_. []) (0, Accepted) s' = (s', [], Inr ())"
proof -
  let ?s = "(new_stream sample_config ''u'')\<lparr>ss_moto := Some (sample_channel ''s''), ss_relay := Some (new_session [5])\<rparr>"
  obtain t where c: "close_session (\<lambda>_. []) (new_session [5]) = (t, [], None)"
    by (simp add: close_session_def new_session_def new_conversation_def close_loop.simps Let_def
        put_conversation_def close_connection_def new_connection_def notify_closed_def cancel_video_def)
  have pub: "publishing flip_cipher (sample_channel ''s'')" by (rule sample_channel_publishing) simp
  have "\<not> ss_closing ?s" "ss_relay ?s = Some (new_session [5])" "ss_moto ?s = Some (sample_channel ''s'')"
    "Suc (mo_sequence (sample_channel ''s'')) < 2 ^ 32" "int_in_range 0"
    by (simp_all add: new_stream_def sample_channel_def new_moto_def int_in_range_below)
  from close_releases_device [OF this(1,2) c this(3) flip_cipher_ecb pub this(4,5), of "\<lambda>_. []" "(0, Accepted)"]
  show ?thesis by blast
qed

text \<open>
  C39: A relay that fails to close keeps the device held. When the device opens a conversation
  while the first is being closed, the RuntimeError ends the close of the session before its
  disconnect: nothing is published, the broker connection stays, and since the session counts as
  closing no later close makes up for it.
\<close>

theorem close_race_holds_device:
  assumes "\<not> ss_closing s" "ss_relay s = Some relay"
    and "rs_conversations relay = (cid, k) # others" "kcp_retransmit_task k" "inbound cid = [(raw, ms)]"
    and "parse_segment raw = Some g" "seg_conversation g \<notin> set (map fst (rs_conversations relay))"
  shows "\<exists>s' es. close_stream A inbound at s =
      (s', es, Inl (RuntimeError ''dictionary changed size during iteration'')) \<and>
    published_count es = 0 \<and> ss_moto s' = ss_moto s \<and> close_stream A inbound' at' s' = (s', [], Inr ())"
proof -
  obtain r es where c: "close_session inbound relay = (r, es, Some (RuntimeError ''dictionary changed size during iteration''))"
    using close_race [where inbound = inbound and cid = cid, OF assms(3,4,5,6,7)] by blast
  let ?q = "absorb_all (absorb_relay A) es ((closing_state s)\<lparr>ss_relay := Some r\<rparr>)"
  have "close_stream A inbound at s =
      (fst ?q, ice_effects s @ snd ?q, Inl (RuntimeError ''dictionary changed size during iteration''))"
    using close_stream_open [OF assms(1), of A inbound at] assms(2) c
    by (simp add: close_relay_def sbind_def ice_effects_def Let_def)
  moreover note absorb_all_parts [of A es "(closing_state s)\<lparr>ss_relay := Some r\<rparr>"]
  ultimately show ?thesis
    by (intro exI [of _ "fst ?q"] exI [of _ "ice_effects s @ snd ?q"])
      (simp add: ice_effects_quiet absorb_all_quiet close_stream_again)
qed

lemma close_race_holds_device_witness:
  "\<exists>s' es. close_stream flip_cipher
      (\<lambda>cid. if cid = CONTROL_CONVERSATION then [(sample_raw VIDEO_CONVERSATION 0, 8)] else []) (0, Accepted)
      ((new_stream sample_config ''u'')\<lparr>ss_moto := Some (sample_channel ''s''), ss_relay := Some busy_session\<rparr>) =
      (s', es, Inl (RuntimeError ''dictionary changed size during iteration'')) \<and>
    published_count es = 0 \<and> ss_moto s' = Some (sample_channel ''s'')"
proof -
  let ?s = "(new_stream sample_config ''u'')\<lparr>ss_moto := Some (sample_channel ''s''), ss_relay := Some busy_session\<rparr>"
  let ?in = "\<lambda>cid. if cid = CONTROL_CONVERSATION then [(sample_raw VIDEO_CONVERSATION 0, 8)] else []"
  obtain k where c: "rs_conversations busy_session = [(CONTROL_CONVERSATION, k)]" "kcp_retransmit_task k"
    using busy_session_conversations by blast
  have p: "parse_segment (sample_raw VIDEO_CONVERSATION 0) = Some (sample_push VIDEO_CONVERSATION 0)"
    by (rule sample_raw_segment) (simp_all add: VIDEO_CONVERSATION_def)
  have "\<exists>s' es. close_stream flip_cipher ?in (0, Accepted) ?s =
      (s', es, Inl (RuntimeError ''dictionary changed size during iteration'')) \<and>
    published_count es = 0 \<and> ss_moto s' = ss_moto ?s \<and> close_stream flip_cipher ?in (0, Accepted) s' = (s', [], Inr ())"
    (is "\<exists>s' es. ?P s' es \<and> ?Q es \<and> ss_moto s' = _ \<and> _")
    by (rule close_race_holds_device [OF _ _ c(1) c(2) _ p])
      (simp_all add: new_stream_def c(1) sample_push_def VIDEO_CONVERSATION_def CONTROL_CONVERSATION_def)
  then obtain s' es where "?P s' es" "?Q es" "ss_moto s' = ss_moto ?s" by blast
  then show ?thesis by (intro exI [of _ s'] exI [of _ es]) simp
qed

end
