(* ===== verification/Motion_Detector.thy ===== *)
theory Motion_Detector
  imports Complex_Main Prelude
begin

text \<open>
  Models \<^verbatim>\<open>src/tuya_ipc_p2p_sdk/motion_detector.py\<close>: frame sizes in, a held motion state
  out. The floating-point arithmetic is modelled by the reals, so rounding is not; the clock is
  an argument of the operations that read it, and the published states are the effects.

  The specification reads the events alone, newest first (\<open>history\<close>): the differences measured, the
  typical one among them, which frames stand out and until when the last motion is held. The
  lemmas show that the detector publishes exactly what the history calls for.
\<close>

section \<open>State and operations\<close>

definition TYPICAL_SMOOTHING :: real where "TYPICAL_SMOOTHING = 5 / 100"
definition MINIMUM_DIFFERENCE :: real where "MINIMUM_DIFFERENCE = 15 / 1000"
definition DEFAULT_MOTION_HOLD_SECONDS :: real where "DEFAULT_MOTION_HOLD_SECONDS = 12"
definition DEFAULT_SENSITIVITY :: real where "DEFAULT_SENSITIVITY = 6"
definition WARMUP_FRAMES :: nat where "WARMUP_FRAMES = 8"
definition CONFIRMING_FRAMES :: nat where "CONFIRMING_FRAMES = 2"

record detector =
  md_sensitivity :: real
  md_hold_seconds :: real
  md_previous_size :: int
  md_typical_difference :: real
  md_frames :: nat
  md_exceeded :: nat
  md_motion_until :: real
  md_detected :: bool
  md_last_difference :: real

definition new_detector :: "real \<Rightarrow> real \<Rightarrow> detector" where
  "new_detector sensitivity hold_seconds =
     \<lparr>md_sensitivity = sensitivity, md_hold_seconds = hold_seconds, md_previous_size = 0,
      md_typical_difference = 0, md_frames = 0, md_exceeded = 0, md_motion_until = 0,
      md_detected = False, md_last_difference = 0\<rparr>"

text \<open>\<^verbatim>\<open>round(x * 100, 2)\<close>, halves to even.\<close>

definition half_even :: "real \<Rightarrow> int" where
  "half_even y = (let f = \<lfloor>y\<rfloor>; d = y - of_int f in
     if d < 1 / 2 then f else if 1 / 2 < d then f + 1 else if even f then f else f + 1)"

definition percent :: "real \<Rightarrow> real" where
  "percent x = of_int (half_even (x * 100 * 100)) / 100"

definition last_difference_percent :: "detector \<Rightarrow> real" where
  "last_difference_percent d = percent (md_last_difference d)"

definition typical_difference_percent :: "detector \<Rightarrow> real" where
  "typical_difference_percent d = percent (md_typical_difference d)"

definition publish :: "bool \<Rightarrow> detector \<Rightarrow> detector \<times> bool list" where
  "publish detected d =
     (if detected = md_detected d then (d, []) else (d\<lparr>md_detected := detected\<rparr>, [detected]))"

definition threshold :: "detector \<Rightarrow> real" where
  "threshold d = max (md_typical_difference d * md_sensitivity d) MINIMUM_DIFFERENCE"

definition sample :: "int \<Rightarrow> real \<Rightarrow> detector \<Rightarrow> detector \<times> bool list" where
  "sample frame_size now d =
     (let previous = md_previous_size d;
          d = d\<lparr>md_previous_size := frame_size\<rparr>
      in if previous = 0 \<or> frame_size = 0 then (d, [])
         else let difference = of_int \<bar>frame_size - previous\<bar> / of_int previous;
                  d = d\<lparr>md_last_difference := difference, md_frames := md_frames d + 1\<rparr>
              in if md_frames d \<le> WARMUP_FRAMES
                 then (d\<lparr>md_typical_difference := md_typical_difference d +
                          (difference - md_typical_difference d) / of_nat (md_frames d)\<rparr>, [])
                 else let e = (if difference > threshold d
                               then let d = d\<lparr>md_exceeded := md_exceeded d + 1\<rparr>
                                    in if CONFIRMING_FRAMES \<le> md_exceeded d
                                       then d\<lparr>md_motion_until := now + md_hold_seconds d\<rparr> else d
                               else d\<lparr>md_exceeded := 0,
                                      md_typical_difference := md_typical_difference d +
                                        (difference - md_typical_difference d) * TYPICAL_SMOOTHING\<rparr>)
                      in publish (now < md_motion_until e) e)"

definition poll :: "real \<Rightarrow> detector \<Rightarrow> detector \<times> bool list" where
  "poll now d = publish (now < md_motion_until d) d"

definition reset_detector :: "detector \<Rightarrow> detector \<times> bool list" where
  "reset_detector d = publish False
     (d\<lparr>md_previous_size := 0, md_typical_difference := 0, md_frames := 0, md_exceeded := 0,
        md_motion_until := 0, md_last_difference := 0\<rparr>)"

datatype detector_event = Sample int | Poll | Reset

text \<open>An event with the time the clock shows.\<close>

fun detector_step :: "detector \<Rightarrow> detector_event \<times> real \<Rightarrow> detector \<times> bool list" where
  "detector_step d (Sample frame_size, now) = sample frame_size now d"
| "detector_step d (Poll, now) = poll now d"
| "detector_step d (Reset, now) = reset_detector d"

section \<open>What a sample measures\<close>

text \<open>A frame counts against a detector past its warm-up when it differs from the frame before
  it by more than the threshold.\<close>

definition difference_to :: "detector \<Rightarrow> int \<Rightarrow> real" where
  "difference_to d frame_size = of_int \<bar>frame_size - md_previous_size d\<bar> / of_int (md_previous_size d)"

definition exceeds :: "detector \<Rightarrow> int \<Rightarrow> bool" where
  "exceeds d frame_size \<longleftrightarrow> md_previous_size d \<noteq> 0 \<and> frame_size \<noteq> 0 \<and>
     WARMUP_FRAMES < md_frames d + 1 \<and> threshold d < difference_to d frame_size"

lemma publish_fields:
  "md_detected (fst (publish b d)) = b" "snd (publish b d) = (if b = md_detected d then [] else [b])"
  "md_exceeded (fst (publish b d)) = md_exceeded d" "md_motion_until (fst (publish b d)) = md_motion_until d"
  "md_previous_size (fst (publish b d)) = md_previous_size d" "md_frames (fst (publish b d)) = md_frames d"
  "md_typical_difference (fst (publish b d)) = md_typical_difference d"
  "md_hold_seconds (fst (publish b d)) = md_hold_seconds d"
  by (simp_all add: publish_def)

text \<open>The cases of \<open>sample\<close>: unmeasured, warm-up, over and under the threshold.\<close>

lemma sample_unmeasured:
  "md_previous_size d = 0 \<or> f = 0 \<Longrightarrow> sample f now d = (d\<lparr>md_previous_size := f\<rparr>, [])"
  by (auto simp: sample_def Let_def)

lemma sample_warmup:
  "md_previous_size d \<noteq> 0 \<Longrightarrow> f \<noteq> 0 \<Longrightarrow> md_frames d < WARMUP_FRAMES \<Longrightarrow>
     snd (sample f now d) = [] \<and> md_detected (fst (sample f now d)) = md_detected d \<and>
     md_exceeded (fst (sample f now d)) = md_exceeded d \<and>
     md_motion_until (fst (sample f now d)) = md_motion_until d"
  by (simp add: sample_def Let_def)

lemma threshold_fields [simp]:
  "threshold (d\<lparr>md_previous_size := f\<rparr>) = threshold d" "threshold (d\<lparr>md_last_difference := x\<rparr>) = threshold d"
  "threshold (d\<lparr>md_frames := n\<rparr>) = threshold d"
  by (simp_all add: threshold_def)

definition measured :: "int \<Rightarrow> detector \<Rightarrow> detector" where
  "measured f d = d\<lparr>md_previous_size := f, md_last_difference := difference_to d f, md_frames := md_frames d + 1\<rparr>"

lemma measured_fields [simp]:
  "md_exceeded (measured f d) = md_exceeded d" "md_motion_until (measured f d) = md_motion_until d"
  "md_hold_seconds (measured f d) = md_hold_seconds d" "md_detected (measured f d) = md_detected d"
  by (simp_all add: measured_def)

lemma sample_measured:
  assumes "md_previous_size d \<noteq> 0" "f \<noteq> 0" "WARMUP_FRAMES \<le> md_frames d"
  shows "sample f now d =
    (let e = (if exceeds d f
              then (measured f d)\<lparr>md_exceeded := md_exceeded d + 1,
                     md_motion_until := if 1 \<le> md_exceeded d then now + md_hold_seconds d else md_motion_until d\<rparr>
              else (measured f d)\<lparr>md_exceeded := 0,
                     md_typical_difference := md_typical_difference d +
                       (difference_to d f - md_typical_difference d) * TYPICAL_SMOOTHING\<rparr>)
     in publish (now < md_motion_until e) e)"
proof -
  have "exceeds d f \<longleftrightarrow> threshold d < difference_to d f"
    using assms by (simp add: exceeds_def)
  then show ?thesis
    using assms
    by (simp add: sample_def Let_def measured_def difference_to_def [symmetric] CONFIRMING_FRAMES_def
        del: of_int_abs of_int_diff)
qed

lemma sample_over:
  assumes "exceeds d f"
  shows "md_exceeded (fst (sample f now d)) = md_exceeded d + 1"
    "md_motion_until (fst (sample f now d)) =
       (if 1 \<le> md_exceeded d then now + md_hold_seconds d else md_motion_until d)"
    "md_detected (fst (sample f now d)) \<longleftrightarrow> now < md_motion_until (fst (sample f now d))"
    "snd (sample f now d) = (if md_detected (fst (sample f now d)) = md_detected d then []
       else [md_detected (fst (sample f now d))])"
proof -
  have m: "md_previous_size d \<noteq> 0" "f \<noteq> 0" "WARMUP_FRAMES \<le> md_frames d"
    using assms by (simp_all add: exceeds_def)
  show "md_exceeded (fst (sample f now d)) = md_exceeded d + 1"
    "md_motion_until (fst (sample f now d)) =
       (if 1 \<le> md_exceeded d then now + md_hold_seconds d else md_motion_until d)"
    "md_detected (fst (sample f now d)) \<longleftrightarrow> now < md_motion_until (fst (sample f now d))"
    "snd (sample f now d) = (if md_detected (fst (sample f now d)) = md_detected d then []
       else [md_detected (fst (sample f now d))])"
    using assms by (simp_all add: sample_measured [OF m] Let_def publish_fields)
qed

lemma sample_under:
  assumes "md_previous_size d \<noteq> 0" "f \<noteq> 0" "WARMUP_FRAMES \<le> md_frames d" "\<not> exceeds d f"
  shows "md_exceeded (fst (sample f now d)) = 0"
    "md_motion_until (fst (sample f now d)) = md_motion_until d"
    "md_detected (fst (sample f now d)) \<longleftrightarrow> now < md_motion_until d"
    "snd (sample f now d) = (if (now < md_motion_until d) = md_detected d then [] else [now < md_motion_until d])"
  using assms(4) by (simp_all add: sample_measured [OF assms(1-3)] Let_def publish_fields)

text \<open>The four ways a sample goes.\<close>

lemma sample_cases:
  obtains (unmeasured) "md_previous_size d = 0 \<or> f = 0"
    | (warmup) "md_previous_size d \<noteq> 0" "f \<noteq> 0" "md_frames d < WARMUP_FRAMES"
    | (over) "exceeds d f"
    | (under) "md_previous_size d \<noteq> 0" "f \<noteq> 0" "WARMUP_FRAMES \<le> md_frames d" "\<not> exceeds d f"
  by (meson not_le)

lemma sample_previous: "md_previous_size (fst (sample f now d)) = f"
  by (simp add: sample_def Let_def publish_fields)

section \<open>Runs against a monotonic clock\<close>

text \<open>A quiet detector holds no motion beyond the last clock reading.\<close>

definition held :: "real \<Rightarrow> detector \<Rightarrow> bool" where
  "held now d \<longleftrightarrow> (md_detected d \<or> md_motion_until d \<le> now)"

fun clock_sorted :: "real \<Rightarrow> ('a \<times> real) list \<Rightarrow> bool" where
  "clock_sorted t [] = True"
| "clock_sorted t ((e, now) # es) = (t \<le> now \<and> clock_sorted now es)"

text \<open>What starts a motion: a sample over the threshold directly behind another.\<close>

fun confirms :: "detector \<Rightarrow> detector_event \<Rightarrow> bool" where
  "confirms d (Sample f) = (exceeds d f \<and> 1 \<le> md_exceeded d)"
| "confirms d _ = False"

lemma step_held:
  assumes "held t d" "t \<le> now" "0 \<le> now"
  shows "held now (fst (detector_step d (e, now)))"
proof (cases e)
  case (Sample f)
  show ?thesis
    using assms
    by (cases d f rule: sample_cases)
      (auto simp: Sample held_def sample_unmeasured sample_warmup sample_over sample_under)
qed (use assms in \<open>auto simp: held_def poll_def reset_detector_def publish_fields\<close>)

lemma step_reports:
  assumes "held t d" "t \<le> now"
  shows "snd (detector_step d (e, now)) \<in> {[], [\<not> md_detected d]}"
    and "md_detected (fst (detector_step d (e, now))) = (if snd (detector_step d (e, now)) = [] then md_detected d else \<not> md_detected d)"
    and "snd (detector_step d (e, now)) = [True] \<Longrightarrow> confirms d e"
proof -
  have "snd (detector_step d (e, now)) \<in> {[], [\<not> md_detected d]} \<and>
     md_detected (fst (detector_step d (e, now))) = (if snd (detector_step d (e, now)) = [] then md_detected d else \<not> md_detected d) \<and>
     (snd (detector_step d (e, now)) = [True] \<longrightarrow> confirms d e)"
  proof (cases e)
    case (Sample f)
    show ?thesis
      using assms
      by (cases d f rule: sample_cases)
        (auto simp: Sample held_def sample_unmeasured sample_warmup sample_over sample_under split: if_splits)
  qed (use assms in \<open>auto simp: held_def poll_def reset_detector_def publish_fields\<close>)
  then show "snd (detector_step d (e, now)) \<in> {[], [\<not> md_detected d]}"
    "md_detected (fst (detector_step d (e, now))) = (if snd (detector_step d (e, now)) = [] then md_detected d else \<not> md_detected d)"
    "snd (detector_step d (e, now)) = [True] \<Longrightarrow> confirms d e"
    by blast+
qed

section \<open>What the events alone say\<close>

text \<open>Histories, newest event first. The frame a new one is compared with, and whether it is: a
  frame behind a reset, behind a frame of size 0 or of size 0 itself is not measured.\<close>

type_synonym history = "(detector_event \<times> real) list"

fun last_size :: "history \<Rightarrow> int" where
  "last_size [] = 0"
| "last_size ((Sample f, now) # h) = f"
| "last_size ((Poll, now) # h) = last_size h"
| "last_size ((Reset, now) # h) = 0"

fun measures :: "history \<Rightarrow> bool" where
  "measures ((Sample f, now) # h) = (last_size h \<noteq> 0 \<and> f \<noteq> 0)"
| "measures _ = False"

text \<open>The differences measured since the last reset, newest first.\<close>

fun differences :: "history \<Rightarrow> real list" where
  "differences [] = []"
| "differences ((Sample f, now) # h) =
     (if last_size h \<noteq> 0 \<and> f \<noteq> 0
      then (of_int \<bar>f - last_size h\<bar> / of_int (last_size h)) # differences h else differences h)"
| "differences ((Poll, now) # h) = differences h"
| "differences ((Reset, now) # h) = []"

text \<open>The typical difference: the mean of the warm-up, and from then on a moving average of the
  differences that do not stand out.\<close>

fun typical :: "real \<Rightarrow> real list \<Rightarrow> real" where
  "typical sensitivity [] = 0"
| "typical sensitivity (x # xs) =
     (if length xs < WARMUP_FRAMES then sum_list (x # xs) / of_nat (Suc (length xs))
      else if max (typical sensitivity xs * sensitivity) MINIMUM_DIFFERENCE < x then typical sensitivity xs
      else typical sensitivity xs + (x - typical sensitivity xs) * TYPICAL_SMOOTHING)"

fun stands_out :: "real \<Rightarrow> real list \<Rightarrow> bool" where
  "stands_out sensitivity [] = False"
| "stands_out sensitivity (x # xs) =
     (WARMUP_FRAMES \<le> length xs \<and> max (typical sensitivity xs * sensitivity) MINIMUM_DIFFERENCE < x)"

text \<open>The newest event is a frame that stands out, directly behind another measured one that does.\<close>

definition confirming :: "real \<Rightarrow> history \<Rightarrow> bool" where
  "confirming sensitivity h \<longleftrightarrow> measures h \<and> stands_out sensitivity (differences h) \<and>
     stands_out sensitivity (tl (differences h))"

text \<open>The end of the hold of the last confirming frame since the last reset, and the events at which
  the state is decided anew: polls, resets and the measured frames behind the warm-up.\<close>

fun held_until :: "real \<Rightarrow> real \<Rightarrow> history \<Rightarrow> real" where
  "held_until sensitivity hold [] = 0"
| "held_until sensitivity hold ((e, now) # h) =
     (if confirming sensitivity ((e, now) # h) then now + hold
      else if e = Reset then 0 else held_until sensitivity hold h)"

fun decides :: "history \<Rightarrow> bool" where
  "decides [] = False"
| "decides ((Sample f, now) # h) =
     (measures ((Sample f, now) # h) \<and> WARMUP_FRAMES < length (differences ((Sample f, now) # h)))"
| "decides ((Poll, now) # h) = True"
| "decides ((Reset, now) # h) = True"

text \<open>The detector keeps of the history what it needs.\<close>

fun streak :: "real \<Rightarrow> real list \<Rightarrow> nat" where
  "streak sensitivity [] = 0"
| "streak sensitivity (x # xs) = (if stands_out sensitivity (x # xs) then Suc (streak sensitivity xs) else 0)"

definition follows :: "real \<Rightarrow> real \<Rightarrow> history \<Rightarrow> detector \<Rightarrow> bool" where
  "follows sensitivity hold h d \<longleftrightarrow> md_sensitivity d = sensitivity \<and> md_hold_seconds d = hold \<and>
     md_previous_size d = last_size h \<and> md_frames d = length (differences h) \<and>
     md_typical_difference d = typical sensitivity (differences h) \<and>
     md_exceeded d = streak sensitivity (differences h) \<and> md_motion_until d = held_until sensitivity hold h"

lemma streak_pos: "1 \<le> streak sensitivity ds \<longleftrightarrow> stands_out sensitivity ds"
  by (cases ds) simp_all

lemma streak_cold: "length ds \<le> WARMUP_FRAMES \<Longrightarrow> streak sensitivity ds = 0"
  by (cases ds) simp_all

lemma stands_out_warm: "stands_out sensitivity ds \<Longrightarrow> WARMUP_FRAMES < length ds"
  by (cases ds) simp_all

lemma mean_Cons: "typical sensitivity xs = sum_list xs / of_nat (length xs) \<Longrightarrow>
    typical sensitivity xs + (x - typical sensitivity xs) / of_nat (Suc (length xs)) =
      sum_list (x # xs) / of_nat (Suc (length xs))" for x :: real
  by (cases "length xs = 0") (simp_all add: field_simps)

lemma typical_warm: "length xs \<le> WARMUP_FRAMES \<Longrightarrow> typical sensitivity xs = sum_list xs / of_nat (length xs)"
  by (cases xs) simp_all

lemma differences_measured:
  "measures ((Sample f, now) # h) \<Longrightarrow> follows sensitivity hold h d \<Longrightarrow>
     differences ((Sample f, now) # h) = difference_to d f # differences h"
  by (simp add: follows_def difference_to_def)

lemma exceeds_stands_out:
  assumes "follows sensitivity hold h d" "measures ((Sample f, now) # h)"
  shows "exceeds d f \<longleftrightarrow> stands_out sensitivity (differences ((Sample f, now) # h))"
  using assms unfolding differences_measured [OF assms(2,1)]
  by (auto simp: exceeds_def follows_def threshold_def)

lemma confirming_Sample:
  assumes "follows sensitivity hold h d"
  shows "confirming sensitivity ((Sample f, now) # h) \<longleftrightarrow>
    measures ((Sample f, now) # h) \<and> exceeds d f \<and> 1 \<le> md_exceeded d"
proof (cases "measures ((Sample f, now) # h)")
  case True
  then show ?thesis
    using assms
    by (simp add: confirming_def exceeds_stands_out [OF assms True] streak_pos [unfolded One_nat_def] follows_def
        differences_measured [OF True assms] del: differences.simps)
qed (auto simp: confirming_def)

text \<open>A sample, poll or reset carries the correspondence on, and publishes a change of what the
  history decides.\<close>

lemma sample_follows:
  fixes f now
  assumes "follows sensitivity hold h d"
  defines "h' \<equiv> (Sample f, now) # h"
  shows "follows sensitivity hold h' (fst (sample f now d)) \<and>
    snd (sample f now d) = (if decides h' \<and> (now < held_until sensitivity hold h') \<noteq> md_detected d
      then [now < held_until sensitivity hold h'] else [])"
proof (cases "measures h'")
  case False
  then show ?thesis
    using assms by (auto simp: h'_def follows_def confirming_def sample_unmeasured)
next
  case True
  then have m: "measures ((Sample f, now) # h)" by (simp add: h'_def)
  have d: "differences h' = difference_to d f # differences h"
    unfolding h'_def by (rule differences_measured [OF m assms(1)])
  have nz: "md_previous_size d \<noteq> 0" "f \<noteq> 0" using m assms(1) by (simp_all add: follows_def)
  have c: "confirming sensitivity h' \<longleftrightarrow> exceeds d f \<and> 1 \<le> md_exceeded d"
    unfolding h'_def confirming_Sample [OF assms(1)] using m by simp
  have x: "exceeds d f \<longleftrightarrow> stands_out sensitivity (difference_to d f # differences h)"
    using exceeds_stands_out [OF assms(1) m] d by (simp add: h'_def)
  have u: "held_until sensitivity hold h' =
      (if exceeds d f \<and> 1 \<le> md_exceeded d then now + hold else held_until sensitivity hold h)"
    using c by (simp add: h'_def)
  have w: "decides h' \<longleftrightarrow> WARMUP_FRAMES \<le> md_frames d"
    using True d assms(1) by (auto simp: h'_def follows_def)
  have s: "last_size h' = f" by (simp add: h'_def)
  show ?thesis
  proof (cases "WARMUP_FRAMES \<le> md_frames d")
    case True
    then show ?thesis
      using assms(1) unfolding sample_measured [OF nz True] follows_def d s u w
      by (auto simp: Let_def publish_fields x threshold_def measured_def publish_def)
  next
    case False
    then have "\<not> exceeds d f" by (simp add: exceeds_def)
    then show ?thesis
      using False assms(1) nz mean_Cons [OF typical_warm, of "differences h" sensitivity "difference_to d f"] x
        streak_cold [of "differences h" sensitivity]
      unfolding follows_def d s u w
      by (auto simp: sample_def Let_def difference_to_def simp del: of_int_abs of_int_diff)
  qed
qed

lemma step_follows:
  assumes "follows sensitivity hold h d" "0 \<le> now"
  shows "follows sensitivity hold ((e, now) # h) (fst (detector_step d (e, now))) \<and>
    snd (detector_step d (e, now)) =
      (if decides ((e, now) # h) \<and> (now < held_until sensitivity hold ((e, now) # h)) \<noteq> md_detected d
       then [now < held_until sensitivity hold ((e, now) # h)] else [])"
proof (cases e)
  case (Sample f)
  then show ?thesis using sample_follows [OF assms(1)] by simp
next
  case Poll
  then show ?thesis using assms(1) by (simp add: poll_def publish_def follows_def confirming_def)
next
  case Reset
  then show ?thesis
    using assms by (simp add: reset_detector_def publish_def follows_def confirming_def)
qed

text \<open>What is published, each with the history it comes at and what was shown before.\<close>

fun trace :: "detector \<Rightarrow> bool \<Rightarrow> history \<Rightarrow> history \<Rightarrow> (history \<times> bool \<times> bool list) list" where
  "trace d shown h [] = []"
| "trace d shown h (ev # es) =
     (let r = detector_step d ev
      in (ev # h, shown, snd r) # trace (fst r) (if snd r = [] then shown else last (snd r)) (ev # h) es)"

definition explained :: "real \<Rightarrow> real \<Rightarrow> history \<times> bool \<times> bool list \<Rightarrow> bool" where
  "explained sensitivity hold report = (case report of (h, shown, out) \<Rightarrow>
     (out = [True] \<longleftrightarrow> \<not> shown \<and> 0 < hold \<and> confirming sensitivity h) \<and>
     (out = [False] \<longleftrightarrow> shown \<and> decides h \<and> held_until sensitivity hold h \<le> snd (hd h)))"

fun alternates :: "bool \<Rightarrow> bool list \<Rightarrow> bool" where
  "alternates b [] = True"
| "alternates b (x # xs) = (x = b \<and> alternates (\<not> b) xs)"

lemma confirming_decides: "confirming sensitivity h \<Longrightarrow> decides h"
proof -
  assume c: "confirming sensitivity h"
  then obtain f now h' where "h = (Sample f, now) # h'"
    by (cases h rule: measures.cases) (simp_all add: confirming_def)
  with c show ?thesis
    using stands_out_warm [of sensitivity "differences h"] by (simp add: confirming_def del: differences.simps)
qed

lemma step_explained:
  assumes "follows sensitivity hold h d" "held t d" "t \<le> now" "0 \<le> now"
  shows "explained sensitivity hold ((e, now) # h, md_detected d, snd (detector_step d (e, now)))"
proof -
  have "\<not> now < held_until sensitivity hold ((e, now) # h)" if "\<not> md_detected d" "\<not> confirming sensitivity ((e, now) # h)"
    using that assms by (auto simp: held_def follows_def)
  then show ?thesis
    using step_follows [OF assms(1,4), of e] confirming_decides [of sensitivity "(e, now) # h"]
    by (auto simp: explained_def)
qed

lemma run_explained:
  assumes "follows sensitivity hold h d" "held t d" "0 \<le> t" "clock_sorted t es"
  shows "alternates (\<not> md_detected d) (snd (run detector_step d es)) \<and>
    list_all (explained sensitivity hold) (trace d (md_detected d) h es)"
  using assms
proof (induction es arbitrary: t h d)
  case Nil
  then show ?case by simp
next
  case (Cons ev es)
  obtain e now where ev: "ev = (e, now)" by (cases ev)
  have now: "t \<le> now" "0 \<le> now" "clock_sorted now es" using Cons.prems by (simp_all add: ev)
  let ?d = "fst (detector_step d (e, now))"
  note step = step_reports [OF Cons.prems(2) now(1), of e]
  have "alternates (\<not> md_detected ?d) (snd (run detector_step ?d es)) \<and>
      list_all (explained sensitivity hold) (trace ?d (md_detected ?d) ((e, now) # h) es)"
    by (rule Cons.IH [OF step_follows [OF Cons.prems(1) now(2), THEN conjunct1]
          step_held [OF Cons.prems(2) now(1,2)] now(2,3)])
  moreover have "snd (detector_step d (e, now)) = [] \<and> md_detected ?d = md_detected d \<or>
      snd (detector_step d (e, now)) = [\<not> md_detected d] \<and> md_detected ?d = (\<not> md_detected d)"
    using step(1,2) by (metis insertE not_Cons_self2 singletonD)
  ultimately show ?case
    using step_explained [OF Cons.prems(1,2) now(1,2), of e]
    by (elim disjE conjE) (simp_all add: ev Let_def del: detector_step.simps)
qed

text \<open>Frames each within 1.5 percent of the one before.\<close>

fun still :: "int \<Rightarrow> (detector_event \<times> real) list \<Rightarrow> bool" where
  "still previous [] = True"
| "still previous ((Sample f, now) # es) =
     ((previous = 0 \<or> f = 0 \<or> 0 < previous \<and> 1000 * \<bar>f - previous\<bar> \<le> 15 * previous) \<and> still f es)"
| "still previous ((Poll, now) # es) = still previous es"
| "still previous ((Reset, now) # es) = still 0 es"

lemma still_not_exceeds:
  assumes "0 < md_previous_size d" "1000 * \<bar>f - md_previous_size d\<bar> \<le> 15 * md_previous_size d"
  shows "\<not> exceeds d f"
proof -
  have "difference_to d f \<le> MINIMUM_DIFFERENCE"
  proof -
    have "real_of_int (1000 * \<bar>f - md_previous_size d\<bar>) \<le> real_of_int (15 * md_previous_size d)"
      using assms(2) by (simp only: of_int_le_iff)
    then have "real_of_int \<bar>f - md_previous_size d\<bar> \<le> 15 / 1000 * real_of_int (md_previous_size d)"
      by simp
    then show ?thesis
      using assms(1) by (simp add: difference_to_def MINIMUM_DIFFERENCE_def divide_le_eq del: of_int_abs of_int_diff)
  qed
  then show ?thesis by (simp add: exceeds_def threshold_def)
qed

lemma run_still:
  assumes "still (md_previous_size d) es" "list_all (\<lambda>(e, now). 0 \<le> now) es"
    and "\<not> md_detected d" "md_motion_until d = 0"
  shows "snd (run detector_step d es) = []"
  using assms
proof (induction es arbitrary: d)
  case Nil
  then show ?case by simp
next
  case (Cons ev es)
  obtain e now where ev: "ev = (e, now)" by (cases ev)
  let ?d = "fst (detector_step d (e, now))"
  have now: "0 \<le> now" using Cons.prems(2) by (simp add: ev)
  have "still (md_previous_size ?d) es \<and> \<not> md_detected ?d \<and> md_motion_until ?d = 0 \<and>
      snd (detector_step d (e, now)) = []"
  proof (cases e)
    case (Sample f)
    have n: "md_previous_size d = 0 \<or> f = 0 \<or> \<not> exceeds d f" "still f es"
      using Cons.prems(1) still_not_exceeds [of d f] by (auto simp: ev Sample)
    have "\<not> exceeds d f" using n(1) by (auto simp: exceeds_def)
    then show ?thesis
      using Cons.prems(3,4) now n(2)
      by (cases d f rule: sample_cases)
        (auto simp: Sample sample_previous sample_unmeasured sample_warmup sample_under)
  qed (use Cons.prems now in \<open>simp_all add: ev poll_def reset_detector_def publish_fields\<close>)
  with Cons.IH [of ?d] Cons.prems(2) show ?case by (simp add: ev Let_def)
qed

definition no_reset :: "detector_event \<Rightarrow> bool" where
  "no_reset e \<longleftrightarrow> e \<noteq> Reset"

lemma run_held:
  assumes "md_detected d" "t + md_hold_seconds d \<le> md_motion_until d"
    and "list_all (\<lambda>(e, now). no_reset e \<and> t \<le> now \<and> now < t + md_hold_seconds d) es"
  shows "md_detected (fst (run detector_step d es)) \<and> snd (run detector_step d es) = []"
  using assms
proof (induction es arbitrary: d)
  case Nil
  then show ?case by simp
next
  case (Cons ev es)
  obtain e now where ev: "ev = (e, now)" by (cases ev)
  let ?d = "fst (detector_step d (e, now))"
  have now: "t \<le> now" "now < t + md_hold_seconds d" "e \<noteq> Reset"
    using Cons.prems(3) by (simp_all add: ev no_reset_def)
  have h: "md_hold_seconds (fst (sample f now d)) = md_hold_seconds d" for f
    by (simp add: sample_def Let_def publish_fields)
  have "md_detected ?d \<and> t + md_hold_seconds d \<le> md_motion_until ?d \<and>
      md_hold_seconds ?d = md_hold_seconds d \<and> snd (detector_step d (e, now)) = []"
  proof (cases e)
    case (Sample f)
    show ?thesis
      using Cons.prems(1,2) now
      by (cases d f rule: sample_cases)
        (simp_all add: Sample h, auto simp: sample_unmeasured sample_warmup sample_over sample_under)
  qed (use Cons.prems now in \<open>simp_all add: poll_def publish_fields\<close>)
  with Cons.IH [of ?d] Cons.prems(3) show ?case by (simp add: ev Let_def)
qed

section \<open>Properties\<close>

text \<open>
  C30: When motion is reported, from the frame sizes and the clock alone. What is published
  alternates, on first. It goes on exactly at a frame that differs from the one before it by more
  than the threshold, directly behind another measured frame that did, when no motion is shown:
  the threshold is the sensitivity times the typical difference of the history, at least 1.5
  percent, and only frames behind the warm-up count. It goes off exactly at the first reset, poll
  or counted frame at which the hold of the last confirming frame has run out. So a single
  outlier, two outliers with a quiet frame between them, an expired hold, a poll or a reset never
  start a motion. A frame of size 0, and the frame behind it, are not measured and do not count as
  quiet. The clock only has to be monotonic.
\<close>

theorem motion_confirmed:
  assumes "clock_sorted 0 es"
  shows "alternates True (snd (run detector_step (new_detector sensitivity hold) es)) \<and>
    list_all (explained sensitivity hold) (trace (new_detector sensitivity hold) False [] es)"
  using run_explained [of sensitivity hold "[]" "new_detector sensitivity hold" 0 es] assms
  by (simp add: held_def new_detector_def follows_def)

text \<open>
  A still scene is silent: as long as every frame is within 1.5 percent of the one before it,
  nothing is ever published, whatever the sensitivity, the hold, the polls and the resets.
\<close>

theorem still_scene_silent:
  assumes "still 0 es" "list_all (\<lambda>(e, now). 0 \<le> now) es"
  shows "snd (run detector_step (new_detector sensitivity hold) es) = []"
  using run_still [of "new_detector sensitivity hold" es] assms
  by (simp add: new_detector_def)

text \<open>
  A confirmed motion is held: until the hold has run out no frame and no poll changes the
  reported state, and the first poll after it, when no further frame confirmed, clears it.
\<close>

theorem motion_held:
  assumes "confirms d (Sample f)" "0 < md_hold_seconds d"
    and "list_all (\<lambda>(e, now). no_reset e \<and> t \<le> now \<and> now < t + md_hold_seconds d) es"
  shows "md_detected (fst (run detector_step (fst (sample f t d)) es)) \<and>
    snd (run detector_step (fst (sample f t d)) es) = [] \<and>
    snd (poll (t + md_hold_seconds d) (fst (sample f t d))) = [False]"
proof -
  have e: "exceeds d f" "1 \<le> md_exceeded d" using assms(1) by simp_all
  have h: "md_hold_seconds (fst (sample f t d)) = md_hold_seconds d"
    by (simp add: sample_def Let_def publish_fields)
  have d: "md_detected (fst (sample f t d))" "md_motion_until (fst (sample f t d)) = t + md_hold_seconds d"
    using e assms(2) by (simp_all add: sample_over)
  have "md_detected (fst (run detector_step (fst (sample f t d)) es)) \<and>
      snd (run detector_step (fst (sample f t d)) es) = []"
    by (rule run_held [of _ t]) (use d h assms(3) in simp_all)
  then show ?thesis using d by (simp add: poll_def publish_fields)
qed

text \<open>A warmed-up detector with one frame over the threshold behind it.\<close>

definition stirred :: detector where
  "stirred = (new_detector DEFAULT_SENSITIVITY DEFAULT_MOTION_HOLD_SECONDS)
     \<lparr>md_previous_size := 1000, md_frames := 9, md_exceeded := 1\<rparr>"

lemma stirred_confirms: "confirms stirred (Sample 2000)"
  by (simp add: stirred_def new_detector_def exceeds_def difference_to_def threshold_def
      MINIMUM_DIFFERENCE_def WARMUP_FRAMES_def)

lemma motion_held_witness:
  "md_detected (fst (run detector_step (fst (sample 2000 5 stirred)) [(Poll, 6), (Sample 2001, 16)])) \<and>
   snd (poll 17 (fst (sample 2000 5 stirred))) = [False]"
proof -
  have h: "md_hold_seconds stirred = 12"
    by (simp add: stirred_def new_detector_def DEFAULT_MOTION_HOLD_SECONDS_def)
  show ?thesis
    using motion_held [OF stirred_confirms, of 5 "[(Poll, 6), (Sample 2001, 16)]"] by (simp add: h no_reset_def)
qed

text \<open>A warm-up, an outlier, a quiet frame, and two outliers in a row: one motion, on at the second of
  the two and off at the poll behind the hold.\<close>

definition busy_scene :: history where
  "busy_scene = map (Pair (Sample 1000)) [0, 1, 2, 3, 4, 5, 6, 7, 8] @
     [(Sample 2000, 9), (Sample 2000, 10), (Sample 4000, 11), (Sample 8000, 12), (Poll, 20), (Poll, 24)]"

text \<open>A sample on a state written out.\<close>

definition state :: "int \<Rightarrow> real \<Rightarrow> nat \<Rightarrow> nat \<Rightarrow> real \<Rightarrow> bool \<Rightarrow> real \<Rightarrow> detector" where
  "state previous typ frames exceeded until on difference =
     \<lparr>md_sensitivity = 6, md_hold_seconds = 12, md_previous_size = previous, md_typical_difference = typ,
      md_frames = frames, md_exceeded = exceeded, md_motion_until = until, md_detected = on,
      md_last_difference = difference\<rparr>"

lemma sample_state:
  "sample f now (state 0 typ n x u on l) = (state f typ n x u on l, [])"
  "p \<noteq> 0 \<Longrightarrow> f \<noteq> 0 \<Longrightarrow> n < 8 \<Longrightarrow> sample f now (state p typ n x u on l) =
     (let c = of_int \<bar>f - p\<bar> / of_int p in (state f (typ + (c - typ) / of_nat (n + 1)) (n + 1) x u on c, []))"
  "p \<noteq> 0 \<Longrightarrow> f \<noteq> 0 \<Longrightarrow> 8 \<le> n \<Longrightarrow> sample f now (state p typ n x u on l) =
     (let c = of_int \<bar>f - p\<bar> / of_int p;
          over = max (typ * 6) (15 / 1000) < c;
          u' = if over \<and> 1 \<le> x then now + 12 else u
      in (state f (if over then typ else typ + (c - typ) * (5 / 100)) (n + 1) (if over then x + 1 else 0) u' (now < u') c,
          if (now < u') = on then [] else [now < u']))"
  by (auto simp: sample_def state_def Let_def WARMUP_FRAMES_def publish_def threshold_def MINIMUM_DIFFERENCE_def
      CONFIRMING_FRAMES_def TYPICAL_SMOOTHING_def)

lemma poll_state:
  "poll now (state p typ n x u on l) = (state p typ n x u (now < u) l, if (now < u) = on then [] else [now < u])"
  by (auto simp: poll_def state_def publish_def)

lemma motion_confirmed_witness:
  "snd (run detector_step (new_detector 6 12) busy_scene) = [True, False] \<and>
   list_all (explained 6 12) (trace (new_detector 6 12) False [] busy_scene)"
proof -
  have "new_detector 6 12 = state 0 0 0 0 0 False 0" by (simp add: new_detector_def state_def)
  then have "snd (run detector_step (new_detector 6 12) busy_scene) = [True, False]"
    by (simp add: busy_scene_def sample_state poll_state Let_def)
  moreover have "clock_sorted 0 busy_scene" by (simp add: busy_scene_def)
  ultimately show ?thesis using motion_confirmed [of busy_scene 6 12] by simp
qed

lemma still_scene_silent_witness:
  "snd (run detector_step (new_detector 6 12) [(Sample 1000, 0), (Poll, 1), (Sample 1010, 2)]) = []"
  using still_scene_silent [of "[(Sample 1000, 0), (Poll, 1), (Sample 1010, 2)]" 6 12] by simp

end
