(* ===== verification/Gateway_Body.thy ===== *)
theory Gateway_Body
  imports Gateway_Signing
begin

text \<open>
  Models \<^verbatim>\<open>src/tuya_ipc_p2p_sdk/gateway/body.py\<close>. AES-GCM is the \<^verbatim>\<open>cryptography\<close>
  package: a parameter, of which \<open>gcm_laws\<close> states what the code relies on. The standard
  library's base64 is modelled, with the leniency \<^verbatim>\<open>b64decode(validate=True)\<close> has about
  padding.
\<close>

section \<open>Base64\<close>

definition b64_char :: "nat \<Rightarrow> char" where
  "b64_char n = (if n < 26 then char_of (65 + n) else if n < 52 then char_of (71 + n)
     else if n < 62 then char_of (n - 4) else if n = 62 then CHR ''+'' else CHR ''/'')"

definition b64_value :: "char \<Rightarrow> nat option" where
  "b64_value c =
     (let n = of_char c :: nat
      in if 65 \<le> n \<and> n \<le> 90 then Some (n - 65)
         else if 97 \<le> n \<and> n \<le> 122 then Some (n - 71)
         else if 48 \<le> n \<and> n \<le> 57 then Some (n + 4)
         else if n = 43 then Some 62 else if n = 47 then Some 63 else None)"

text \<open>The six-bit groups of a byte string, and the bytes of such groups.\<close>

fun b64_groups :: "bytes \<Rightarrow> nat list" where
  "b64_groups [] = []"
| "b64_groups [a] = [unat a div 4, unat a mod 4 * 16]"
| "b64_groups [a, b] = [unat a div 4, unat a mod 4 * 16 + unat b div 16, unat b mod 16 * 4]"
| "b64_groups (a # b # c # r) =
     [unat a div 4, unat a mod 4 * 16 + unat b div 16, unat b mod 16 * 4 + unat c div 64, unat c mod 64] @ b64_groups r"

fun b64_bytes :: "nat list \<Rightarrow> bytes option" where
  "b64_bytes [] = Some []"
| "b64_bytes [x] = None"
| "b64_bytes [x, y] = Some [word_of_nat (x * 4 + y div 16)]"
| "b64_bytes [x, y, z] = Some [word_of_nat (x * 4 + y div 16), word_of_nat (y mod 16 * 16 + z div 4)]"
| "b64_bytes (x # y # z # w # r) =
     map_option ((@) [word_of_nat (x * 4 + y div 16), word_of_nat (y mod 16 * 16 + z div 4),
       word_of_nat (z mod 4 * 64 + w)]) (b64_bytes r)"

definition b64encode :: "bytes \<Rightarrow> string" where
  "b64encode bs = map b64_char (b64_groups bs) @ replicate ((3 - length bs mod 3) mod 3) (CHR ''='')"

definition b64decode :: "string \<Rightarrow> exn + bytes" where
  "b64decode s =
     (let data = takeWhile (\<lambda>c. b64_value c \<noteq> None) s; pads = drop (length data) s; q = length data mod 4
      in if pads \<noteq> replicate (length pads) (CHR ''='') \<or> 2 < length pads then Inl ValueError
         else if q = 2 \<and> length pads < 2 \<or> q = 3 \<and> length pads < 1 then Inl ValueError
         else from_option ValueError (b64_bytes (map (\<lambda>c. case b64_value c of Some n \<Rightarrow> n | None \<Rightarrow> 0) data)))"

section \<open>Bodies\<close>

record gcm =
  gcm_encrypt :: "bytes \<Rightarrow> bytes \<Rightarrow> bytes \<Rightarrow> exn + bytes"
  gcm_decrypt :: "bytes \<Rightarrow> bytes \<Rightarrow> bytes \<Rightarrow> exn + bytes"

text \<open>AESGCM with a key of an AES size and a 12-byte nonce: sealing appends a tag of 16 bytes and
  unsealing inverts it; unsealing anything fails only with InvalidTag.\<close>

definition InvalidTag :: exn where "InvalidTag = OtherError ''InvalidTag''"

definition gcm_laws :: "gcm \<Rightarrow> bool" where
  "gcm_laws G \<longleftrightarrow>
     (\<forall>key nonce m. length key \<in> {16, 24, 32} \<and> length nonce = 12 \<longrightarrow>
        (\<exists>c. gcm_encrypt G key nonce m = Inr c \<and> length c = length m + 16 \<and> gcm_decrypt G key nonce c = Inr m)) \<and>
     (\<forall>key nonce c e. length key \<in> {16, 24, 32} \<and> length nonce = 12 \<and> gcm_decrypt G key nonce c = Inl e \<longrightarrow> e = InvalidTag)"

definition NONCE_LENGTH :: nat where "NONCE_LENGTH = 12"
definition TAG_LENGTH :: nat where "TAG_LENGTH = 16"

definition encrypt_post_data :: "gcm \<Rightarrow> bytes \<Rightarrow> string \<Rightarrow> bytes \<Rightarrow> exn + string" where
  "encrypt_post_data G nonce key post_json =
     andThen (gcm_encrypt G (str_encode key) nonce post_json) (\<lambda>sealed. Inr (b64encode (nonce @ sealed)))"

definition decrypt_post_data :: "gcm \<Rightarrow> string \<Rightarrow> string \<Rightarrow> exn + bytes" where
  "decrypt_post_data G key encrypted =
     (case b64decode encrypted of
        Inl e \<Rightarrow> Inl (ProtocolError ''Failed to decode body'')
      | Inr raw \<Rightarrow>
          if length raw < NONCE_LENGTH + TAG_LENGTH
          then Inl (ProtocolError ''Failed to decode body: shorter than nonce and tag'')
          else (case gcm_decrypt G (str_encode key) (take NONCE_LENGTH raw) (drop NONCE_LENGTH raw) of
                  Inl e \<Rightarrow> Inl (if e = InvalidTag then ProtocolError ''Failed to decrypt body: authentication tag'' else e)
                | Inr plain \<Rightarrow> Inr plain))"

section \<open>Laws\<close>

lemma b64_value_char: "n < 64 \<Longrightarrow> b64_value (b64_char n) = Some n"
  by (auto simp: b64_value_def b64_char_def Let_def of_char_of)

lemma b64_parts:
  "unat (a :: byte) div 4 < 64" "unat (a :: byte) mod 4 * 16 < 64" "unat (b :: byte) mod 16 * 4 < 64"
  "unat (a :: byte) mod 4 * 16 + unat (b :: byte) div 16 < 64"
  "unat (b :: byte) mod 16 * 4 + unat (c :: byte) div 64 < 64" "unat (c :: byte) mod 64 < 64"
proof -
  have "unat a div 4 < 64" "unat a mod 4 < 4" "unat b mod 16 < 16" "unat b div 16 < 16" "unat c div 64 < 4"
    using unat_byte_bound [of a] unat_byte_bound [of b] unat_byte_bound [of c] by (simp_all add: less_mult_imp_div_less)
  then show "unat a div 4 < 64" "unat a mod 4 * 16 < 64" "unat b mod 16 * 4 < 64"
    "unat a mod 4 * 16 + unat b div 16 < 64" "unat b mod 16 * 4 + unat c div 64 < 64" "unat c mod 64 < 64"
    by linarith+
qed

lemma b64_groups_bound: "list_all (\<lambda>n. n < 64) (b64_groups bs)"
  by (induction bs rule: b64_groups.induct) (simp_all only: b64_groups.simps append.simps list.pred_inject b64_parts simp_thms)

lemma six_bit_groups:
  fixes x y z :: nat
  shows "x div 4 * 4 + x mod 4 * 16 div 16 = x"
    and "y < 256 \<Longrightarrow> x div 4 * 4 + (x mod 4 * 16 + y div 16) div 16 = x"
    and "y < 256 \<Longrightarrow> (x mod 4 * 16 + y div 16) mod 16 * 16 + y mod 16 * 4 div 4 = y"
    and "y < 256 \<Longrightarrow> z < 256 \<Longrightarrow> (x mod 4 * 16 + y div 16) mod 16 * 16 + (y mod 16 * 4 + z div 64) div 4 = y"
    and "z < 256 \<Longrightarrow> (y mod 16 * 4 + z div 64) mod 4 * 64 + z mod 64 = z"
proof -
  have d: "(a * n + b) div n = a" "(a * n + b) mod n = b" if "b < n" for a b n :: nat
    using that by simp_all
  have y: "y div 16 < 16" if "y < 256" using that by simp
  have z: "z div 64 < 4" if "z < 256" using that by simp
  show "x div 4 * 4 + x mod 4 * 16 div 16 = x" by simp
  show "y < 256 \<Longrightarrow> x div 4 * 4 + (x mod 4 * 16 + y div 16) div 16 = x"
    by (simp only: d(1) [OF y] div_mult_mod_eq)
  show "y < 256 \<Longrightarrow> (x mod 4 * 16 + y div 16) mod 16 * 16 + y mod 16 * 4 div 4 = y"
    by (simp only: d(2) [OF y]) simp
  show "y < 256 \<Longrightarrow> z < 256 \<Longrightarrow> (x mod 4 * 16 + y div 16) mod 16 * 16 + (y mod 16 * 4 + z div 64) div 4 = y"
    by (simp only: d(2) [OF y] d(1) [OF z] div_mult_mod_eq)
  show "z < 256 \<Longrightarrow> (y mod 16 * 4 + z div 64) mod 4 * 64 + z mod 64 = z"
    by (simp only: d(2) [OF z] div_mult_mod_eq)
qed

lemma byte_unat: "word_of_nat (unat b) = (b :: byte)"
  by simp

lemma b64_bytes_groups: "b64_bytes (b64_groups bs) = Some bs"
  by (induction bs rule: b64_groups.induct) (simp_all only: b64_groups.simps b64_bytes.simps six_bit_groups
      unat_byte_bound byte_unat append.simps option.map)

lemma length_b64_groups:
  "length (b64_groups bs) mod 4 = (if length bs mod 3 = 0 then 0 else length bs mod 3 + 1)"
proof (induction bs rule: b64_groups.induct)
  case (4 a b c r)
  then show ?case using mod_less_divisor [of 3 "length r"] by (simp add: mod_Suc) linarith
qed simp_all

lemma b64_roundtrip: "b64decode (b64encode bs) = Inr bs"
proof -
  define k where "k = (3 - length bs mod 3) mod 3"
  let ?data = "map b64_char (b64_groups bs)"
  have v: "map (\<lambda>c. case b64_value c of Some n \<Rightarrow> n | None \<Rightarrow> 0) ?data = b64_groups bs"
    using b64_groups_bound [of bs] by (auto simp: list_all_iff b64_value_char intro: map_idI)
  have d: "\<forall>c \<in> set ?data. b64_value c \<noteq> None"
    using b64_groups_bound [of bs] by (auto simp: list_all_iff b64_value_char)
  have "b64_value (CHR ''='') = None" by code_simp
  then have "takeWhile (\<lambda>c. b64_value c \<noteq> None) (replicate k (CHR ''='')) = []"
    by (cases k) simp_all
  then have t: "takeWhile (\<lambda>c. b64_value c \<noteq> None) (?data @ replicate k (CHR ''='')) = ?data"
    using d by (subst takeWhile_append2) auto
  have m: "length bs mod 3 = 0 \<or> length bs mod 3 = 1 \<or> length bs mod 3 = 2"
    using mod_less_divisor [of 3 "length bs"] by linarith
  then have q: "k \<le> 2" "\<not> (length ?data mod 4 = 2 \<and> k < 2)" "\<not> (length ?data mod 4 = 3 \<and> k < 1)"
    using length_b64_groups [of bs] unfolding k_def by auto
  show ?thesis
    using q unfolding b64decode_def b64encode_def k_def [symmetric] t Let_def v b64_bytes_groups
    by simp
qed

lemma post_data_sealed:
  assumes "gcm_laws G" "ascii key" "length key = 16" "length nonce = 12"
  shows "\<exists>s. encrypt_post_data G nonce key m = Inr s \<and> decrypt_post_data G key s = Inr m"
proof -
  have k: "length (str_encode key) = 16" using assms(2,3) by (simp add: length_str_encode)
  obtain c where "gcm_encrypt G (str_encode key) nonce m = Inr c" "length c = length m + 16"
    "gcm_decrypt G (str_encode key) nonce c = Inr m"
    using assms(1,4) k unfolding gcm_laws_def by blast
  then show ?thesis
    using assms(4)
    by (simp add: encrypt_post_data_def decrypt_post_data_def b64_roundtrip NONCE_LENGTH_def TAG_LENGTH_def)
qed

section \<open>Properties\<close>

text \<open>
  A request body travels whole: what one side encrypts under the 16-character body key the
  other side decrypts to the same bytes, whatever the random nonce.
\<close>

theorem body_roundtrip:
  assumes "gcm_laws G" "ascii key" "length key = 16" "length nonce = 12"
  shows "andThen (encrypt_post_data G nonce key m) (decrypt_post_data G key) = Inr m"
  using post_data_sealed [OF assms, of m] by auto

text \<open>A sealing that keeps the text in clear and appends a tag of zeros.\<close>

definition clear_gcm :: gcm where
  "clear_gcm = \<lparr>gcm_encrypt = (\<lambda>key nonce m. Inr (m @ replicate 16 0)),
     gcm_decrypt = (\<lambda>key nonce c. if 16 \<le> length c \<and> drop (length c - 16) c = replicate 16 0
                      then Inr (take (length c - 16) c) else Inl InvalidTag)\<rparr>"

lemma clear_gcm_laws: "gcm_laws clear_gcm"
  by (simp add: gcm_laws_def clear_gcm_def)

lemma body_roundtrip_witness:
  "andThen (encrypt_post_data clear_gcm (replicate 12 1) (replicate 16 (CHR ''k'')) [1, 2])
     (decrypt_post_data clear_gcm (replicate 16 (CHR ''k''))) = Inr [1, 2]"
  by (rule body_roundtrip [OF clear_gcm_laws]) (simp_all add: ascii_def list_all_iff)

text \<open>
  Decrypting a body under a 16-character key never fails with anything but the SDK's protocol
  error: text that is no base64, bodies shorter than nonce and tag, and bodies whose tag does not
  verify are all reported as such.
\<close>

theorem body_failures:
  assumes "gcm_laws G" "ascii key" "length key = 16"
  shows "case decrypt_post_data G key encrypted of Inr m \<Rightarrow> True | Inl e \<Rightarrow> is_tuya_error e"
proof -
  have k: "length (str_encode key) = 16" using assms(2,3) by (simp add: length_str_encode)
  have "e = InvalidTag" if "gcm_decrypt G (str_encode key) nonce c = Inl e" "length nonce = 12" for nonce c e
    using assms(1) k that unfolding gcm_laws_def by blast
  then show ?thesis
    by (auto simp: decrypt_post_data_def NONCE_LENGTH_def TAG_LENGTH_def split: sum.split)
qed

lemma body_failures_witness:
  "case decrypt_post_data clear_gcm (replicate 16 (CHR ''k'')) ''!'' of Inr m \<Rightarrow> True | Inl e \<Rightarrow> is_tuya_error e"
  by (rule body_failures [OF clear_gcm_laws]) (simp_all add: ascii_def list_all_iff)

end
