(* ===== verification/Gateway.thy ===== *)
theory Gateway
  imports Gateway_Body
begin

text \<open>
  Models \<^verbatim>\<open>src/tuya_ipc_p2p_sdk/gateway/client.py\<close>. The network, the clock, the random
  values, AES-GCM and RSA are the fields of a \<open>network\<close> over an arbitrary world, which every
  call threads; a call returns an exception or a value together with the state it leaves.
\<close>

section \<open>The network\<close>

datatype http_outcome = HttpText string | HttpTimeout | HttpClientError string | HttpFailure exn

record 'w network =
  net_post :: "string \<Rightarrow> (string \<times> string) list \<Rightarrow> 'w \<Rightarrow> http_outcome \<times> 'w"
  net_uuid :: "'w \<Rightarrow> string \<times> 'w"
  net_nonce :: "'w \<Rightarrow> bytes \<times> 'w"
  net_time :: "'w \<Rightarrow> nat \<times> 'w"
  net_gcm :: gcm
  net_rsa :: "int \<Rightarrow> int \<Rightarrow> bytes \<Rightarrow> 'w \<Rightarrow> (exn + bytes) \<times> 'w"

record 'w gateway =
  gw_region :: string
  gw_url :: string
  gw_device_fingerprint :: string
  gw_composite_key :: string
  gw_session :: bool
  gw_owns_session :: bool
  gw_world :: 'w

text \<open>Calls and their sequencing.\<close>

definition pass :: "'a \<Rightarrow> 's \<Rightarrow> (exn + 'a) \<times> 's" where
  "pass x s = (Inr x, s)"

definition raise :: "exn \<Rightarrow> 's \<Rightarrow> (exn + 'a) \<times> 's" where
  "raise e s = (Inl e, s)"

definition lift_result :: "exn + 'a \<Rightarrow> 's \<Rightarrow> (exn + 'a) \<times> 's" where
  "lift_result r s = (r, s)"

definition bind :: "('s \<Rightarrow> (exn + 'a) \<times> 's) \<Rightarrow> ('a \<Rightarrow> 's \<Rightarrow> (exn + 'b) \<times> 's) \<Rightarrow> 's \<Rightarrow> (exn + 'b) \<times> 's" where
  "bind m f s = (case m s of (Inl e, s') \<Rightarrow> (Inl e, s') | (Inr x, s') \<Rightarrow> f x s')"

text \<open>\<^verbatim>\<open>except TuyaIpcP2pGatewayError\<close> and the like: \<open>h\<close> decides.\<close>

definition catching :: "('s \<Rightarrow> (exn + 'a) \<times> 's) \<Rightarrow> (exn \<Rightarrow> ('s \<Rightarrow> (exn + 'a) \<times> 's) option) \<Rightarrow> 's \<Rightarrow> (exn + 'a) \<times> 's" where
  "catching m h s =
     (case m s of
        (Inr x, s') \<Rightarrow> (Inr x, s')
      | (Inl e, s') \<Rightarrow> (case h e of None \<Rightarrow> (Inl e, s') | Some k \<Rightarrow> k s'))"

definition from_world :: "('w \<Rightarrow> 'a \<times> 'w) \<Rightarrow> 'w gateway \<Rightarrow> (exn + 'a) \<times> 'w gateway" where
  "from_world f g = (case f (gw_world g) of (x, w) \<Rightarrow> (Inr x, g\<lparr>gw_world := w\<rparr>))"

lemma bind_Inr: "m s = (Inr x, t) \<Longrightarrow> bind m f s = f x t"
  and bind_Inl: "m s = (Inl e, t) \<Longrightarrow> bind m f s = (Inl e, t)"
  by (simp_all add: bind_def)

lemma bind_assoc: "bind (bind m f) g = bind m (\<lambda>x. bind (f x) g)"
  by (rule ext) (simp add: bind_def split: prod.split sum.split)

section \<open>Construction\<close>

definition LOGIN_TOKEN_API :: string where "LOGIN_TOKEN_API = ''smartlife.m.user.username.token.get''"
definition LOGIN_API :: string where "LOGIN_API = ''smartlife.m.user.email.password.login''"
definition RTC_CONFIG_API :: string where "RTC_CONFIG_API = ''m.ipc.v4.rtc.config.get''"
definition HOME_LIST_API :: string where "HOME_LIST_API = ''tuya.m.location.list''"
definition DEVICE_LIST_API :: string where "DEVICE_LIST_API = ''tuya.m.my.group.device.list''"

definition new_gateway :: "string \<Rightarrow> string \<Rightarrow> bool \<Rightarrow> string \<Rightarrow> 'w \<Rightarrow> 'w gateway" where
  "new_gateway region device_fingerprint session composite_key w =
     \<lparr>gw_region = region, gw_url = gateway_url region, gw_device_fingerprint = device_fingerprint,
      gw_composite_key = composite_key, gw_session = session, gw_owns_session = \<not> session, gw_world = w\<rparr>"

text \<open>Whether closing released a session, with the gateway it leaves.\<close>

definition close_gateway :: "'w gateway \<Rightarrow> 'w gateway \<times> bool" where
  "close_gateway g = (if gw_owns_session g \<and> gw_session g then (g\<lparr>gw_session := False\<rparr>, True) else (g, False))"

section \<open>Calls\<close>

definition build_params ::
    "string \<Rightarrow> string \<Rightarrow> string \<Rightarrow> string \<Rightarrow> account_session option \<Rightarrow> (string \<times> string) list option \<Rightarrow>
     nat \<Rightarrow> 'w gateway \<Rightarrow> (string \<times> string) list" where
  "build_params api version request_id encrypted session extra_params time g =
     (let params =
        [(''a'', api), (''v'', version), (''clientId'', CLIENT_ID), (''time'', dec_digits time),
         (''requestId'', request_id), (''lang'', LANGUAGE), (''deviceId'', gw_device_fingerprint g),
         (''appVersion'', APP_VERSION), (''ttid'', TTID), (''os'', ''Android''), (''sdkVersion'', SDK_VERSION),
         (''chKey'', CH_KEY), (''et'', ''3''), (''postData'', encrypted)];
          params = (case session of None \<Rightarrow> params | Some a \<Rightarrow> dict_set ''sid'' (acc_sid a) params);
          params = (case extra_params of None \<Rightarrow> params | Some extra \<Rightarrow> dict_update params extra);
          signed = dict_set ''postData'' (post_data_sign_field encrypted) params
      in dict_set ''sign'' (sign (build_sign_string signed) (gw_composite_key g)) params)"

definition post_form :: "'w network \<Rightarrow> string \<Rightarrow> (string \<times> string) list \<Rightarrow> 'w gateway \<Rightarrow> (exn + string) \<times> 'w gateway" where
  "post_form N api params g =
     (case net_post N (gw_url g) params (gw_world g) of
        (out, w) \<Rightarrow>
          (case out of
             HttpText text \<Rightarrow> Inr text
           | HttpTimeout \<Rightarrow> Inl (ConnectionError (''Failed to call '' @ api @ '': timed out''))
           | HttpClientError m \<Rightarrow> Inl (ConnectionError (''Failed to call '' @ api @ '': '' @ m))
           | HttpFailure e \<Rightarrow> Inl e,
           g\<lparr>gw_session := True, gw_world := w\<rparr>))"

definition unwrap :: "gcm \<Rightarrow> string \<Rightarrow> string \<Rightarrow> string \<Rightarrow> exn + json" where
  "unwrap G api key raw =
     andThen (parse_json_object_str raw) (\<lambda>envelope.
     andThen (case map_of envelope ''result'' of
                Some (JStr s) \<Rightarrow>
                  (if s = [] then Inr (envelope, Some (JStr s))
                   else andThen (decrypt_post_data G key s) (\<lambda>plain.
                        andThen (parse_json_object plain) (\<lambda>inner.
                          Inr (dict_update envelope inner, map_of inner ''result''))))
              | result \<Rightarrow> Inr (envelope, result))
       (\<lambda>(envelope, result).
         let error_code = optional_str envelope ''errorCode''
         in if error_code \<noteq> None \<or> map_of envelope ''success'' = Some (JBool False)
            then (let m = (case optional_str envelope ''errorMsg'' of None \<Rightarrow> ''request rejected'' | Some m \<Rightarrow> m)
                  in Inl (GatewayError api (or_empty error_code) m))
            else (case result of
                    None \<Rightarrow> Inl (ProtocolError (''Failed to call '' @ api @ '': empty result''))
                  | Some JNull \<Rightarrow> Inl (ProtocolError (''Failed to call '' @ api @ '': empty result''))
                  | Some v \<Rightarrow> Inr v)))"

definition call ::
    "'w network \<Rightarrow> string \<Rightarrow> string \<Rightarrow> json \<Rightarrow> account_session option \<Rightarrow> (string \<times> string) list option \<Rightarrow>
     'w gateway \<Rightarrow> (exn + json) \<times> 'w gateway" where
  "call N api version post session extra_params =
     bind (from_world (net_uuid N)) (\<lambda>request_id g.
       let key = (case session of
                    Some a \<Rightarrow> body_key request_id (acc_ecode a) (gw_composite_key g)
                  | None \<Rightarrow> pre_login_body_key request_id (gw_composite_key g))
       in bind (from_world (net_nonce N)) (\<lambda>nonce.
          bind (lift_result (encrypt_post_data (net_gcm N) nonce key (dump_json post))) (\<lambda>encrypted.
          bind (from_world (net_time N)) (\<lambda>time g.
          bind (post_form N api (build_params api version request_id encrypted session extra_params time g)) (\<lambda>raw.
            lift_result (unwrap (net_gcm N) api key raw)) g))) g)"

definition call_object ::
    "'w network \<Rightarrow> string \<Rightarrow> string \<Rightarrow> json \<Rightarrow> account_session option \<Rightarrow> (string \<times> string) list option \<Rightarrow>
     'w gateway \<Rightarrow> (exn + json_object) \<times> 'w gateway" where
  "call_object N api version post session extra_params =
     bind (call N api version post session extra_params) (\<lambda>result.
       lift_result (from_option (ProtocolError (''Failed to call '' @ api @ '': result is not an object'')) (as_object result)))"

definition call_object_list ::
    "'w network \<Rightarrow> string \<Rightarrow> string \<Rightarrow> json \<Rightarrow> account_session \<Rightarrow> (string \<times> string) list option \<Rightarrow>
     'w gateway \<Rightarrow> (exn + json_object list) \<times> 'w gateway" where
  "call_object_list N api version post session extra_params =
     bind (call N api version post (Some session) extra_params) (\<lambda>result.
       case result of
         JList vs \<Rightarrow> pass (List.map_filter as_object vs)
       | _ \<Rightarrow> raise (ProtocolError (''Failed to call '' @ api @ '': result is not a list'')))"

section \<open>Login\<close>

text \<open>\<^verbatim>\<open>int(s)\<close>: an optional sign and digits, single underscores between digits, white
  space around.\<close>

fun underscored :: "string \<Rightarrow> bool" where
  "underscored [] = False"
| "underscored [c] = is_digit c"
| "underscored (c # d # s) = (is_digit c \<and> (if d = CHR ''_'' then underscored s else underscored (d # s)))"

definition python_space :: "char \<Rightarrow> bool" where
  "python_space c \<longleftrightarrow> hex_space c \<or> c \<in> {CHR 0x1C, CHR 0x1D, CHR 0x1E, CHR 0x1F, CHR 0x85, CHR 0xA0}"

definition python_int :: "string \<Rightarrow> exn + int" where
  "python_int s =
     (let t = strip_chars (Collect python_space) s;
          negative = (take 1 t = ''-'');
          body = (if t \<noteq> [] \<and> (hd t = CHR ''-'' \<or> hd t = CHR ''+'') then tl t else t);
          digits = filter (\<lambda>c. c \<noteq> CHR ''_'') body
      in if underscored body \<and> length digits \<le> MAX_INT_DIGITS
         then Inr (if negative then - int (dec_value digits) else int (dec_value digits)) else Inl ValueError)"

definition encrypt_password :: "'w network \<Rightarrow> string \<Rightarrow> string \<Rightarrow> string \<Rightarrow> 'w gateway \<Rightarrow> (exn + string) \<times> 'w gateway" where
  "encrypt_password N modulus_decimal exponent password_md5 =
     bind (lift_result (python_int exponent)) (\<lambda>e.
     bind (lift_result (python_int modulus_decimal)) (\<lambda>n.
     bind (from_world (net_rsa N e n (str_encode password_md5))) (\<lambda>r.
       lift_result (andThen r (\<lambda>c. Inr (hex c))))))"

text \<open>The text of a gateway refusal.\<close>

definition refusal_text :: "string \<Rightarrow> string \<Rightarrow> string \<Rightarrow> string" where
  "refusal_text api code m = ''Failed to call '' @ api @ '': '' @ m @ '' ('' @ code @ '')''"

fun as_authentication :: "exn \<Rightarrow> ('s \<Rightarrow> (exn + 'a) \<times> 's) option" where
  "as_authentication (GatewayError api code m) =
     Some (raise (AuthenticationError (''Failed to log in: '' @ refusal_text api code m)))"
| "as_authentication _ = None"

definition login :: "'w network \<Rightarrow> string \<Rightarrow> string \<Rightarrow> string \<Rightarrow> 'w gateway \<Rightarrow> (exn + account_session) \<times> 'w gateway" where
  "login N email password country_code =
     bind (catching
       (bind (call_object N LOGIN_TOKEN_API ''2.0''
                (JObj [(''countryCode'', JStr country_code), (''username'', JStr email), (''isUid'', JBool False)]) None None)
          (\<lambda>token.
        bind (lift_result (require_str token ''publicKey'')) (\<lambda>public_key.
        bind (lift_result (require_str token ''exponent'')) (\<lambda>exponent.
        bind (encrypt_password N public_key exponent (md5_hex (Str password))) (\<lambda>passwd.
        bind (lift_result (require_str token ''token'')) (\<lambda>t.
          call_object N LOGIN_API ''3.0''
            (JObj [(''countryCode'', JStr country_code), (''email'', JStr email), (''ifencrypt'', JInt 1),
                   (''options'', JStr (CHR ''{'' # CHR 0x22 # ''group'' @ CHR 0x22 # '': 1}'')),
                   (''passwd'', JStr passwd), (''token'', JStr t)]) None None))))))
       as_authentication) (\<lambda>account g.
       (andThen (require_str account ''sid'') (\<lambda>sid.
        andThen (require_str account ''ecode'') (\<lambda>ecode.
        andThen (require_str account ''uid'') (\<lambda>uid.
          Inr \<lparr>acc_sid = sid, acc_ecode = ecode, acc_uid = uid, acc_device_fingerprint = gw_device_fingerprint g\<rparr>))), g))"

section \<open>Devices and configurations\<close>

definition fetch_stream_config ::
    "'w network \<Rightarrow> account_session \<Rightarrow> string \<Rightarrow> string \<Rightarrow> 'w gateway \<Rightarrow> (exn + stream_config) \<times> 'w gateway" where
  "fetch_stream_config N session device_id local_key =
     bind (call_object N RTC_CONFIG_API ''1.0'' (JObj [(''devId'', JStr device_id)]) (Some session) None) (\<lambda>result.
       lift_result (stream_config_from_json result device_id local_key))"

definition parse_device :: "json_object \<Rightarrow> tuya_device option" where
  "parse_device raw =
     (case (optional_str raw ''devId'', optional_str raw ''localKey'') of
        (Some device_id, Some local_key) \<Rightarrow>
          Some \<lparr>dev_id = device_id,
                dev_name = (case optional_str raw ''name'' of None \<Rightarrow> device_id | Some n \<Rightarrow> n),
                dev_category = or_empty (optional_str raw ''category''), dev_local_key = local_key,
                dev_product_id = optional_str raw ''productId'',
                dev_online = (map_of raw ''isOnline'' \<noteq> Some (JBool False))\<rparr>
      | _ \<Rightarrow> None)"

text \<open>\<open>str(gid)\<close> where \<^verbatim>\<open>isinstance(gid, int)\<close> holds, booleans being integers.\<close>

fun gid_text :: "json option \<Rightarrow> string option" where
  "gid_text (Some (JInt i)) = Some (dump_int i)"
| "gid_text (Some (JBool b)) = Some (if b then ''True'' else ''False'')"
| "gid_text _ = None"

text \<open>One home's entries, added to the devices collected so far.\<close>

fun add_devices :: "json_object list \<Rightarrow> tuya_device list \<Rightarrow> tuya_device list" where
  "add_devices [] devices = devices"
| "add_devices (raw # raws) devices =
     (case parse_device raw of
        None \<Rightarrow> add_devices raws devices
      | Some d \<Rightarrow> if dev_id d \<in> set (map dev_id devices) then add_devices raws devices
                  else add_devices raws (devices @ [d]))"

fun homes_loop ::
    "'w network \<Rightarrow> account_session \<Rightarrow> json_object list \<Rightarrow> tuya_device list \<Rightarrow> 'w gateway \<Rightarrow>
     (exn + tuya_device list) \<times> 'w gateway" where
  "homes_loop N session [] devices = pass devices"
| "homes_loop N session (home # homes) devices =
     (case gid_text (map_of home ''gid'') of
        None \<Rightarrow> homes_loop N session homes devices
      | Some gid \<Rightarrow> bind (call_object_list N DEVICE_LIST_API ''1.0'' (JObj []) session (Some [(''gid'', gid)])) (\<lambda>raws.
                      homes_loop N session homes (add_devices raws devices)))"

definition list_devices :: "'w network \<Rightarrow> account_session \<Rightarrow> 'w gateway \<Rightarrow> (exn + tuya_device list) \<times> 'w gateway" where
  "list_devices N session =
     bind (call_object_list N HOME_LIST_API ''2.1'' (JObj []) session None) (\<lambda>homes. homes_loop N session homes [])"

text \<open>\<open>Some\<close> the configuration, \<open>None\<close> where the probe ended with an error of the SDK.\<close>

definition probe :: "'w network \<Rightarrow> account_session \<Rightarrow> tuya_device \<Rightarrow> 'w gateway \<Rightarrow> (exn + stream_config option) \<times> 'w gateway" where
  "probe N session d =
     catching (bind (fetch_stream_config N session (dev_id d) (dev_local_key d)) (\<lambda>c. pass (Some c)))
       (\<lambda>e. if is_tuya_error e then Some (pass None) else None)"

fun discover_loop ::
    "'w network \<Rightarrow> account_session \<Rightarrow> tuya_device list \<Rightarrow> tuya_device list \<Rightarrow> 'w gateway \<Rightarrow>
     (exn + tuya_device list) \<times> 'w gateway" where
  "discover_loop N session [] cameras = pass cameras"
| "discover_loop N session (d # ds) cameras =
     bind (probe N session d) (\<lambda>found. discover_loop N session ds (if found = None then cameras else cameras @ [d]))"

definition discover_cameras :: "'w network \<Rightarrow> account_session \<Rightarrow> 'w gateway \<Rightarrow> (exn + tuya_device list) \<times> 'w gateway" where
  "discover_cameras N session = bind (list_devices N session) (\<lambda>ds. discover_loop N session ds [])"

definition gateway_mqtt_identity :: "account_session \<Rightarrow> 'w gateway \<Rightarrow> mqtt_identity" where
  "gateway_mqtt_identity session g = build_mqtt_identity session (gw_region g)"

section \<open>Requests\<close>

lemma distinct_dict_update: "distinct (map fst d) \<Longrightarrow> distinct (map fst (dict_update d e))"
  by (induction e arbitrary: d) (simp_all add: dict_update_def distinct_dict_set)

lemma dict_update_other: "k \<notin> set (map fst e) \<Longrightarrow> map_of (dict_update d e) k = map_of d k"
  by (induction e arbitrary: d) (simp_all add: dict_update_def)

lemma param_dict_set: "param (dict_set k v d) k' = (if k' = k then v else param d k')"
  by (simp add: param_def)

text \<open>The form without its signature.\<close>

definition unsigned_params ::
    "string \<Rightarrow> string \<Rightarrow> string \<Rightarrow> string \<Rightarrow> account_session option \<Rightarrow> (string \<times> string) list option \<Rightarrow>
     nat \<Rightarrow> 'w gateway \<Rightarrow> (string \<times> string) list" where
  "unsigned_params api version request_id encrypted session extra_params time g =
     (let params =
        [(''a'', api), (''v'', version), (''clientId'', CLIENT_ID), (''time'', dec_digits time),
         (''requestId'', request_id), (''lang'', LANGUAGE), (''deviceId'', gw_device_fingerprint g),
         (''appVersion'', APP_VERSION), (''ttid'', TTID), (''os'', ''Android''), (''sdkVersion'', SDK_VERSION),
         (''chKey'', CH_KEY), (''et'', ''3''), (''postData'', encrypted)];
          params = (case session of None \<Rightarrow> params | Some a \<Rightarrow> dict_set ''sid'' (acc_sid a) params)
      in case extra_params of None \<Rightarrow> params | Some extra \<Rightarrow> dict_update params extra)"

lemma build_params_eq:
  "build_params api version request_id encrypted session extra_params time g =
     (let params = unsigned_params api version request_id encrypted session extra_params time g
      in dict_set ''sign'' (sign (build_sign_string (dict_set ''postData'' (post_data_sign_field encrypted) params))
           (gw_composite_key g)) params)"
  by (simp only: build_params_def unsigned_params_def Let_def)

text \<open>Extra parameters that leave the ones of the call alone.\<close>

definition harmless_extra :: "(string \<times> string) list option \<Rightarrow> bool" where
  "harmless_extra extra_params \<longleftrightarrow>
     (case extra_params of None \<Rightarrow> True | Some e \<Rightarrow> ''postData'' \<notin> set (map fst e) \<and> ''requestId'' \<notin> set (map fst e))"

lemma unsigned_params_laws:
  assumes "harmless_extra extra_params"
  shows "distinct (map fst (unsigned_params api version request_id encrypted session extra_params time g))"
    "param (unsigned_params api version request_id encrypted session extra_params time g) ''postData'' = encrypted"
    "param (unsigned_params api version request_id encrypted session extra_params time g) ''requestId'' = request_id"
proof -
  define p0 where "p0 = [(''a'', api), (''v'', version), (''clientId'', CLIENT_ID), (''time'', dec_digits time),
         (''requestId'', request_id), (''lang'', LANGUAGE), (''deviceId'', gw_device_fingerprint g),
         (''appVersion'', APP_VERSION), (''ttid'', TTID), (''os'', ''Android''), (''sdkVersion'', SDK_VERSION),
         (''chKey'', CH_KEY), (''et'', ''3''), (''postData'', encrypted)]"
  define p1 where "p1 = (case session of None \<Rightarrow> p0 | Some a \<Rightarrow> dict_set ''sid'' (acc_sid a) p0)"
  have u: "unsigned_params api version request_id encrypted session extra_params time g =
      (case extra_params of None \<Rightarrow> p1 | Some e \<Rightarrow> dict_update p1 e)"
    by (simp only: unsigned_params_def p1_def p0_def Let_def)
  have p0: "distinct (map fst p0)" "map_of p0 ''postData'' = Some encrypted" "map_of p0 ''requestId'' = Some request_id"
    by (simp_all add: p0_def)
  then have p1: "distinct (map fst p1)" "map_of p1 ''postData'' = Some encrypted" "map_of p1 ''requestId'' = Some request_id"
    by (auto simp: p1_def distinct_dict_set simp del: map_of_eq_Some_iff split: option.split)
  then show "distinct (map fst (unsigned_params api version request_id encrypted session extra_params time g))"
    "param (unsigned_params api version request_id encrypted session extra_params time g) ''postData'' = encrypted"
    "param (unsigned_params api version request_id encrypted session extra_params time g) ''requestId'' = request_id"
    using assms unfolding u harmless_extra_def param_def
    by (auto simp: distinct_dict_update dict_update_other simp del: map_of_eq_Some_iff set_map split: option.split)
qed

text \<open>The signature the gateway computes from the form it received.\<close>

definition received_signature :: "string \<Rightarrow> (string \<times> string) list \<Rightarrow> string" where
  "received_signature key params =
     sign (build_sign_string (dict_set ''postData'' (post_data_sign_field (param params ''postData'')) params)) key"

lemma build_params_verifies:
  assumes "harmless_extra extra_params" "params = build_params api version request_id encrypted session extra_params time g"
  shows "param params ''sign'' = received_signature (gw_composite_key g) params"
    "param params ''postData'' = encrypted" "param params ''requestId'' = request_id"
proof -
  let ?u = "unsigned_params api version request_id encrypted session extra_params time g"
  note u = unsigned_params_laws [OF assms(1), of api version request_id encrypted session time g]
  have p: "params = dict_set ''sign'' (sign (build_sign_string (dict_set ''postData'' (post_data_sign_field encrypted) ?u))
           (gw_composite_key g)) ?u"
    by (simp add: assms(2) build_params_eq Let_def)
  show e: "param params ''postData'' = encrypted" "param params ''requestId'' = request_id"
    unfolding p param_dict_set using u(2,3) by simp_all
  have "build_sign_string (dict_set ''postData'' (post_data_sign_field encrypted) params) =
      build_sign_string (dict_set ''postData'' (post_data_sign_field encrypted) ?u)"
    unfolding p
    by (rule build_sign_string_cong) (simp_all add: distinct_dict_set u(1) param_dict_set SIGN_WHITELIST_def)
  then show "param params ''sign'' = received_signature (gw_composite_key g) params"
    unfolding received_signature_def e by (simp add: p param_dict_set)
qed

lemma ascii_take: "ascii s \<Longrightarrow> ascii (take n s)"
  by (auto simp: ascii_def list_all_iff dest: in_set_takeD)

text \<open>The body key of a call.\<close>

definition call_key :: "string \<Rightarrow> account_session option \<Rightarrow> 'w gateway \<Rightarrow> string" where
  "call_key request_id session g =
     (case session of
        Some a \<Rightarrow> body_key request_id (acc_ecode a) (gw_composite_key g)
      | None \<Rightarrow> pre_login_body_key request_id (gw_composite_key g))"

lemma call_key_laws: "ascii (call_key r a g)" "length (call_key r a g) = 16"
proof -
  have "ascii (body_key r e k)" "ascii (pre_login_body_key r k)" for e k
    by (simp_all add: body_key_def pre_login_body_key_def hmac_sha256_hex_def ascii_take ascii_hex)
  then show "ascii (call_key r a g)" "length (call_key r a g) = 16"
    by (simp_all add: call_key_def length_body_keys split: option.split)
qed

section \<open>Answers\<close>

definition answer_result :: "string \<Rightarrow> json_object \<Rightarrow> exn + json" where
  "answer_result api answer =
     (let m = (case optional_str answer ''errorMsg'' of None \<Rightarrow> ''request rejected'' | Some m \<Rightarrow> m) in
      case optional_str answer ''errorCode'' of
        Some code \<Rightarrow> Inl (GatewayError api code m)
      | None \<Rightarrow>
          if map_of answer ''success'' = Some (JBool False) then Inl (GatewayError api [] m)
          else case map_of answer ''result'' of
                 None \<Rightarrow> Inl (ProtocolError (''Failed to call '' @ api @ '': empty result''))
               | Some v \<Rightarrow> if v = JNull then Inl (ProtocolError (''Failed to call '' @ api @ '': empty result'')) else Inr v)"

text \<open>The envelope the gateway seals an answer in.\<close>

definition sealed_envelope :: "string \<Rightarrow> string" where
  "sealed_envelope s = dumps (JObj [(''result'', JStr s)])"

lemma parse_str_dumps: "wf_json (JObj ms) \<Longrightarrow> parse_json_object_str (dumps (JObj ms)) = Inr ms"
  using loads_dumps [of "JObj ms"] by (simp add: parse_json_object_str_def del: dumps.simps)

lemma unwrap_sealed:
  assumes "gcm_laws G" "ascii key" "length key = 16" "length nonce = 12" "wf_json (JObj answer)"
    and "encrypt_post_data G nonce key (dump_json (JObj answer)) = Inr s"
  shows "unwrap G api key (sealed_envelope s) = answer_result api answer"
proof -
  have ne: "s \<noteq> []"
  proof -
    obtain sealed where "s = b64encode (nonce @ sealed)"
      using assms(6) by (auto simp: encrypt_post_data_def andThen_Inr_iff)
    moreover have "nonce @ sealed \<noteq> []" using assms(4) by auto
    ultimately show ?thesis
      by (cases "nonce @ sealed" rule: b64_groups.cases) (simp_all add: b64encode_def)
  qed
  have d: "decrypt_post_data G key s = Inr (dump_json (JObj answer))"
    using post_data_sealed [OF assms(1-4), of "dump_json (JObj answer)"] assms(6) by auto
  have p: "parse_json_object_str (sealed_envelope s) = Inr [(''result'', JStr s)]"
    unfolding sealed_envelope_def by (rule parse_str_dumps) simp
  have q: "parse_json_object (dump_json (JObj answer)) = Inr answer"
    using assms(5) by (rule parse_dump_object)
  have m: "map_of (dict_update [(''result'', JStr s)] answer) k = map_of answer k" if "k \<noteq> ''result''" for k
    using map_of_dict_update [of answer "[(''result'', JStr s)]"] assms(5) that
    by (simp add: map_add_def split: option.split)
  then have o: "optional_str (dict_update [(''result'', JStr s)] answer) k = optional_str answer k" if "k \<noteq> ''result''" for k
    using that by (simp add: optional_str_def)
  show ?thesis
    using ne by (simp add: unwrap_def p d q o m answer_result_def Let_def split: option.split json.split)
qed

text \<open>What the answer of the network means to the call.\<close>

definition call_outcome :: "gcm \<Rightarrow> string \<Rightarrow> string \<Rightarrow> http_outcome \<Rightarrow> exn + json" where
  "call_outcome G api key out =
     (case out of
        HttpText raw \<Rightarrow> unwrap G api key raw
      | HttpTimeout \<Rightarrow> Inl (ConnectionError (''Failed to call '' @ api @ '': timed out''))
      | HttpClientError m \<Rightarrow> Inl (ConnectionError (''Failed to call '' @ api @ '': '' @ m))
      | HttpFailure e \<Rightarrow> Inl e)"

lemma call_key_world [simp]: "call_key r a (g\<lparr>gw_world := w\<rparr>) = call_key r a g"
  by (simp add: call_key_def split: option.split)

lemma call_eq:
  assumes "gcm_laws (net_gcm N)" "\<forall>w. length (fst (net_nonce N w)) = 12" "harmless_extra extra_params"
  shows "\<exists>params w. param params ''sign'' = received_signature (gw_composite_key g) params \<and>
    decrypt_post_data (net_gcm N) (call_key (param params ''requestId'') session g) (param params ''postData'') = Inr (dump_json post) \<and>
    call N api version post session extra_params g =
      (call_outcome (net_gcm N) api (call_key (param params ''requestId'') session g) (fst (net_post N (gw_url g) params w)),
       g\<lparr>gw_session := True, gw_world := snd (net_post N (gw_url g) params w)\<rparr>)"
proof -
  obtain request_id w1 where r: "net_uuid N (gw_world g) = (request_id, w1)" by (cases "net_uuid N (gw_world g)")
  obtain nonce w2 where n: "net_nonce N w1 = (nonce, w2)" by (cases "net_nonce N w1")
  obtain time w3 where t: "net_time N w2 = (time, w3)" by (cases "net_time N w2")
  let ?key = "call_key request_id session g"
  have "length nonce = 12" using assms(2) n by (metis fst_conv)
  then obtain encrypted where e: "encrypt_post_data (net_gcm N) nonce ?key (dump_json post) = Inr encrypted"
    "decrypt_post_data (net_gcm N) ?key encrypted = Inr (dump_json post)"
    using post_data_sealed [OF assms(1) call_key_laws] by blast
  let ?g = "g\<lparr>gw_world := w3\<rparr>"
  define params where "params = build_params api version request_id encrypted session extra_params time ?g"
  note p = build_params_verifies [OF assms(3) params_def]
  have "call N api version post session extra_params g =
      (call_outcome (net_gcm N) api ?key (fst (net_post N (gw_url g) params w3)),
       g\<lparr>gw_session := True, gw_world := snd (net_post N (gw_url g) params w3)\<rparr>)"
    using e(1) by (simp add: call_def bind_def from_world_def r n t lift_result_def Let_def post_form_def
        call_key_def [symmetric] params_def [symmetric] call_outcome_def split: prod.split http_outcome.split)
  then show ?thesis
    using p e(2) by (intro exI [of _ params] exI [of _ w3]) simp
qed

section \<open>Device lists\<close>

definition listed :: "tuya_device list \<Rightarrow> bool" where
  "listed devices \<longleftrightarrow> distinct (map dev_id devices) \<and>
     list_all (\<lambda>d. dev_id d \<noteq> [] \<and> dev_local_key d \<noteq> [] \<and> dev_name d \<noteq> []) devices"

lemma optional_str_nonempty: "optional_str source key = Some v \<Longrightarrow> v \<noteq> []"
  by (auto simp: optional_str_def split: option.splits json.splits if_splits)

lemma parse_device_listed: "parse_device raw = Some d \<Longrightarrow> dev_id d \<noteq> [] \<and> dev_local_key d \<noteq> [] \<and> dev_name d \<noteq> []"
  by (auto simp: parse_device_def dest: optional_str_nonempty split: option.splits)

lemma add_devices_listed: "listed devices \<Longrightarrow> listed (add_devices raws devices)"
proof (induction raws devices rule: add_devices.induct)
  case (2 raw raws devices)
  show ?case
  proof (cases "parse_device raw")
    case None
    then show ?thesis using 2 by simp
  next
    case (Some d)
    show ?thesis
    proof (cases "dev_id d \<in> set (map dev_id devices)")
      case True
      then show ?thesis using 2 Some by simp
    next
      case False
      have "listed (devices @ [d])"
        using 2(4) False parse_device_listed [OF Some] by (simp add: listed_def)
      then show ?thesis using 2(3) [OF Some False] False Some by simp
    qed
  qed
qed simp

lemma add_devices_extends: "\<exists>new. add_devices raws devices = devices @ new"
proof (induction raws devices rule: add_devices.induct)
  case (2 raw raws devices)
  then show ?case by (auto split: option.split)
qed simp

lemma add_devices_complete:
  "raw \<in> set raws \<Longrightarrow> parse_device raw = Some d \<Longrightarrow> dev_id d \<in> set (map dev_id (add_devices raws devices))"
proof (induction raws devices rule: add_devices.induct)
  case (2 r raws devices)
  have mono: "x \<in> set (map dev_id ds) \<Longrightarrow> x \<in> set (map dev_id (add_devices raws ds))" for x ds
    using add_devices_extends [of raws ds] by auto
  show ?case
  proof (cases "raw \<in> set raws")
    case True
    then show ?thesis using 2 by (auto split: option.split)
  next
    case False
    then have "r = raw" using 2(4) by simp
    then show ?thesis using mono [of "dev_id d" devices] mono [of "dev_id d" "devices @ [d]"] 2(5) by auto
  qed
qed simp

lemma homes_loop_listed:
  "listed devices \<Longrightarrow> fst (homes_loop N session homes devices g) = Inr ds \<Longrightarrow> listed ds"
proof (induction N session homes devices arbitrary: g rule: homes_loop.induct)
  case (1 N session devices)
  then show ?case by (simp add: pass_def)
next
  case (2 N session home homes devices)
  show ?case
  proof (cases "gid_text (map_of home ''gid'')")
    case None
    then show ?thesis using 2 by simp
  next
    case (Some gid)
    let ?c = "call_object_list N DEVICE_LIST_API ''1.0'' (JObj []) session (Some [(''gid'', gid)])"
    obtain raws g' where "?c g = (Inr raws, g')" "fst (homes_loop N session homes (add_devices raws devices) g') = Inr ds"
      using 2(4) Some by (auto simp: bind_def split: prod.splits sum.splits)
    then show ?thesis using 2(2) [OF Some] add_devices_listed [OF 2(3)] by blast
  qed
qed

lemma discover_loop_subseq:
  "fst (discover_loop N session ds cameras g) = Inr cs \<Longrightarrow> \<exists>new. cs = cameras @ new \<and> set new \<subseteq> set ds"
proof (induction N session ds cameras arbitrary: g rule: discover_loop.induct)
  case (1 N session cameras)
  then show ?case by (simp add: pass_def)
next
  case (2 N session d ds cameras)
  obtain r g' where p: "probe N session d g = (r, g')" by (cases "probe N session d g")
  show ?case
  proof (cases r)
    case (Inl e)
    then show ?thesis using 2(2) p by (simp add: bind_def)
  next
    case (Inr found)
    then have "fst (discover_loop N session ds (if found = None then cameras else cameras @ [d]) g') = Inr cs"
      using 2(2) p by (simp only: discover_loop.simps bind_Inr)
    from 2(1) [OF this] show ?thesis by (auto split: if_splits)
  qed
qed

section \<open>Refused probes\<close>

text \<open>The refusal of one API in clear, as a gateway whose session is gone sends it.\<close>

definition refusal :: "string \<Rightarrow> string" where
  "refusal code = dumps (JObj [(''errorCode'', JStr code), (''success'', JBool False)])"

lemma unwrap_refusal: "code \<noteq> [] \<Longrightarrow> unwrap G api key (refusal code) = Inl (GatewayError api code ''request rejected'')"
proof -
  assume code: "code \<noteq> []"
  have "parse_json_object_str (refusal code) = Inr [(''errorCode'', JStr code), (''success'', JBool False)]"
    unfolding refusal_def by (rule parse_str_dumps) simp
  then show ?thesis using code by (simp add: unwrap_def optional_str_def)
qed

text \<open>A network that answers every call of an API with one text.\<close>

definition answers :: "'w network \<Rightarrow> string \<Rightarrow> string \<Rightarrow> bool" where
  "answers N api raw \<longleftrightarrow>
     (\<forall>url params w. map_of params ''a'' = Some api \<longrightarrow> fst (net_post N url params w) = HttpText raw)"

lemma build_params_api:
  assumes "\<forall>e. extra_params = Some e \<longrightarrow> ''a'' \<notin> set (map fst e)"
  shows "map_of (build_params api version r e session extra_params t g) ''a'' = Some api"
proof -
  have "map_of (case session of None \<Rightarrow> (''a'', api) # p | Some a \<Rightarrow> dict_set ''sid'' (acc_sid a) ((''a'', api) # p)) ''a'' = Some api" for p
    by (simp split: option.split)
  then have "map_of (unsigned_params api version r e session extra_params t g) ''a'' = Some api"
    using assms by (auto simp: unsigned_params_def Let_def dict_update_other simp del: map_of_eq_Some_iff set_map
        split: option.split)
  then show ?thesis by (simp add: build_params_eq Let_def)
qed

lemma answered_call:
  assumes "gcm_laws (net_gcm N)" "\<forall>w. length (fst (net_nonce N w)) = 12" "answers N api raw"
    and "\<forall>e. extra_params = Some e \<longrightarrow> ''a'' \<notin> set (map fst e)"
  shows "\<exists>key. fst (call N api version post session extra_params g) = unwrap (net_gcm N) api key raw"
proof -
  obtain request_id w1 where r: "net_uuid N (gw_world g) = (request_id, w1)" by (cases "net_uuid N (gw_world g)")
  obtain nonce w2 where n: "net_nonce N w1 = (nonce, w2)" by (cases "net_nonce N w1")
  obtain time w3 where t: "net_time N w2 = (time, w3)" by (cases "net_time N w2")
  let ?key = "call_key request_id session g"
  have "length nonce = 12" using assms(2) n by (metis fst_conv)
  then obtain encrypted where e: "encrypt_post_data (net_gcm N) nonce ?key (dump_json post) = Inr encrypted"
    using post_data_sealed [OF assms(1) call_key_laws] by blast
  define params where "params = build_params api version request_id encrypted session extra_params time (g\<lparr>gw_world := w3\<rparr>)"
  obtain out w4 where o: "net_post N (gw_url g) params w3 = (out, w4)" by (cases "net_post N (gw_url g) params w3")
  have "out = HttpText raw"
    using assms(3) o build_params_api [OF assms(4)] unfolding answers_def params_def by (metis fst_conv)
  then have "fst (call N api version post session extra_params g) = unwrap (net_gcm N) api ?key raw"
    using e by (simp add: call_def bind_def from_world_def r n t lift_result_def Let_def post_form_def
        call_key_def [symmetric] params_def [symmetric] o)
  then show ?thesis by blast
qed

lemma refused_call:
  assumes "gcm_laws (net_gcm N)" "\<forall>w. length (fst (net_nonce N w)) = 12" "answers N api (refusal code)" "code \<noteq> []"
  shows "fst (call N api version post session None g) = Inl (GatewayError api code ''request rejected'')"
  using answered_call [OF assms(1-3), of None version post session g] by (auto simp: unwrap_refusal [OF assms(4)])

lemma refused_probe:
  assumes "gcm_laws (net_gcm N)" "\<forall>w. length (fst (net_nonce N w)) = 12" "answers N RTC_CONFIG_API (refusal code)" "code \<noteq> []"
  shows "fst (probe N session d g) = Inr None"
  using refused_call [OF assms, of "''1.0''" "JObj [(''devId'', JStr (dev_id d))]" "Some session" g]
  by (auto simp: probe_def catching_def bind_def fetch_stream_config_def call_object_def pass_def split: prod.splits sum.splits)

lemma refused_discovery:
  assumes "gcm_laws (net_gcm N)" "\<forall>w. length (fst (net_nonce N w)) = 12" "answers N RTC_CONFIG_API (refusal code)" "code \<noteq> []"
  shows "fst (discover_loop N session ds cameras g) = Inr cameras"
proof (induction ds arbitrary: g)
  case Nil
  then show ?case by (simp add: pass_def)
next
  case (Cons d ds)
  obtain g' where "probe N session d g = (Inr None, g')"
    using refused_probe [OF assms, of session d g] by (cases "probe N session d g") auto
  then show ?case using Cons by (simp add: bind_Inr)
qed

section \<open>Properties\<close>

text \<open>
  C8: Every call posts a form the gateway can verify and read: recomputing the signature over the
  received form, with the body replaced by its reordered digest, gives the signature it carries,
  its body decrypts under the key derived from its own request id to the JSON of the call, and
  what the call returns is what the answer to that form means under the same key.
\<close>

theorem call_posts_verifiable_request:
  assumes "gcm_laws (net_gcm N)" "\<forall>w. length (fst (net_nonce N w)) = 12" "harmless_extra extra_params"
  shows "\<exists>params w. param params ''sign'' = received_signature (gw_composite_key g) params \<and>
    decrypt_post_data (net_gcm N) (call_key (param params ''requestId'') session g) (param params ''postData'') = Inr (dump_json post) \<and>
    call N api version post session extra_params g =
      (call_outcome (net_gcm N) api (call_key (param params ''requestId'') session g) (fst (net_post N (gw_url g) params w)),
       g\<lparr>gw_session := True, gw_world := snd (net_post N (gw_url g) params w)\<rparr>)"
  by (rule call_eq [OF assms])

text \<open>A network whose world counts the requests, and which refuses configurations.\<close>

definition sample_network :: "nat network" where
  "sample_network =
     \<lparr>net_post = (\<lambda>url params n.
        (if map_of params ''a'' = Some RTC_CONFIG_API then HttpText (refusal ''USER_SESSION_INVALID'')
         else if map_of params ''a'' = Some HOME_LIST_API
         then HttpText (dumps (JObj [(''result'', JList [JObj [(''gid'', JInt 7)]])]))
         else HttpText (dumps (JObj [(''result'', JList [JObj [(''devId'', JStr ''d''), (''localKey'', JStr ''k'')]])])), n + 1)),
      net_uuid = (\<lambda>n. (''id'', n)), net_nonce = (\<lambda>n. (replicate 12 0, n)), net_time = (\<lambda>n. (n, n)),
      net_gcm = clear_gcm, net_rsa = (\<lambda>e m b n. (Inr b, n))\<rparr>"

definition sample_gateway :: "nat gateway" where
  "sample_gateway = new_gateway DEFAULT_REGION DEFAULT_DEVICE_FINGERPRINT False COMPOSITE_KEY 0"

definition sample_account :: account_session where
  "sample_account = \<lparr>acc_sid = ''s'', acc_ecode = ''e'', acc_uid = ''u'', acc_device_fingerprint = ''f''\<rparr>"

lemma sample_network_laws:
  "gcm_laws (net_gcm sample_network)" "\<forall>w. length (fst (net_nonce sample_network w)) = 12"
  by (simp_all add: sample_network_def clear_gcm_laws)

lemma call_posts_verifiable_request_witness:
  "\<exists>params w. param params ''sign'' = received_signature (gw_composite_key sample_gateway) params \<and>
    decrypt_post_data clear_gcm (call_key (param params ''requestId'') (Some sample_account) sample_gateway)
      (param params ''postData'') = Inr (dump_json (JObj [])) \<and>
    call sample_network HOME_LIST_API ''2.1'' (JObj []) (Some sample_account) None sample_gateway =
      (call_outcome clear_gcm HOME_LIST_API (call_key (param params ''requestId'') (Some sample_account) sample_gateway)
         (fst (net_post sample_network (gw_url sample_gateway) params w)),
       sample_gateway\<lparr>gw_session := True, gw_world := w + 1\<rparr>)"
proof -
  have "snd (net_post sample_network url params w) = w + 1" "net_gcm sample_network = clear_gcm" for url params w
    by (simp_all add: sample_network_def)
  then show ?thesis
    using call_posts_verifiable_request [OF sample_network_laws, of None sample_gateway "Some sample_account" "JObj []" HOME_LIST_API "''2.1''"]
    by (simp add: harmless_extra_def)
qed

text \<open>
  C28: An answer the gateway seals under the request's body key is read for what it says: its
  result when it has one and reports no error, the gateway's refusal with its code and message
  when it does, and a protocol error when there is nothing in it.
\<close>

theorem sealed_answer_read:
  assumes "gcm_laws G" "ascii key" "length key = 16" "length nonce = 12" "wf_json (JObj answer)"
  shows "\<exists>s. encrypt_post_data G nonce key (dump_json (JObj answer)) = Inr s \<and>
    unwrap G api key (sealed_envelope s) = answer_result api answer"
  using post_data_sealed [OF assms(1-4), of "dump_json (JObj answer)"] unwrap_sealed [OF assms] by blast

lemma sealed_answer_read_witness:
  "\<exists>s. encrypt_post_data clear_gcm (replicate 12 1) (replicate 16 (CHR ''k''))
       (dump_json (JObj [(''result'', JStr ''x''), (''success'', JBool True)])) = Inr s \<and>
    unwrap clear_gcm ''api'' (replicate 16 (CHR ''k'')) (sealed_envelope s) = Inr (JStr ''x'')"
  using sealed_answer_read [OF clear_gcm_laws, of "replicate 16 (CHR ''k'')" "replicate 12 1"
      "[(''result'', JStr ''x''), (''success'', JBool True)]" "''api''"]
  by (simp add: ascii_def list_all_iff answer_result_def optional_str_def)

text \<open>
  A device list, whatever the gateway answers, names every device once across all homes and
  never a device without an id, a local key or a name, and the cameras discovered are among the
  devices listed.
\<close>

theorem devices_listed_once:
  "(case fst (list_devices N session g) of Inl e \<Rightarrow> True | Inr ds \<Rightarrow> listed ds) \<and>
   (case fst (discover_cameras N session g) of
      Inl e \<Rightarrow> True
    | Inr cs \<Rightarrow> (\<exists>ds. fst (list_devices N session g) = Inr ds \<and> set cs \<subseteq> set ds))"
proof -
  have l: "listed []" by (simp add: listed_def)
  have "listed ds" if r: "fst (list_devices N session g) = Inr ds" for ds
  proof -
    obtain homes g' where "fst (homes_loop N session homes [] g') = Inr ds"
      using r by (auto simp: list_devices_def bind_def split: prod.splits sum.splits)
    then show ?thesis by (rule homes_loop_listed [OF l])
  qed
  moreover have "\<exists>ds. fst (list_devices N session g) = Inr ds \<and> set cs \<subseteq> set ds"
    if r: "fst (discover_cameras N session g) = Inr cs" for cs
  proof -
    obtain ds g' where "list_devices N session g = (Inr ds, g')" "fst (discover_loop N session ds [] g') = Inr cs"
      using r by (auto simp: discover_cameras_def bind_def split: prod.splits sum.splits)
    then show ?thesis using discover_loop_subseq [of N session ds "[]" g' cs] by auto
  qed
  ultimately show ?thesis by (simp split: sum.split)
qed

end
