(* ===== verification/Client.thy ===== *)
theory Client
  imports Gateway
begin

text \<open>
  Models \<^verbatim>\<open>src/tuya_ipc_p2p_sdk/client.py\<close> and the refusal codes of
  \<^verbatim>\<open>exceptions/tuya_ipc_p2p_gateway_error.py\<close>: one account's login, renewed when the
  gateway says it has expired. Each operation here runs alone;
  the theory Client_Tasks has the tasks that share the client and its login lock.
\<close>

section \<open>Expiry\<close>

definition SESSION_EXPIRED_CODES :: "string list" where
  "SESSION_EXPIRED_CODES = [''USER_SESSION_INVALID'', ''SIGN_INVALID'', ''TOKEN_INVALID'', ''NOT_EXISTS_SESSION'',
     ''USER_SESSION_HAS_EXPIRED'', ''PERMISSION_DENIED'']"

fun session_expired :: "exn \<Rightarrow> bool" where
  "session_expired (GatewayError api code m) \<longleftrightarrow> code \<in> set SESSION_EXPIRED_CODES"
| "session_expired _ \<longleftrightarrow> False"

section \<open>The client\<close>

record 'w client =
  cl_email :: string
  cl_password :: string
  cl_country_code :: string
  cl_gateway :: "'w gateway"
  cl_account :: "account_session option"

definition new_client :: "string \<Rightarrow> string \<Rightarrow> string \<Rightarrow> string \<Rightarrow> string \<Rightarrow> bool \<Rightarrow> 'w \<Rightarrow> 'w client" where
  "new_client email password country_code region device_fingerprint session w =
     \<lparr>cl_email = email, cl_password = password, cl_country_code = country_code,
      cl_gateway = new_gateway region device_fingerprint session COMPOSITE_KEY w, cl_account = None\<rparr>"

text \<open>A call of the gateway.\<close>

definition via_gateway :: "('w gateway \<Rightarrow> 'a \<times> 'w gateway) \<Rightarrow> 'w client \<Rightarrow> 'a \<times> 'w client" where
  "via_gateway m c = (case m (cl_gateway c) of (r, g) \<Rightarrow> (r, c\<lparr>cl_gateway := g\<rparr>))"

definition client_login :: "'w network \<Rightarrow> 'w client \<Rightarrow> (exn + account_session) \<times> 'w client" where
  "client_login N c =
     bind (via_gateway (login N (cl_email c) (cl_password c) (cl_country_code c)))
       (\<lambda>account c. (Inr account, c\<lparr>cl_account := Some account\<rparr>)) c"

definition account :: "'w network \<Rightarrow> 'w client \<Rightarrow> (exn + account_session) \<times> 'w client" where
  "account N c = (case cl_account c of Some a \<Rightarrow> (Inr a, c) | None \<Rightarrow> client_login N c)"

definition account_uid :: "'w network \<Rightarrow> 'w client \<Rightarrow> (exn + string) \<times> 'w client" where
  "account_uid N = bind (account N) (\<lambda>a. pass (acc_uid a))"

definition client_mqtt_identity :: "'w network \<Rightarrow> 'w client \<Rightarrow> (exn + mqtt_identity) \<times> 'w client" where
  "client_mqtt_identity N = bind (account N) (\<lambda>a c. (Inr (gateway_mqtt_identity a (cl_gateway c)), c))"

definition with_session ::
    "'w network \<Rightarrow> (account_session \<Rightarrow> 'w gateway \<Rightarrow> (exn + 'a) \<times> 'w gateway) \<Rightarrow> 'w client \<Rightarrow> (exn + 'a) \<times> 'w client" where
  "with_session N f =
     bind (account N) (\<lambda>a.
       catching (via_gateway (f a))
         (\<lambda>e. if session_expired e then Some (bind (client_login N) (\<lambda>a'. via_gateway (f a'))) else None))"

definition client_list_devices :: "'w network \<Rightarrow> 'w client \<Rightarrow> (exn + tuya_device list) \<times> 'w client" where
  "client_list_devices N = with_session N (list_devices N)"

definition client_discover_cameras :: "'w network \<Rightarrow> 'w client \<Rightarrow> (exn + tuya_device list) \<times> 'w client" where
  "client_discover_cameras N = with_session N (discover_cameras N)"

definition client_stream_config :: "'w network \<Rightarrow> string \<Rightarrow> string \<Rightarrow> 'w client \<Rightarrow> (exn + stream_config) \<times> 'w client" where
  "client_stream_config N device_id local_key =
     bind (account N) (\<lambda>a.
       catching (via_gateway (fetch_stream_config N a device_id local_key))
         (\<lambda>e. if session_expired e
              then Some (bind (client_login N) (\<lambda>a'. via_gateway (fetch_stream_config N a' device_id local_key)))
              else None))"

definition close_client :: "'w client \<Rightarrow> 'w client \<times> bool" where
  "close_client c = (case close_gateway (cl_gateway c) of (g, released) \<Rightarrow> (c\<lparr>cl_gateway := g\<rparr>, released))"

section \<open>Laws\<close>

lemma stream_config_with_session: "client_stream_config N d k = with_session N (\<lambda>a. fetch_stream_config N a d k)"
  by (simp add: client_stream_config_def with_session_def)

lemma account_known: "cl_account c = Some a \<Longrightarrow> account N c = (Inr a, c)"
  by (simp add: account_def)

lemma with_session_known:
  assumes "cl_account c = Some a" "f a (cl_gateway c) = (r, g)"
  shows "with_session N f c =
    (case r of
       Inr x \<Rightarrow> (Inr x, c\<lparr>cl_gateway := g\<rparr>)
     | Inl e \<Rightarrow> if session_expired e then bind (client_login N) (\<lambda>a'. via_gateway (f a')) (c\<lparr>cl_gateway := g\<rparr>)
               else (Inl e, c\<lparr>cl_gateway := g\<rparr>))"
proof -
  have "with_session N f c =
      catching (via_gateway (f a))
        (\<lambda>e. if session_expired e then Some (bind (client_login N) (\<lambda>a'. via_gateway (f a'))) else None) c"
    unfolding with_session_def by (rule bind_Inr) (rule account_known [OF assms(1)])
  then show ?thesis
    by (simp add: catching_def via_gateway_def assms(2) split: sum.split)
qed

lemma client_login_account:
  "client_login N c = (Inr a, c') \<Longrightarrow> cl_account c' = Some a"
  by (auto simp: client_login_def bind_def via_gateway_def split: prod.splits sum.splits)

section \<open>Properties\<close>

text \<open>
  C27: A call the gateway refuses because the session expired is made once more behind a fresh
  login, whatever that second call ends with, and the fresh session is the one kept; any other
  outcome of the first call, refusals included, is final and keeps the session.
\<close>

theorem expired_session_renewed:
  assumes "cl_account c = Some a" "f a (cl_gateway c) = (r, g)"
  shows "case with_session N f c of (r', c') \<Rightarrow>
    (if \<exists>e. r = Inl e \<and> session_expired e
     then (case client_login N (c\<lparr>cl_gateway := g\<rparr>) of
             (Inl e, c'') \<Rightarrow> r' = Inl e \<and> c' = c''
           | (Inr a', c'') \<Rightarrow> r' = fst (f a' (cl_gateway c'')) \<and> cl_account c' = Some a')
     else r' = r \<and> cl_account c' = Some a)"
  using assms(1) client_login_account [of N "c\<lparr>cl_gateway := g\<rparr>"] with_session_known [of c a f r g, OF assms]
  by (auto simp: bind_def via_gateway_def split: sum.split prod.split)

definition sample_client :: "nat client" where
  "sample_client = (new_client ''m'' ''p'' ''1'' DEFAULT_REGION DEFAULT_DEVICE_FINGERPRINT False 0)\<lparr>cl_account := Some sample_account\<rparr>"

lemma expired_session_renewed_witness:
  "case with_session sample_network (\<lambda>a g. (Inl (GatewayError ''x'' ''SIGN_INVALID'' ''m'') :: exn + nat, g)) sample_client of (r', c') \<Rightarrow>
    (case client_login sample_network sample_client of
             (Inl e, c'') \<Rightarrow> r' = Inl e \<and> c' = c''
           | (Inr a', c'') \<Rightarrow> r' = Inl (GatewayError ''x'' ''SIGN_INVALID'' ''m'') \<and> cl_account c' = Some a')"
proof -
  have "session_expired (GatewayError ''x'' ''SIGN_INVALID'' ''m'')" by (simp add: SESSION_EXPIRED_CODES_def)
  then show ?thesis
    using expired_session_renewed [of sample_client sample_account
      "\<lambda>a g. (Inl (GatewayError ''x'' ''SIGN_INVALID'' ''m'') :: exn + nat, g)"
      "Inl (GatewayError ''x'' ''SIGN_INVALID'' ''m'')" "cl_gateway sample_client" sample_network]
    by (simp add: sample_client_def split: prod.splits sum.splits)
qed

text \<open>
  Discovery hides an expired session: when the device list still answers but the gateway then
  refuses every configuration because the session is gone, discovering cameras succeeds with no
  camera at all and without a new login, where asking for one configuration logs in again.
\<close>

theorem discovery_hides_expiry:
  assumes "gcm_laws (net_gcm N)" "\<forall>w. length (fst (net_nonce N w)) = 12"
    and "answers N RTC_CONFIG_API (refusal code)" "code \<in> set SESSION_EXPIRED_CODES"
    and "cl_account c = Some a" "fst (list_devices N a (cl_gateway c)) = Inr ds"
  shows "fst (client_discover_cameras N c) = Inr [] \<and> cl_account (snd (client_discover_cameras N c)) = Some a \<and>
    (\<exists>g. client_stream_config N d k c =
       bind (client_login N) (\<lambda>a'. via_gateway (fetch_stream_config N a' d k)) (c\<lparr>cl_gateway := g\<rparr>))"
proof -
  have code: "code \<noteq> []" using assms(4) by (auto simp: SESSION_EXPIRED_CODES_def)
  obtain g1 where l: "list_devices N a (cl_gateway c) = (Inr ds, g1)"
    using assms(6) by (cases "list_devices N a (cl_gateway c)") simp
  obtain g2 where "discover_loop N a ds [] g1 = (Inr [], g2)"
    using refused_discovery [OF assms(1-3) code, of a ds "[]" g1] by (cases "discover_loop N a ds [] g1") auto
  then have "discover_cameras N a (cl_gateway c) = (Inr [], g2)"
    unfolding discover_cameras_def by (simp add: bind_def l)
  from with_session_known [of c a "discover_cameras N", OF assms(5) this, of N]
  have d: "client_discover_cameras N c = (Inr [], c\<lparr>cl_gateway := g2\<rparr>)"
    by (simp add: client_discover_cameras_def)
  have "fst (fetch_stream_config N a d k (cl_gateway c)) = Inl (GatewayError RTC_CONFIG_API code ''request rejected'')"
    using refused_call [OF assms(1-3) code, of "''1.0''" "JObj [(''devId'', JStr d)]" "Some a" "cl_gateway c"]
    by (auto simp: fetch_stream_config_def call_object_def bind_def split: prod.splits sum.splits)
  then obtain g where "fetch_stream_config N a d k (cl_gateway c) = (Inl (GatewayError RTC_CONFIG_API code ''request rejected''), g)"
    by (cases "fetch_stream_config N a d k (cl_gateway c)") simp
  from with_session_known [of c a "\<lambda>a. fetch_stream_config N a d k", OF assms(5) this, of N] assms(4)
  have "client_stream_config N d k c =
       bind (client_login N) (\<lambda>a'. via_gateway (fetch_stream_config N a' d k)) (c\<lparr>cl_gateway := g\<rparr>)"
    by (simp add: stream_config_with_session)
  with d assms(5) show ?thesis by auto
qed

lemma unwrap_plain:
  assumes "wf_json v" "v \<noteq> JNull" "\<forall>s. v \<noteq> JStr s"
  shows "unwrap G api key (dumps (JObj [(''result'', v)])) = Inr v"
proof -
  have "parse_json_object_str (dumps (JObj [(''result'', v)])) = Inr [(''result'', v)]"
    by (rule parse_str_dumps) (simp add: assms(1))
  then show ?thesis using assms(2,3) by (cases v) (simp_all add: unwrap_def optional_str_def del: dumps.simps)
qed

definition sample_devices :: "tuya_device list" where
  "sample_devices = [\<lparr>dev_id = ''d'', dev_name = ''d'', dev_category = [], dev_local_key = ''k'',
     dev_product_id = None, dev_online = True\<rparr>]"

lemma sample_list: "fst (list_devices sample_network a g) = Inr sample_devices"
proof -
  let ?homes = "JList [JObj [(''gid'', JInt 7)]]" and ?devs = "JList [JObj [(''devId'', JStr ''d''), (''localKey'', JStr ''k'')]]"
  have n: "answers sample_network HOME_LIST_API (dumps (JObj [(''result'', ?homes)]))"
    "answers sample_network DEVICE_LIST_API (dumps (JObj [(''result'', ?devs)]))"
    by (auto simp: answers_def sample_network_def HOME_LIST_API_def DEVICE_LIST_API_def RTC_CONFIG_API_def simp del: dumps.simps)
  have u: "unwrap G api key (dumps (JObj [(''result'', ?homes)])) = Inr ?homes"
    "unwrap G api key (dumps (JObj [(''result'', ?devs)])) = Inr ?devs" for G api key
    by (rule unwrap_plain; simp add: int_in_range_def dec_digits.simps [of 7] MAX_INT_DIGITS_def)+
  have h: "fst (call_object_list sample_network HOME_LIST_API v p a e g) = Inr [[(''gid'', JInt 7)]]"
    if "\<forall>x. e = Some x \<longrightarrow> ''a'' \<notin> set (map fst x)" for v p e g
    using answered_call [OF sample_network_laws n(1) that, of v p "Some a" g]
    by (auto simp: u call_object_list_def bind_def pass_def map_filter_simps split: prod.splits sum.splits simp del: dumps.simps)
  have d: "fst (call_object_list sample_network DEVICE_LIST_API v p a e g) = Inr [[(''devId'', JStr ''d''), (''localKey'', JStr ''k'')]]"
    if "\<forall>x. e = Some x \<longrightarrow> ''a'' \<notin> set (map fst x)" for v p e g
    using answered_call [OF sample_network_laws n(2) that, of v p "Some a" g]
    by (auto simp: u call_object_list_def bind_def pass_def map_filter_simps split: prod.splits sum.splits simp del: dumps.simps)
  obtain g1 where g1: "call_object_list sample_network HOME_LIST_API ''2.1'' (JObj []) a None g = (Inr [[(''gid'', JInt 7)]], g1)"
    using h [of None "''2.1''" "JObj []" g] by (cases "call_object_list sample_network HOME_LIST_API ''2.1'' (JObj []) a None g") auto
  let ?e = "Some [(''gid'', dump_int 7)]"
  obtain g2 where g2: "call_object_list sample_network DEVICE_LIST_API ''1.0'' (JObj []) a ?e g1 =
      (Inr [[(''devId'', JStr ''d''), (''localKey'', JStr ''k'')]], g2)"
    using d [of ?e "''1.0''" "JObj []" g1]
    by (cases "call_object_list sample_network DEVICE_LIST_API ''1.0'' (JObj []) a ?e g1") auto
  show ?thesis
    unfolding list_devices_def
    by (simp add: bind_def g1 g2 pass_def parse_device_def optional_str_def sample_devices_def del: dump_int.simps)
qed

lemma discovery_hides_expiry_witness:
  "fst (client_discover_cameras sample_network sample_client) = Inr [] \<and>
   cl_account (snd (client_discover_cameras sample_network sample_client)) = Some sample_account"
proof -
  have "answers sample_network RTC_CONFIG_API (refusal ''USER_SESSION_INVALID'')"
    by (simp add: answers_def sample_network_def)
  then show ?thesis
    using discovery_hides_expiry [OF sample_network_laws, of "''USER_SESSION_INVALID''" sample_client sample_account sample_devices]
      sample_list [of sample_account "cl_gateway sample_client"]
    by (simp add: sample_client_def SESSION_EXPIRED_CODES_def)
qed

end
