(* ===== verification/Camera_Stream.thy ===== *)
theory Camera_Stream
  imports Stream_Ends Motion_Detector Client
begin

text \<open>
  Models \<^verbatim>\<open>src/tuya_ipc_p2p_sdk/camera_stream.py\<close>: one camera's supervised session and the
  frames it produces. The record \<open>camera\<close> holds the attributes of \<^verbatim>\<open>CameraStream\<close> with the
  client, the motion detector and the running session in their own models; times and waits are
  reals.

  The two tasks are values: a supervisor is the await it stands at (\<open>phase\<close>) with its local
  \<^verbatim>\<open>backoff\<close>, and the stall watcher is watching or has ended. \<open>camera_step\<close> takes
  one event at the time the clock shows: a call of the consumer, what the session receives, or the
  turn of a task behind its await. Fetching the configuration, starting a session and closing one
  are a single turn each, with what the network does meanwhile as an argument. A stop reaches the
  supervisor at the await it stands at; one that interrupts a start says how far the start came,
  one that interrupts a fetch leaves the client as it was.

  Subscriber queues are objects the generators keep: \<open>cs_queues\<close> is their store by identity
  and \<open>cs_subscribers\<close> the identities in the set. A listener is its identity; what it does
  when called is not modelled (its exceptions are swallowed), what it sees is the effect
  \<open>Notified\<close>. The effects \<open>Session\<close> and \<open>Ran\<close> record what the session did and the
  outcome of each that ended.
\<close>

section \<open>State\<close>

definition DEFAULT_RETRY_MIN_SECONDS :: real where "DEFAULT_RETRY_MIN_SECONDS = 3"
definition DEFAULT_RETRY_MAX_SECONDS :: real where "DEFAULT_RETRY_MAX_SECONDS = 60"
definition DEFAULT_SESSION_COOLDOWN_SECONDS :: real where "DEFAULT_SESSION_COOLDOWN_SECONDS = 5"
definition DEFAULT_BUSY_REFUSAL_LIMIT :: int where "DEFAULT_BUSY_REFUSAL_LIMIT = 10"
definition DEFAULT_REFUSED_RETRY_SECONDS :: real where "DEFAULT_REFUSED_RETRY_SECONDS = 900"
definition DEFAULT_STALL_TIMEOUT_SECONDS :: real where "DEFAULT_STALL_TIMEOUT_SECONDS = 60"
definition SUBSCRIBER_QUEUE_SIZE :: nat where "SUBSCRIBER_QUEUE_SIZE = 2"

datatype phase =
    Fetching
  | Starting
  | Streaming
  | Waiting
  | Ended "exn option"

record supervisor =
  sv_phase :: phase
  sv_backoff :: real

datatype watcher = Watching | WatcherEnded

record 'w camera =
  cs_client :: "'w client"
  cs_device_id :: string
  cs_local_key :: string
  cs_stall_timeout :: real
  cs_retry_min :: real
  cs_retry_max :: real
  cs_session_cooldown :: real
  cs_busy_refusal_limit :: int
  cs_refused_retry_seconds :: real
  cs_busy_refusals :: int
  cs_motion :: detector
  cs_subscribers :: "nat list"
  cs_queues :: "nat \<Rightarrow> bytes list"
  cs_state_listeners :: "nat list"
  cs_last_frame :: "bytes option"
  cs_last_frame_at :: real
  cs_session :: "stream option"
  cs_supervisor :: "supervisor option"
  cs_stall :: "watcher option"
  cs_first_frame :: bool
  cs_stop_requested :: bool

text \<open>The knobs of the constructor, with their defaults.\<close>

record knobs =
  kn_motion_sensitivity :: real
  kn_stall_timeout :: real
  kn_retry_min :: real
  kn_retry_max :: real
  kn_session_cooldown :: real
  kn_busy_refusal_limit :: int
  kn_refused_retry_seconds :: real

definition default_knobs :: knobs where
  "default_knobs =
     \<lparr>kn_motion_sensitivity = DEFAULT_SENSITIVITY, kn_stall_timeout = DEFAULT_STALL_TIMEOUT_SECONDS,
      kn_retry_min = DEFAULT_RETRY_MIN_SECONDS, kn_retry_max = DEFAULT_RETRY_MAX_SECONDS,
      kn_session_cooldown = DEFAULT_SESSION_COOLDOWN_SECONDS,
      kn_busy_refusal_limit = DEFAULT_BUSY_REFUSAL_LIMIT,
      kn_refused_retry_seconds = DEFAULT_REFUSED_RETRY_SECONDS\<rparr>"

definition new_camera :: "'w client \<Rightarrow> string \<Rightarrow> string \<Rightarrow> knobs \<Rightarrow> 'w camera" where
  "new_camera client device_id local_key k =
     \<lparr>cs_client = client, cs_device_id = device_id, cs_local_key = local_key,
      cs_stall_timeout = kn_stall_timeout k, cs_retry_min = kn_retry_min k, cs_retry_max = kn_retry_max k,
      cs_session_cooldown = kn_session_cooldown k, cs_busy_refusal_limit = kn_busy_refusal_limit k,
      cs_refused_retry_seconds = kn_refused_retry_seconds k, cs_busy_refusals = 0,
      cs_motion = new_detector (kn_motion_sensitivity k) DEFAULT_MOTION_HOLD_SECONDS,
      cs_subscribers = [], cs_queues = (\<lambda>_. []), cs_state_listeners = [], cs_last_frame = None,
      cs_last_frame_at = 0, cs_session = None, cs_supervisor = None, cs_stall = None,
      cs_first_frame = False, cs_stop_requested = False\<rparr>"

text \<open>\<^verbatim>\<open>create_camera_stream\<close> of the client.\<close>

definition create_camera_stream :: "string \<Rightarrow> string \<Rightarrow> knobs \<Rightarrow> 'w client \<Rightarrow> 'w camera" where
  "create_camera_stream device_id local_key k client = new_camera client device_id local_key k"

section \<open>Properties of the state\<close>

definition running :: "'w camera \<Rightarrow> bool" where
  "running c \<longleftrightarrow> cs_supervisor c \<noteq> None"

definition streaming :: "real \<Rightarrow> 'w camera \<Rightarrow> bool" where
  "streaming now c \<longleftrightarrow> 0 < cs_last_frame_at c \<and> now - cs_last_frame_at c < cs_stall_timeout c"

definition needs_power_cycle :: "'w camera \<Rightarrow> bool" where
  "needs_power_cycle c \<longleftrightarrow> cs_busy_refusal_limit c \<le> cs_busy_refusals c"

definition motion_detected :: "'w camera \<Rightarrow> bool" where
  "motion_detected c \<longleftrightarrow> md_detected (cs_motion c)"

definition viewer_count :: "'w camera \<Rightarrow> nat" where
  "viewer_count c = length (cs_subscribers c)"

section \<open>Listeners\<close>

text \<open>What a listener reads when it is called.\<close>

record display =
  dp_streaming :: bool
  dp_motion :: bool
  dp_needs_power_cycle :: bool

definition displayed :: "real \<Rightarrow> 'w camera \<Rightarrow> display" where
  "displayed now c =
     \<lparr>dp_streaming = streaming now c, dp_motion = motion_detected c, dp_needs_power_cycle = needs_power_cycle c\<rparr>"

datatype camera_effect =
    Notified nat display
  | Yielded nat bytes
  | Session stream_effect
  | Ran "exn + bool"
  | Retry real
  | StopFailed exn

definition notify_state :: "real \<Rightarrow> 'w camera \<Rightarrow> camera_effect list" where
  "notify_state now c = map (\<lambda>l. Notified l (displayed now c)) (cs_state_listeners c)"

definition add_state_listener :: "nat \<Rightarrow> 'w camera \<Rightarrow> 'w camera" where
  "add_state_listener l c = c\<lparr>cs_state_listeners := cs_state_listeners c @ [l]\<rparr>"

definition remove_state_listener :: "nat \<Rightarrow> 'w camera \<Rightarrow> 'w camera" where
  "remove_state_listener l c = c\<lparr>cs_state_listeners := remove1 l (cs_state_listeners c)\<rparr>"

text \<open>The detector after one of its operations, with \<^verbatim>\<open>_on_motion\<close> called on each change.\<close>

definition with_motion :: "real \<Rightarrow> (detector \<Rightarrow> detector \<times> bool list) \<Rightarrow> 'w camera \<Rightarrow> 'w camera \<times> camera_effect list" where
  "with_motion now f c =
     (let r = f (cs_motion c); c1 = c\<lparr>cs_motion := fst r\<rparr>
      in (c1, concat (map (\<lambda>_. notify_state now c1) (snd r))))"

text \<open>The setter of \<^verbatim>\<open>local_key\<close>: the next session fetches its configuration with it.\<close>

definition set_local_key :: "string \<Rightarrow> 'w camera \<Rightarrow> 'w camera" where
  [simp]: "set_local_key key c = c\<lparr>cs_local_key := key\<rparr>"

definition set_motion_sensitivity :: "real \<Rightarrow> real \<Rightarrow> 'w camera \<Rightarrow> 'w camera \<times> camera_effect list" where
  "set_motion_sensitivity now sensitivity c =
     (case with_motion now reset_detector c of
        (c1, es) \<Rightarrow> (c1\<lparr>cs_motion := new_detector sensitivity DEFAULT_MOTION_HOLD_SECONDS\<rparr>, es))"

section \<open>Frames\<close>

text \<open>\<^verbatim>\<open>put_nowait\<close> behind a \<^verbatim>\<open>get_nowait\<close> on a full queue.\<close>

definition offer_frame :: "bytes \<Rightarrow> bytes list \<Rightarrow> bytes list" where
  "offer_frame frame queue =
     (let q = (if SUBSCRIBER_QUEUE_SIZE \<le> length queue then tl queue else queue)
      in if SUBSCRIBER_QUEUE_SIZE \<le> length q then q else q @ [frame])"

definition on_frame :: "real \<Rightarrow> bytes \<Rightarrow> 'w camera \<Rightarrow> 'w camera \<times> camera_effect list" where
  "on_frame now frame c =
     (let was_streaming = streaming now c;
          c1 = c\<lparr>cs_last_frame := Some frame, cs_last_frame_at := now\<rparr>
      in case with_motion now (sample (int (length frame)) now) c1 of
           (c2, es) \<Rightarrow>
             (let c3 = c2\<lparr>cs_queues := (\<lambda>q. if q \<in> set (cs_subscribers c2) then offer_frame frame (cs_queues c2 q)
                                          else cs_queues c2 q),
                          cs_first_frame := True\<rparr>
              in (c3, es @ (if was_streaming then [] else notify_state now c3))))"

text \<open>What a session does: its frames are published, everything else leaves for the network.\<close>

fun deliver :: "real \<Rightarrow> stream_effect list \<Rightarrow> 'w camera \<Rightarrow> 'w camera \<times> camera_effect list" where
  "deliver now [] c = (c, [])"
| "deliver now (Frame frame # es) c =
     (let r = on_frame now frame c; q = deliver now es (fst r) in (fst q, Session (Frame frame) # snd r @ snd q))"
| "deliver now (e # es) c = (let q = deliver now es c in (fst q, Session e # snd q))"

text \<open>A generator of \<^verbatim>\<open>async_frames\<close> by the identity of its queue: up to its first yield,
  one more frame if there is one, and its end.\<close>

definition subscribe :: "nat \<Rightarrow> 'w camera \<Rightarrow> 'w camera \<times> camera_effect list" where
  "subscribe v c =
     (c\<lparr>cs_subscribers := List.insert v (cs_subscribers c), cs_queues := (cs_queues c)(v := [])\<rparr>,
      case cs_last_frame c of None \<Rightarrow> [] | Some frame \<Rightarrow> [Yielded v frame])"

definition next_frame :: "nat \<Rightarrow> 'w camera \<Rightarrow> 'w camera \<times> camera_effect list" where
  "next_frame v c =
     (case cs_queues c v of
        [] \<Rightarrow> (c, [])
      | frame # queue \<Rightarrow> (c\<lparr>cs_queues := (cs_queues c)(v := queue)\<rparr>, [Yielded v frame]))"

definition unsubscribe :: "nat \<Rightarrow> 'w camera \<Rightarrow> 'w camera" where
  "unsubscribe v c = c\<lparr>cs_subscribers := removeAll v (cs_subscribers c)\<rparr>"

text \<open>\<^verbatim>\<open>async_wait_for_frame\<close>; \<open>meanwhile\<close> is what is handled until the first frame or
  the timeout ends the wait.\<close>

definition wait_for_frame :: "('w camera \<Rightarrow> 'w camera) \<Rightarrow> 'w camera \<Rightarrow> bytes option" where
  "wait_for_frame meanwhile c =
     (if cs_last_frame c \<noteq> None \<or> cs_first_frame c then cs_last_frame c else cs_last_frame (meanwhile c))"

section \<open>Refusals\<close>

definition note_busy_refusal :: "real \<Rightarrow> 'w camera \<Rightarrow> 'w camera \<times> camera_effect list" where
  "note_busy_refusal now c =
     (let c1 = c\<lparr>cs_busy_refusals := cs_busy_refusals c + 1\<rparr>
      in (c1, if cs_busy_refusals c1 \<noteq> cs_busy_refusal_limit c1 then [] else notify_state now c1))"

definition clear_busy_refusals :: "real \<Rightarrow> 'w camera \<Rightarrow> 'w camera \<times> camera_effect list" where
  "clear_busy_refusals now c =
     (let was_stuck = needs_power_cycle c; c1 = c\<lparr>cs_busy_refusals := 0\<rparr>
      in (c1, if was_stuck then notify_state now c1 else []))"

section \<open>The supervisor\<close>

text \<open>What closing a session meets: the arrivals on the relay while its conversations are
  closed, and the time and the outcome of publishing the disconnect.\<close>

type_synonym close_script = "(nat \<Rightarrow> (bytes \<times> nat) list) \<times> int \<times> mqtt_outcome"

text \<open>What a stop meets: how far the start has come that it interrupts, if it interrupts one, and
  what closing the session meets.\<close>

type_synonym stop_script = "start_script \<times> close_script"

definition set_phase :: "phase \<Rightarrow> 'w camera \<Rightarrow> 'w camera" where
  "set_phase p c = c\<lparr>cs_supervisor := map_option (\<lambda>sv. sv\<lparr>sv_phase := p\<rparr>) (cs_supervisor c)\<rparr>"

definition phase_of :: "'w camera \<Rightarrow> phase option" where
  "phase_of c = map_option sv_phase (cs_supervisor c)"

text \<open>The head of the loop.\<close>

definition next_round :: "'w camera \<Rightarrow> 'w camera" where
  "next_round c = set_phase (if cs_stop_requested c then Ended None else Fetching) c"

definition session_wait :: "real \<Rightarrow> 'w camera \<Rightarrow> real" where
  "session_wait backoff c =
     (if needs_power_cycle c then cs_refused_retry_seconds c else backoff + cs_session_cooldown c)"

text \<open>What the outcome of a session says of the run of busy refusals.\<close>

definition note_outcome :: "real \<Rightarrow> exn + bool \<Rightarrow> 'w camera \<Rightarrow> 'w camera \<times> camera_effect list" where
  "note_outcome now result c =
     (case result of
        Inl (DeviceBusyError m) \<Rightarrow> note_busy_refusal now c
      | Inl e \<Rightarrow> clear_busy_refusals now c
      | Inr streamed \<Rightarrow> if streamed then clear_busy_refusals now c else (c, []))"

text \<open>The rest of the loop's body behind \<^verbatim>\<open>_async_run_one_session\<close>, up to the wait.\<close>

definition after_session :: "real \<Rightarrow> exn + bool \<Rightarrow> supervisor \<Rightarrow> 'w camera \<Rightarrow> 'w camera \<times> camera_effect list" where
  "after_session now result sv c =
     (if result = Inl CancelledError
      then (c\<lparr>cs_supervisor := Some (sv\<lparr>sv_phase := Ended (Some CancelledError)\<rparr>)\<rparr>, [])
      else
        let r = note_outcome now result c;
            backoff = (if result = Inr True then cs_retry_min c else sv_backoff sv)
        in ((fst r)\<lparr>cs_supervisor := Some (sv\<lparr>sv_phase := Waiting, sv_backoff := backoff\<rparr>)\<rparr>,
            Ran result # snd r @ (if cs_stop_requested c then [] else [Retry (session_wait backoff (fst r))])))"

text \<open>The end of the wait, by the clock or because a stop was requested.\<close>

definition retry_due :: "supervisor \<Rightarrow> 'w camera \<Rightarrow> 'w camera" where
  "retry_due sv c =
     next_round (c\<lparr>cs_supervisor := Some (sv\<lparr>sv_backoff := min (sv_backoff sv * 2) (cs_retry_max c)\<rparr>)\<rparr>)"

text \<open>Fetching what a session is built from: the configuration, the broker identity and the uid.\<close>

definition fetch_session :: "'w network \<Rightarrow> 'w camera \<Rightarrow> (exn + stream) \<times> 'w client" where
  "fetch_session N c =
     bind (client_stream_config N (cs_device_id c) (cs_local_key c)) (\<lambda>config.
     bind (client_mqtt_identity N) (\<lambda>identity.
     bind (account_uid N) (\<lambda>uid. pass (new_stream config uid)))) (cs_client c)"

definition run_fetch :: "'w network \<Rightarrow> real \<Rightarrow> supervisor \<Rightarrow> 'w camera \<Rightarrow> 'w camera \<times> camera_effect list" where
  "run_fetch N now sv c =
     (case fetch_session N c of
        (Inl e, client) \<Rightarrow> after_session now (Inl e) sv (c\<lparr>cs_client := client\<rparr>)
      | (Inr session, client) \<Rightarrow> (set_phase Starting (c\<lparr>cs_client := client, cs_session := Some session\<rparr>), []))"

text \<open>The \<^verbatim>\<open>finally\<close> of \<^verbatim>\<open>_async_run_one_session\<close>: an error of closing the session
  replaces its result.\<close>

definition clear_session :: "real \<Rightarrow> 'w camera \<Rightarrow> 'w camera \<times> camera_effect list" where
  "clear_session now c =
     (case with_motion now reset_detector
             (c\<lparr>cs_session := None, cs_last_frame_at := 0, cs_first_frame := False\<rparr>) of
        (c1, es) \<Rightarrow> (c1, es @ notify_state now c1))"

definition end_session ::
    "cipher \<Rightarrow> close_script \<Rightarrow> real \<Rightarrow> stream \<Rightarrow> exn + bool \<Rightarrow> supervisor \<Rightarrow> 'w camera \<Rightarrow> 'w camera \<times> camera_effect list" where
  "end_session A script now session result sv c =
     (case clear_session now c of
        (c1, es) \<Rightarrow>
          (case close_stream A (fst script) (snd script) session of
             (_, fs, closing) \<Rightarrow>
               (case deliver now fs c1 of
                  (c2, gs) \<Rightarrow>
                    (case after_session now (case closing of Inl e \<Rightarrow> Inl e | Inr _ \<Rightarrow> result) sv c2 of
                       (c3, hs) \<Rightarrow> (c3, es @ gs @ hs)))))"

definition run_start ::
    "cipher \<Rightarrow> start_script \<Rightarrow> close_script \<Rightarrow> real \<Rightarrow> stream \<Rightarrow> supervisor \<Rightarrow> 'w camera \<Rightarrow> 'w camera \<times> camera_effect list" where
  "run_start A x script now session sv c =
     (case start A x session of
        (s1, es, result) \<Rightarrow>
          (case deliver now es (c\<lparr>cs_session := Some s1\<rparr>) of
             (c1, fs) \<Rightarrow>
               (case result of
                  Inr _ \<Rightarrow> (let c2 = set_phase Streaming c1 in (c2, fs @ notify_state now c2))
                | Inl e \<Rightarrow> (case end_session A script now s1 (Inl e) sv c1 of (c2, gs) \<Rightarrow> (c2, fs @ gs)))))"

definition session_over ::
    "cipher \<Rightarrow> close_script \<Rightarrow> real \<Rightarrow> stream \<Rightarrow> supervisor \<Rightarrow> 'w camera \<Rightarrow> 'w camera \<times> camera_effect list" where
  "session_over A script now session sv c =
     (case wait_closed session of
        None \<Rightarrow> (c, [])
      | Some reason \<Rightarrow> end_session A script now session (Inr (0 < ss_frames session)) sv c)"

text \<open>A start that is cancelled at one of its awaits: the one at which \<open>x\<close> lets it fail. A start
  that comes to its end is cancelled at the wait for the end of the session.\<close>

definition interrupt_start ::
    "cipher \<Rightarrow> start_script \<Rightarrow> close_script \<Rightarrow> real \<Rightarrow> stream \<Rightarrow> supervisor \<Rightarrow> 'w camera \<Rightarrow> 'w camera \<times> camera_effect list" where
  "interrupt_start A x script now session sv c =
     (case start A x session of
        (s1, es, result) \<Rightarrow>
          (case deliver now es (c\<lparr>cs_session := Some s1\<rparr>) of
             (c1, fs) \<Rightarrow>
               (case end_session A script now s1 (Inl CancelledError) sv c1 of
                  (c2, gs) \<Rightarrow> (c2, fs @ (if result = Inr () then notify_state now c1 else []) @ gs))))"

text \<open>A cancellation, raised at the await the supervisor stands at. Where closing the session
  replaces it by another error, the loop goes on to find the stop requested.\<close>

definition settle_stopped :: "'w camera \<Rightarrow> 'w camera" where
  "settle_stopped c =
     (case cs_supervisor c of
        Some sv \<Rightarrow> if sv_phase sv = Waiting then retry_due sv c else c
      | None \<Rightarrow> c)"

definition cancel_supervisor ::
    "cipher \<Rightarrow> stop_script \<Rightarrow> real \<Rightarrow> supervisor \<Rightarrow> 'w camera \<Rightarrow> 'w camera \<times> camera_effect list" where
  "cancel_supervisor A script now sv c =
     (case (sv_phase sv, cs_session c) of
        (Ended e, _) \<Rightarrow> (c, [])
      | (Starting, Some session) \<Rightarrow>
          (case interrupt_start A (fst script) (snd script) now session sv c of (c1, es) \<Rightarrow> (settle_stopped c1, es))
      | (Streaming, Some session) \<Rightarrow>
          (case end_session A (snd script) now session (Inl CancelledError) sv c of (c1, es) \<Rightarrow> (settle_stopped c1, es))
      | _ \<Rightarrow> (set_phase (Ended (Some CancelledError)) c, []))"

section \<open>Start, stop and stalls\<close>

definition start_camera :: "'w camera \<Rightarrow> 'w camera" where
  "start_camera c =
     (if running c then c
      else next_round (c\<lparr>cs_stop_requested := False,
                         cs_supervisor := Some \<lparr>sv_phase = Fetching, sv_backoff = cs_retry_min c\<rparr>,
                         cs_stall := Some Watching\<rparr>))"

text \<open>\<^verbatim>\<open>async_stop\<close> behind the end of both tasks.\<close>

definition release_camera :: "cipher \<Rightarrow> close_script \<Rightarrow> real \<Rightarrow> 'w camera \<Rightarrow> 'w camera \<times> camera_effect list" where
  "release_camera A script now c =
     (let c0 = c\<lparr>cs_supervisor := None, cs_stall := None, cs_session := None\<rparr>;
          q = (case cs_session c of
                 None \<Rightarrow> ((c0, []), Inr ())
               | Some session \<Rightarrow>
                   (case close_stream A (fst script) (snd script) session of
                      (_, es, closing) \<Rightarrow> (deliver now es c0, closing)))
      in case q of
           ((c1, es), Inl e) \<Rightarrow> (c1, es @ [StopFailed e])
         | ((c1, es), Inr _) \<Rightarrow>
             (case with_motion now reset_detector (c1\<lparr>cs_first_frame := False, cs_last_frame_at := 0\<rparr>) of
                (c2, fs) \<Rightarrow> (c2, es @ fs @ notify_state now c2)))"

definition stop_camera :: "cipher \<Rightarrow> stop_script \<Rightarrow> real \<Rightarrow> 'w camera \<Rightarrow> 'w camera \<times> camera_effect list" where
  "stop_camera A script now c =
     (case cs_supervisor c of
        None \<Rightarrow> (c, [])
      | Some sv \<Rightarrow>
          (case cancel_supervisor A script now sv (c\<lparr>cs_stop_requested := True\<rparr>) of
             (c1, es) \<Rightarrow> (case release_camera A (snd script) now c1 of (c2, fs) \<Rightarrow> (c2, es @ fs))))"

fun stop_failed :: "camera_effect \<Rightarrow> bool" where
  "stop_failed (StopFailed e) = True"
| "stop_failed _ = False"

definition close_camera :: "cipher \<Rightarrow> stop_script \<Rightarrow> real \<Rightarrow> 'w camera \<Rightarrow> 'w camera \<times> camera_effect list" where
  "close_camera A script now c =
     (case stop_camera A script now c of
        (c1, es) \<Rightarrow>
          if list_ex stop_failed es then (c1, es)
          else (c1\<lparr>cs_subscribers := [], cs_state_listeners := []\<rparr>, es))"

text \<open>A turn of the stall watcher; a session it closes ends, and an error of closing it ends the
  watcher.\<close>

definition stall_check :: "cipher \<Rightarrow> close_script \<Rightarrow> real \<Rightarrow> 'w camera \<Rightarrow> 'w camera \<times> camera_effect list" where
  "stall_check A script now c =
     (case with_motion now (poll now) c of
        (c1, es) \<Rightarrow>
          (case cs_session c1 of
             None \<Rightarrow> (c1, es)
           | Some session \<Rightarrow>
               if cs_last_frame_at c1 = 0 \<or> now - cs_last_frame_at c1 < cs_stall_timeout c1 then (c1, es)
               else (case close_stream A (fst script) (snd script) session of
                 (s1, fs, closing) \<Rightarrow>
                   (case deliver now fs (c1\<lparr>cs_session := Some s1\<rparr>) of
                      (c2, gs) \<Rightarrow>
                        (case closing of Inl e \<Rightarrow> c2\<lparr>cs_stall := Some WatcherEnded\<rparr> | Inr _ \<Rightarrow> c2, es @ gs)))))"

definition on_stream :: "cipher \<Rightarrow> real \<Rightarrow> stream_event \<Rightarrow> stream \<Rightarrow> 'w camera \<Rightarrow> 'w camera \<times> camera_effect list" where
  "on_stream A now e session c =
     (case stream_step A session e of (s1, es) \<Rightarrow> deliver now es (c\<lparr>cs_session := Some s1\<rparr>))"

section \<open>Steps\<close>

datatype camera_event =
    Start
  | Stop stop_script
  | Close stop_script
  | Fetch
  | Begin start_script close_script
  | OnStream stream_event
  | SessionOver close_script
  | RetryDue
  | StallCheck close_script
  | Subscribe nat
  | NextFrame nat
  | Unsubscribe nat
  | AddListener nat
  | RemoveListener nat
  | SetSensitivity real
  | SetLocalKey string

text \<open>A turn the supervisor is not waiting for does not happen.\<close>

fun camera_step :: "'w network \<Rightarrow> cipher \<Rightarrow> 'w camera \<Rightarrow> camera_event \<times> real \<Rightarrow> 'w camera \<times> camera_effect list" where
  "camera_step N A c (Start, now) = (start_camera c, [])"
| "camera_step N A c (Stop script, now) = stop_camera A script now c"
| "camera_step N A c (Close script, now) = close_camera A script now c"
| "camera_step N A c (Fetch, now) =
     (case cs_supervisor c of
        Some sv \<Rightarrow> if sv_phase sv = Fetching then run_fetch N now sv c else (c, [])
      | None \<Rightarrow> (c, []))"
| "camera_step N A c (Begin x script, now) =
     (case (cs_supervisor c, cs_session c) of
        (Some sv, Some session) \<Rightarrow>
          if sv_phase sv = Starting then run_start A x script now session sv c else (c, [])
      | _ \<Rightarrow> (c, []))"
| "camera_step N A c (OnStream e, now) =
     (case (phase_of c, cs_session c) of
        (Some Streaming, Some session) \<Rightarrow> on_stream A now e session c
      | _ \<Rightarrow> (c, []))"
| "camera_step N A c (SessionOver script, now) =
     (case (cs_supervisor c, cs_session c) of
        (Some sv, Some session) \<Rightarrow>
          if sv_phase sv = Streaming then session_over A script now session sv c else (c, [])
      | _ \<Rightarrow> (c, []))"
| "camera_step N A c (RetryDue, now) =
     (case cs_supervisor c of
        Some sv \<Rightarrow> if sv_phase sv = Waiting then (retry_due sv c, []) else (c, [])
      | None \<Rightarrow> (c, []))"
| "camera_step N A c (StallCheck script, now) =
     (if cs_stall c = Some Watching then stall_check A script now c else (c, []))"
| "camera_step N A c (Subscribe v, now) = subscribe v c"
| "camera_step N A c (NextFrame v, now) = next_frame v c"
| "camera_step N A c (Unsubscribe v, now) = (unsubscribe v c, [])"
| "camera_step N A c (AddListener l, now) = (add_state_listener l c, [])"
| "camera_step N A c (RemoveListener l, now) = (remove_state_listener l c, [])"
| "camera_step N A c (SetSensitivity x, now) = set_motion_sensitivity now x c"
| "camera_step N A c (SetLocalKey key, now) = (set_local_key key c, [])"

end
