(* ===== verification/Camera_Laws.thy ===== *)
theory Camera_Laws
  imports Camera_Stream "HOL-Library.Sublist"
begin

text \<open>
  What every operation of a camera keeps: the attributes it leaves alone, what the listeners rely
  on (\<open>tells\<close>: what they were last shown is what the camera displays), and the invariant
  \<open>camera_inv\<close> with the transducer it gives.
\<close>

named_theorems kept \<open>attributes an operation leaves alone\<close>

section \<open>What is left alone\<close>

lemma with_motion_kept [kept, simp]:
  "cs_supervisor (fst (with_motion now f c)) = cs_supervisor c"
  "cs_stall (fst (with_motion now f c)) = cs_stall c"
  "cs_session (fst (with_motion now f c)) = cs_session c"
  "cs_stop_requested (fst (with_motion now f c)) = cs_stop_requested c"
  "cs_state_listeners (fst (with_motion now f c)) = cs_state_listeners c"
  "cs_subscribers (fst (with_motion now f c)) = cs_subscribers c"
  "cs_queues (fst (with_motion now f c)) = cs_queues c"
  "cs_busy_refusals (fst (with_motion now f c)) = cs_busy_refusals c"
  "cs_busy_refusal_limit (fst (with_motion now f c)) = cs_busy_refusal_limit c"
  "cs_retry_min (fst (with_motion now f c)) = cs_retry_min c"
  "cs_retry_max (fst (with_motion now f c)) = cs_retry_max c"
  "cs_session_cooldown (fst (with_motion now f c)) = cs_session_cooldown c"
  "cs_refused_retry_seconds (fst (with_motion now f c)) = cs_refused_retry_seconds c"
  "cs_stall_timeout (fst (with_motion now f c)) = cs_stall_timeout c"
  "cs_last_frame_at (fst (with_motion now f c)) = cs_last_frame_at c"
  "cs_last_frame (fst (with_motion now f c)) = cs_last_frame c"
  "cs_first_frame (fst (with_motion now f c)) = cs_first_frame c"
  "cs_motion (fst (with_motion now f c)) = fst (f (cs_motion c))"
  by (simp_all add: with_motion_def Let_def)

lemma on_frame_kept [kept, simp]:
  "cs_supervisor (fst (on_frame now f c)) = cs_supervisor c"
  "cs_stall (fst (on_frame now f c)) = cs_stall c"
  "cs_session (fst (on_frame now f c)) = cs_session c"
  "cs_stop_requested (fst (on_frame now f c)) = cs_stop_requested c"
  "cs_state_listeners (fst (on_frame now f c)) = cs_state_listeners c"
  "cs_subscribers (fst (on_frame now f c)) = cs_subscribers c"
  "cs_busy_refusals (fst (on_frame now f c)) = cs_busy_refusals c"
  "cs_busy_refusal_limit (fst (on_frame now f c)) = cs_busy_refusal_limit c"
  "cs_retry_min (fst (on_frame now f c)) = cs_retry_min c"
  "cs_retry_max (fst (on_frame now f c)) = cs_retry_max c"
  "cs_session_cooldown (fst (on_frame now f c)) = cs_session_cooldown c"
  "cs_refused_retry_seconds (fst (on_frame now f c)) = cs_refused_retry_seconds c"
  "cs_stall_timeout (fst (on_frame now f c)) = cs_stall_timeout c"
  "cs_last_frame_at (fst (on_frame now f c)) = now"
  "cs_last_frame (fst (on_frame now f c)) = Some f"
  "cs_first_frame (fst (on_frame now f c))"
  "cs_queues (fst (on_frame now f c)) q =
     (if q \<in> set (cs_subscribers c) then offer_frame f (cs_queues c q) else cs_queues c q)"
  by (simp_all add: on_frame_def Let_def split: prod.split)
    (auto dest!: arg_cong [where f = fst] simp: with_motion_def Let_def)

lemma deliver_kept [kept, simp]:
  "cs_supervisor (fst (deliver now es c)) = cs_supervisor c"
  "cs_stall (fst (deliver now es c)) = cs_stall c"
  "cs_session (fst (deliver now es c)) = cs_session c"
  "cs_stop_requested (fst (deliver now es c)) = cs_stop_requested c"
  "cs_state_listeners (fst (deliver now es c)) = cs_state_listeners c"
  "cs_subscribers (fst (deliver now es c)) = cs_subscribers c"
  "cs_busy_refusals (fst (deliver now es c)) = cs_busy_refusals c"
  "cs_busy_refusal_limit (fst (deliver now es c)) = cs_busy_refusal_limit c"
  "cs_retry_min (fst (deliver now es c)) = cs_retry_min c"
  "cs_retry_max (fst (deliver now es c)) = cs_retry_max c"
  "cs_session_cooldown (fst (deliver now es c)) = cs_session_cooldown c"
  "cs_refused_retry_seconds (fst (deliver now es c)) = cs_refused_retry_seconds c"
  "cs_stall_timeout (fst (deliver now es c)) = cs_stall_timeout c"
  by (induction now es c rule: deliver.induct) (simp_all add: Let_def)

lemma clear_session_kept [kept, simp]:
  "cs_supervisor (fst (clear_session now c)) = cs_supervisor c"
  "cs_stall (fst (clear_session now c)) = cs_stall c"
  "cs_session (fst (clear_session now c)) = None"
  "cs_stop_requested (fst (clear_session now c)) = cs_stop_requested c"
  "cs_state_listeners (fst (clear_session now c)) = cs_state_listeners c"
  "cs_subscribers (fst (clear_session now c)) = cs_subscribers c"
  "cs_queues (fst (clear_session now c)) = cs_queues c"
  "cs_busy_refusals (fst (clear_session now c)) = cs_busy_refusals c"
  "cs_busy_refusal_limit (fst (clear_session now c)) = cs_busy_refusal_limit c"
  "cs_retry_min (fst (clear_session now c)) = cs_retry_min c"
  "cs_retry_max (fst (clear_session now c)) = cs_retry_max c"
  "cs_session_cooldown (fst (clear_session now c)) = cs_session_cooldown c"
  "cs_refused_retry_seconds (fst (clear_session now c)) = cs_refused_retry_seconds c"
  "cs_stall_timeout (fst (clear_session now c)) = cs_stall_timeout c"
  "cs_last_frame_at (fst (clear_session now c)) = 0"
  by (simp_all add: clear_session_def case_prod_beta)

lemma note_outcome_cases:
  "note_outcome now result c \<in> {note_busy_refusal now c, clear_busy_refusals now c, (c, [])}"
  by (simp add: note_outcome_def split: sum.split exn.split)

lemma note_outcome_kept [kept, simp]:
  "cs_stall (fst (note_outcome now r c)) = cs_stall c"
  "cs_session (fst (note_outcome now r c)) = cs_session c"
  "cs_stop_requested (fst (note_outcome now r c)) = cs_stop_requested c"
  "cs_state_listeners (fst (note_outcome now r c)) = cs_state_listeners c"
  "cs_subscribers (fst (note_outcome now r c)) = cs_subscribers c"
  "cs_queues (fst (note_outcome now r c)) = cs_queues c"
  "cs_busy_refusal_limit (fst (note_outcome now r c)) = cs_busy_refusal_limit c"
  "cs_retry_min (fst (note_outcome now r c)) = cs_retry_min c"
  "cs_retry_max (fst (note_outcome now r c)) = cs_retry_max c"
  "cs_session_cooldown (fst (note_outcome now r c)) = cs_session_cooldown c"
  "cs_refused_retry_seconds (fst (note_outcome now r c)) = cs_refused_retry_seconds c"
  "cs_stall_timeout (fst (note_outcome now r c)) = cs_stall_timeout c"
  "cs_last_frame_at (fst (note_outcome now r c)) = cs_last_frame_at c"
  "0 \<le> cs_busy_refusals c \<Longrightarrow> 0 \<le> cs_busy_refusals (fst (note_outcome now r c))"
  using note_outcome_cases [of now r c]
  by (elim insertE emptyE; simp add: note_busy_refusal_def clear_busy_refusals_def Let_def)+

text \<open>What a session that ended leaves.\<close>

lemma after_session_supervisor:
  "cs_supervisor (fst (after_session now r sv c)) =
     Some (sv\<lparr>sv_phase := if r = Inl CancelledError then Ended (Some CancelledError) else Waiting,
             sv_backoff := if r = Inr True then cs_retry_min c else sv_backoff sv\<rparr>)"
  by (simp add: after_session_def Let_def)

lemma after_session_kept [kept, simp]:
  "cs_stall (fst (after_session now r sv c)) = cs_stall c"
  "cs_session (fst (after_session now r sv c)) = cs_session c"
  "cs_stop_requested (fst (after_session now r sv c)) = cs_stop_requested c"
  "cs_state_listeners (fst (after_session now r sv c)) = cs_state_listeners c"
  "cs_subscribers (fst (after_session now r sv c)) = cs_subscribers c"
  "cs_queues (fst (after_session now r sv c)) = cs_queues c"
  "cs_busy_refusal_limit (fst (after_session now r sv c)) = cs_busy_refusal_limit c"
  "cs_retry_min (fst (after_session now r sv c)) = cs_retry_min c"
  "cs_retry_max (fst (after_session now r sv c)) = cs_retry_max c"
  "cs_session_cooldown (fst (after_session now r sv c)) = cs_session_cooldown c"
  "cs_refused_retry_seconds (fst (after_session now r sv c)) = cs_refused_retry_seconds c"
  "cs_stall_timeout (fst (after_session now r sv c)) = cs_stall_timeout c"
  "cs_last_frame_at (fst (after_session now r sv c)) = cs_last_frame_at c"
  "0 \<le> cs_busy_refusals c \<Longrightarrow> 0 \<le> cs_busy_refusals (fst (after_session now r sv c))"
  by (simp_all add: after_session_def Let_def)

text \<open>The operations in their parts.\<close>

lemma end_session_eq:
  "end_session A script now session result sv c =
     (let c1 = clear_session now c; k = close_stream A (fst script) (snd script) session;
          c2 = deliver now (fst (snd k)) (fst c1);
          c3 = after_session now (case snd (snd k) of Inl e \<Rightarrow> Inl e | Inr _ \<Rightarrow> result) sv (fst c2)
      in (fst c3, snd c1 @ snd c2 @ snd c3))"
  by (simp add: end_session_def case_prod_beta Let_def)

lemma run_start_eq:
  "run_start A x script now session sv c =
     (let r = start A x session; c1 = deliver now (fst (snd r)) (c\<lparr>cs_session := Some (fst r)\<rparr>)
      in case snd (snd r) of
           Inr _ \<Rightarrow> (let c2 = set_phase Streaming (fst c1) in (c2, snd c1 @ notify_state now c2))
         | Inl e \<Rightarrow> (let q = end_session A script now (fst r) (Inl e) sv (fst c1) in (fst q, snd c1 @ snd q)))"
  by (simp add: run_start_def case_prod_beta Let_def split: sum.split)

lemma set_phase_kept [simp]:
  "cs_stall (set_phase p c) = cs_stall c" "cs_session (set_phase p c) = cs_session c"
  "cs_stop_requested (set_phase p c) = cs_stop_requested c"
  "cs_state_listeners (set_phase p c) = cs_state_listeners c"
  "cs_subscribers (set_phase p c) = cs_subscribers c" "cs_queues (set_phase p c) = cs_queues c"
  "cs_busy_refusals (set_phase p c) = cs_busy_refusals c"
  "cs_busy_refusal_limit (set_phase p c) = cs_busy_refusal_limit c"
  "cs_retry_min (set_phase p c) = cs_retry_min c" "cs_retry_max (set_phase p c) = cs_retry_max c"
  "cs_session_cooldown (set_phase p c) = cs_session_cooldown c"
  "cs_refused_retry_seconds (set_phase p c) = cs_refused_retry_seconds c"
  "cs_stall_timeout (set_phase p c) = cs_stall_timeout c"
  "cs_last_frame_at (set_phase p c) = cs_last_frame_at c" "cs_motion (set_phase p c) = cs_motion c"
  "cs_supervisor (set_phase p c) = map_option (\<lambda>sv. sv\<lparr>sv_phase := p\<rparr>) (cs_supervisor c)"
  by (simp_all add: set_phase_def)

section \<open>Calls of the listeners\<close>

fun is_notified :: "camera_effect \<Rightarrow> bool" where
  "is_notified (Notified l d) = True"
| "is_notified _ = False"

abbreviation only_notified :: "camera_effect list \<Rightarrow> bool" where
  "only_notified es \<equiv> list_all is_notified es"

lemma only_notified_state [simp]: "only_notified (notify_state now c)"
  by (simp add: notify_state_def list_all_iff)

lemma only_notified_motion [simp]: "only_notified (snd (with_motion now f c))"
  by (auto simp: with_motion_def Let_def notify_state_def list_all_iff)

lemma only_notified_operations [simp]:
  "only_notified (snd (on_frame now f c))" "only_notified (snd (clear_session now c))"
  "only_notified (snd (set_motion_sensitivity now x c))"
  by (simp_all add: on_frame_def clear_session_def set_motion_sensitivity_def Let_def case_prod_beta)

lemma only_notified_outcome [simp]: "only_notified (snd (note_outcome now r c))"
  using note_outcome_cases [of now r c]
  by (elim insertE emptyE) (simp_all add: note_busy_refusal_def clear_busy_refusals_def Let_def)

section \<open>What the listeners are told\<close>

text \<open>The display a listener was shown last, \<open>d\<close> if none of the effects reached it.\<close>

fun last_shown :: "nat \<Rightarrow> display \<Rightarrow> camera_effect list \<Rightarrow> display" where
  "last_shown l d [] = d"
| "last_shown l d (Notified k shown # es) = last_shown l (if k = l then shown else d) es"
| "last_shown l d (_ # es) = last_shown l d es"

lemma last_shown_append [simp]: "last_shown l d (es @ fs) = last_shown l (last_shown l d es) fs"
  by (induction l d es rule: last_shown.induct) simp_all

lemma last_shown_all: "last_shown l d (map (\<lambda>l. Notified l shown) ls) = (if l \<in> set ls then shown else d)"
  by (induction ls arbitrary: d) auto

lemma last_shown_notify [simp]:
  "last_shown l d (notify_state now c) = (if l \<in> set (cs_state_listeners c) then displayed now c else d)"
  by (simp add: notify_state_def last_shown_all)

text \<open>An operation that leaves every listener with the display it ends in.\<close>

definition tells :: "real \<Rightarrow> 'w camera \<Rightarrow> 'w camera \<times> camera_effect list \<Rightarrow> bool" where
  "tells now c r \<longleftrightarrow> cs_state_listeners (fst r) = cs_state_listeners c \<and>
     (\<forall>l \<in> set (cs_state_listeners c). last_shown l (displayed now c) (snd r) = displayed now (fst r))"

lemma tells_notify: "cs_state_listeners c' = cs_state_listeners c \<Longrightarrow> tells now c (c', es @ notify_state now c')"
  by (simp add: tells_def)

lemma tells_seq: "tells now c r \<Longrightarrow> tells now (fst r) q \<Longrightarrow> tells now c (fst q, snd r @ snd q)"
  by (simp add: tells_def)

lemma tells_quiet:
  "cs_state_listeners c' = cs_state_listeners c \<Longrightarrow> displayed now c' = displayed now c \<Longrightarrow> tells now c (c', [])"
  by (simp add: tells_def)

lemma displayed_eqI:
  "cs_last_frame_at c' = cs_last_frame_at c \<Longrightarrow> cs_stall_timeout c' = cs_stall_timeout c \<Longrightarrow>
   md_detected (cs_motion c') = md_detected (cs_motion c) \<Longrightarrow> cs_busy_refusals c' = cs_busy_refusals c \<Longrightarrow>
   cs_busy_refusal_limit c' = cs_busy_refusal_limit c \<Longrightarrow> displayed now c' = displayed now c"
  by (simp add: displayed_def streaming_def motion_detected_def needs_power_cycle_def)

text \<open>A detector operation that reports every change of its state.\<close>

definition reports :: "(detector \<Rightarrow> detector \<times> bool list) \<Rightarrow> bool" where
  "reports f \<longleftrightarrow> (\<forall>d. snd (f d) = [] \<longrightarrow> md_detected (fst (f d)) = md_detected d)"

lemma reports_operations: "reports (poll now)" "reports reset_detector" "reports (sample n now)"
proof -
  show "reports (poll now)" "reports reset_detector"
    by (auto simp: reports_def poll_def reset_detector_def publish_def)
  show "reports (sample n now)"
    unfolding reports_def
  proof (intro allI impI)
    fix d
    assume "snd (sample n now d) = []"
    then show "md_detected (fst (sample n now d)) = md_detected d"
      by (cases d n rule: sample_cases)
        (auto simp: sample_unmeasured sample_warmup sample_over sample_under split: if_splits)
  qed
qed

lemma tells_motion:
  assumes "reports f"
  shows "tells now c (with_motion now f c)"
proof (cases "snd (f (cs_motion c))" rule: rev_cases)
  case Nil
  then have "md_detected (fst (f (cs_motion c))) = md_detected (cs_motion c)"
    using assms by (simp add: reports_def)
  then show ?thesis
    by (auto simp: tells_def with_motion_def Nil Let_def intro!: displayed_eqI)
next
  case (snoc bs b)
  then show ?thesis by (simp add: with_motion_def Let_def tells_notify)
qed

text \<open>A clock that has started and is not behind the last frame.\<close>

definition timely :: "real \<Rightarrow> 'w camera \<Rightarrow> bool" where
  "timely now c \<longleftrightarrow> 0 < now \<and> cs_last_frame_at c \<le> now"

lemma timely_deliver: "timely now c \<Longrightarrow> timely now (fst (deliver now es c))"
  by (induction now es c rule: deliver.induct) (simp_all add: timely_def Let_def)

lemma tells_on_frame:
  assumes "timely now c"
  shows "tells now c (on_frame now f c)"
proof -
  let ?c1 = "c\<lparr>cs_last_frame := Some f, cs_last_frame_at := now\<rparr>"
  let ?m = "with_motion now (sample (int (length f)) now) ?c1"
  have eq: "\<exists>c3. cs_state_listeners c3 = cs_state_listeners c \<and> displayed now c3 = displayed now (fst ?m) \<and>
      on_frame now f c = (c3, snd ?m @ (if streaming now c then [] else notify_state now c3))"
    unfolding on_frame_def Let_def case_prod_beta
    by (intro exI conjI, rule_tac [3] refl) (auto intro!: displayed_eqI)
  have m: "tells now ?c1 ?m" by (rule tells_motion) (rule reports_operations)
  show ?thesis
  proof (cases "streaming now c")
    case True
    then have "displayed now ?c1 = displayed now c"
      using assms by (simp add: displayed_def streaming_def timely_def motion_detected_def needs_power_cycle_def)
    then show ?thesis using eq m True by (auto simp: tells_def)
  next
    case False
    then show ?thesis using eq by (auto simp: tells_notify)
  qed
qed

lemma tells_deliver: "timely now c \<Longrightarrow> tells now c (deliver now es c)"
proof (induction es arbitrary: c)
  case Nil
  then show ?case by (simp add: tells_def)
next
  case (Cons e es)
  show ?case
  proof (cases e)
    case (Frame f)
    have "timely now (fst (on_frame now f c))" using Cons.prems by (simp add: timely_def)
    from tells_seq [OF tells_on_frame [OF Cons.prems] Cons.IH [OF this]]
    show ?thesis by (simp add: Frame Let_def tells_def)
  qed (use Cons.IH [OF Cons.prems] in \<open>simp_all add: Let_def tells_def\<close>)
qed

lemma tells_clear_session: "tells now c (clear_session now c)"
  by (simp add: clear_session_def case_prod_beta tells_notify)

lemma tells_busy: "tells now c (note_busy_refusal now c)"
proof (cases "cs_busy_refusals c + 1 = cs_busy_refusal_limit c")
  case True
  then show ?thesis
    using tells_notify [of "c\<lparr>cs_busy_refusals := cs_busy_refusals c + 1\<rparr>" c now "[]"]
    by (simp add: note_busy_refusal_def Let_def)
next
  case False
  then have "needs_power_cycle (c\<lparr>cs_busy_refusals := cs_busy_refusals c + 1\<rparr>) = needs_power_cycle c"
    by (auto simp: needs_power_cycle_def)
  with False show ?thesis
    by (simp add: note_busy_refusal_def Let_def tells_def displayed_def streaming_def motion_detected_def)
qed

lemma tells_clear_busy:
  assumes "0 \<le> cs_busy_refusals c"
  shows "tells now c (clear_busy_refusals now c)"
proof (cases "needs_power_cycle c")
  case True
  then show ?thesis
    using tells_notify [of "c\<lparr>cs_busy_refusals := 0\<rparr>" c now "[]"] by (simp add: clear_busy_refusals_def Let_def)
next
  case False
  then have "needs_power_cycle (c\<lparr>cs_busy_refusals := 0\<rparr>) = needs_power_cycle c"
    using assms by (auto simp: needs_power_cycle_def)
  with False show ?thesis
    by (simp add: clear_busy_refusals_def Let_def tells_def displayed_def streaming_def motion_detected_def)
qed

lemma tells_supervisor:
  "tells now c r \<Longrightarrow> (\<And>l d. last_shown l d es = d) \<Longrightarrow> (\<And>l d. last_shown l d fs = d) \<Longrightarrow>
   tells now c ((fst r)\<lparr>cs_supervisor := x\<rparr>, es @ snd r @ fs)"
  by (auto simp: tells_def intro!: displayed_eqI)

lemma tells_note_outcome: "0 \<le> cs_busy_refusals c \<Longrightarrow> tells now c (note_outcome now result c)"
  using note_outcome_cases [of now result c]
  by (elim insertE emptyE) (simp_all add: tells_busy tells_clear_busy tells_quiet)

lemma tells_after_session:
  assumes "0 \<le> cs_busy_refusals c"
  shows "tells now c (after_session now result sv c)"
  using tells_supervisor [OF tells_note_outcome [OF assms, of now result], of "[Ran result]"]
  by (auto simp: after_session_def Let_def intro!: tells_quiet displayed_eqI)

lemma tells_end_session:
  assumes "0 \<le> cs_busy_refusals c" "0 < now"
  shows "tells now c (end_session A script now session result sv c)"
proof -
  have "timely now (fst (clear_session now c))" using assms by (simp add: timely_def)
  note d = tells_seq [OF tells_clear_session tells_deliver [OF this]]
  show ?thesis
    unfolding end_session_eq Let_def
    by (rule tells_seq [OF d, simplified]) (rule tells_after_session, simp add: assms)
qed

lemma tells_set_phase: "tells now c r \<Longrightarrow> tells now c (set_phase p (fst r), snd r)"
  by (auto simp: tells_def intro!: displayed_eqI)

lemma tells_session: "tells now (c\<lparr>cs_session := s\<rparr>) r \<longleftrightarrow> tells now c r"
proof -
  have "displayed now (c\<lparr>cs_session := s\<rparr>) = displayed now c" by (rule displayed_eqI) simp_all
  then show ?thesis by (simp add: tells_def)
qed

lemma tells_run_start:
  assumes "0 \<le> cs_busy_refusals c" "timely now c"
  shows "tells now c (run_start A x script now session sv c)"
proof -
  let ?r = "start A x session"
  have d: "tells now c (deliver now es (c\<lparr>cs_session := s\<rparr>))" for es s
    using tells_deliver [of now "c\<lparr>cs_session := s\<rparr>" es] assms(2) by (simp add: tells_session timely_def)
  show ?thesis
  proof (cases "snd (snd ?r)")
    case (Inl e)
    show ?thesis
      unfolding run_start_eq Let_def Inl sum.case
      by (rule tells_seq [OF d]) (rule tells_end_session, use assms in \<open>simp_all add: timely_def\<close>)
  next
    case (Inr u)
    show ?thesis by (simp add: run_start_eq Let_def Inr tells_notify)
  qed
qed

lemma next_round_kept [simp]:
  "cs_stall (next_round c) = cs_stall c" "cs_session (next_round c) = cs_session c"
  "cs_stop_requested (next_round c) = cs_stop_requested c"
  "cs_state_listeners (next_round c) = cs_state_listeners c"
  "cs_subscribers (next_round c) = cs_subscribers c" "cs_queues (next_round c) = cs_queues c"
  "cs_busy_refusals (next_round c) = cs_busy_refusals c" "cs_retry_min (next_round c) = cs_retry_min c"
  "cs_retry_max (next_round c) = cs_retry_max c" "cs_last_frame_at (next_round c) = cs_last_frame_at c"
  "cs_motion (next_round c) = cs_motion c" "cs_stall_timeout (next_round c) = cs_stall_timeout c"
  "cs_busy_refusal_limit (next_round c) = cs_busy_refusal_limit c"
  "displayed now (next_round c) = displayed now c"
  by (simp_all add: next_round_def displayed_def streaming_def motion_detected_def needs_power_cycle_def)

lemma retry_due_kept [simp]:
  "cs_stall (retry_due sv c) = cs_stall c" "cs_session (retry_due sv c) = cs_session c"
  "cs_stop_requested (retry_due sv c) = cs_stop_requested c"
  "cs_state_listeners (retry_due sv c) = cs_state_listeners c"
  "cs_subscribers (retry_due sv c) = cs_subscribers c" "cs_queues (retry_due sv c) = cs_queues c"
  "cs_busy_refusals (retry_due sv c) = cs_busy_refusals c" "cs_retry_min (retry_due sv c) = cs_retry_min c"
  "cs_retry_max (retry_due sv c) = cs_retry_max c" "cs_last_frame_at (retry_due sv c) = cs_last_frame_at c"
  "cs_motion (retry_due sv c) = cs_motion c" "cs_stall_timeout (retry_due sv c) = cs_stall_timeout c"
  "cs_busy_refusal_limit (retry_due sv c) = cs_busy_refusal_limit c"
  "displayed now (retry_due sv c) = displayed now c"
  by (simp_all add: retry_due_def displayed_def streaming_def motion_detected_def needs_power_cycle_def)

lemma settle_stopped_kept [simp]:
  "cs_stall (settle_stopped c) = cs_stall c" "cs_session (settle_stopped c) = cs_session c"
  "cs_stop_requested (settle_stopped c) = cs_stop_requested c"
  "cs_state_listeners (settle_stopped c) = cs_state_listeners c"
  "cs_subscribers (settle_stopped c) = cs_subscribers c" "cs_queues (settle_stopped c) = cs_queues c"
  "cs_busy_refusals (settle_stopped c) = cs_busy_refusals c" "cs_retry_min (settle_stopped c) = cs_retry_min c"
  "cs_retry_max (settle_stopped c) = cs_retry_max c" "cs_last_frame_at (settle_stopped c) = cs_last_frame_at c"
  "displayed now (settle_stopped c) = displayed now c"
  by (simp_all add: settle_stopped_def split: option.split)

lemma interrupt_start_eq:
  "interrupt_start A x script now session sv c =
     (let r = start A x session; d = deliver now (fst (snd r)) (c\<lparr>cs_session := Some (fst r)\<rparr>);
          q = end_session A script now (fst r) (Inl CancelledError) sv (fst d)
      in (fst q, snd d @ (if snd (snd r) = Inr () then notify_state now (fst d) else []) @ snd q))"
  by (simp add: interrupt_start_def case_prod_beta Let_def)

lemma interrupt_start_kept [simp]:
  "cs_session (fst (interrupt_start A x script now session sv c)) = None"
  by (simp add: interrupt_start_eq Let_def end_session_eq)

lemma tells_interrupt:
  assumes "0 \<le> cs_busy_refusals c" "timely now c"
  shows "tells now c (interrupt_start A x script now session sv c)"
proof -
  have d: "tells now c (deliver now es (c\<lparr>cs_session := s\<rparr>))" for es s
    using tells_deliver [of now "c\<lparr>cs_session := s\<rparr>" es] assms(2) by (simp add: tells_session timely_def)
  have e: "tells now (fst (deliver now es (c\<lparr>cs_session := s\<rparr>)))
      (end_session A script now t r sv (fst (deliver now es (c\<lparr>cs_session := s\<rparr>))))" for es s t r
    by (rule tells_end_session) (use assms in \<open>simp_all add: timely_def\<close>)
  have n: "tells now c' (c', if b then notify_state now c' else [])" for c' :: "'a camera" and b
    using tells_notify [where es = "[]" and now = now and c = c' and c' = c'] by (simp add: tells_quiet)
  show ?thesis
    unfolding interrupt_start_eq Let_def append_assoc [symmetric]
    by (rule tells_seq [OF tells_seq [OF d n], unfolded fst_conv snd_conv]) (rule e)
qed

lemma cancel_supervisor_eq:
  "cancel_supervisor A script now sv c =
     (case (sv_phase sv, cs_session c) of
        (Ended e, _) \<Rightarrow> (c, [])
      | (Starting, Some session) \<Rightarrow>
          (let q = interrupt_start A (fst script) (snd script) now session sv c in (settle_stopped (fst q), snd q))
      | (Streaming, Some session) \<Rightarrow>
          (let q = end_session A (snd script) now session (Inl CancelledError) sv c in (settle_stopped (fst q), snd q))
      | _ \<Rightarrow> (set_phase (Ended (Some CancelledError)) c, []))"
  by (simp add: cancel_supervisor_def case_prod_beta Let_def split: phase.split option.split)

lemma tells_cancel:
  assumes "0 \<le> cs_busy_refusals c" "timely now c"
  shows "tells now c (cancel_supervisor A script now sv c)"
proof -
  have "displayed now (set_phase p c) = displayed now c" for p by (rule displayed_eqI) simp_all
  moreover have "tells now c (settle_stopped (fst (end_session A script now s r sv c)), snd (end_session A script now s r sv c))" for script s r
    using tells_end_session [OF assms(1), where now = now] assms(2) by (simp add: tells_def timely_def)
  moreover have "tells now c (settle_stopped (fst (interrupt_start A x script now s sv c)), snd (interrupt_start A x script now s sv c))" for x script s
    using tells_interrupt [OF assms, of A x script s sv] by (simp add: tells_def)
  ultimately show ?thesis
    by (auto simp: cancel_supervisor_eq Let_def tells_quiet split: phase.split option.split)
qed

lemma stop_flag_displayed [simp]: "displayed now (c\<lparr>cs_stop_requested := b\<rparr>) = displayed now c"
  by (rule displayed_eqI) simp_all

lemma session_displayed [simp]: "displayed now (c\<lparr>cs_session := s\<rparr>) = displayed now c"
  by (rule displayed_eqI) simp_all

lemma timely_session [simp]: "timely now (c\<lparr>cs_session := s\<rparr>) = timely now c"
  by (simp add: timely_def)

text \<open>A stop finds no session behind its supervisor, so nothing is left to close that could fail.\<close>

lemma release_idle:
  assumes "cs_session c = None"
  shows "release_camera A script now c =
    (let r = with_motion now reset_detector
         (c\<lparr>cs_supervisor := None, cs_stall := None, cs_session := None, cs_first_frame := False, cs_last_frame_at := 0\<rparr>)
     in (fst r, snd r @ notify_state now (fst r)))"
  by (simp add: release_camera_def assms Let_def case_prod_beta)

lemma cancel_session:
  assumes "cs_session c \<noteq> None \<longleftrightarrow> sv_phase sv \<in> {Starting, Streaming}"
  shows "cs_session (fst (cancel_supervisor A script now sv c)) = None"
  using assms by (auto simp: cancel_supervisor_eq Let_def end_session_eq split: phase.split option.split)

lemma tells_release:
  assumes "cs_session c = None"
  shows "tells now c (release_camera A script now c)"
  unfolding release_idle [OF assms] Let_def by (rule tells_notify) simp

lemma stop_camera_eq:
  "stop_camera A script now c =
     (case cs_supervisor c of
        None \<Rightarrow> (c, [])
      | Some sv \<Rightarrow>
          (let q = cancel_supervisor A script now sv (c\<lparr>cs_stop_requested := True\<rparr>);
               r = release_camera A (snd script) now (fst q) in (fst r, snd q @ snd r)))"
  by (simp add: stop_camera_def case_prod_beta Let_def split: option.split)

section \<open>The invariant\<close>

text \<open>Viewers have shallow queues, the tasks live and die together, a session is kept exactly
  while the supervisor starts or watches one, the backoff stays between its limits, and a
  supervisor that ended by itself was cancelled.\<close>

definition patient :: "'w camera \<Rightarrow> bool" where
  "patient c \<longleftrightarrow> 0 \<le> cs_retry_min c \<and> cs_retry_min c \<le> cs_retry_max c"

fun supervised :: "'w camera \<Rightarrow> bool \<Rightarrow> supervisor option \<Rightarrow> bool" where
  "supervised c session None \<longleftrightarrow> cs_stall c = None \<and> \<not> session"
| "supervised c session (Some sv) \<longleftrightarrow> cs_stall c \<noteq> None \<and> \<not> cs_stop_requested c \<and>
     (session \<longleftrightarrow> sv_phase sv \<in> {Starting, Streaming}) \<and>
     (\<forall>e. sv_phase sv = Ended e \<longrightarrow> e = Some CancelledError) \<and>
     cs_retry_min c \<le> sv_backoff sv \<and> sv_backoff sv \<le> cs_retry_max c"

definition viewers_ok :: "'w camera \<Rightarrow> bool" where
  "viewers_ok c \<longleftrightarrow> distinct (cs_subscribers c) \<and> (\<forall>q. length (cs_queues c q) \<le> SUBSCRIBER_QUEUE_SIZE)"

definition camera_inv :: "'w camera \<Rightarrow> bool" where
  "camera_inv c \<longleftrightarrow> viewers_ok c \<and> 0 \<le> cs_busy_refusals c \<and> patient c \<and>
     supervised c (cs_session c \<noteq> None) (cs_supervisor c)"

lemma camera_invD:
  assumes "camera_inv c"
  shows "viewers_ok c" "0 \<le> cs_busy_refusals c" "patient c" "supervised c (cs_session c \<noteq> None) (cs_supervisor c)"
  using assms by (simp_all add: camera_inv_def)

lemma tells_stop:
  assumes "camera_inv c" "timely now c"
  shows "tells now c (stop_camera A script now c)"
proof (cases "cs_supervisor c")
  case None
  then show ?thesis by (simp add: stop_camera_eq tells_quiet)
next
  case (Some sv)
  let ?c = "c\<lparr>cs_stop_requested := True\<rparr>"
  have s: "cs_session (fst (cancel_supervisor A script now sv ?c)) = None"
    by (rule cancel_session) (use assms Some in \<open>simp add: camera_inv_def\<close>)
  have "tells now ?c (cancel_supervisor A script now sv ?c)"
    by (rule tells_cancel) (use assms in \<open>simp_all add: camera_inv_def timely_def\<close>)
  from tells_seq [OF this tells_release [OF s]] show ?thesis
    by (simp add: stop_camera_eq Some Let_def tells_def)
qed

lemma stall_check_eq:
  "stall_check A script now c =
     (let m = with_motion now (poll now) c in
      case cs_session c of
        None \<Rightarrow> m
      | Some session \<Rightarrow>
          if cs_last_frame_at c = 0 \<or> now - cs_last_frame_at c < cs_stall_timeout c then m
          else let k = close_stream A (fst script) (snd script) session;
                   d = deliver now (fst (snd k)) ((fst m)\<lparr>cs_session := Some (fst k)\<rparr>)
               in (case snd (snd k) of Inl e \<Rightarrow> (fst d)\<lparr>cs_stall := Some WatcherEnded\<rparr> | Inr _ \<Rightarrow> fst d,
                   snd m @ snd d))"
  by (simp add: stall_check_def case_prod_beta Let_def split: option.split)

lemma tells_stall_check:
  assumes "timely now c"
  shows "tells now c (stall_check A script now c)"
proof -
  have m: "tells now c (with_motion now (poll now) c)" by (rule tells_motion) (rule reports_operations)
  have d: "tells now (fst (with_motion now (poll now) c)) (deliver now es ((fst (with_motion now (poll now) c))\<lparr>cs_session := s\<rparr>))" for es s
    using tells_deliver [of now "(fst (with_motion now (poll now) c))\<lparr>cs_session := s\<rparr>" es] assms
    by (simp add: tells_session timely_def)
  have w: "displayed now (case x of Inl e \<Rightarrow> c'\<lparr>cs_stall := w\<rparr> | Inr u \<Rightarrow> c') = displayed now c'"
    "cs_state_listeners (case x of Inl e \<Rightarrow> c'\<lparr>cs_stall := w\<rparr> | Inr u \<Rightarrow> c') = cs_state_listeners c'"
    for x :: "exn + unit" and c' :: "'a camera" and w
    by (auto intro!: displayed_eqI split: sum.split)
  show ?thesis
    using m tells_seq [OF m d] by (auto simp: stall_check_eq Let_def tells_def w split: option.split)
qed

lemma tells_fetch:
  assumes "0 \<le> cs_busy_refusals c"
  shows "tells now c (run_fetch N now sv c)"
proof -
  have c: "displayed now (c\<lparr>cs_client := k\<rparr>) = displayed now c" "displayed now (set_phase Starting (c\<lparr>cs_client := k, cs_session := s\<rparr>)) = displayed now c"
    for k s by (auto intro!: displayed_eqI)
  have "tells now (c\<lparr>cs_client := k\<rparr>) (after_session now r sv (c\<lparr>cs_client := k\<rparr>))" for k r
    by (rule tells_after_session) (simp add: assms)
  then have "tells now c (after_session now r sv (c\<lparr>cs_client := k\<rparr>))" for k r
    by (simp add: tells_def c)
  then show ?thesis by (simp add: run_fetch_def tells_quiet c split: prod.split sum.split)
qed

lemma tells_sensitivity: "tells now c (set_motion_sensitivity now x c)"
proof -
  have "\<not> md_detected (fst (reset_detector d))" for d by (simp add: reset_detector_def publish_fields)
  then have "displayed now ((fst (with_motion now reset_detector c))\<lparr>cs_motion := new_detector x h\<rparr>) =
      displayed now (fst (with_motion now reset_detector c))" for h
    by (intro displayed_eqI) (simp_all add: new_detector_def)
  moreover have "tells now c (with_motion now reset_detector c)" by (rule tells_motion) (rule reports_operations)
  ultimately show ?thesis by (simp add: set_motion_sensitivity_def case_prod_beta tells_def)
qed

text \<open>Every listener registered before a step was last shown what is displayed behind it.\<close>

fun changes_listeners :: "camera_event \<Rightarrow> bool" where
  "changes_listeners (Close script) = True"
| "changes_listeners (AddListener l) = True"
| "changes_listeners (RemoveListener l) = True"
| "changes_listeners _ = False"

lemma step_tells:
  assumes "camera_inv c" "timely now c" "\<not> changes_listeners e"
  shows "tells now c (camera_step N A c (e, now))"
proof -
  have b: "0 \<le> cs_busy_refusals c" using assms(1) by (simp add: camera_inv_def)
  have n: "0 < now" using assms(2) by (simp add: timely_def)
  have idle: "tells now c (c, [])" by (rule tells_quiet) simp_all
  show ?thesis
  proof (cases e)
    case Start
    show ?thesis by (auto simp: Start start_camera_def intro!: tells_quiet displayed_eqI)
  next
    case (Stop script)
    show ?thesis by (simp add: Stop tells_stop [OF assms(1,2)])
  next
    case Fetch
    show ?thesis by (simp add: Fetch tells_fetch b idle split: option.split)
  next
    case (Begin x script)
    show ?thesis by (simp add: Begin tells_run_start [OF b assms(2)] idle split: option.split)
  next
    case (OnStream ev)
    have "tells now c (deliver now es (c\<lparr>cs_session := s\<rparr>))" for es s
      using tells_deliver [of now "c\<lparr>cs_session := s\<rparr>" es] assms(2) by (simp add: tells_session)
    then show ?thesis
      by (simp add: OnStream on_stream_def case_prod_beta idle split: option.split phase.split)
  next
    case (SessionOver script)
    show ?thesis
      by (simp add: SessionOver session_over_def tells_end_session [OF b n] idle split: option.split)
  next
    case RetryDue
    show ?thesis by (simp add: RetryDue tells_quiet split: option.split)
  next
    case (StallCheck script)
    show ?thesis by (simp add: StallCheck tells_stall_check [OF assms(2)] idle)
  next
    case (Subscribe v)
    show ?thesis
      by (auto simp: Subscribe subscribe_def tells_def intro!: displayed_eqI split: option.split)
  next
    case (NextFrame v)
    show ?thesis
      by (auto simp: NextFrame next_frame_def tells_def intro!: displayed_eqI split: list.split)
  next
    case (Unsubscribe v)
    show ?thesis by (auto simp: Unsubscribe unsubscribe_def intro!: tells_quiet displayed_eqI)
  next
    case (SetSensitivity x)
    show ?thesis by (simp add: SetSensitivity tells_sensitivity)
  next
    case (SetLocalKey key)
    show ?thesis by (auto simp: SetLocalKey intro!: tells_quiet displayed_eqI)
  qed (use assms(3) in simp_all)
qed

lemma step_shown:
  assumes "camera_inv c" "timely now c" "l \<in> set (cs_state_listeners c)"
  shows "last_shown l (displayed now c) (snd (camera_step N A c (e, now))) = displayed now (fst (camera_step N A c (e, now)))"
proof (cases "changes_listeners e")
  case False
  then show ?thesis using step_tells [OF assms(1,2) False, of N A] assms(3) by (simp add: tells_def)
next
  case True
  have c: "displayed now (c'\<lparr>cs_subscribers := x\<rparr>) = displayed now c'"
    "displayed now (c'\<lparr>cs_state_listeners := y\<rparr>) = displayed now c'" for c' :: "'a camera" and x y
    by (rule displayed_eqI; simp)+
  from True tells_stop [OF assms(1,2), of A] assms(3) show ?thesis
    by (cases e) (simp_all add: close_camera_def add_state_listener_def remove_state_listener_def case_prod_beta tells_def c)
qed

section \<open>The invariant is kept\<close>

lemma offer_frame_length: "length q \<le> SUBSCRIBER_QUEUE_SIZE \<Longrightarrow> length (offer_frame f q) \<le> SUBSCRIBER_QUEUE_SIZE"
  by (simp add: offer_frame_def SUBSCRIBER_QUEUE_SIZE_def Let_def)

lemma viewers_ok_cong:
  "cs_subscribers c' = cs_subscribers c \<Longrightarrow> cs_queues c' = cs_queues c \<Longrightarrow> viewers_ok c \<Longrightarrow> viewers_ok c'"
  by (simp add: viewers_ok_def)

lemma viewers_ok_deliver: "viewers_ok c \<Longrightarrow> viewers_ok (fst (deliver now es c))"
proof (induction now es c rule: deliver.induct)
  case (2 now f es c)
  have "viewers_ok (fst (on_frame now f c))"
    using 2(2) offer_frame_length by (simp add: viewers_ok_def)
  from 2(1) [OF refl this] show ?case by (simp add: Let_def)
qed (simp_all add: Let_def)

text \<open>What a session that ends has to find for the invariant to hold behind it.\<close>

definition ready :: "supervisor \<Rightarrow> 'w camera \<Rightarrow> bool" where
  "ready sv c \<longleftrightarrow> viewers_ok c \<and> 0 \<le> cs_busy_refusals c \<and> patient c \<and> cs_stall c \<noteq> None \<and> \<not> cs_stop_requested c \<and>
     cs_retry_min c \<le> sv_backoff sv \<and> sv_backoff sv \<le> cs_retry_max c"

lemma camera_inv_ready: "camera_inv c \<Longrightarrow> cs_supervisor c = Some sv \<Longrightarrow> ready sv c"
  by (simp add: camera_inv_def ready_def)

lemma ready_after_session:
  assumes "ready sv c" "cs_session c = None"
  shows "camera_inv (fst (after_session now r sv c))"
  using assms viewers_ok_cong [of "fst (after_session now r sv c)" c]
  by (simp add: camera_inv_def ready_def after_session_supervisor patient_def)

lemma ready_deliver: "ready sv c \<Longrightarrow> ready sv (fst (deliver now es c))"
  by (simp add: ready_def patient_def viewers_ok_deliver)

lemma ready_clear_session: "ready sv c \<Longrightarrow> ready sv (fst (clear_session now c))"
  using viewers_ok_cong [of "fst (clear_session now c)" c] by (simp add: ready_def patient_def)

lemma end_session_inv: "ready sv c \<Longrightarrow> camera_inv (fst (end_session A script now session r sv c))"
  by (simp add: end_session_eq Let_def ready_after_session ready_deliver ready_clear_session)

lemma ready_session [simp]: "ready sv (c\<lparr>cs_session := s\<rparr>) = ready sv c"
  by (simp add: ready_def viewers_ok_def patient_def)

lemma ready_client [simp]: "ready sv (c\<lparr>cs_client := k\<rparr>) = ready sv c"
  by (simp add: ready_def viewers_ok_def patient_def)

lemma run_start_inv:
  assumes "camera_inv c" "cs_supervisor c = Some sv"
  shows "camera_inv (fst (run_start A x script now session sv c))"
proof (cases "snd (snd (start A x session))")
  case (Inl e)
  then show ?thesis
    by (simp add: run_start_eq Let_def end_session_inv ready_deliver camera_inv_ready [OF assms])
next
  case (Inr u)
  let ?d = "fst (deliver now (fst (snd (start A x session))) (c\<lparr>cs_session := Some (fst (start A x session))\<rparr>))"
  have "ready sv ?d" by (rule ready_deliver) (simp add: camera_inv_ready [OF assms])
  then show ?thesis
    using viewers_ok_cong [of "set_phase Streaming ?d" ?d] assms(2)
    by (simp add: run_start_eq Let_def Inr camera_inv_def ready_def patient_def)
qed

lemma run_fetch_inv:
  assumes "camera_inv c" "cs_supervisor c = Some sv" "sv_phase sv = Fetching"
  shows "camera_inv (fst (run_fetch N now sv c))"
proof (cases "fetch_session N c")
  case (Pair r client)
  have n: "cs_session c = None" using assms by (simp add: camera_inv_def)
  have "ready sv c" by (rule camera_inv_ready [OF assms(1,2)])
  then have "camera_inv (fst (after_session now (Inl e) sv (c\<lparr>cs_client := client\<rparr>)))" for e
    by (intro ready_after_session) (simp_all add: n)
  then show ?thesis
    using Pair assms viewers_ok_cong [of "set_phase Starting (c\<lparr>cs_client := client, cs_session := x\<rparr>)" c for x]
    by (cases r) (simp_all add: run_fetch_def, simp add: camera_inv_def patient_def)
qed

lemma retry_due_inv:
  assumes "camera_inv c" "cs_supervisor c = Some sv" "sv_phase sv = Waiting"
  shows "camera_inv (retry_due sv c)"
  using assms viewers_ok_cong [of "retry_due sv c" c]
  by (simp add: camera_inv_def patient_def) (simp add: retry_due_def next_round_def)

lemma stall_check_inv:
  assumes "camera_inv c" "cs_stall c \<noteq> None"
  shows "camera_inv (fst (stall_check A script now c))"
proof -
  let ?m = "with_motion now (poll now) c"
  have m: "camera_inv (fst ?m)"
    using assms viewers_ok_cong [of "fst ?m" c]
    by (cases "cs_supervisor c") (simp_all add: camera_inv_def patient_def)
  have d: "camera_inv (fst (deliver now es ((fst ?m)\<lparr>cs_session := Some s\<rparr>)))" if "cs_session c \<noteq> None" for es s
    using m that viewers_ok_deliver [of "(fst ?m)\<lparr>cs_session := Some s\<rparr>" now es]
      viewers_ok_cong [of "(fst ?m)\<lparr>cs_session := Some s\<rparr>" "fst ?m"]
    by (cases "cs_supervisor c") (simp_all add: camera_inv_def patient_def)
  have w: "camera_inv (c'\<lparr>cs_stall := Some WatcherEnded\<rparr>)" if "camera_inv c'" "cs_stall c' \<noteq> None" for c' :: "'a camera"
    using that by (cases "cs_supervisor c'") (simp_all add: camera_inv_def patient_def viewers_ok_def)
  show ?thesis
    using m d w assms(2) by (auto simp: stall_check_eq Let_def split: option.split sum.split)
qed

text \<open>The part of the invariant that holds while a stop is under way.\<close>

definition sound :: "'w camera \<Rightarrow> bool" where
  "sound c \<longleftrightarrow> viewers_ok c \<and> 0 \<le> cs_busy_refusals c \<and> patient c"

lemma sound_cong:
  "sound c \<Longrightarrow> cs_subscribers c' = cs_subscribers c \<Longrightarrow> cs_queues c' = cs_queues c \<Longrightarrow>
   cs_retry_min c' = cs_retry_min c \<Longrightarrow> cs_retry_max c' = cs_retry_max c \<Longrightarrow> 0 \<le> cs_busy_refusals c' \<Longrightarrow> sound c'"
  by (simp add: sound_def patient_def viewers_ok_def)

lemma sound_busy: "sound c \<Longrightarrow> 0 \<le> cs_busy_refusals c"
  by (simp add: sound_def)

lemma sound_deliver: "sound c \<Longrightarrow> sound (fst (deliver now es c))"
  by (simp add: sound_def patient_def viewers_ok_deliver)

lemma sound_end_session:
  assumes "sound c"
  shows "sound (fst (end_session A script now session r sv c))"
proof -
  have "sound (fst (clear_session now c))" by (rule sound_cong [OF assms]) (simp_all add: sound_busy [OF assms])
  then have d: "sound (fst (deliver now es (fst (clear_session now c))))" for es by (rule sound_deliver)
  show ?thesis
    unfolding end_session_eq Let_def fst_conv by (rule sound_cong [OF d]) (use sound_busy [OF assms] in simp_all)
qed

lemma sound_interrupt:
  assumes "sound c"
  shows "sound (fst (interrupt_start A x script now session sv c))"
proof -
  have "sound (c\<lparr>cs_session := s\<rparr>)" for s by (rule sound_cong [OF assms]) (simp_all add: sound_busy [OF assms])
  from sound_end_session [OF sound_deliver [OF this]] show ?thesis by (simp add: interrupt_start_eq Let_def)
qed

lemma sound_cancel:
  assumes "sound c"
  shows "sound (fst (cancel_supervisor A script now sv c))"
proof -
  note e = sound_end_session [OF assms]
  have "sound (set_phase p c)" for p by (rule sound_cong [OF assms]) (simp_all add: sound_busy [OF assms])
  moreover have "sound (settle_stopped c')" if "sound c'" for c' :: "'a camera"
    by (rule sound_cong [OF that]) (simp_all add: sound_busy [OF that])
  ultimately show ?thesis
    using assms e sound_interrupt [OF assms] by (auto simp: cancel_supervisor_eq Let_def split: phase.split option.split)
qed

lemma stop_camera_stopped:
  assumes "camera_inv c"
  shows "sound (fst (stop_camera A script now c))" "cs_supervisor (fst (stop_camera A script now c)) = None"
    "cs_stall (fst (stop_camera A script now c)) = None" "cs_session (fst (stop_camera A script now c)) = None"
proof -
  have "sound (fst (stop_camera A script now c)) \<and> cs_supervisor (fst (stop_camera A script now c)) = None \<and>
    cs_stall (fst (stop_camera A script now c)) = None \<and> cs_session (fst (stop_camera A script now c)) = None"
  proof (cases "cs_supervisor c")
    case None
    with assms show ?thesis by (simp add: stop_camera_eq camera_inv_def sound_def)
  next
    case (Some sv)
    let ?q = "cancel_supervisor A script now sv (c\<lparr>cs_stop_requested := True\<rparr>)"
    have s: "cs_session (fst ?q) = None"
      by (rule cancel_session) (use assms Some in \<open>simp add: camera_inv_def\<close>)
    have q: "sound (fst ?q)"
      by (rule sound_cancel) (use assms in \<open>simp add: camera_inv_def sound_def patient_def viewers_ok_def\<close>)
    have "sound (fst (release_camera A (snd script) now (fst ?q)))"
      by (rule sound_cong [OF q]) (simp_all add: release_idle [OF s] Let_def sound_busy [OF q])
    then show ?thesis by (simp add: stop_camera_eq Some Let_def release_idle [OF s])
  qed
  then show "sound (fst (stop_camera A script now c))" "cs_supervisor (fst (stop_camera A script now c)) = None"
    "cs_stall (fst (stop_camera A script now c)) = None" "cs_session (fst (stop_camera A script now c)) = None"
    by blast+
qed

lemma stopped_inv:
  "sound c \<Longrightarrow> cs_supervisor c = None \<Longrightarrow> cs_stall c = None \<Longrightarrow> cs_session c = None \<Longrightarrow> camera_inv c"
  by (simp add: camera_inv_def sound_def)

lemma camera_inv_cong:
  "camera_inv c \<Longrightarrow> viewers_ok c' \<Longrightarrow> cs_busy_refusals c' = cs_busy_refusals c \<Longrightarrow> cs_retry_min c' = cs_retry_min c \<Longrightarrow>
   cs_retry_max c' = cs_retry_max c \<Longrightarrow> cs_stall c' = cs_stall c \<Longrightarrow> cs_stop_requested c' = cs_stop_requested c \<Longrightarrow>
   cs_supervisor c' = cs_supervisor c \<Longrightarrow> (cs_session c' \<noteq> None) = (cs_session c \<noteq> None) \<Longrightarrow> camera_inv c'"
  by (cases "cs_supervisor c") (simp_all add: camera_inv_def patient_def)

lemma camera_step_inv:
  assumes "camera_inv c"
  shows "camera_inv (fst (camera_step N A c ev))"
proof -
  obtain e now where ev: "ev = (e, now)" by (cases ev)
  note same = camera_inv_cong [OF assms]
  have v: "viewers_ok c" by (rule camera_invD [OF assms])
  show ?thesis
  proof (cases e)
    case Start
    then show ?thesis
      using assms viewers_ok_cong [of "start_camera c" c]
      by (cases "cs_supervisor c")
        (simp_all add: ev start_camera_def running_def camera_inv_def patient_def next_round_def)
  next
    case (Stop script)
    then show ?thesis by (simp add: ev stopped_inv stop_camera_stopped [OF assms])
  next
    case (Close script)
    note s = stop_camera_stopped [OF assms, of A script now]
    have "sound (c'\<lparr>cs_subscribers := [], cs_state_listeners := []\<rparr>)" if "sound c'" for c' :: "'a camera"
      using that by (simp add: sound_def patient_def viewers_ok_def)
    from stopped_inv [OF this [OF s(1)]] stopped_inv [OF s] s Close show ?thesis
      by (simp add: ev close_camera_def case_prod_beta)
  next
    case Fetch
    then show ?thesis using assms run_fetch_inv by (auto simp: ev split: option.split)
  next
    case (Begin x script)
    then show ?thesis using assms by (simp add: ev run_start_inv split: option.split)
  next
    case (OnStream x)
    have "camera_inv (fst (deliver now es (c\<lparr>cs_session := Some s\<rparr>)))" if "cs_session c \<noteq> None" for es s
      by (rule same) (use that v in \<open>simp_all add: viewers_ok_deliver viewers_ok_cong [of "c\<lparr>cs_session := s\<rparr>" c for s]\<close>)
    then show ?thesis using assms OnStream by (auto simp: ev on_stream_def case_prod_beta split: option.split phase.split)
  next
    case (SessionOver script)
    then show ?thesis
      using assms end_session_inv [OF camera_inv_ready [OF assms]]
      by (auto simp: ev session_over_def split: option.split)
  next
    case RetryDue
    then show ?thesis using assms retry_due_inv by (auto simp: ev split: option.split)
  next
    case (StallCheck script)
    then show ?thesis using assms by (simp add: ev stall_check_inv)
  next
    case (Subscribe u)
    show ?thesis
      by (rule same) (use v in \<open>simp_all add: Subscribe ev subscribe_def viewers_ok_def distinct_insert\<close>)
  next
    case (NextFrame u)
    have l: "length (cs_queues c u) \<le> SUBSCRIBER_QUEUE_SIZE" using v by (simp add: viewers_ok_def)
    show ?thesis
      using v l by (intro same; cases "cs_queues c u") (auto simp: NextFrame ev next_frame_def viewers_ok_def)
  next
    case (Unsubscribe u)
    show ?thesis
      by (rule same) (use v in \<open>simp_all add: Unsubscribe ev unsubscribe_def viewers_ok_def distinct_removeAll\<close>)
  next
    case (AddListener k)
    show ?thesis by (rule same) (use v in \<open>simp_all add: AddListener ev add_state_listener_def viewers_ok_def\<close>)
  next
    case (RemoveListener k)
    show ?thesis by (rule same) (use v in \<open>simp_all add: RemoveListener ev remove_state_listener_def viewers_ok_def\<close>)
  next
    case (SetSensitivity x)
    show ?thesis
      by (rule same) (use v in \<open>simp_all add: SetSensitivity ev set_motion_sensitivity_def case_prod_beta viewers_ok_def\<close>)
  next
    case (SetLocalKey key)
    show ?thesis by (rule same) (use v in \<open>simp_all add: SetLocalKey ev viewers_ok_def\<close>)
  qed
qed

interpretation camera: transducer "camera_step N A" camera_inv for N A
  by unfold_locales (rule camera_step_inv)

lemma new_camera_inv:
  "0 \<le> kn_retry_min k \<Longrightarrow> kn_retry_min k \<le> kn_retry_max k \<Longrightarrow> camera_inv (new_camera client device key k)"
  by (simp add: camera_inv_def new_camera_def viewers_ok_def patient_def)

end
