(* ===== verification/Camera_Retries.thy ===== *)
theory Camera_Retries
  imports Camera_Laws
begin

text \<open>
  How patiently a camera is retried: the counters the supervisor keeps (the backoff it doubles,
  the run of busy refusals) refine a policy that reads every wait off the outcomes of the
  sessions so far.
\<close>

section \<open>Traces\<close>

fun outcomes :: "camera_effect list \<Rightarrow> (exn + bool) list" where
  "outcomes [] = []"
| "outcomes (Ran r # es) = r # outcomes es"
| "outcomes (_ # es) = outcomes es"

fun retries :: "camera_effect list \<Rightarrow> real list" where
  "retries [] = []"
| "retries (Retry w # es) = w # retries es"
| "retries (_ # es) = retries es"

lemma outcomes_append [simp]: "outcomes (es @ fs) = outcomes es @ outcomes fs"
  by (induction es rule: outcomes.induct) simp_all

lemma retries_append [simp]: "retries (es @ fs) = retries es @ retries fs"
  by (induction es rule: retries.induct) simp_all

text \<open>Effects in which no session ends and no wait begins.\<close>

definition between :: "camera_effect list \<Rightarrow> bool" where
  "between es \<longleftrightarrow> outcomes es = [] \<and> retries es = []"

lemma between_append [simp]: "between (es @ fs) \<longleftrightarrow> between es \<and> between fs"
  by (auto simp: between_def)

lemma between_Nil [simp]: "between []" by (simp add: between_def)

lemma between_notified: "only_notified es \<Longrightarrow> between es"
proof (induction es)
  case (Cons e es)
  then show ?case by (cases e) (simp_all add: between_def)
qed simp

lemma between_operations [simp]:
  "between (notify_state now c)" "between (snd (with_motion now f c))" "between (snd (on_frame now frame c))"
  "between (snd (clear_session now c))" "between (snd (note_outcome now r c))" "between (snd (set_motion_sensitivity now x c))"
  by (simp_all add: between_notified)

lemma between_deliver [simp]: "between (snd (deliver now es c))"
proof (induction now es c rule: deliver.induct)
  case (2 now f es c)
  from 2 [OF refl] show ?case using between_operations(3) [of now f c] by (simp add: Let_def between_def)
qed (simp_all add: Let_def between_def)

lemma betweenD: "between es \<Longrightarrow> outcomes es = []" "between es \<Longrightarrow> retries es = []"
  by (simp_all add: between_def)

lemmas between_effects = between_operations [THEN betweenD(1)] between_operations [THEN betweenD(2)]
  between_deliver [THEN betweenD(1)] between_deliver [THEN betweenD(2)]

section \<open>Knobs\<close>

definition has_knobs :: "knobs \<Rightarrow> 'w camera \<Rightarrow> bool" where
  "has_knobs k c \<longleftrightarrow> cs_retry_min c = kn_retry_min k \<and> cs_retry_max c = kn_retry_max k \<and>
     cs_session_cooldown c = kn_session_cooldown k \<and> cs_busy_refusal_limit c = kn_busy_refusal_limit k \<and>
     cs_refused_retry_seconds c = kn_refused_retry_seconds k"

lemma has_knobs_kept [simp]:
  "has_knobs k (fst (with_motion now f c)) = has_knobs k c"
  "has_knobs k (fst (deliver now es c)) = has_knobs k c"
  "has_knobs k (fst (clear_session now c)) = has_knobs k c"
  "has_knobs k (fst (note_outcome now r c)) = has_knobs k c"
  "has_knobs k (fst (after_session now r sv c)) = has_knobs k c"
  "has_knobs k (set_phase p c) = has_knobs k c" "has_knobs k (c\<lparr>cs_client := w\<rparr>) = has_knobs k c"
  "has_knobs k (c\<lparr>cs_session := s\<rparr>) = has_knobs k c" "has_knobs k (c\<lparr>cs_stall := x\<rparr>) = has_knobs k c"
  "has_knobs k (c\<lparr>cs_supervisor := y\<rparr>) = has_knobs k c" "has_knobs k (c\<lparr>cs_motion := m\<rparr>) = has_knobs k c"
  by (simp_all add: has_knobs_def)

lemma has_knobs_new: "has_knobs k (new_camera client device key k)"
  by (simp add: has_knobs_def new_camera_def)

section \<open>The policy\<close>

fun is_busy :: "exn + bool \<Rightarrow> bool" where
  "is_busy (Inl (DeviceBusyError m)) = True"
| "is_busy _ = False"

text \<open>The busy refusals since the device last answered in any other way; a session that started
  and brought no frame says nothing either way.\<close>

definition busy_run :: "(exn + bool) list \<Rightarrow> nat" where
  "busy_run rs = length (filter is_busy (takeWhile (\<lambda>r. is_busy r \<or> r = Inr False) (rev rs)))"

text \<open>How often the backoff has doubled: once per outcome since the last session that streamed,
  the first one of all starting at the minimum.\<close>

definition doublings :: "(exn + bool) list \<Rightarrow> nat" where
  "doublings rs = length (takeWhile (\<lambda>r. r \<noteq> Inr True) (rev rs)) - (if Inr True \<in> set rs then 0 else 1)"

definition policy_backoff :: "knobs \<Rightarrow> (exn + bool) list \<Rightarrow> real" where
  "policy_backoff k rs = min (kn_retry_min k * 2 ^ doublings rs) (kn_retry_max k)"

definition policy_wait :: "knobs \<Rightarrow> (exn + bool) list \<Rightarrow> real" where
  "policy_wait k rs =
     (if kn_busy_refusal_limit k \<le> int (busy_run rs) then kn_refused_retry_seconds k
      else policy_backoff k rs + kn_session_cooldown k)"

fun policy_waits :: "knobs \<Rightarrow> (exn + bool) list \<Rightarrow> (exn + bool) list \<Rightarrow> real list" where
  "policy_waits k before [] = []"
| "policy_waits k before (r # rs) = policy_wait k (before @ [r]) # policy_waits k (before @ [r]) rs"

lemma policy_waits_append: "policy_waits k b (rs @ ss) = policy_waits k b rs @ policy_waits k (b @ rs) ss"
  by (induction rs arbitrary: b) simp_all

lemma busy_run_simps:
  "busy_run [] = 0" "is_busy r \<Longrightarrow> busy_run (rs @ [r]) = Suc (busy_run rs)"
  "busy_run (rs @ [Inr False]) = busy_run rs"
  "\<not> is_busy r \<Longrightarrow> r \<noteq> Inr False \<Longrightarrow> busy_run (rs @ [r]) = 0"
  by (auto simp: busy_run_def)

text \<open>The backoff of the next round, before a session has run in it.\<close>

definition next_backoff :: "knobs \<Rightarrow> (exn + bool) list \<Rightarrow> real" where
  "next_backoff k rs = (if rs = [] then kn_retry_min k else min (policy_backoff k rs * 2) (kn_retry_max k))"

lemma doublings_streamed: "doublings (rs @ [Inr True]) = 0"
  by (simp add: doublings_def)

lemma doublings_failed: "r \<noteq> Inr True \<Longrightarrow> rs \<noteq> [] \<Longrightarrow> doublings (rs @ [r]) = Suc (doublings rs)"
  "r \<noteq> Inr True \<Longrightarrow> doublings [r] = 0"
proof -
  assume r: "r \<noteq> Inr True"
  then show "doublings [r] = 0" by (auto simp: doublings_def)
  assume "rs \<noteq> []"
  then have "takeWhile (\<lambda>r. r \<noteq> Inr True) (rev rs) \<noteq> []" if "Inr True \<notin> set rs"
    using that by (cases rs rule: rev_cases) auto
  then show "doublings (rs @ [r]) = Suc (doublings rs)"
    using r by (cases "takeWhile (\<lambda>r. r \<noteq> Inr True) (rev rs)") (auto simp: doublings_def)
qed

lemma policy_backoff_step:
  assumes "0 \<le> kn_retry_min k" "kn_retry_min k \<le> kn_retry_max k"
  shows "policy_backoff k (rs @ [r]) = (if r = Inr True then kn_retry_min k else next_backoff k rs)"
  using assms by (auto simp: policy_backoff_def next_backoff_def doublings_streamed doublings_failed min_def)

text \<open>Every wait of the policy lies between its bounds.\<close>

lemma policy_wait_bounds:
  assumes "0 \<le> kn_retry_min k" "kn_retry_min k \<le> kn_retry_max k"
  shows "policy_wait k rs = kn_refused_retry_seconds k \<or>
    kn_retry_min k + kn_session_cooldown k \<le> policy_wait k rs \<and> policy_wait k rs \<le> kn_retry_max k + kn_session_cooldown k"
proof -
  have "kn_retry_min k * 1 \<le> kn_retry_min k * 2 ^ doublings rs"
    by (rule mult_left_mono) (simp_all add: assms(1))
  then show ?thesis using assms by (simp add: policy_wait_def policy_backoff_def)
qed

section \<open>The supervisor follows the policy\<close>

text \<open>What the counters say of the outcomes so far.\<close>

definition tracks :: "knobs \<Rightarrow> (exn + bool) list \<Rightarrow> supervisor \<Rightarrow> bool" where
  "tracks k rs sv \<longleftrightarrow>
     (case sv_phase sv of
        Waiting \<Rightarrow> rs \<noteq> [] \<and> sv_backoff sv = policy_backoff k rs
      | Ended e \<Rightarrow> True
      | _ \<Rightarrow> sv_backoff sv = next_backoff k rs)"

definition counts :: "knobs \<Rightarrow> (exn + bool) list \<Rightarrow> 'w camera \<Rightarrow> bool" where
  "counts k rs c \<longleftrightarrow> has_knobs k c \<and> cs_busy_refusals c = int (busy_run rs)"

definition tracked :: "knobs \<Rightarrow> (exn + bool) list \<Rightarrow> 'w camera \<Rightarrow> bool" where
  "tracked k rs c \<longleftrightarrow> counts k rs c \<and> (case cs_supervisor c of None \<Rightarrow> rs = [] | Some sv \<Rightarrow> tracks k rs sv)"

text \<open>An operation behind which the counters and the waits are the ones of the policy.\<close>

definition follows :: "knobs \<Rightarrow> (exn + bool) list \<Rightarrow> 'w camera \<times> camera_effect list \<Rightarrow> bool" where
  "follows k rs r \<longleftrightarrow> tracked k (rs @ outcomes (snd r)) (fst r) \<and>
     retries (snd r) = policy_waits k rs (outcomes (snd r))"

lemma counts_kept [simp]:
  "counts k rs (fst (deliver now es c)) = counts k rs c" "counts k rs (fst (clear_session now c)) = counts k rs c"
  "counts k rs (set_phase p c) = counts k rs c" "counts k rs (c\<lparr>cs_session := s\<rparr>) = counts k rs c"
  "counts k rs (c\<lparr>cs_client := w\<rparr>) = counts k rs c" "counts k rs (fst (with_motion now f c)) = counts k rs c"
  "counts k rs (c\<lparr>cs_stall := x\<rparr>) = counts k rs c" "counts k rs (c\<lparr>cs_supervisor := y\<rparr>) = counts k rs c"
  by (simp_all add: counts_def)

lemma follows_between:
  "tracked k rs c \<Longrightarrow> counts k rs (fst r) = counts k rs c \<Longrightarrow> cs_supervisor (fst r) = cs_supervisor c \<Longrightarrow>
   between (snd r) \<Longrightarrow> follows k rs r"
  by (simp add: follows_def tracked_def between_def)

lemma follows_prefix: "between es \<Longrightarrow> follows k rs r \<Longrightarrow> follows k rs (fst r, es @ snd r)"
  by (simp add: follows_def between_def)

lemma counts_note_outcome:
  assumes "counts k rs c"
  shows "counts k (rs @ [r]) (fst (note_outcome now r c))"
proof -
  have "cs_busy_refusals (fst (note_outcome now r c)) = int (busy_run (rs @ [r]))"
    using assms
    by (cases r rule: is_busy.cases)
      (simp_all add: note_outcome_def note_busy_refusal_def clear_busy_refusals_def Let_def counts_def busy_run_simps)
  then show ?thesis using assms by (simp add: counts_def)
qed

lemma follows_after_session:
  assumes "counts k rs c" "ready sv c" "sv_backoff sv = next_backoff k rs"
  shows "follows k rs (after_session now r sv c)"
proof (cases "r = Inl CancelledError")
  case True
  then show ?thesis
    using assms(1) by (simp add: after_session_def follows_def tracked_def tracks_def)
next
  case False
  have k: "0 \<le> kn_retry_min k" "kn_retry_min k \<le> kn_retry_max k" "cs_retry_min c = kn_retry_min k" "\<not> cs_stop_requested c"
    using assms(1,2) by (simp_all add: counts_def has_knobs_def ready_def patient_def)
  have c: "counts k (rs @ [r]) (fst (note_outcome now r c))" by (rule counts_note_outcome) (rule assms(1))
  have b: "(if r = Inr True then cs_retry_min c else sv_backoff sv) = policy_backoff k (rs @ [r])"
    using assms(3) by (simp add: policy_backoff_step [OF k(1,2)] k(3))
  then have "session_wait (if r = Inr True then cs_retry_min c else sv_backoff sv) (fst (note_outcome now r c)) =
      policy_wait k (rs @ [r])"
    using c by (simp add: session_wait_def policy_wait_def needs_power_cycle_def counts_def has_knobs_def)
  with False b c k(4) show ?thesis
    by (simp add: after_session_def Let_def follows_def tracked_def tracks_def between_effects)
qed

lemma follows_end_session:
  assumes "counts k rs c" "ready sv c" "sv_backoff sv = next_backoff k rs"
  shows "follows k rs (end_session A script now session r sv c)"
proof -
  let ?d = "\<lambda>es. deliver now es (fst (clear_session now c))"
  have "follows k rs (after_session now r' sv (fst (?d es)))" for r' es
    by (rule follows_after_session) (simp_all add: assms ready_deliver ready_clear_session)
  then have "follows k rs (fst (after_session now r' sv (fst (?d es))),
      (snd (clear_session now c) @ snd (?d es)) @ snd (after_session now r' sv (fst (?d es))))" for r' es
    by (intro follows_prefix) simp_all
  then show ?thesis by (simp add: end_session_eq Let_def)
qed

lemma tracked_backoff:
  "tracked k rs c \<Longrightarrow> cs_supervisor c = Some sv \<Longrightarrow> sv_phase sv \<in> {Fetching, Starting, Streaming} \<Longrightarrow>
   sv_backoff sv = next_backoff k rs"
  by (auto simp: tracked_def tracks_def)

text \<open>Nothing but a stop starts the supervisor afresh.\<close>

fun stops :: "camera_event \<Rightarrow> bool" where
  "stops (Stop script) = True"
| "stops (Close script) = True"
| "stops _ = False"

lemma follows_step:
  assumes "camera_inv c" "tracked k rs c" "\<not> stops e"
  shows "follows k rs (camera_step N A c (e, now))"
proof -
  have t: "counts k rs c" using assms(2) by (simp add: tracked_def)
  have idle: "follows k rs (c, [])" by (rule follows_between [OF assms(2)]) simp_all
  have calm: ?thesis if "camera_step N A c (e, now) = r" "counts k rs (fst r) = counts k rs c"
    "cs_supervisor (fst r) = cs_supervisor c" "between (snd r)" for r
    using follows_between [OF assms(2), of r] that by simp
  have stay: "counts k rs c' = counts k rs c" if "cs_busy_refusals c' = cs_busy_refusals c" "has_knobs k c' = has_knobs k c" for c' :: "'a camera"
    using that by (simp add: counts_def)
  show ?thesis
  proof (cases e)
    case Start
    have "cs_retry_min c = kn_retry_min k" using t by (simp add: counts_def has_knobs_def)
    then show ?thesis
      using idle assms(2)
      by (cases "cs_supervisor c")
        (simp_all add: Start start_camera_def running_def next_round_def follows_def tracked_def tracks_def next_backoff_def counts_def has_knobs_def)
  next
    case Fetch
    show ?thesis
    proof (cases "\<exists>sv. cs_supervisor c = Some sv \<and> sv_phase sv = Fetching")
      case True
      then obtain sv where sv: "cs_supervisor c = Some sv" "sv_phase sv = Fetching" by blast
      have b: "sv_backoff sv = next_backoff k rs" by (rule tracked_backoff [OF assms(2) sv(1)]) (simp add: sv(2))
      have "follows k rs (after_session now r sv (c\<lparr>cs_client := w\<rparr>))" for r w
        by (rule follows_after_session [OF _ _ b]) (simp_all add: t camera_inv_ready [OF assms(1) sv(1)])
      moreover have "follows k rs (set_phase Starting (c\<lparr>cs_client := w, cs_session := Some s\<rparr>), [])" for w s
        using t by (simp add: follows_def tracked_def tracks_def sv b)
      ultimately show ?thesis by (simp add: Fetch sv run_fetch_def split: prod.split sum.split)
    qed (use idle in \<open>auto simp: Fetch split: option.split\<close>)
  next
    case (Begin x script)
    show ?thesis
    proof (cases "\<exists>sv s. cs_supervisor c = Some sv \<and> sv_phase sv = Starting \<and> cs_session c = Some s")
      case True
      then obtain sv s where sv: "cs_supervisor c = Some sv" "sv_phase sv = Starting" "cs_session c = Some s" by blast
      have b: "sv_backoff sv = next_backoff k rs" by (rule tracked_backoff [OF assms(2) sv(1)]) (simp add: sv(2))
      let ?d = "\<lambda>es s. deliver now es (c\<lparr>cs_session := Some s\<rparr>)"
      have "follows k rs (end_session A script now s' r sv (fst (?d es s)))" for s' r es s
        by (rule follows_end_session [OF _ _ b]) (simp_all add: t ready_deliver camera_inv_ready [OF assms(1) sv(1)])
      then have "follows k rs (fst (end_session A script now s' r sv (fst (?d es s))),
          snd (?d es s) @ snd (end_session A script now s' r sv (fst (?d es s))))" for s' r es s
        by (intro follows_prefix) simp_all
      moreover have "follows k rs (set_phase Streaming (fst (?d es s)), snd (?d es s) @ notify_state now c')" for es s and c' :: "'a camera"
        using t by (simp add: follows_def tracked_def tracks_def sv b between_effects)
      ultimately show ?thesis
        by (simp add: Begin sv run_start_eq Let_def split: sum.split)
    qed (use idle in \<open>auto simp: Begin split: option.split\<close>)
  next
    case (OnStream ev)
    show ?thesis
      by (rule calm [OF refl]) (simp_all add: OnStream on_stream_def case_prod_beta split: option.split phase.split)
  next
    case (SessionOver script)
    show ?thesis
    proof (cases "\<exists>sv s. cs_supervisor c = Some sv \<and> sv_phase sv = Streaming \<and> cs_session c = Some s")
      case True
      then obtain sv s where sv: "cs_supervisor c = Some sv" "sv_phase sv = Streaming" "cs_session c = Some s" by blast
      have b: "sv_backoff sv = next_backoff k rs" by (rule tracked_backoff [OF assms(2) sv(1)]) (simp add: sv(2))
      have "follows k rs (end_session A script now s r sv c)" for r
        by (rule follows_end_session [OF _ _ b]) (simp_all add: t camera_inv_ready [OF assms(1) sv(1)])
      then show ?thesis using idle by (simp add: SessionOver sv session_over_def split: option.split)
    qed (use idle in \<open>auto simp: SessionOver split: option.split\<close>)
  next
    case RetryDue
    show ?thesis
    proof (cases "\<exists>sv. cs_supervisor c = Some sv \<and> sv_phase sv = Waiting")
      case True
      then obtain sv where sv: "cs_supervisor c = Some sv" "sv_phase sv = Waiting" by blast
      then have "rs \<noteq> []" "sv_backoff sv = policy_backoff k rs" "\<not> cs_stop_requested c" "cs_retry_max c = kn_retry_max k"
        using assms(1,2) by (simp_all add: tracked_def tracks_def camera_inv_def counts_def has_knobs_def)
      then show ?thesis
        using t sv by (simp add: RetryDue retry_due_def next_round_def follows_def tracked_def tracks_def next_backoff_def)
    qed (use idle in \<open>auto simp: RetryDue split: option.split\<close>)
  next
    case (StallCheck script)
    show ?thesis
      by (rule calm [OF refl]) (simp_all add: StallCheck stall_check_eq Let_def split: option.split sum.split)
  next
    case (Subscribe v)
    show ?thesis
      by (rule calm [OF refl]) (auto simp: Subscribe subscribe_def between_def has_knobs_def intro!: stay split: option.split)
  next
    case (NextFrame v)
    show ?thesis
      by (rule calm [OF refl]) (auto simp: NextFrame next_frame_def between_def has_knobs_def intro!: stay split: list.split)
  next
    case (SetSensitivity x)
    show ?thesis
      by (rule calm [OF refl]) (auto simp: SetSensitivity set_motion_sensitivity_def case_prod_beta has_knobs_def intro!: stay)
  qed (use assms(3) in \<open>auto intro!: follows_between [OF assms(2)] stay simp: has_knobs_def unsubscribe_def add_state_listener_def remove_state_listener_def\<close>)
qed

lemma follows_run:
  assumes "camera_inv c" "tracked k rs c" "list_all (\<lambda>(e, now). \<not> stops e) es"
  shows "follows k rs (run (camera_step N A) c es)"
  using assms
proof (induction es arbitrary: c rs)
  case Nil
  then show ?case by (simp add: follows_def)
next
  case (Cons ev es)
  obtain e now where ev: "ev = (e, now)" by (cases ev)
  let ?r = "camera_step N A c ev"
  have r: "follows k rs ?r" using follows_step [OF Cons.prems(1,2)] Cons.prems(3) by (simp add: ev del: camera_step.simps)
  have "follows k (rs @ outcomes (snd ?r)) (run (camera_step N A) (fst ?r) es)"
    by (rule Cons.IH) (use r Cons.prems camera_step_inv in \<open>simp_all add: follows_def del: camera_step.simps\<close>)
  with r show ?case by (simp add: follows_def Let_def policy_waits_append del: camera_step.simps)
qed

section \<open>Properties\<close>

text \<open>
  C3: The waits of a camera follow its retry policy. However sessions end and whatever happens
  meanwhile, the waits the supervisor begins are the ones the policy reads off the outcomes: the
  minimum after a session that streamed, doubled for each one since up to the maximum, with the
  cooldown added, and the long wait while the busy refusals in a row reach the limit, which is
  also when the camera says it needs a power cycle. So every wait is the long one or lies between
  the minimum and the maximum.
\<close>

theorem retries_follow_policy:
  assumes "0 \<le> kn_retry_min k" "kn_retry_min k \<le> kn_retry_max k" "list_all (\<lambda>(e, now). \<not> stops e) es"
  shows "case run (camera_step N A) (new_camera client device key k) es of (c, effects) \<Rightarrow>
    retries effects = policy_waits k [] (outcomes effects) \<and>
    (needs_power_cycle c \<longleftrightarrow> kn_busy_refusal_limit k \<le> int (busy_run (outcomes effects))) \<and>
    list_all (\<lambda>w. w = kn_refused_retry_seconds k \<or>
      kn_retry_min k + kn_session_cooldown k \<le> w \<and> w \<le> kn_retry_max k + kn_session_cooldown k) (retries effects)"
proof -
  let ?r = "run (camera_step N A) (new_camera client device key k) es"
  have "tracked k [] (new_camera client device key k)"
    by (simp add: tracked_def counts_def has_knobs_new busy_run_simps) (simp add: new_camera_def)
  from follows_run [OF new_camera_inv [OF assms(1,2)] this assms(3)]
  have f: "follows k [] ?r" .
  have "list_all (\<lambda>w. w = kn_refused_retry_seconds k \<or>
      kn_retry_min k + kn_session_cooldown k \<le> w \<and> w \<le> kn_retry_max k + kn_session_cooldown k) (policy_waits k b rs)" for b rs
    using policy_wait_bounds [OF assms(1,2)] by (induction rs arbitrary: b) simp_all
  with f show ?thesis
    by (auto simp: follows_def tracked_def counts_def has_knobs_def needs_power_cycle_def split: prod.split)
qed

text \<open>A gateway that refuses every call leaves a camera of a known account waiting.\<close>

definition refusing_network :: "nat network" where
  "refusing_network = sample_network\<lparr>net_post := (\<lambda>url params n. (HttpText (refusal ''BUSY''), n))\<rparr>"

definition refused_config :: exn where
  "refused_config = GatewayError RTC_CONFIG_API ''BUSY'' ''request rejected''"

lemma refused_fetch:
  assumes "cl_account (cs_client c) = Some a"
  shows "\<exists>w. fetch_session refusing_network c = (Inl refused_config, w) \<and> cl_account w = Some a"
proof -
  have n: "gcm_laws (net_gcm refusing_network)" "\<forall>w. length (fst (net_nonce refusing_network w)) = 12"
    "answers refusing_network RTC_CONFIG_API (refusal ''BUSY'')"
    using sample_network_laws by (simp_all add: refusing_network_def answers_def)
  have "fst (fetch_stream_config refusing_network a (cs_device_id c) (cs_local_key c) (cl_gateway (cs_client c))) = Inl refused_config"
    using refused_call [OF n, of "''1.0''" "JObj [(''devId'', JStr (cs_device_id c))]" "Some a" "cl_gateway (cs_client c)"]
    by (auto simp: fetch_stream_config_def call_object_def bind_def refused_config_def split: prod.splits sum.splits)
  then obtain g where "fetch_stream_config refusing_network a (cs_device_id c) (cs_local_key c) (cl_gateway (cs_client c)) = (Inl refused_config, g)"
    by (cases "fetch_stream_config refusing_network a (cs_device_id c) (cs_local_key c) (cl_gateway (cs_client c))") simp
  from with_session_known [of "cs_client c" a "\<lambda>a. fetch_stream_config refusing_network a (cs_device_id c) (cs_local_key c)",
      OF assms this, of refusing_network] assms
  show ?thesis
    by (auto simp: fetch_session_def stream_config_with_session bind_def refused_config_def SESSION_EXPIRED_CODES_def)
qed

lemma after_session_client: "cs_client (fst (after_session now r sv c)) = cs_client c"
  using note_outcome_cases [of now r c]
  by (elim insertE emptyE) (simp_all add: after_session_def note_busy_refusal_def clear_busy_refusals_def Let_def)

lemma refused_turn:
  assumes "cl_account (cs_client c) = Some a"
  shows "outcomes (snd (run_fetch refusing_network now sv c)) = [Inl refused_config]"
    "cl_account (cs_client (fst (run_fetch refusing_network now sv c))) = Some a"
    "cs_supervisor (fst (run_fetch refusing_network now sv c)) = Some (sv\<lparr>sv_phase := Waiting\<rparr>)"
    "cs_stop_requested (fst (run_fetch refusing_network now sv c)) = cs_stop_requested c"
proof -
  obtain w where w: "fetch_session refusing_network c = (Inl refused_config, w)" "cl_account w = Some a"
    using refused_fetch [OF assms] by blast
  show "outcomes (snd (run_fetch refusing_network now sv c)) = [Inl refused_config]"
    by (simp add: run_fetch_def w after_session_def Let_def refused_config_def between_effects)
  show "cl_account (cs_client (fst (run_fetch refusing_network now sv c))) = Some a"
    "cs_supervisor (fst (run_fetch refusing_network now sv c)) = Some (sv\<lparr>sv_phase := Waiting\<rparr>)"
    "cs_stop_requested (fst (run_fetch refusing_network now sv c)) = cs_stop_requested c"
    by (simp_all add: run_fetch_def w after_session_client after_session_supervisor refused_config_def)
qed

definition sample_camera :: "nat camera" where
  "sample_camera = new_camera sample_client ''d'' ''k'' default_knobs"

lemma refused_rounds:
  "case run (camera_step refusing_network flip_cipher) sample_camera [(Start, 0), (Fetch, 1), (RetryDue, 9), (Fetch, 10)] of (c, effects) \<Rightarrow>
    outcomes effects = [Inl refused_config, Inl refused_config]"
proof -
  have a: "cl_account (cs_client (start_camera sample_camera)) = Some sample_account"
    by (simp add: sample_camera_def new_camera_def sample_client_def start_camera_def running_def next_round_def set_phase_def)
  let ?sv = "\<lparr>sv_phase = Fetching, sv_backoff = 3\<rparr>"
  have s: "cs_supervisor (start_camera sample_camera) = Some ?sv" "\<not> cs_stop_requested (start_camera sample_camera)"
    by (simp_all add: sample_camera_def new_camera_def default_knobs_def DEFAULT_RETRY_MIN_SECONDS_def
        start_camera_def running_def next_round_def set_phase_def)
  note c1 = refused_turn [OF a, of 1 ?sv]
  let ?c1 = "fst (run_fetch refusing_network 1 ?sv (start_camera sample_camera))"
  let ?c2 = "retry_due \<lparr>sv_phase = Waiting, sv_backoff = 3\<rparr> ?c1"
  have c2: "cl_account (cs_client ?c2) = Some sample_account" "\<exists>b. cs_supervisor ?c2 = Some \<lparr>sv_phase = Fetching, sv_backoff = b\<rparr>"
    using c1 s by (simp_all add: retry_due_def next_round_def set_phase_def)
  show ?thesis using s c1 c2(2) refused_turn(1) [OF c2(1)] by (auto simp: Let_def case_prod_beta)
qed

lemma retries_follow_policy_witness:
  "case run (camera_step refusing_network flip_cipher) sample_camera [(Start, 0), (Fetch, 1), (RetryDue, 9), (Fetch, 10)] of (c, effects) \<Rightarrow>
    retries effects = [8, 11] \<and> \<not> needs_power_cycle c"
proof -
  let ?k = "default_knobs" and ?es = "[(Start, 0), (Fetch, 1), (RetryDue, 9), (Fetch, 10)] :: (camera_event \<times> real) list"
  have "list_all (\<lambda>(e, now). \<not> stops e) ?es" by simp
  moreover have "0 \<le> kn_retry_min ?k" "kn_retry_min ?k \<le> kn_retry_max ?k"
    by (simp_all add: default_knobs_def DEFAULT_RETRY_MIN_SECONDS_def DEFAULT_RETRY_MAX_SECONDS_def)
  moreover have "policy_waits ?k [] [Inl refused_config, Inl refused_config] = [8, 11]"
    "\<not> kn_busy_refusal_limit ?k \<le> int (busy_run [Inl refused_config, Inl refused_config])"
    by (simp_all add: policy_wait_def policy_backoff_def doublings_def busy_run_def refused_config_def default_knobs_def
        DEFAULT_RETRY_MIN_SECONDS_def DEFAULT_RETRY_MAX_SECONDS_def DEFAULT_BUSY_REFUSAL_LIMIT_def
        DEFAULT_SESSION_COOLDOWN_SECONDS_def)
  ultimately show ?thesis
    using retries_follow_policy [of ?k ?es refusing_network flip_cipher sample_client "''d''" "''k''"] refused_rounds
    unfolding sample_camera_def by (auto simp del: run.simps camera_step.simps)
qed

end
