(* ===== verification/Camera_Viewers.thy ===== *)
theory Camera_Viewers
  imports Camera_Retries
begin

text \<open>
  What a consumer of the frames sees. The locale \<open>latest_queue\<close> is the contract of a bounded
  queue that drops its oldest item; what it serves to a reader is in order and never behind the
  latest items. The camera's queues meet it, and its runs serve every viewer.
\<close>

section \<open>A queue of the latest items\<close>

locale latest_queue =
  fixes put :: "'a \<Rightarrow> 'a list \<Rightarrow> 'a list" and capacity :: nat
  assumes put_latest: "length q \<le> capacity \<Longrightarrow> put x q = drop (Suc (length q) - capacity) (q @ [x])"
begin

text \<open>\<open>served q xs ys r\<close>: a reader of the queue \<open>q\<close>, into which \<open>xs\<close> was put,
  took \<open>ys\<close> and left \<open>r\<close>.\<close>

definition served :: "'a list \<Rightarrow> 'a list \<Rightarrow> 'a list \<Rightarrow> 'a list \<Rightarrow> bool" where
  "served q xs ys r \<longleftrightarrow> subseq (ys @ r) (q @ xs) \<and> suffix r (q @ xs) \<and> length r \<le> capacity"

lemma served_nothing: "length q \<le> capacity \<Longrightarrow> served q [] [] q"
  by (simp add: served_def)

lemma served_put:
  assumes "length q \<le> capacity"
  shows "served q [x] [] (put x q)"
proof -
  have "suffix (put x q) (q @ [x])" unfolding put_latest [OF assms] by (rule suffix_drop)
  moreover have "length (put x q) \<le> capacity" by (simp add: put_latest [OF assms])
  ultimately show ?thesis by (simp add: served_def suffix_imp_subseq)
qed

lemma served_get: "length (x # q) \<le> capacity \<Longrightarrow> served (x # q) [] [x] q"
  by (simp add: served_def suffix_def)

lemma served_trans:
  assumes "served q xs ys r" "served r xs' ys' r'"
  shows "served q (xs @ xs') (ys @ ys') r'"
proof -
  have "subseq (ys' @ r') (r @ xs')" "subseq (ys @ r) (q @ xs)" using assms by (simp_all add: served_def)
  then have "subseq (ys @ ys' @ r') (ys @ r @ xs')" by (simp only: subseq_append')
  moreover have "subseq ((ys @ r) @ xs') ((q @ xs) @ xs')" using \<open>subseq (ys @ r) (q @ xs)\<close> by (simp only: subseq_append)
  ultimately have "subseq (ys @ ys' @ r') (q @ xs @ xs')"
    using subseq_order.order_trans [of "ys @ ys' @ r'" "ys @ r @ xs'" "q @ xs @ xs'"] by simp
  moreover have "suffix (r @ xs') (q @ xs @ xs')" "suffix r' (r @ xs')"
    using assms by (simp_all add: served_def suffix_def)
  then have "suffix r' (q @ xs @ xs')" using suffix_order.order_trans by blast
  ultimately show ?thesis using assms(2) by (simp add: served_def)
qed

lemma served_bound: "served q xs ys r \<Longrightarrow> length r \<le> capacity"
  by (simp add: served_def)

end

lemma offer_frame_latest:
  "length q \<le> SUBSCRIBER_QUEUE_SIZE \<Longrightarrow>
   offer_frame f q = drop (Suc (length q) - SUBSCRIBER_QUEUE_SIZE) (q @ [f])"
  by (cases q rule: remdups_adj.cases) (auto simp: offer_frame_def SUBSCRIBER_QUEUE_SIZE_def Let_def)

interpretation viewer: latest_queue offer_frame SUBSCRIBER_QUEUE_SIZE
  by unfold_locales (rule offer_frame_latest)

section \<open>Traces\<close>

text \<open>The frames the session published, and those a viewer was yielded.\<close>

fun published :: "camera_effect list \<Rightarrow> bytes list" where
  "published [] = []"
| "published (Session (Frame f) # es) = f # published es"
| "published (_ # es) = published es"

fun yields :: "nat \<Rightarrow> camera_effect list \<Rightarrow> bytes list" where
  "yields v [] = []"
| "yields v (Yielded u f # es) = (if u = v then f # yields v es else yields v es)"
| "yields v (_ # es) = yields v es"

lemma published_append [simp]: "published (es @ fs) = published es @ published fs"
  by (induction es rule: published.induct) simp_all

lemma yields_append [simp]: "yields v (es @ fs) = yields v es @ yields v fs"
  by (induction v es rule: yields.induct) simp_all

lemma notified_unseen: "only_notified es \<Longrightarrow> published es = [] \<and> yields v es = []"
proof (induction es)
  case (Cons e es)
  then show ?case by (cases e) simp_all
qed simp

definition unseen :: "camera_effect list \<Rightarrow> bool" where
  "unseen es \<longleftrightarrow> published es = [] \<and> (\<forall>v. yields v es = [])"

lemma unseen_notified: "only_notified es \<Longrightarrow> unseen es"
  using notified_unseen by (simp add: unseen_def)

lemma unseen_after_session: "unseen (snd (after_session now r sv c))"
  using unseen_notified [OF only_notified_outcome, of now r c]
  by (simp add: after_session_def Let_def unseen_def)

section \<open>Every operation serves a viewer\<close>

text \<open>A queue that is not in the set is only emptied.\<close>

definition serves :: "nat \<Rightarrow> 'w camera \<Rightarrow> 'w camera \<times> camera_effect list \<Rightarrow> bool" where
  "serves v c r \<longleftrightarrow> cs_subscribers (fst r) = cs_subscribers c \<and> length (cs_queues (fst r) v) \<le> SUBSCRIBER_QUEUE_SIZE \<and>
     (if v \<in> set (cs_subscribers c)
      then viewer.served (cs_queues c v) (published (snd r)) (yields v (snd r)) (cs_queues (fst r) v)
      else yields v (snd r) @ cs_queues (fst r) v = cs_queues c v)"

lemma serves_seq: "serves v c r \<Longrightarrow> serves v (fst r) q \<Longrightarrow> serves v c (fst q, snd r @ snd q)"
  using viewer.served_trans by (auto simp: serves_def)

lemma serves_bound: "serves v c r \<Longrightarrow> length (cs_queues (fst r) v) \<le> SUBSCRIBER_QUEUE_SIZE"
  by (simp add: serves_def)

lemma serves_unseen:
  "cs_subscribers (fst r) = cs_subscribers c \<Longrightarrow> cs_queues (fst r) v = cs_queues c v \<Longrightarrow> unseen (snd r) \<Longrightarrow>
   length (cs_queues c v) \<le> SUBSCRIBER_QUEUE_SIZE \<Longrightarrow> serves v c r"
  using viewer.served_nothing [of "cs_queues c v"] by (simp add: serves_def unseen_def)

lemma serves_cong:
  "serves v c' r \<Longrightarrow> cs_subscribers c' = cs_subscribers c \<Longrightarrow> cs_queues c' v = cs_queues c v \<Longrightarrow> serves v c r"
  by (simp add: serves_def split: if_splits)

lemma serves_then:
  "serves v c r \<Longrightarrow> cs_subscribers c' = cs_subscribers (fst r) \<Longrightarrow> cs_queues c' v = cs_queues (fst r) v \<Longrightarrow> unseen es \<Longrightarrow>
   serves v c (c', snd r @ es)"
  by (simp add: serves_def unseen_def)

lemma serves_deliver:
  assumes "length (cs_queues c v) \<le> SUBSCRIBER_QUEUE_SIZE"
  shows "serves v c (deliver now es c)"
  using assms
proof (induction now es c rule: deliver.induct)
  case (1 now c)
  then show ?case by (intro serves_unseen) (simp_all add: unseen_def)
next
  case (2 now f es c)
  let ?r = "on_frame now f c"
  have s: "serves v c (fst ?r, Session (Frame f) # snd ?r)"
    using 2(2) viewer.served_put [of "cs_queues c v" f] offer_frame_length unseen_notified [OF only_notified_operations(1), of now f c]
    by (simp add: serves_def unseen_def)
  have "serves v (fst ?r) (deliver now es (fst ?r))"
    by (rule 2(1) [OF refl]) (use serves_bound [OF s] in simp_all)
  from serves_seq [OF s, of "deliver now es (fst ?r)"] this show ?case by (simp add: Let_def)
qed (simp_all add: Let_def serves_def)

lemma serves_end_session:
  assumes "length (cs_queues c v) \<le> SUBSCRIBER_QUEUE_SIZE"
  shows "serves v c (end_session A script now session r sv c)"
proof -
  have s: "serves v c (clear_session now c)"
    by (rule serves_unseen) (simp_all add: unseen_notified assms)
  have d: "serves v (fst (clear_session now c)) (deliver now es (fst (clear_session now c)))" for es
    by (rule serves_deliver) (simp_all add: assms)
  have a: "serves v (fst (deliver now es (fst (clear_session now c))))
      (after_session now r' sv (fst (deliver now es (fst (clear_session now c)))))" for es r'
    by (rule serves_unseen) (simp_all add: unseen_after_session serves_bound [OF d])
  show ?thesis
    using serves_seq [OF s serves_seq [OF d a]] by (simp add: end_session_eq Let_def)
qed

lemma serves_run_start:
  assumes "length (cs_queues c v) \<le> SUBSCRIBER_QUEUE_SIZE"
  shows "serves v c (run_start A x script now session sv c)"
proof -
  have d: "serves v c (deliver now es (c\<lparr>cs_session := s\<rparr>))" for es s
    by (rule serves_cong [OF serves_deliver]) (simp_all add: assms)
  show ?thesis
  proof (cases "snd (snd (start A x session))")
    case (Inl e)
    show ?thesis
      unfolding run_start_eq Let_def Inl sum.case
      by (rule serves_seq [OF d serves_end_session]) (use assms serves_bound [OF d] in simp_all)
  next
    case (Inr u)
    show ?thesis
      unfolding run_start_eq Let_def Inr sum.case
      by (rule serves_then [OF d]) (simp_all add: unseen_notified)
  qed
qed

lemma serves_interrupt:
  assumes "length (cs_queues c v) \<le> SUBSCRIBER_QUEUE_SIZE"
  shows "serves v c (interrupt_start A x script now session sv c)"
proof -
  have d: "serves v c (deliver now es (c\<lparr>cs_session := s\<rparr>))" for es s
    by (rule serves_cong [OF serves_deliver]) (simp_all add: assms)
  have n: "serves v c (fst (deliver now es (c\<lparr>cs_session := s\<rparr>)),
      snd (deliver now es (c\<lparr>cs_session := s\<rparr>)) @
        (if b then notify_state now (fst (deliver now es (c\<lparr>cs_session := s\<rparr>))) else []))" for es s b
    by (cases b; rule serves_then [OF d]) (simp_all add: unseen_notified unseen_def [of "[]"])
  show ?thesis
    using serves_seq [OF n serves_end_session] serves_bound [OF d]
    by (simp add: interrupt_start_eq Let_def)
qed

lemma serves_cancel:
  assumes "length (cs_queues c v) \<le> SUBSCRIBER_QUEUE_SIZE"
  shows "serves v c (cancel_supervisor A script now sv c)"
proof -
  have "serves v c (set_phase p c, [])" "serves v c (c, [])" for p
    by (rule serves_unseen; simp add: unseen_def assms)+
  moreover have "serves v c (settle_stopped (fst q), snd q)" if "serves v c q" for q
    using that by (simp add: serves_def)
  ultimately show ?thesis
    using serves_end_session [OF assms] serves_interrupt [OF assms]
    by (auto simp: cancel_supervisor_eq Let_def split: phase.split option.split)
qed

lemma serves_stop:
  assumes "camera_inv c"
  shows "serves v c (stop_camera A script now c)"
proof (cases "cs_supervisor c")
  have l: "length (cs_queues c v) \<le> SUBSCRIBER_QUEUE_SIZE" using assms by (simp add: camera_inv_def viewers_ok_def)
  {
    case None
    then show ?thesis by (intro serves_unseen) (simp_all add: stop_camera_eq unseen_def l)
  next
    case (Some sv)
    let ?q = "cancel_supervisor A script now sv (c\<lparr>cs_stop_requested := True\<rparr>)"
    have q: "serves v c ?q" by (rule serves_cong [OF serves_cancel]) (simp_all add: assms l)
    have s: "cs_session (fst ?q) = None"
      by (rule cancel_session) (use assms Some in \<open>simp add: camera_inv_def\<close>)
    have "serves v (fst ?q) (release_camera A (snd script) now (fst ?q))"
      by (rule serves_unseen) (simp_all add: release_idle [OF s] Let_def unseen_notified serves_bound [OF q])
    from serves_seq [OF q this] show ?thesis by (simp add: stop_camera_eq Some Let_def)
  }
qed

lemma serves_stall_check:
  assumes "length (cs_queues c v) \<le> SUBSCRIBER_QUEUE_SIZE"
  shows "serves v c (stall_check A script now c)"
proof -
  let ?m = "with_motion now (poll now) c"
  have m: "serves v c ?m" by (rule serves_unseen) (simp_all add: unseen_notified assms)
  have d: "serves v (fst ?m) (deliver now es ((fst ?m)\<lparr>cs_session := s\<rparr>))" for es s
    by (rule serves_cong [OF serves_deliver]) (simp_all add: assms)
  note md = serves_seq [OF m d]
  show ?thesis
  proof (cases "cs_session c")
    case None
    then show ?thesis by (simp add: stall_check_eq Let_def m)
  next
    case (Some s)
    show ?thesis
      using m md by (auto simp: stall_check_eq Let_def Some serves_def split: sum.split)
  qed
qed

text \<open>A viewer keeps its queue as long as it is not the one that comes, goes or is dropped.\<close>

fun keeps_viewer :: "nat \<Rightarrow> camera_event \<Rightarrow> bool" where
  "keeps_viewer v (Subscribe u) \<longleftrightarrow> u \<noteq> v"
| "keeps_viewer v (Unsubscribe u) \<longleftrightarrow> u \<noteq> v"
| "keeps_viewer v (Close script) \<longleftrightarrow> False"
| "keeps_viewer v _ \<longleftrightarrow> True"

lemma serves_step:
  assumes "camera_inv c" "if v \<in> set (cs_subscribers c) then keeps_viewer v e else e \<noteq> Subscribe v"
  shows "(v \<in> set (cs_subscribers (fst (camera_step N A c (e, now)))) \<longleftrightarrow> v \<in> set (cs_subscribers c)) \<and>
    (if v \<in> set (cs_subscribers c)
     then viewer.served (cs_queues c v) (published (snd (camera_step N A c (e, now))))
       (yields v (snd (camera_step N A c (e, now)))) (cs_queues (fst (camera_step N A c (e, now))) v)
     else yields v (snd (camera_step N A c (e, now))) @ cs_queues (fst (camera_step N A c (e, now))) v = cs_queues c v)"
proof -
  have l: "length (cs_queues c v) \<le> SUBSCRIBER_QUEUE_SIZE" using assms(1) by (simp add: camera_inv_def viewers_ok_def)
  have served: ?thesis if "serves v c (camera_step N A c (e, now))"
    using that by (simp add: serves_def)
  have idle: "serves v c (c', [])" if "cs_subscribers c' = cs_subscribers c" "cs_queues c' v = cs_queues c v" for c' :: "'a camera"
    by (rule serves_unseen) (simp_all add: that unseen_def l)
  show ?thesis
  proof (cases e)
    case Start
    show ?thesis by (rule served) (auto simp: Start start_camera_def intro!: idle)
  next
    case (Stop script)
    show ?thesis by (rule served) (simp add: Stop serves_stop [OF assms(1)])
  next
    case (Close script)
    have "v \<notin> set (cs_subscribers c)" using assms(2) Close by (simp split: if_splits)
    then show ?thesis
      using serves_stop [OF assms(1), of v A script now] by (simp add: Close close_camera_def case_prod_beta serves_def)
  next
    case Fetch
    have "serves v c (after_session now r sv (c\<lparr>cs_client := k\<rparr>))" for r sv k
      by (rule serves_unseen) (simp_all add: unseen_after_session l)
    then show ?thesis
      by (intro served) (auto simp: Fetch run_fetch_def intro!: idle split: option.split prod.split sum.split)
  next
    case (Begin x script)
    show ?thesis by (rule served) (auto simp: Begin serves_run_start [OF l] intro!: idle split: option.split)
  next
    case (OnStream ev)
    have "serves v c (deliver now es (c\<lparr>cs_session := s\<rparr>))" for es s
      by (rule serves_cong [OF serves_deliver]) (simp_all add: l)
    then show ?thesis
      by (intro served) (auto simp: OnStream on_stream_def case_prod_beta intro!: idle split: option.split phase.split)
  next
    case (SessionOver script)
    show ?thesis
      by (rule served) (auto simp: SessionOver session_over_def serves_end_session [OF l] intro!: idle split: option.split)
  next
    case RetryDue
    show ?thesis by (rule served) (auto simp: RetryDue intro!: idle split: option.split)
  next
    case (StallCheck script)
    have "serves v c (stall_check A script now c)" by (rule serves_stall_check [OF l])
    then show ?thesis by (intro served) (simp add: StallCheck idle)
  next
    case (NextFrame u)
    show ?thesis
      by (rule served)
        (use l viewer.served_get in \<open>auto simp: NextFrame next_frame_def serves_def viewer.served_nothing split: list.split\<close>)
  next
    case (SetSensitivity x)
    have "serves v c (set_motion_sensitivity now x c)"
      by (rule serves_unseen) (simp_all add: unseen_notified l, simp_all add: set_motion_sensitivity_def case_prod_beta)
    then show ?thesis by (intro served) (simp add: SetSensitivity)
  qed (use assms(2) l in \<open>auto simp: subscribe_def unsubscribe_def add_state_listener_def remove_state_listener_def
      viewer.served_nothing split: option.split if_splits\<close>)
qed

lemma serves_camera:
  assumes "camera_inv c" "v \<in> set (cs_subscribers c)" "list_all (\<lambda>(e, now). keeps_viewer v e) es"
  shows "case run (camera_step N A) c es of (c', effects) \<Rightarrow>
    viewer.served (cs_queues c v) (published effects) (yields v effects) (cs_queues c' v)"
  using assms
proof (induction es arbitrary: c)
  case Nil
  then show ?case by (simp add: viewer.served_nothing camera_inv_def viewers_ok_def)
next
  case (Cons ev es)
  obtain e now where ev: "ev = (e, now)" by (cases ev)
  have k: "keeps_viewer v e" "list_all (\<lambda>(e, now). keeps_viewer v e) es" using Cons.prems(3) by (simp_all add: ev)
  have s: "v \<in> set (cs_subscribers (fst (camera_step N A c (e, now))))"
    "viewer.served (cs_queues c v) (published (snd (camera_step N A c (e, now))))
       (yields v (snd (camera_step N A c (e, now)))) (cs_queues (fst (camera_step N A c (e, now))) v)"
    using serves_step [of c v e N A now] Cons.prems(1,2) k(1) by (simp_all del: camera_step.simps)
  show ?case
    using Cons.IH [OF camera_step_inv [OF Cons.prems(1)] s(1) k(2)] viewer.served_trans [OF s(2)]
    by (simp add: ev Let_def case_prod_beta del: camera_step.simps)
qed

lemma drains_camera:
  assumes "camera_inv c" "v \<notin> set (cs_subscribers c)" "list_all (\<lambda>(e, now). e \<noteq> Subscribe v) es"
  shows "case run (camera_step N A) c es of (c', effects) \<Rightarrow> yields v effects @ cs_queues c' v = cs_queues c v"
  using assms
proof (induction es arbitrary: c)
  case Nil
  then show ?case by simp
next
  case (Cons ev es)
  obtain e now where ev: "ev = (e, now)" by (cases ev)
  have k: "e \<noteq> Subscribe v" "list_all (\<lambda>(e, now). e \<noteq> Subscribe v) es" using Cons.prems(3) by (simp_all add: ev)
  have s: "v \<notin> set (cs_subscribers (fst (camera_step N A c (e, now))))"
    "yields v (snd (camera_step N A c (e, now))) @ cs_queues (fst (camera_step N A c (e, now))) v = cs_queues c v"
    using serves_step [of c v e N A now] Cons.prems(1,2) k(1) by (simp_all del: camera_step.simps)
  show ?case
    using Cons.IH [OF camera_step_inv [OF Cons.prems(1)] s(1) k(2)] s(2)
    by (simp add: ev Let_def case_prod_beta del: camera_step.simps)
qed

section \<open>Properties\<close>

lemma served_by_camera:
  "viewer.served q xs ys r \<longleftrightarrow> subseq (ys @ r) (q @ xs) \<and> suffix r (q @ xs) \<and> length r \<le> 2"
  unfolding viewer.served_def by (simp add: SUBSCRIBER_QUEUE_SIZE_def)

text \<open>
  C11: A slow viewer skips ahead. Whatever happens to a camera after a viewer came, sessions that
  start, stall and end, frames of several sessions, other viewers: what the viewer was yielded
  and what still waits for it is a part of the frame it found and the frames published since, in
  their order, and what waits is the last of them, two at most. So a viewer misses frames only by
  being more than two behind, and never goes back.
\<close>

theorem viewer_skips_ahead:
  assumes "camera_inv c" "list_all (\<lambda>(e, now). keeps_viewer v e) es"
  shows "case run (camera_step N A) c ((Subscribe v, t) # es) of (c', effects) \<Rightarrow>
    subseq (yields v effects @ cs_queues c' v) ((case cs_last_frame c of None \<Rightarrow> [] | Some f \<Rightarrow> [f]) @ published effects) \<and>
    suffix (cs_queues c' v) (published effects) \<and> length (cs_queues c' v) \<le> 2"
proof -
  let ?c = "fst (subscribe v c)"
  have "camera_inv ?c" using camera_step_inv [OF assms(1), of N A "(Subscribe v, t)"] by simp
  moreover have "v \<in> set (cs_subscribers ?c)" "cs_queues ?c v = []" by (simp_all add: subscribe_def)
  ultimately have "case run (camera_step N A) ?c es of (c', effects) \<Rightarrow>
      viewer.served [] (published effects) (yields v effects) (cs_queues c' v)"
    using serves_camera [of ?c v es N A] assms(2) by simp
  moreover have "yields v (snd (subscribe v c)) = (case cs_last_frame c of None \<Rightarrow> [] | Some f \<Rightarrow> [f])"
    "published (snd (subscribe v c)) = []"
    by (simp_all add: subscribe_def split: option.split)
  ultimately show ?thesis
    by (auto simp: Let_def served_by_camera split: prod.splits option.splits)
qed

lemma viewer_skips_ahead_witness:
  "case run (camera_step refusing_network flip_cipher) (sample_camera\<lparr>cs_last_frame := Some [1]\<rparr>)
     [(Subscribe 7, 0), (Start, 1), (NextFrame 7, 3)] of (c', effects) \<Rightarrow>
   yields 7 effects = [[1]] \<and> subseq (yields 7 effects @ cs_queues c' 7) ([1] # published effects)"
proof -
  let ?c = "sample_camera\<lparr>cs_last_frame := Some [1]\<rparr>"
  have i: "camera_inv ?c"
    by (simp add: sample_camera_def new_camera_def camera_inv_def viewers_ok_def patient_def default_knobs_def
        DEFAULT_RETRY_MIN_SECONDS_def DEFAULT_RETRY_MAX_SECONDS_def)
  have "case run (camera_step refusing_network flip_cipher) ?c
     [(Subscribe 7, 0), (Start, 1), (NextFrame 7, 3)] of (c', effects) \<Rightarrow> yields 7 effects = [[1]]"
    by (simp add: Let_def case_prod_beta next_frame_def subscribe_def start_camera_def split: list.split)
  then show ?thesis
    using viewer_skips_ahead [OF i, of 7 "[(Start, 1), (NextFrame 7, 3)]" refusing_network flip_cipher 0]
    by (simp add: case_prod_beta sample_camera_def)
qed

end
