(* ===== verification/Camera_Ends.thy ===== *)
theory Camera_Ends
  imports Camera_Viewers
begin

text \<open>
  What a camera promises its consumers, and where it does not keep it: its well-formedness, what
  the listeners are told, what a stop leaves behind, how a stall is ended, and the ways a
  cancelled start, a late frame and a close go wrong.
\<close>

section \<open>The clock\<close>

lemma timely_cong: "timely now c \<Longrightarrow> cs_last_frame_at c' = cs_last_frame_at c \<Longrightarrow> timely now c'"
  by (simp add: timely_def)

lemma timely_updates [simp]:
  "timely now (set_phase p c) = timely now c" "timely now (settle_stopped c) = timely now c"
  "timely now (c\<lparr>cs_stall := x\<rparr>) = timely now c" "timely now (c\<lparr>cs_client := k\<rparr>) = timely now c"
  "timely now (c\<lparr>cs_subscribers := vs, cs_state_listeners := ls\<rparr>) = timely now c"
  "timely now (fst (after_session now r sv c)) = timely now c"
  "timely now (fst (with_motion now f c)) = timely now c"
  by (simp_all add: timely_def)

lemma timely_end_session:
  assumes "0 < now"
  shows "timely now (fst (end_session A script now session r sv c))"
proof -
  have "timely now (fst (clear_session now c))" using assms by (simp add: timely_def)
  then show ?thesis
    by (simp add: end_session_eq Let_def timely_deliver)
qed

lemma timely_run_start:
  assumes "timely now c"
  shows "timely now (fst (run_start A x script now session sv c))"
proof -
  have n: "0 < now" using assms by (simp add: timely_def)
  have "timely now (fst (deliver now es (c\<lparr>cs_session := s\<rparr>)))" for es s by (rule timely_deliver) (simp add: assms)
  then show ?thesis
    by (simp add: run_start_eq Let_def timely_end_session [OF n] split: sum.split)
qed

lemma timely_cancel:
  assumes "timely now c"
  shows "timely now (fst (cancel_supervisor A script now sv c))"
proof -
  have n: "0 < now" using assms by (simp add: timely_def)
  have "timely now (fst (interrupt_start A x script now s sv c))" for x script s
    by (simp add: interrupt_start_eq Let_def timely_end_session [OF n])
  then show ?thesis
    using assms by (simp add: cancel_supervisor_eq Let_def timely_end_session [OF n] split: phase.split option.split)
qed

lemma timely_stop:
  assumes "camera_inv c" "timely now c"
  shows "timely now (fst (stop_camera A script now c))"
proof (cases "cs_supervisor c")
  case None
  then show ?thesis by (simp add: stop_camera_eq assms)
next
  case (Some sv)
  let ?q = "cancel_supervisor A script now sv (c\<lparr>cs_stop_requested := True\<rparr>)"
  have "cs_session (fst ?q) = None"
    by (rule cancel_session) (use assms(1) Some in \<open>simp add: camera_inv_def\<close>)
  with assms(2) show ?thesis by (simp add: stop_camera_eq Some Let_def release_idle timely_def)
qed

lemma timely_stall_check:
  assumes "timely now c"
  shows "timely now (fst (stall_check A script now c))"
proof -
  have "timely now (fst (deliver now es ((fst (with_motion now (poll now) c))\<lparr>cs_session := s\<rparr>)))" for es s
    by (rule timely_deliver) (simp add: assms)
  then show ?thesis
    using assms by (simp add: stall_check_eq Let_def split: option.split sum.split)
qed

lemma timely_step:
  assumes "camera_inv c" "timely now c"
  shows "timely now (fst (camera_step N A c (e, now)))"
proof -
  have n: "0 < now" using assms(2) by (simp add: timely_def)
  note same = timely_cong [OF assms(2)]
  have d: "timely now (fst (deliver now es (c\<lparr>cs_session := s\<rparr>)))" for es s
    by (rule timely_deliver) (simp add: assms(2))
  show ?thesis
  proof (cases e)
    case (Stop script)
    then show ?thesis by (simp add: timely_stop [OF assms])
  next
    case (Close script)
    then show ?thesis
      by (simp add: close_camera_def case_prod_beta timely_stop [OF assms])
  next
    case (Begin x script)
    then show ?thesis using assms(2) by (simp add: timely_run_start split: option.split)
  next
    case (OnStream ev)
    then show ?thesis using assms(2) d by (simp add: on_stream_def case_prod_beta split: option.split phase.split)
  next
    case (SessionOver script)
    then show ?thesis using assms(2) by (simp add: session_over_def timely_end_session [OF n] split: option.split)
  next
    case (StallCheck script)
    then show ?thesis using assms(2) by (simp add: timely_stall_check)
  next
    case Fetch
    then show ?thesis by (auto simp: run_fetch_def intro!: same split: option.split prod.split sum.split)
  qed (auto simp: start_camera_def subscribe_def next_frame_def unsubscribe_def add_state_listener_def
      remove_state_listener_def set_motion_sensitivity_def case_prod_beta intro!: same split: option.split list.split)
qed

section \<open>Listeners over a run\<close>

fun keeps_listener :: "nat \<Rightarrow> camera_event \<Rightarrow> bool" where
  "keeps_listener l (RemoveListener k) \<longleftrightarrow> k \<noteq> l"
| "keeps_listener l (Close script) \<longleftrightarrow> False"
| "keeps_listener l _ \<longleftrightarrow> True"

text \<open>A display that is current but for a stream that went quiet since.\<close>

definition current :: "real \<Rightarrow> 'w camera \<Rightarrow> display \<Rightarrow> bool" where
  "current now c d \<longleftrightarrow> dp_motion d = motion_detected c \<and> dp_needs_power_cycle d = needs_power_cycle c \<and>
     (dp_streaming d \<or> \<not> streaming now c)"

lemma current_later: "current t c d \<Longrightarrow> t \<le> now \<Longrightarrow> current now c d"
  by (auto simp: current_def streaming_def)

lemma current_displayed: "current now c (displayed now c)"
  by (auto simp: current_def displayed_def)

lemma current_cong: "current now c d \<Longrightarrow> displayed now c' = displayed now c \<Longrightarrow> current now c' d"
  by (simp add: current_def displayed_def)

lemma last_shown_told: "(\<exists>d'. \<forall>d. last_shown l d es = d') \<or> (\<forall>d. last_shown l d es = d)"
proof (induction es)
  case (Cons e es)
  then show ?case by (cases e) auto
qed simp

lemma current_step:
  assumes "camera_inv c" "timely now c" "l \<in> set (cs_state_listeners c)" "current now c d"
  shows "current now (fst (camera_step N A c (e, now))) (last_shown l d (snd (camera_step N A c (e, now))))"
proof -
  let ?r = "camera_step N A c (e, now)"
  have s: "last_shown l (displayed now c) (snd ?r) = displayed now (fst ?r)"
    by (rule step_shown [OF assms(1-3)])
  from last_shown_told [of l "snd ?r"] show ?thesis
  proof
    assume "\<exists>d'. \<forall>d. last_shown l d (snd ?r) = d'"
    then show ?thesis using s current_displayed by metis
  next
    assume "\<forall>d. last_shown l d (snd ?r) = d"
    with s assms(4) show ?thesis by (metis current_cong)
  qed
qed

lemma keeps_listener_step:
  assumes "camera_inv c" "timely now c" "keeps_listener l e" "l \<in> set (cs_state_listeners c)"
  shows "l \<in> set (cs_state_listeners (fst (camera_step N A c (e, now))))"
proof (cases "changes_listeners e")
  case False
  then show ?thesis using step_tells [OF assms(1,2) False, of N A] assms(4) by (simp add: tells_def)
next
  case True
  then show ?thesis
    using assms(3,4) by (cases e) (auto simp: add_state_listener_def remove_state_listener_def)
qed

text \<open>The time the clock shows behind a run.\<close>

fun clock_after :: "real \<Rightarrow> ('a \<times> real) list \<Rightarrow> real" where
  "clock_after t [] = t"
| "clock_after t ((e, now) # es) = clock_after now es"

lemma current_run:
  assumes "camera_inv c" "timely t c" "clock_sorted t es" "l \<in> set (cs_state_listeners c)" "current t c d"
    and "list_all (\<lambda>(e, now). keeps_listener l e) es"
  shows "case run (camera_step N A) c es of (c', effects) \<Rightarrow> current (clock_after t es) c' (last_shown l d effects)"
  using assms
proof (induction es arbitrary: c t d)
  case Nil
  then show ?case by simp
next
  case (Cons ev es)
  obtain e now where ev: "ev = (e, now)" by (cases ev)
  have now: "t \<le> now" "clock_sorted now es" using Cons.prems(3) by (simp_all add: ev)
  have c: "timely now c" "current now c d"
    using Cons.prems(2,5) now(1) current_later by (auto simp: timely_def)
  let ?r = "camera_step N A c (e, now)"
  have "case run (camera_step N A) (fst ?r) es of (c', effects) \<Rightarrow>
      current (clock_after now es) c' (last_shown l (last_shown l d (snd ?r)) effects)"
    by (rule Cons.IH [OF camera_step_inv [OF Cons.prems(1)] timely_step [OF Cons.prems(1) c(1)] now(2)
          keeps_listener_step [OF Cons.prems(1) c(1) _ Cons.prems(4)] current_step [OF Cons.prems(1) c(1) Cons.prems(4) c(2)]])
      (use Cons.prems(6) in \<open>simp_all add: ev\<close>)
  then show ?case by (simp add: ev Let_def case_prod_beta del: camera_step.simps)
qed

section \<open>What the session does\<close>

fun session_effects :: "camera_effect list \<Rightarrow> stream_effect list" where
  "session_effects [] = []"
| "session_effects (Session e # es) = e # session_effects es"
| "session_effects (_ # es) = session_effects es"

lemma session_effects_append [simp]: "session_effects (es @ fs) = session_effects es @ session_effects fs"
  by (induction es rule: session_effects.induct) simp_all

lemma notified_no_session: "only_notified es \<Longrightarrow> session_effects es = [] \<and> \<not> list_ex stop_failed es"
proof (induction es)
  case (Cons e es)
  then show ?case by (cases e) simp_all
qed simp

lemmas no_session_effects = only_notified_state [THEN notified_no_session] only_notified_motion [THEN notified_no_session]
  only_notified_operations [THEN notified_no_session] only_notified_outcome [THEN notified_no_session]

lemma deliver_session_effects: "session_effects (snd (deliver now es c)) = es \<and> \<not> list_ex stop_failed (snd (deliver now es c))"
  by (induction now es c rule: deliver.induct) (simp_all add: Let_def no_session_effects)

lemma after_session_no_session:
  "session_effects (snd (after_session now r sv c)) = [] \<and> \<not> list_ex stop_failed (snd (after_session now r sv c))"
  by (simp add: after_session_def Let_def no_session_effects)

lemma after_session_ended:
  "\<not> cs_stop_requested c \<Longrightarrow> outcomes (snd (after_session now (Inr b) sv c)) = [Inr b] \<and>
     length (retries (snd (after_session now (Inr b) sv c))) = 1"
  by (simp add: after_session_def Let_def between_effects)

lemma end_session_effects:
  "session_effects (snd (end_session A script now session r sv c)) = fst (snd (close_stream A (fst script) (snd script) session)) \<and>
   \<not> list_ex stop_failed (snd (end_session A script now session r sv c))"
  by (simp add: end_session_eq Let_def no_session_effects deliver_session_effects after_session_no_session)

text \<open>The session a stop closes, behind what a start that is under way has done of it.\<close>

definition interrupted_session :: "cipher \<Rightarrow> start_script \<Rightarrow> 'w camera \<Rightarrow> (stream \<times> stream_effect list) option" where
  "interrupted_session A x c =
     (case cs_session c of
        None \<Rightarrow> None
      | Some session \<Rightarrow>
          Some (if phase_of c = Some Starting then (case start A x session of (s1, es, r) \<Rightarrow> (s1, es)) else (session, [])))"

definition stop_effects :: "cipher \<Rightarrow> stop_script \<Rightarrow> 'w camera \<Rightarrow> stream_effect list" where
  "stop_effects A script c =
     (case interrupted_session A (fst script) c of
        None \<Rightarrow> []
      | Some (session, es) \<Rightarrow> es @ fst (snd (close_stream A (fst (snd script)) (snd (snd script)) session)))"

lemma stop_flag_effects [simp]: "stop_effects A script (c\<lparr>cs_stop_requested := b\<rparr>) = stop_effects A script c"
  by (simp add: stop_effects_def interrupted_session_def phase_of_def split: option.split)

lemma interrupt_effects:
  "session_effects (snd (interrupt_start A x script now session sv c)) =
     (case start A x session of (s1, es, r) \<Rightarrow> es @ fst (snd (close_stream A (fst script) (snd script) s1))) \<and>
   \<not> list_ex stop_failed (snd (interrupt_start A x script now session sv c))"
  by (simp add: interrupt_start_eq Let_def case_prod_beta deliver_session_effects no_session_effects end_session_effects)

lemma cancel_effects:
  assumes "cs_session c \<noteq> None \<longleftrightarrow> sv_phase sv \<in> {Starting, Streaming}" "cs_supervisor c = Some sv"
  shows "session_effects (snd (cancel_supervisor A script now sv c)) = stop_effects A script c \<and>
    \<not> list_ex stop_failed (snd (cancel_supervisor A script now sv c))"
  using assms
  by (auto simp: cancel_supervisor_eq Let_def end_session_effects interrupt_effects stop_effects_def interrupted_session_def
      phase_of_def case_prod_beta split: phase.split option.split)

lemma stop_camera_effects:
  assumes "camera_inv c"
  shows "session_effects (snd (stop_camera A script now c)) = stop_effects A script c \<and>
    \<not> list_ex stop_failed (snd (stop_camera A script now c))"
proof (cases "cs_supervisor c")
  case None
  then show ?thesis using assms by (simp add: stop_camera_eq camera_inv_def stop_effects_def interrupted_session_def)
next
  case (Some sv)
  let ?q = "cancel_supervisor A script now sv (c\<lparr>cs_stop_requested := True\<rparr>)"
  have inv: "cs_session (c\<lparr>cs_stop_requested := True\<rparr>) \<noteq> None \<longleftrightarrow> sv_phase sv \<in> {Starting, Streaming}"
    using assms Some by (simp add: camera_inv_def)
  from cancel_session [OF this] cancel_effects [OF this] show ?thesis
    by (simp add: stop_camera_eq Some Let_def release_idle no_session_effects)
qed

text \<open>A camera that nobody supervises.\<close>

definition idle :: "'w camera \<Rightarrow> bool" where
  "idle c \<longleftrightarrow> cs_supervisor c = None \<and> cs_stall c = None \<and> cs_session c = None"

lemma idle_step:
  assumes "idle c" "e \<noteq> Start"
  shows "idle (fst (camera_step N A c (e, now))) \<and> session_effects (snd (camera_step N A c (e, now))) = [] \<and>
    between (snd (camera_step N A c (e, now)))"
proof (cases e)
  case (SetSensitivity x)
  then show ?thesis
    using assms(1) by (simp add: idle_def no_session_effects, simp add: set_motion_sensitivity_def case_prod_beta)
qed (use assms in \<open>auto simp: idle_def phase_of_def stop_camera_eq close_camera_def subscribe_def next_frame_def unsubscribe_def
    add_state_listener_def remove_state_listener_def between_def split: option.split list.split\<close>)

lemma idle_run:
  assumes "idle c" "list_all (\<lambda>(e, now). e \<noteq> Start) es"
  shows "case run (camera_step N A) c es of (c', effects) \<Rightarrow> idle c' \<and> session_effects effects = [] \<and> between effects"
  using assms
proof (induction es arbitrary: c)
  case Nil
  then show ?case by simp
next
  case (Cons ev es)
  obtain e now where ev: "ev = (e, now)" by (cases ev)
  have s: "idle (fst (camera_step N A c (e, now)))" "session_effects (snd (camera_step N A c (e, now))) = []"
    "between (snd (camera_step N A c (e, now)))"
    using idle_step [of c e N A now] Cons.prems by (simp_all add: ev del: camera_step.simps)
  show ?case
    using Cons.IH [OF s(1)] Cons.prems(2) s(2,3)
    by (simp add: ev Let_def case_prod_beta del: camera_step.simps)
qed

lemma closed_camera_idle:
  assumes "camera_inv c"
  shows "idle (fst (stop_camera A script now c))" "cs_subscribers (fst (close_camera A script now c)) = []"
  using stop_camera_stopped [OF assms] stop_camera_effects [OF assms]
  by (simp_all add: idle_def close_camera_def case_prod_beta)

lemma stop_camera_display:
  assumes "camera_inv c" "running c"
  shows "cs_last_frame_at (fst (stop_camera A script now c)) = 0" "\<not> motion_detected (fst (stop_camera A script now c))"
    "\<not> cs_first_frame (fst (stop_camera A script now c))"
proof -
  obtain sv where sv: "cs_supervisor c = Some sv" using assms(2) by (auto simp: running_def)
  have "cs_session (fst (cancel_supervisor A script now sv (c\<lparr>cs_stop_requested := True\<rparr>))) = None"
    by (rule cancel_session) (use assms sv in \<open>simp add: camera_inv_def\<close>)
  then show "cs_last_frame_at (fst (stop_camera A script now c)) = 0" "\<not> motion_detected (fst (stop_camera A script now c))"
    "\<not> cs_first_frame (fst (stop_camera A script now c))"
    by (simp_all add: stop_camera_eq sv Let_def release_idle motion_detected_def reset_detector_def publish_fields)
qed

section \<open>Closing a session\<close>

lemma close_relay_parts:
  "ss_closing (fst (close_relay A inbound s)) = ss_closing s \<and> settles s (fst (close_relay A inbound s))"
proof (cases "ss_relay s")
  case None
  then show ?thesis by (simp add: close_relay_def)
next
  case (Some relay)
  obtain r es e where k: "close_session inbound relay = (r, es, e)" by (cases "close_session inbound relay") auto
  let ?q = "fst (absorb_all (absorb_relay A) es (s\<lparr>ss_relay := Some r\<rparr>))"
  have "ss_closing ?q = ss_closing s" "settles s ?q" "settles s (?q\<lparr>ss_relay := None\<rparr>)"
    using absorb_all_parts [of A es "s\<lparr>ss_relay := Some r\<rparr>"] by (simp_all add: settles_def)
  then show ?thesis by (simp add: close_relay_def Some k Let_def split: option.split)
qed

lemma close_signaling_parts:
  "ss_closing (fst (close_signaling A pub s)) = ss_closing s \<and> ss_ended (fst (close_signaling A pub s)) = ss_ended s"
  by (simp add: close_signaling_def case_prod_beta split: option.split)

lemma closed_stream:
  assumes "\<not> ss_closing s"
  shows "ss_closing (fst (close_stream A inbound pub s)) \<and> wait_closed (fst (close_stream A inbound pub s)) \<noteq> None"
proof -
  have "ss_closing (fst (sbind (close_relay A inbound) (\<lambda>_. close_signaling A pub) (closing_state s))) \<and>
      ss_ended (fst (sbind (close_relay A inbound) (\<lambda>_. close_signaling A pub) (closing_state s))) \<noteq> None"
    using close_relay_parts [of A inbound "closing_state s"] close_signaling_parts [of A pub "fst (close_relay A inbound (closing_state s))"]
    by (auto simp: sbind_def case_prod_beta settles_def split: sum.split)
  then show ?thesis by (simp add: close_stream_open [OF assms] case_prod_beta wait_closed_def)
qed

section \<open>Properties\<close>

text \<open>
  C19: A camera is well-formed in every reachable state: every viewer has one queue of at most two
  frames, the two tasks exist together or not at all, a session is kept exactly while the
  supervisor starts or watches one, the backoff lies between its limits, the run of refusals is
  not negative, and a supervisor that ended by itself was cancelled.
\<close>

theorem camera_well_formed:
  assumes "0 \<le> kn_retry_min k" "kn_retry_min k \<le> kn_retry_max k"
  shows "camera_inv (fst (run (camera_step N A) (create_camera_stream device key k client) es))"
  unfolding create_camera_stream_def by (rule camera.run_inv) (rule new_camera_inv [OF assms])

lemma camera_well_formed_witness:
  "camera_inv (fst (run (camera_step refusing_network flip_cipher) (create_camera_stream ''d'' ''k'' default_knobs sample_client)
     [(Start, 0), (Subscribe 1, 0), (Fetch, 1)]))"
  using camera_well_formed [of default_knobs refusing_network flip_cipher "''d''" "''k''" sample_client "[(Start, 0), (Subscribe 1, 0), (Fetch, 1)]"]
  by (simp add: default_knobs_def DEFAULT_RETRY_MIN_SECONDS_def DEFAULT_RETRY_MAX_SECONDS_def)

text \<open>
  C10: Listeners are told of everything but silence. Under every interleaving, against a monotonic
  clock, what a registered listener was shown last is what the camera displays: the motion, the
  need of a power cycle, and a live stream if there is one. Only that a stream has gone quiet
  since, which takes no event, may be news.
\<close>

theorem listeners_see_every_change:
  assumes "camera_inv c" "l \<in> set (cs_state_listeners c)" "0 < t" "cs_last_frame_at c \<le> t" "clock_sorted t es"
    and "list_all (\<lambda>(e, now). keeps_listener l e) es"
  shows "case run (camera_step N A) c es of (c', effects) \<Rightarrow>
    (let shown = last_shown l (displayed t c) effects in
       dp_motion shown = motion_detected c' \<and> dp_needs_power_cycle shown = needs_power_cycle c' \<and>
       (streaming (clock_after t es) c' \<le> dp_streaming shown))"
  using current_run [OF assms(1) _ assms(5,2) current_displayed assms(6), of N A] assms(3,4)
  by (auto simp: current_def timely_def Let_def split: prod.splits)

lemma listeners_see_every_change_witness:
  "case run (camera_step refusing_network flip_cipher) (add_state_listener 4 sample_camera) [(Start, 2), (SetSensitivity 3, 3)] of (c', effects) \<Rightarrow>
    (let shown = last_shown 4 (displayed 1 (add_state_listener 4 sample_camera)) effects in
       dp_motion shown = motion_detected c' \<and> dp_needs_power_cycle shown = needs_power_cycle c' \<and>
       (streaming 3 c' \<le> dp_streaming shown))"
proof -
  have "camera_inv (add_state_listener 4 sample_camera)"
    using camera_step_inv [of sample_camera refusing_network flip_cipher "(AddListener 4, 0)"]
      new_camera_inv [of default_knobs sample_client "''d''" "''k''"]
    by (simp add: sample_camera_def default_knobs_def DEFAULT_RETRY_MIN_SECONDS_def DEFAULT_RETRY_MAX_SECONDS_def)
  then show ?thesis
    using listeners_see_every_change [of "add_state_listener 4 sample_camera" 4 1 "[(Start, 2), (SetSensitivity 3, 3)]"
        refusing_network flip_cipher]
    by (simp add: add_state_listener_def sample_camera_def new_camera_def)
qed

text \<open>
  C12: Stopping releases the camera. Whatever the supervisor is at, the middle of a start included, a
  stop closes the session it has, once, and nothing else; it never fails itself, leaves no task
  and no session, and displays a quiet camera. Until it is started again nothing reaches the device and no wait begins.
\<close>

theorem stop_releases_camera:
  assumes "camera_inv c" "running c" "list_all (\<lambda>(e, now). e \<noteq> Start) es"
  shows "case stop_camera A script now c of (c', effects) \<Rightarrow>
    \<not> running c' \<and> cs_stall c' = None \<and> cs_session c' = None \<and> \<not> streaming now c' \<and> \<not> motion_detected c' \<and>
    \<not> cs_first_frame c' \<and> \<not> list_ex stop_failed effects \<and>
    session_effects effects = stop_effects A script c \<and>
    (case run (camera_step N A) c' es of (c'', later) \<Rightarrow>
       \<not> running c'' \<and> session_effects later = [] \<and> retries later = [])"
  using closed_camera_idle(1) [OF assms(1), of A script now] idle_run [of "fst (stop_camera A script now c)" es N A]
    stop_camera_effects [OF assms(1), of A script now] stop_camera_display [OF assms(1,2), of A script now] assms(3)
  by (auto simp: idle_def running_def streaming_def between_def split: prod.splits)

text \<open>A camera whose supervisor watches a session that streamed at time 1.\<close>

definition watched_camera :: "stream \<Rightarrow> nat camera" where
  "watched_camera session = sample_camera\<lparr>cs_supervisor := Some \<lparr>sv_phase = Streaming, sv_backoff = 3\<rparr>,
     cs_stall := Some Watching, cs_session := Some session, cs_last_frame_at := 1\<rparr>"

lemma watched_camera_inv: "camera_inv (watched_camera session)"
  by (simp add: watched_camera_def sample_camera_def new_camera_def camera_inv_def viewers_ok_def patient_def
      default_knobs_def DEFAULT_RETRY_MIN_SECONDS_def DEFAULT_RETRY_MAX_SECONDS_def)

lemma stop_releases_camera_witness:
  "case stop_camera flip_cipher (sample_script, \<lambda>_. [], 0, Accepted) 1 (watched_camera (new_stream sample_config ''u'')) of (c', effects) \<Rightarrow>
    \<not> running c' \<and> \<not> list_ex stop_failed effects \<and>
    session_effects effects = fst (snd (close_stream flip_cipher (\<lambda>_. []) (0, Accepted) (new_stream sample_config ''u'')))"
  using stop_releases_camera [OF watched_camera_inv, where es = "[]" and A = flip_cipher and
      script = "(sample_script, \<lambda>_. [], 0, Accepted)" and now = 1 and N = refusing_network, of "new_stream sample_config ''u''"]
  by (simp add: case_prod_beta watched_camera_def running_def stop_effects_def interrupted_session_def phase_of_def)

text \<open>
  A closed camera strands its viewers. Closing drops every queue from the set and puts nothing
  into it, so a consumer that is iterating over the frames is neither ended nor woken: whatever
  follows, the camera started again included, it gets at most the two frames its queue held, and
  waits for good behind them.
\<close>

theorem closing_strands_viewers:
  assumes "camera_inv c" "list_all (\<lambda>(e, now). e \<noteq> Subscribe v) es"
  shows "case run (camera_step N A) (fst (close_camera A script t c)) es of (c', effects) \<Rightarrow> length (yields v effects) \<le> 2"
proof -
  let ?c = "fst (close_camera A script t c)"
  have i: "camera_inv ?c" using camera_step_inv [OF assms(1), of N A "(Close script, t)"] by simp
  then have q: "length (cs_queues ?c v) \<le> 2" by (simp add: camera_inv_def viewers_ok_def SUBSCRIBER_QUEUE_SIZE_def)
  have "v \<notin> set (cs_subscribers ?c)" by (simp add: closed_camera_idle [OF assms(1)])
  from drains_camera [OF i this assms(2), of N A]
  obtain c' effects where r: "run (camera_step N A) ?c es = (c', effects)" "yields v effects @ cs_queues c' v = cs_queues ?c v"
    by (auto split: prod.splits)
  then have "length (yields v effects) \<le> length (cs_queues ?c v)" by (metis length_append le_add1)
  with q r(1) show ?thesis by simp
qed

lemma closing_strands_viewers_witness:
  "case run (camera_step refusing_network flip_cipher)
      (fst (close_camera flip_cipher (sample_script, \<lambda>_. [], 0, Accepted) 5 (watched_camera (new_stream sample_config ''u''))))
      [(Start, 6), (NextFrame 1, 7)] of (c', effects) \<Rightarrow> length (yields 1 effects) \<le> 2"
  by (rule closing_strands_viewers [OF watched_camera_inv]) simp

text \<open>
  C14: A stalled session is torn down and replaced. When no frame came for the stall timeout, the next
  check of the watcher closes the session, once, which ends it; the supervisor then drops it
  without another word to the device and waits before the next round, for the shortest time if
  the session had streamed. An error of that close is swallowed and ends the watcher: the camera
  goes on unwatched.
\<close>

theorem stalled_session_replaced:
  assumes "camera_inv c" "cs_supervisor c = Some sv" "sv_phase sv = Streaming" "cs_session c = Some session"
    and "cs_stall c = Some Watching" "cs_last_frame_at c \<noteq> 0" "cs_stall_timeout c \<le> now - cs_last_frame_at c"
    and "\<not> ss_closing session" "close_stream A (fst script) (snd script) session = (s1, es, closing)"
  shows "case camera_step N A c (StallCheck script, now) of (c1, effects) \<Rightarrow>
    session_effects effects = es \<and> cs_session c1 = Some s1 \<and> wait_closed s1 \<noteq> None \<and>
    cs_stall c1 = Some (if closing = Inr () then Watching else WatcherEnded) \<and>
    (case camera_step N A c1 (SessionOver script', later) of (c2, effects2) \<Rightarrow>
       session_effects effects2 = [] \<and> cs_session c2 = None \<and> outcomes effects2 = [Inr (0 < ss_frames s1)] \<and>
       cs_supervisor c2 = Some (sv\<lparr>sv_phase := Waiting,
         sv_backoff := if 0 < ss_frames s1 then cs_retry_min c else sv_backoff sv\<rparr>) \<and>
       length (retries effects2) = 1)"
proof -
  let ?c1 = "fst (camera_step N A c (StallCheck script, now))"
  let ?m = "fst (with_motion now (poll now) c)"
  have s1: "ss_closing s1" "wait_closed s1 \<noteq> None"
    using closed_stream [OF assms(8), of A "fst script" "snd script"] assms(9) by simp_all
  have run: "\<not> cs_stop_requested c" using assms(1,2) by (simp add: camera_inv_def)
  have step: "camera_step N A c (StallCheck script, now) =
      (case closing of Inl e \<Rightarrow> (fst (deliver now es (?m\<lparr>cs_session := Some s1\<rparr>)))\<lparr>cs_stall := Some WatcherEnded\<rparr>
        | Inr _ \<Rightarrow> fst (deliver now es (?m\<lparr>cs_session := Some s1\<rparr>)),
       snd (with_motion now (poll now) c) @ snd (deliver now es (?m\<lparr>cs_session := Some s1\<rparr>)))"
    using assms(4-7,9) by (simp add: stall_check_eq Let_def split: sum.split)
  have c1: "cs_session ?c1 = Some s1" "cs_supervisor ?c1 = Some sv" "cs_stop_requested ?c1 = cs_stop_requested c"
    "cs_retry_min ?c1 = cs_retry_min c" "cs_stall ?c1 = Some (if closing = Inr () then Watching else WatcherEnded)"
    using assms(2,5) by (simp_all add: step del: camera_step.simps split: sum.split)
  have over: "camera_step N A ?c1 (SessionOver script', later) =
      (let d = clear_session later ?c1; a = after_session later (Inr (0 < ss_frames s1)) sv (fst d) in (fst a, snd d @ snd a))"
    using c1 s1 assms(3)
    by (auto simp: session_over_def end_session_eq close_stream_again Let_def simp del: camera_step.simps(9))
  have "session_effects (snd (camera_step N A c (StallCheck script, now))) = es"
    by (simp add: step no_session_effects deliver_session_effects del: camera_step.simps)
  then show ?thesis
    using c1 s1 over run
    by (simp add: case_prod_beta Let_def no_session_effects after_session_no_session between_effects after_session_supervisor
        after_session_ended
        del: camera_step.simps)
qed

lemma stalled_session_replaced_witness:
  "case camera_step refusing_network flip_cipher (watched_camera (new_stream sample_config ''u'')) (StallCheck (\<lambda>_. [], 0, Accepted), 61) of
    (c1, effects) \<Rightarrow> cs_stall c1 = Some Watching \<and>
      cs_session (fst (camera_step refusing_network flip_cipher c1 (SessionOver (\<lambda>_. [], 0, Accepted), 62))) = None"
proof -
  let ?s = "new_stream sample_config ''u''"
  have c: "snd (close_stream flip_cipher (\<lambda>_. []) (0, Accepted) ?s) = ([], Inr ())"
    by (simp add: close_stream_def close_ice_def close_relay_def close_signaling_def sbind_def new_stream_def finish_def answer_done_def)
  show ?thesis
    using stalled_session_replaced [OF watched_camera_inv, where session = ?s and A = flip_cipher and now = 61 and
        N = refusing_network and sv = "\<lparr>sv_phase = Streaming, sv_backoff = 3\<rparr>" and script = "(\<lambda>_. [], 0, Accepted)" and
        script' = "(\<lambda>_. [], 0, Accepted)" and later = 62 and es = "[]" and closing = "Inr ()" and
        ?s1.0 = "fst (close_stream flip_cipher (\<lambda>_. []) (0, Accepted) ?s)", of ?s]
    by (simp add: watched_camera_def sample_camera_def new_camera_def default_knobs_def DEFAULT_STALL_TIMEOUT_SECONDS_def
        new_stream_def [of sample_config] case_prod_beta c [symmetric] del: camera_step.simps)
qed

text \<open>The relay that fails before the video opens cancels the wait for it.\<close>

lemma lost_video_cancels_wait:
  assumes "ss_relay s = Some relay" "\<not> rs_closed relay" "rc_reading (rs_connection relay)" "rc_close_handler (rs_connection relay)"
    and "rs_video relay = VideoPending"
  shows "snd (snd (await_video A (OnRelay (OnConnection (ReadFailed e) ms) # later) s)) = Inl CancelledError"
proof -
  let ?t = "fst (session_step relay (OnConnection (ReadFailed e) ms))"
  let ?r = "stream_step A s (OnRelay (OnConnection (ReadFailed e) ms))"
  have t: "rs_video ?t = VideoCancelled"
    using assms by (simp add: on_connection_def read_failed_def notify_closed_def Let_def on_connection_closed_def cancel_video_def)
  have "ss_relay (fst ?r) = Some ?t"
    using assms(1) by (simp add: stream_step_relay del: stream_step.simps session_step.simps)
  from video_cancelled_run [OF this t, of A later] show ?thesis
    by (auto simp: await_video_def Let_def wait_for_video_def simp del: stream_step.simps session_step.simps)
qed

text \<open>A supervisor that was cancelled from within.\<close>

definition dead :: "'w camera \<Rightarrow> bool" where
  "dead c \<longleftrightarrow> phase_of c = Some (Ended (Some CancelledError)) \<and> cs_session c = None"

lemma dead_camera_step:
  assumes "dead c" "\<not> stops e"
  shows "dead (fst (camera_step N A c (e, now))) \<and> session_effects (snd (camera_step N A c (e, now))) = [] \<and>
    between (snd (camera_step N A c (e, now)))"
proof (cases e)
  case (StallCheck script)
  then show ?thesis
    using assms(1) by (simp add: dead_def phase_of_def stall_check_eq Let_def no_session_effects)
next
  case (SetSensitivity x)
  then show ?thesis
    using assms(1) by (simp add: dead_def phase_of_def no_session_effects, simp add: set_motion_sensitivity_def case_prod_beta)
next
  case Start
  then show ?thesis using assms(1) by (auto simp: dead_def phase_of_def start_camera_def running_def)
qed (use assms in \<open>auto simp: dead_def phase_of_def subscribe_def next_frame_def unsubscribe_def
    add_state_listener_def remove_state_listener_def between_def split: option.split list.split\<close>)

lemma dead_run:
  assumes "dead c" "list_all (\<lambda>(e, now). \<not> stops e) es"
  shows "case run (camera_step N A) c es of (c', effects) \<Rightarrow> dead c' \<and> session_effects effects = [] \<and> between effects"
  using assms
proof (induction es arbitrary: c)
  case Nil
  then show ?case by simp
next
  case (Cons ev es)
  obtain e now where ev: "ev = (e, now)" by (cases ev)
  have s: "dead (fst (camera_step N A c (e, now)))" "session_effects (snd (camera_step N A c (e, now))) = []"
    "between (snd (camera_step N A c (e, now)))"
    using dead_camera_step [of c e N A now] Cons.prems by (simp_all add: ev del: camera_step.simps)
  show ?case
    using Cons.IH [OF s(1)] Cons.prems(2) s(2,3)
    by (simp add: ev Let_def case_prod_beta del: camera_step.simps)
qed

text \<open>
  C35: A start that ends in a CancelledError ends the supervision. The wait for the video ends so when
  the relay fails first, and the wait for the answer when the session is closed meanwhile. The
  supervisor takes it for its own cancellation: it counts no failure and begins no wait, and from
  then on the camera calls itself running but never reaches the device again, whatever happens
  and even if it is started again, until it is stopped.
\<close>

theorem cancelled_start_ends_supervision:
  assumes "cs_supervisor c = Some sv" "sv_phase sv = Starting" "cs_session c = Some session"
    and "start A x session = (s1, es, Inl CancelledError)"
    and "close_stream A (fst script) (snd script) s1 = (s2, fs, Inr ())"
    and "list_all (\<lambda>(e, now). \<not> stops e) events"
  shows "case run (camera_step N A) c ((Begin x script, now) # events) of (c', effects) \<Rightarrow>
    running c' \<and> cs_session c' = None \<and> phase_of c' = Some (Ended (Some CancelledError)) \<and>
    outcomes effects = [] \<and> retries effects = [] \<and> session_effects effects = es @ fs"
proof -
  let ?r = "run_start A x script now session sv c"
  have "dead (fst ?r)"
    using assms(4,5) by (simp add: run_start_eq end_session_eq Let_def dead_def phase_of_def after_session_supervisor)
  from dead_run [OF this assms(6), of N A]
  have "case run (camera_step N A) (fst ?r) events of (c', effects) \<Rightarrow> dead c' \<and> session_effects effects = [] \<and> between effects" .
  moreover have "session_effects (snd ?r) = es @ fs" "between (snd ?r)"
    using assms(4,5)
    by (simp_all add: run_start_eq end_session_eq Let_def deliver_session_effects no_session_effects after_session_no_session)
      (simp add: after_session_def)
  ultimately show ?thesis
    using assms(1-3) by (auto simp: Let_def dead_def between_def running_def phase_of_def split: prod.splits)
qed

text \<open>The watcher closed the session while it was starting.\<close>

lemma cancelled_start_ends_supervision_witness:
  "case run (camera_step refusing_network flip_cipher)
      (sample_camera\<lparr>cs_supervisor := Some \<lparr>sv_phase = Starting, sv_backoff = 3\<rparr>, cs_stall := Some Watching,
         cs_session := Some ((new_stream sample_config ''u'')\<lparr>ss_answer := AnswerCancelled, ss_closing := True\<rparr>)\<rparr>)
      [(Begin sample_script (\<lambda>_. [], 0, Accepted), 1), (Start, 2), (RetryDue, 3), (Fetch, 4)] of (c', effects) \<Rightarrow>
    running c' \<and> cs_session c' = None \<and> retries effects = []"
proof -
  let ?s = "(new_stream sample_config ''u'')\<lparr>ss_answer := AnswerCancelled, ss_closing := True\<rparr>"
  have k: "aes_key_size (str_encode (sc_local_key (ss_config ?s)))"
    using sample_channel_publishing [of "''s''" flip_cipher]
    by (simp add: new_stream_def sample_config_def publishing_def sample_channel_def new_moto_def)
  have t: "wf_json (token_as_json (session_token sample_script (ss_config ?s)))"
    by (simp add: token_as_json_def session_token_def with_session_id_def offered_def sample_config_def sample_raw_token_def new_stream_def)
  obtain s1 es where s: "start flip_cipher sample_script ?s = (s1, es, Inl CancelledError)" "ss_closing s1"
  proof (rule start_waits [OF flip_cipher_ecb k, where x = sample_script and ?t1.0 = 0 and ?t2.0 = 0])
    fix s1 es query offer
    assume "ss_answer s1 = ss_answer ?s" "ss_closing s1 = ss_closing ?s"
      and "start flip_cipher sample_script ?s = (case sbind (await_answer flip_cipher (st_before_answer sample_script))
        (after_answer flip_cipher sample_script (session_offer sample_script (ss_config ?s) (ss_uid ?s))
          (session_trace_id sample_script (ss_config ?s)) (session_token sample_script (ss_config ?s))) s1 of
        (s2, es, r) \<Rightarrow> (s2, [Signaling (Subscribed (''smart/mb/in/'' @ sc_device_id (ss_config ?s))),
         Signaling (Published (''smart/mb/out/'' @ sc_device_id (ss_config ?s)) query),
         Signaling (Published (''smart/mb/out/'' @ sc_device_id (ss_config ?s)) offer)] @ es, r))"
    then show thesis by (intro that) (auto simp: sbind_def await_answer_def sample_script_def)
  next
    show "int_in_range 0" "int_in_range 0" by (simp_all add: int_in_range_below)
    show "wf_json (token_as_json (session_token sample_script (ss_config ?s)))" by (rule t)
  qed (simp_all add: sample_script_def new_stream_def sample_config_def ice_servers_as_json_def log_config_as_json_def)
  show ?thesis
    using cancelled_start_ends_supervision [OF _ _ _ s(1) close_stream_again [OF s(2)], where N = refusing_network and
        events = "[(Start, 2), (RetryDue, 3), (Fetch, 4)]" and now = 1 and sv = "\<lparr>sv_phase = Starting, sv_backoff = 3\<rparr>"]
    by (simp add: case_prod_beta del: run.simps)
qed

section \<open>A late frame\<close>

lemma deliver_image:
  "images es \<noteq> [] \<Longrightarrow> cs_last_frame_at (fst (deliver now es c)) = now \<and> cs_first_frame (fst (deliver now es c))"
proof (induction now es c rule: deliver.induct)
  case (2 now f es c)
  have "images es = [] \<Longrightarrow> cs_last_frame_at (fst (deliver now es c')) = cs_last_frame_at c' \<and>
      cs_first_frame (fst (deliver now es c')) = cs_first_frame c'" for c' :: "'a camera"
    by (induction now es c' rule: deliver.induct) (simp_all add: Let_def)
  from this [of "fst (on_frame now f c)"] 2(1) [OF refl] show ?case by (cases "images es = []") (simp_all add: Let_def)
qed (simp_all add: Let_def)

lemma after_session_first_frame: "cs_first_frame (fst (after_session now r sv c)) = cs_first_frame c"
  using note_outcome_cases [of now r c]
  by (elim insertE emptyE) (simp_all add: after_session_def note_busy_refusal_def clear_busy_refusals_def Let_def)

text \<open>
  C36: A late frame revives a stream that is over. The supervisor forgets the last frame of an ended
  session before it closes it, but the relay still delivers while its conversations are closed:
  when an image arrives then, the camera calls itself streaming for the whole stall timeout with
  no session behind it, and a wait for the first frame of the next session is already satisfied.
\<close>

theorem late_frame_revives_stream:
  assumes "cs_supervisor c = Some sv" "sv_phase sv = Streaming" "cs_session c = Some session" "wait_closed session \<noteq> None"
    and "images (fst (snd (close_stream A (fst script) (snd script) session))) \<noteq> []"
    and "0 < now" "later - now < cs_stall_timeout c"
  shows "case camera_step N A c (SessionOver script, now) of (c', effects) \<Rightarrow>
    cs_session c' = None \<and> phase_of c' \<in> {Some Waiting, Some (Ended (Some CancelledError))} \<and>
    streaming later c' \<and> cs_first_frame c'"
proof -
  let ?c1 = "fst (clear_session now c)"
  let ?k = "close_stream A (fst script) (snd script) session"
  have "camera_step N A c (SessionOver script, now) = end_session A script now session (Inr (0 < ss_frames session)) sv c"
    using assms(1-4) by (auto simp: session_over_def)
  then show ?thesis
    using deliver_image [OF assms(5), of now ?c1] assms(6,7)
    by (simp add: end_session_eq Let_def streaming_def phase_of_def after_session_supervisor after_session_first_frame
        del: camera_step.simps)
qed

text \<open>A session whose relay is lost to the broker's disconnect, while two images are on their way
  in one record: the first of them is whole when the record arrives.\<close>

definition late_record :: bytes where
  "late_record = (case encrypt_record flip_cipher (replicate 16 3) (replicate 16 9) (concat (map prefixed (sample_packets @ sample_packets))) of
     Inr rec \<Rightarrow> rec | Inl e \<Rightarrow> [])"

definition late_segment :: kcp_segment where
  "late_segment = \<lparr>seg_conversation = VIDEO_CONVERSATION, seg_command = CMD_PUSH, seg_fragment = 0, seg_window = 512,
     seg_timestamp = 7, seg_sequence = 0, seg_unacknowledged = 0, seg_data = late_record\<rparr>"

definition late_relay :: relay_session where
  "late_relay = (connected_session [5])\<lparr>rs_conversations :=
     [(CONTROL_CONVERSATION, (new_conversation CONTROL_CONVERSATION)\<lparr>kcp_retransmit_task := True\<rparr>),
      (VIDEO_CONVERSATION, listening VIDEO_CONVERSATION)]\<rparr>"

definition late_script :: close_script where
  "late_script = ((\<lambda>cid. if cid = CONTROL_CONVERSATION then [(header_bytes late_segment @ late_record, 8)] else []), 0, Accepted)"

lemma late_record_packets: "record_packets flip_cipher (replicate 16 9) late_record = sample_packets @ sample_packets"
  "length late_record < 1400" "late_record \<noteq> []"
proof -
  obtain rec where rec: "encrypt_record flip_cipher (replicate 16 3) (replicate 16 9) (concat (map prefixed (sample_packets @ sample_packets))) = Inr rec"
    "length rec = 16 + length (pad_pkcs7 (concat (map prefixed (sample_packets @ sample_packets))))"
    using record_roundtrip [OF flip_cipher_cbc, of "replicate 16 9" "replicate 16 3"] by auto
  have "length (concat (map prefixed (sample_packets @ sample_packets))) = 104" by code_simp
  then show "length late_record < 1400" using rec by (simp add: late_record_def length_pad_pkcs7_eq)
  show "late_record \<noteq> []" using rec by (auto simp: late_record_def)
  show "record_packets flip_cipher (replicate 16 9) late_record = sample_packets @ sample_packets"
    using record_of_packets [OF flip_cipher_cbc, of "replicate 16 9" "replicate 16 3" "sample_packets @ sample_packets" late_record]
      sample_packets_clean rec(1) by (simp add: late_record_def)
qed

lemma late_segment_parsed: "parse_segment (header_bytes late_segment @ late_record) = Some late_segment"
  using parse_header_data(1) [of late_segment late_record] late_record_packets(2)
  by (simp add: late_segment_def mask_segment_def command_defs VIDEO_CONVERSATION_def)

lemma late_delivery: "delivered (snd (input_segment late_segment 8 (listening VIDEO_CONVERSATION))) = [late_record]"
proof -
  let ?k = "listening VIDEO_CONVERSATION"
  have f: "seg_sequence late_segment = 0" "seg_fragment late_segment = 0" "seg_data late_segment = late_record"
    "seg_command late_segment = CMD_PUSH" "seg_unacknowledged late_segment = 0"
    by (simp_all add: late_segment_def)
  have r: "retire_pending 0 ?k = ?k"
    by (simp add: retire_pending_def disarm_retransmit_def listening_def set_message_handler_def new_conversation_def)
  have "delivered (snd (accept late_segment ?k)) = [late_record]"
    by (simp add: accept_def f RECEIVE_WINDOW_def)
      (subst drain.simps, simp add: take_fragment_def f Let_def late_record_packets(3) drain.simps listening_def
        set_message_handler_def new_conversation_def)
  then show ?thesis
    by (simp add: input_segment_def f r Let_def acknowledge_def command_defs delivered_append split: sum.split)
qed

lemma late_close_rest:
  assumes "rs_conversations s = [(CONTROL_CONVERSATION, a), (VIDEO_CONVERSATION, b)]"
  shows "\<exists>t. close_loop (fst late_script) 2 [VIDEO_CONVERSATION] s = (t, [], None)"
  by (simp add: close_loop.simps assms Let_def late_script_def put_conversation_def CONTROL_CONVERSATION_def VIDEO_CONVERSATION_def)

lemma late_close: "\<exists>t es. close_session (fst late_script) late_relay = (t, es, None) \<and> video_messages es = [late_record]"
proof -
  let ?c = "(new_conversation CONTROL_CONVERSATION)\<lparr>kcp_retransmit_task := True\<rparr>"
  let ?s = "put_conversation CONTROL_CONVERSATION (close ?c) (late_relay\<lparr>rs_closed := True\<rparr>)"
  let ?r = "route (header_bytes late_segment @ late_record) 8 ?s"
  let ?k = "fst (input_segment late_segment 8 (listening VIDEO_CONVERSATION))"
  have g: "seg_conversation late_segment = VIDEO_CONVERSATION" by (simp add: late_segment_def)
  have k: "the_conversation VIDEO_CONVERSATION ?s = listening VIDEO_CONVERSATION"
    by (simp add: the_conversation_def put_conversation_def late_relay_def CONTROL_CONVERSATION_def VIDEO_CONVERSATION_def)
  have r: "rs_conversations (fst ?r) = [(CONTROL_CONVERSATION, close ?c), (VIDEO_CONVERSATION, ?k)]"
    "video_messages (snd ?r) = [late_record]"
    using late_delivery unfolding route_parsed [OF late_segment_parsed] g k
    by (simp_all add: video_outputs) (simp add: put_conversation_def late_relay_def CONTROL_CONVERSATION_def VIDEO_CONVERSATION_def)
  have "\<exists>t. close_loop (fst late_script) 2 [VIDEO_CONVERSATION] (fst ?r) = (t, [], None)"
    by (rule late_close_rest [OF r(1)])
  moreover have "close_loop (fst late_script) 2 [CONTROL_CONVERSATION, VIDEO_CONVERSATION] (late_relay\<lparr>rs_closed := True\<rparr>) =
      (case close_loop (fst late_script) 2 [VIDEO_CONVERSATION] (fst ?r) of (s2, es, e) \<Rightarrow> (s2, snd ?r @ es, e))"
    by (subst close_loop.simps) (simp add: late_relay_def Let_def late_script_def CONTROL_CONVERSATION_def VIDEO_CONVERSATION_def)
  ultimately obtain t where l: "close_loop (fst late_script) 2 [CONTROL_CONVERSATION, VIDEO_CONVERSATION] (late_relay\<lparr>rs_closed := True\<rparr>) =
      (t, snd ?r, None)" by auto
  have "video_messages (concat (map connection_output cs)) = []" for cs
  proof (induction cs)
    case (Cons c cs)
    then show ?case by (cases c) simp_all
  qed simp
  moreover have "map fst (rs_conversations late_relay) = [CONTROL_CONVERSATION, VIDEO_CONVERSATION]" "length (rs_conversations late_relay) = 2"
    by (simp_all add: late_relay_def)
  ultimately show ?thesis using l r(2) by (simp add: close_session_def Let_def)
qed

definition late_stream :: stream where
  "late_stream = watching\<lparr>ss_relay := Some late_relay, ss_ended := Some ''device disconnect, close_reason=4''\<rparr>"

lemma late_image: "images (fst (snd (close_stream flip_cipher (fst late_script) (snd late_script) late_stream))) = [[0xFF, 0xD8, 0xFF, 0xD9]]"
proof -
  obtain t es where c: "close_session (fst late_script) late_relay = (t, es, None)" "video_messages es = [late_record]"
    using late_close by blast
  let ?f = "[0xFF, 0xD8, 0xFF, 0xD9] :: bytes"
  let ?s = "(closing_state late_stream)\<lparr>ss_relay := Some t\<rparr>"
  have s: "ss_media_handler ?s" "ss_answer_key ?s = replicate 16 9" "ss_reassembler ?s = new_reassembler" "\<not> ss_closing late_stream"
    "ss_relay late_stream = Some late_relay" "ss_moto (closing_state late_stream) = None" "ss_ice late_stream = None"
    by (simp_all add: closing_state_def late_stream_def watching_def new_stream_def close_ice_def finish_def answer_done_def Let_def)
  have "images (snd (absorb_all (absorb_relay flip_cipher) es ?s)) = map fst (butlast [(?f, sample_packets), (?f, sample_packets)])"
    using absorb_all_feed [OF s(1), of flip_cipher es] images_pushed [of "[(?f, sample_packets), (?f, sample_packets)]" new_reassembler]
      sample_packets_image
    by (simp add: s(2,3) c(2) late_record_packets(1) flush_def completed_def) (simp add: new_reassembler_def)
  moreover have "ss_moto (fst (absorb_all (absorb_relay flip_cipher) es ?s)) = None"
    using absorb_all_parts [of flip_cipher es ?s] s(6) by simp
  ultimately show ?thesis
    by (simp add: close_stream_open [OF s(4)] close_relay_def s(5,7) c(1) Let_def sbind_def close_signaling_def)
qed

lemma late_frame_revives_stream_witness:
  "case camera_step refusing_network flip_cipher (watched_camera late_stream) (SessionOver late_script, 50) of (c', effects) \<Rightarrow>
    cs_session c' = None \<and> streaming 109 c'"
proof -
  have "wait_closed late_stream \<noteq> None" by (simp add: wait_closed_def late_stream_def)
  then show ?thesis
    using late_frame_revives_stream [of "watched_camera late_stream" "\<lparr>sv_phase = Streaming, sv_backoff = 3\<rparr>" late_stream
        flip_cipher late_script 50 109 refusing_network]
    by (simp add: case_prod_beta watched_camera_def late_image sample_camera_def new_camera_def
        default_knobs_def DEFAULT_STALL_TIMEOUT_SECONDS_def del: camera_step.simps)
qed

end
