(* ===== verification/Stream_Live.thy ===== *)
theory Stream_Live
  imports Stream_Ends
begin

text \<open>
  The first pictures of a session. The device opens the video conversation with its first segment,
  so segments arrive before the session has installed its handler of media records: what they
  complete is acknowledged and dropped. The lemmas follow both phases, before and behind the wait
  for the video, and give the images of the records that are left.
\<close>

section \<open>Conversations without a handler\<close>

lemma drain_handler:
  "fst (drain (set_message_handler h k)) = set_message_handler h (fst (drain k))"
  "\<not> kcp_handler k \<Longrightarrow> delivered (snd (drain k)) = []"
  "kcp_handler (fst (drain k)) = kcp_handler k"
proof (induction k rule: drain.induct)
  case (1 k)
  have f: "fst (take_fragment nxt (set_message_handler h k')) = set_message_handler h (fst (take_fragment nxt k'))"
    "\<not> kcp_handler k' \<Longrightarrow> snd (take_fragment nxt k') = []" "kcp_handler (fst (take_fragment nxt k')) = kcp_handler k'" for nxt k'
    by (simp_all add: take_fragment_def set_message_handler_def Let_def)
  have d: "drain k' = (case map_of (kcp_received k') (kcp_next_receive k') of
        None \<Rightarrow> (k', [])
      | Some nxt \<Rightarrow>
          (let r = take_fragment nxt (k'\<lparr>kcp_received := AList.delete (kcp_next_receive k') (kcp_received k')\<rparr>);
               rest = drain (fst r) in (fst rest, snd r @ snd rest)))" for k'
    by (rule drain.simps)
  have s: "(set_message_handler h k)\<lparr>kcp_received := x\<rparr> = set_message_handler h (k\<lparr>kcp_received := x\<rparr>)"
    "kcp_received (set_message_handler h k) = kcp_received k" "kcp_next_receive (set_message_handler h k) = kcp_next_receive k" for x
    by (simp_all add: set_message_handler_def)
  {
    case 1
    show ?case
      using "1.IH"(1) by (subst (1 2) d) (simp add: s f Let_def split: option.split)
  next
    case 2
    then show ?case
      using "1.IH"(2) by (subst d) (simp add: f Let_def split: option.split)
  next
    case 3
    show ?case
      using "1.IH"(3) by (subst d) (simp add: f Let_def split: option.split)
  }
qed

lemma accept_handler:
  "fst (accept g (set_message_handler h k)) = set_message_handler h (fst (accept g k))"
  "\<not> kcp_handler k \<Longrightarrow> delivered (snd (accept g k)) = []" "kcp_handler (fst (accept g k)) = kcp_handler k"
proof -
  have s: "(set_message_handler h k)\<lparr>kcp_received := x\<rparr> = set_message_handler h (k\<lparr>kcp_received := x\<rparr>)" for x
    by (simp add: set_message_handler_def)
  have f: "kcp_received (set_message_handler h k) = kcp_received k" "kcp_next_receive (set_message_handler h k) = kcp_next_receive k"
    by (simp_all add: set_message_handler_def)
  show "fst (accept g (set_message_handler h k)) = set_message_handler h (fst (accept g k))"
    "\<not> kcp_handler k \<Longrightarrow> delivered (snd (accept g k)) = []" "kcp_handler (fst (accept g k)) = kcp_handler k"
    by (simp_all add: accept_def f s drain_handler)
qed

lemma retire_handler [simp]:
  "retire_pending una (set_message_handler h k) = set_message_handler h (retire_pending una k)"
  "kcp_handler (retire_pending una k) = kcp_handler k" "kcp_closed (set_message_handler h k) = kcp_closed k"
  by (simp_all add: retire_pending_def set_message_handler_def disarm_retransmit_def Let_def)

lemma input_handler:
  "fst (input_segment g ms (set_message_handler h k)) = set_message_handler h (fst (input_segment g ms k))"
  "\<not> kcp_handler k \<Longrightarrow> delivered (snd (input_segment g ms k)) = []"
  "kcp_handler (fst (input_segment g ms k)) = kcp_handler k"
proof -
  have a: "delivered (acknowledge g k') = []" "delivered (answer_window_ask ms k') = []" for k'
    by (simp_all add: acknowledge_def answer_window_ask_def split: sum.split)
  show "fst (input_segment g ms (set_message_handler h k)) = set_message_handler h (fst (input_segment g ms k))"
    "\<not> kcp_handler k \<Longrightarrow> delivered (snd (input_segment g ms k)) = []"
    "kcp_handler (fst (input_segment g ms k)) = kcp_handler k"
    by (simp_all add: input_segment_def Let_def accept_handler a)
qed

text \<open>The segments a list of raw datagrams holds, with the clock at each.\<close>

definition segment_inputs :: "(bytes \<times> nat) list \<Rightarrow> kcp_event list" where
  "segment_inputs xs = List.map_filter (\<lambda>(raw, ms). map_option (\<lambda>g. Input g ms) (parse_segment raw)) xs"

lemma segment_inputs_simps [simp]:
  "segment_inputs [] = []"
  "segment_inputs ((raw, ms) # xs) = (case parse_segment raw of None \<Rightarrow> [] | Some g \<Rightarrow> [Input g ms]) @ segment_inputs xs"
  "segment_inputs (xs @ ys) = segment_inputs xs @ segment_inputs ys"
  by (simp_all add: segment_inputs_def List.map_filter_def split: option.split)

lemma segment_inputs_Cons: "segment_inputs (x # xs) = segment_inputs [x] @ segment_inputs xs"
  using segment_inputs_simps(3) [of "[x]" xs] by (simp only: append.simps)

lemma inputs_handler:
  "fst (run kcp_step (set_message_handler h k) (segment_inputs xs)) =
     set_message_handler h (fst (run kcp_step k (segment_inputs xs)))"
proof (induction xs arbitrary: k)
  case (Cons x xs)
  obtain raw ms where "x = (raw, ms)" by (cases x)
  with Cons show ?case by (cases "parse_segment raw") (simp_all add: Let_def input_handler)
qed simp

text \<open>Only a window probe reads the clock.\<close>

lemma inputs_clock:
  assumes "list_all (\<lambda>g. seg_command g = CMD_PUSH) (List.map_filter parse_segment (map fst xs))"
  shows "run kcp_step k (segment_inputs xs) = run kcp_step k (inputs ms (List.map_filter parse_segment (map fst xs)))"
  using assms
proof (induction xs arbitrary: k)
  case Nil
  then show ?case by (simp add: inputs_def List.map_filter_def)
next
  case (Cons x xs)
  obtain raw t where x: "x = (raw, t)" by (cases x)
  show ?case
  proof (cases "parse_segment raw")
    case None
    with Cons x show ?thesis by (simp add: List.map_filter_def)
  next
    case (Some g)
    then have "input_segment g t k = input_segment g ms k"
      using Cons.prems x by (simp add: input_segment_def List.map_filter_def Let_def CMD_PUSH_def CMD_WINDOW_ASK_def)
    with Cons x Some show ?thesis by (simp add: List.map_filter_def inputs_def Let_def)
  qed
qed

text \<open>A handler that comes late misses the messages that were complete before.\<close>

lemma late_handler:
  "delivered (snd (run kcp_step (set_message_handler True (fst (run kcp_step (new_conversation c) (segment_inputs early))))
     (segment_inputs later))) =
   drop (length (delivered (snd (run kcp_step (listening c) (segment_inputs early)))))
     (delivered (snd (run kcp_step (listening c) (segment_inputs (early @ later)))))"
  by (simp add: run_append listening_def inputs_handler)

section \<open>Before the handler\<close>

definition video_event :: "bytes \<Rightarrow> bytes \<times> nat \<Rightarrow> stream_event" where
  "video_event key x = media_event key (snd x) (fst x)"

lemma video_event_pair [simp]: "video_event key (raw, ms) = media_event key ms raw"
  by (simp add: video_event_def)

lemma absorb_all_no_video:
  "video_messages es = [] \<Longrightarrow>
     images (snd (absorb_all (absorb_relay A) es s)) = [] \<and>
     ss_reassembler (fst (absorb_all (absorb_relay A) es s)) = ss_reassembler s \<and>
     same_media s (fst (absorb_all (absorb_relay A) es s))"
proof (induction es arbitrary: s)
  case Nil
  then show ?case by (simp add: same_media_def)
next
  case (Cons e es)
  have "images (snd (absorb_relay A e s)) = [] \<and> ss_reassembler (fst (absorb_relay A e s)) = ss_reassembler s \<and>
    same_media s (fst (absorb_relay A e s))"
    using Cons.prems
    by (cases e) (auto simp: same_media_def on_relay_closed_def finish_def split: option.split if_splits)
  moreover have "video_messages es = []" using Cons.prems by (simp add: video_messages_Cons [of e es])
  ultimately show ?case using Cons.IH by (simp add: Let_def same_media_def)
qed

text \<open>The relay while segments of the video conversation arrive and nobody listens.\<close>

definition unheard :: "stream \<Rightarrow> relay_session \<Rightarrow> stream \<Rightarrow> relay_session \<Rightarrow> kcp \<Rightarrow> bool" where
  "unheard s relay t relay' k \<longleftrightarrow> ss_relay t = Some relay' \<and> rs_connection relay' = rs_connection relay \<and>
     the_conversation VIDEO_CONVERSATION relay' = k \<and> \<not> kcp_handler k \<and> ss_reassembler t = ss_reassembler s \<and>
     ss_answer_key t = ss_answer_key s \<and> ss_media_handler t = ss_media_handler s"

lemma unheard_step:
  assumes "unheard s relay t relay' k" "reading (rs_connection relay)" "from_video raw"
    and "key = rc_media_key (rs_connection relay)"
  obtains relay'' where
    "unheard s relay (fst (stream_step A t (media_event key ms raw))) relay'' (fst (run kcp_step k (segment_inputs [(raw, ms)])))"
    "images (snd (stream_step A t (media_event key ms raw))) = []"
    "map_of (rs_conversations relay'') VIDEO_CONVERSATION \<noteq> None"
    "rs_video relay'' = rs_video (mark_video VIDEO_CONVERSATION relay')"
proof -
  obtain g where g: "parse_segment raw = Some g" "seg_conversation g = VIDEO_CONVERSATION"
    using assms(3) by (auto simp: from_video_def own_segment_def VIDEO_CONVERSATION_def)
  have t: "ss_relay t = Some relay'" "rs_connection relay' = rs_connection relay"
    "the_conversation VIDEO_CONVERSATION relay' = k" "\<not> kcp_handler k"
    using assms(1) by (simp_all add: unheard_def)
  define r where "r = route raw ms relay'"
  have r: "rs_connection (fst r) = rs_connection relay'"
    "map_of (rs_conversations (fst r)) VIDEO_CONVERSATION = Some (fst (input_segment g ms k))"
    "video_messages (snd r) = []" "rs_video (fst r) = rs_video (mark_video VIDEO_CONVERSATION relay')"
    unfolding r_def
    by (simp_all add: route_parsed [OF g(1)] g(2) t map_of_update video_outputs input_handler)
  have e: "stream_step A t (media_event key ms raw) = absorb_all (absorb_relay A) (snd r) (t\<lparr>ss_relay := Some (fst r)\<rparr>)"
    using assms(2-4) t frame_routed [of relay' raw ms]
    by (simp add: media_event_def on_relay_def from_video_def Let_def r_def)
  note a = absorb_all_no_video [OF r(3), of A "t\<lparr>ss_relay := Some (fst r)\<rparr>"]
  have "the_conversation VIDEO_CONVERSATION (fst r) = fst (input_segment g ms k)"
    using r(2) by (simp add: the_conversation_def)
  then have "unheard s relay (fst (stream_step A t (media_event key ms raw))) (fst r) (fst (run kcp_step k (segment_inputs [(raw, ms)])))"
    using a assms(1) r(1) t(2,4)
    by (simp add: e unheard_def same_media_def g(1) input_handler)
  with that [of "fst r"] a r(2,4) show ?thesis by (simp add: e)
qed

definition opened :: "relay_session \<Rightarrow> bool" where
  "opened relay \<longleftrightarrow> map_of (rs_conversations relay) VIDEO_CONVERSATION \<noteq> None \<and> rs_video relay = VideoReady VIDEO_CONVERSATION"

lemma opened_run:
  assumes "reading (rs_connection relay)" "key = rc_media_key (rs_connection relay)"
  shows "unheard s relay t relay' k \<Longrightarrow> opened relay' \<Longrightarrow> list_all (\<lambda>(raw, ms). from_video raw) xs \<Longrightarrow>
    \<exists>relay''. unheard s relay (fst (run (stream_step A) t (map (video_event key) xs))) relay''
        (fst (run kcp_step k (segment_inputs xs))) \<and>
      opened relay'' \<and> images (snd (run (stream_step A) t (map (video_event key) xs))) = []"
proof (induction xs arbitrary: t relay' k)
  case Nil
  then show ?case by auto
next
  case (Cons x xs)
  obtain raw ms where x: "x = (raw, ms)" by (cases x)
  then have raw: "from_video raw" and rest: "list_all (\<lambda>(raw, ms). from_video raw) xs" using Cons.prems(3) by simp_all
  let ?t = "fst (stream_step A t (media_event key ms raw))" and ?k = "fst (run kcp_step k (segment_inputs [(raw, ms)]))"
  obtain r where r: "unheard s relay ?t r ?k" "images (snd (stream_step A t (media_event key ms raw))) = []"
    "map_of (rs_conversations r) VIDEO_CONVERSATION \<noteq> None" "rs_video r = rs_video (mark_video VIDEO_CONVERSATION relay')"
    using unheard_step [OF Cons.prems(1) assms(1) raw assms(2), of A ms] .
  have "opened r" using r(3,4) Cons.prems(2) by (simp add: opened_def mark_video_def)
  from Cons.IH [OF r(1) this rest] obtain relay'' where
    "unheard s relay (fst (run (stream_step A) ?t (map (video_event key) xs))) relay'' (fst (run kcp_step ?k (segment_inputs xs)))"
    "opened relay''" "images (snd (run (stream_step A) ?t (map (video_event key) xs))) = []"
    by blast
  moreover have "run kcp_step k (segment_inputs (x # xs)) =
      (fst (run kcp_step ?k (segment_inputs xs)),
       snd (run kcp_step k (segment_inputs [(raw, ms)])) @ snd (run kcp_step ?k (segment_inputs xs)))"
    unfolding x segment_inputs_Cons [of _ xs] by (simp only: run_append prod_eq_iff fst_conv snd_conv)
  ultimately show ?case
    using r(2)
    by (intro exI [of _ relay''])
      (simp add: x Let_def del: stream_step.simps segment_inputs_simps)
qed

text \<open>The wait for the video, with the segments handled up to its end.\<close>

lemma await_video_opened:
  assumes "ss_relay s = Some relay" "reading (rs_connection relay)" "key = rc_media_key (rs_connection relay)"
    and "map_of (rs_conversations relay) VIDEO_CONVERSATION = None" "rs_video relay = VideoPending"
    and "list_all (\<lambda>(raw, ms). from_video raw) early" "early \<noteq> []"
  obtains s2 es relay2 where
    "await_video A (map (video_event key) early) s = (s2, es, Inr ())" "images es = []"
    "ss_relay s2 = Some relay2" "rs_connection relay2 = rs_connection relay"
    "map_of (rs_conversations relay2) VIDEO_CONVERSATION =
       Some (set_message_handler True (fst (run kcp_step (new_conversation VIDEO_CONVERSATION) (segment_inputs early))))"
    "ss_media_handler s2" "ss_answer_key s2 = ss_answer_key s" "ss_reassembler s2 = ss_reassembler s"
proof -
  let ?k = "new_conversation VIDEO_CONVERSATION"
  obtain raw ms xs where x: "early = (raw, ms) # xs" using assms(7) by (metis list.exhaust surj_pair)
  have u: "unheard s relay s relay ?k"
    using assms(1,4) by (simp add: unheard_def the_conversation_def) (simp add: new_conversation_def)
  have raw: "from_video raw" and rest: "list_all (\<lambda>(raw, ms). from_video raw) xs" using assms(6) x by simp_all
  let ?t = "fst (stream_step A s (media_event key ms raw))" and ?k1 = "fst (run kcp_step ?k (segment_inputs [(raw, ms)]))"
  obtain r where r: "unheard s relay ?t r ?k1" "images (snd (stream_step A s (media_event key ms raw))) = []"
    "map_of (rs_conversations r) VIDEO_CONVERSATION \<noteq> None" "rs_video r = rs_video (mark_video VIDEO_CONVERSATION relay)"
    using unheard_step [OF u assms(2) raw assms(3), of A ms] .
  have "opened r" using r(3,4) assms(4,5) by (simp add: opened_def mark_video_def)
  from opened_run [OF assms(2,3) r(1) this rest, of A] obtain r2 where r2:
    "unheard s relay (fst (run (stream_step A) ?t (map (video_event key) xs))) r2 (fst (run kcp_step ?k1 (segment_inputs xs)))"
    "opened r2" "images (snd (run (stream_step A) ?t (map (video_event key) xs))) = []" by blast
  have k: "fst (run kcp_step ?k1 (segment_inputs xs)) = fst (run kcp_step ?k (segment_inputs early))"
    unfolding x segment_inputs_Cons [of _ xs] run_append ..
  let ?w = "run (stream_step A) s (map (video_event key) early)"
  have w: "unheard s relay (fst ?w) r2 (fst (run kcp_step ?k (segment_inputs early)))" "images (snd ?w) = []"
    using r2(1,3) r(2) by (simp_all add: k [symmetric], simp_all add: x Let_def del: stream_step.simps segment_inputs_simps)
  let ?h = "fst (session_step r2 (HandlerOf VIDEO_CONVERSATION True))"
  have found: "map_of (rs_conversations r2) VIDEO_CONVERSATION \<noteq> None" using r2(2) by (simp add: opened_def)
  have c: "the_conversation VIDEO_CONVERSATION r2 = fst (run kcp_step ?k (segment_inputs early))"
    using w(1) by (simp add: unheard_def)
  have h: "rs_connection ?h = rs_connection relay" "map_of (rs_conversations ?h) VIDEO_CONVERSATION =
      Some (set_message_handler True (fst (run kcp_step ?k (segment_inputs early))))"
    using found w(1) by (simp_all add: on_conversation_eq map_of_update c) (simp add: unheard_def)
  have "await_video A (map (video_event key) early) s =
      ((fst ?w)\<lparr>ss_relay := Some ?h, ss_media_handler := True\<rparr>, snd ?w, Inr ())"
    using w(1) r2(2) by (simp add: await_video_def Let_def unheard_def wait_for_video_def opened_def del: session_step.simps)
  from that [OF this w(2) _ h] w(1) show ?thesis by (simp add: unheard_def)
qed

section \<open>Behind the handler\<close>

lemma heard_run:
  assumes "ss_relay s = Some relay" "ss_media_handler s" "reading (rs_connection relay)" "key = rc_media_key (rs_connection relay)"
    and "list_all (\<lambda>(raw, ms). from_video raw) xs" "map_of (rs_conversations relay) VIDEO_CONVERSATION = Some k"
  shows "images (snd (run (stream_step A) s (map (video_event key) xs))) =
    snd (feed (ss_reassembler s) (all_packets A (ss_answer_key s) (delivered (snd (run kcp_step k (segment_inputs xs))))))"
  using assms
proof (induction xs arbitrary: s relay k)
  case Nil
  then show ?case by simp
next
  case (Cons x xs)
  obtain raw ms where x: "x = (raw, ms)" by (cases x)
  let ?e = "media_event key ms raw"
  let ?s = "fst (stream_step A s ?e)"
  have raw: "from_video raw" "list_all (\<lambda>(raw, ms). from_video raw) xs" using Cons.prems(5) x by simp_all
  obtain g relay' where g: "parse_segment raw = Some g" "rs_connection relay' = rs_connection relay"
    "map_of (rs_conversations relay') VIDEO_CONVERSATION = Some (fst (input_segment g ms k))"
    "ss_relay ?s = Some relay'" "ss_media_handler ?s" "ss_answer_key ?s = ss_answer_key s"
    "ss_reassembler ?s = fst (feed (ss_reassembler s) (all_packets A (ss_answer_key s) (delivered (snd (input_segment g ms k)))))"
    "images (snd (stream_step A s ?e)) =
      snd (feed (ss_reassembler s) (all_packets A (ss_answer_key s) (delivered (snd (input_segment g ms k)))))"
    using video_frame_step [OF Cons.prems(1,2,3) raw(1) Cons.prems(6), of ms A] unfolding Cons.prems(4) .
  have "reading (rs_connection relay')" "key = rc_media_key (rs_connection relay')" using Cons.prems(3,4) g(2) by simp_all
  from Cons.IH [OF g(4,5) this raw(2) g(3)] g(6) have
    IH: "images (snd (run (stream_step A) ?s (map (video_event key) xs))) =
      snd (feed (ss_reassembler ?s) (all_packets A (ss_answer_key s)
        (delivered (snd (run kcp_step (fst (input_segment g ms k)) (segment_inputs xs))))))"
    by simp
  have i: "segment_inputs ((raw, ms) # xs) = Input g ms # segment_inputs xs" by (simp add: g(1))
  show ?case
    unfolding x i using IH g(7,8) by (simp add: Let_def run_append del: stream_step.simps)
qed

lemma record_nonempty: "length iv = 16 \<Longrightarrow> encrypt_record A iv key p = Inr r \<Longrightarrow> r \<noteq> []"
  by (auto simp: encrypt_record_def andThen_Inr_iff)

lemma grouped_records:
  "list_all (\<lambda>(iv, ps). length iv = 16 \<and> list_all clean_packet ps) groups \<Longrightarrow>
   traverse (\<lambda>(iv, ps). encrypt_record A iv key (concat (map prefixed ps))) groups = Inr recs \<Longrightarrow>
   list_all (\<lambda>r. r \<noteq> []) recs \<and>
   traverse (\<lambda>(iv, ps). encrypt_record A iv key (concat (map prefixed ps))) (drop n groups) = Inr (drop n recs)"
proof (induction groups arbitrary: recs n)
  case Nil
  then show ?case by simp
next
  case (Cons g groups)
  obtain iv ps where g: "g = (iv, ps)" by (cases g)
  obtain r rs where r: "encrypt_record A iv key (concat (map prefixed ps)) = Inr r" "recs = r # rs"
    "traverse (\<lambda>(iv, ps). encrypt_record A iv key (concat (map prefixed ps))) groups = Inr rs"
    using Cons.prems(2) by (auto simp: g andThen_Inr_iff)
  show ?case
    using Cons.IH [OF _ r(3)] Cons.prems r record_nonempty [OF _ r(1)] by (cases n) (auto simp: g)
qed

text \<open>The part of a picture whose head is lost is passed over.\<close>

definition continues :: "bytes \<Rightarrow> bool" where
  "continues p \<longleftrightarrow> length p \<le> 20 \<or> \<not> begins_frame (packet_chunk p)"

lemma headless_packets:
  "list_all continues rest \<Longrightarrow> ra_buffer r = None \<Longrightarrow> feed r rest = (r, [])"
proof (induction rest)
  case Nil
  then show ?case by simp
next
  case (Cons p rest)
  have "push p r = (r, None)"
    using Cons.prems push_cases [of p r]
    by (cases "length p \<le> 20") (simp_all add: push_def MEDIA_HEADER_LENGTH_def continues_def Let_def)
  with Cons show ?case by simp
qed

text \<open>What the device sends: pictures in packets, packets in records, records in segments.\<close>

definition device_video :: "cipher \<Rightarrow> bytes \<Rightarrow> (bytes \<times> bytes list) list \<Rightarrow> bytes list \<Rightarrow> bool" where
  "device_video A key groups sent \<longleftrightarrow>
     list_all (\<lambda>(iv, ps). length iv = 16 \<and> list_all clean_packet ps) groups \<and>
     (\<exists>recs clock. traverse (\<lambda>(iv, ps). encrypt_record A iv key (concat (map prefixed ps))) groups = Inr recs \<and>
        list_all (\<lambda>r. chunk_count r \<le> 256) recs \<and>
        sent = transmitted (snd (run kcp_step (new_conversation VIDEO_CONVERSATION) (sends (map (\<lambda>r. (r, clock)) recs)))) \<and>
        length sent \<le> 2 ^ 32)"

lemma device_video_delivered:
  assumes "device_video A key groups sent" "set (map fst xs) = set sent"
    and "windowed (List.map_filter parse_segment (map fst xs))"
  obtains recs where
    "traverse (\<lambda>(iv, ps). encrypt_record A iv key (concat (map prefixed ps))) groups = Inr recs"
    "delivered (snd (run kcp_step (listening VIDEO_CONVERSATION) (segment_inputs xs))) = recs"
    "list_all (\<lambda>(raw, ms). from_video raw) xs"
proof -
  obtain recs clock where d: "list_all (\<lambda>(iv, ps). length iv = 16 \<and> list_all clean_packet ps) groups"
    "traverse (\<lambda>(iv, ps). encrypt_record A iv key (concat (map prefixed ps))) groups = Inr recs"
    "list_all (\<lambda>r. chunk_count r \<le> 256) recs"
    "sent = transmitted (snd (run kcp_step (new_conversation VIDEO_CONVERSATION) (sends (map (\<lambda>r. (r, clock)) recs))))"
    "length sent \<le> 2 ^ 32"
    using assms(1) unfolding device_video_def by blast
  let ?msgs = "map (\<lambda>r. (r, clock)) recs" and ?arr = "List.map_filter parse_segment (map fst xs)"
  have count: "list_all (\<lambda>(m, clock). chunk_count m \<le> 256) ?msgs" using d(3) by (simp add: list_all_iff)
  have segs: "List.map_filter parse_segment sent = sent_segments (snd (run kcp_step (new_conversation VIDEO_CONVERSATION) (sends ?msgs)))"
    by (simp add: d(4) sent_segments_def)
  have len: "length (List.map_filter parse_segment sent) \<le> 2 ^ 32"
    using d(5) length_map_filter [of parse_segment sent] by simp
  have set_eq: "set ?arr = set (List.map_filter parse_segment sent)"
    using assms(2) by (simp add: map_filter_def)
  have "list_all (\<lambda>g. seg_command g = CMD_PUSH) ?arr"
    using sent_from_new(2) [OF count segs len] set_eq by (simp add: list_all_iff)
  then have "run kcp_step (listening VIDEO_CONVERSATION) (segment_inputs xs) = run kcp_step (listening VIDEO_CONVERSATION) (inputs 0 ?arr)"
    by (rule inputs_clock)
  then have "delivered (snd (run kcp_step (listening VIDEO_CONVERSATION) (segment_inputs xs))) = filter (\<lambda>r. r \<noteq> []) recs"
    using delivery_end_to_end [OF count segs len set_eq assms(3), of VIDEO_CONVERSATION 0] by (simp add: comp_def)
  also have "\<dots> = recs" using grouped_records [OF d(1,2)] by (simp add: filter_id_conv list_all_iff)
  finally have deliver: "delivered (snd (run kcp_step (listening VIDEO_CONVERSATION) (segment_inputs xs))) = recs" .
  have "list_all from_video sent" unfolding d(4) by (rule sent_from_video)
  moreover have "from_video raw" if "(raw, ms) \<in> set xs" "list_all from_video sent" for raw ms
    using that assms(2) by (force simp: list_all_iff)
  ultimately have "list_all (\<lambda>(raw, ms). from_video raw) xs" by (auto simp: list_all_iff)
  from that [OF d(2) deliver this] show ?thesis .
qed

text \<open>From the wait for the video on: the pictures whose packets are all in records completed
  behind it.\<close>

lemma pictures_behind_start:
  assumes "cbc_laws A" "length (ss_answer_key s) = 16" "ss_reassembler s = new_reassembler"
    and "ss_relay s = Some relay" "reading (rs_connection relay)"
    and "map_of (rs_conversations relay) VIDEO_CONVERSATION = None" "rs_video relay = VideoPending"
    and "device_video A (ss_answer_key s) groups sent" "early \<noteq> []" "set (map fst (early @ later)) = set sent"
    and "windowed (List.map_filter parse_segment (map fst (early @ later)))"
    and "lost = length (delivered (snd (run kcp_step (listening VIDEO_CONVERSATION) (segment_inputs early))))"
    and "concat (map snd (drop lost groups)) = rest @ concat (map snd imgs)" "list_all continues rest"
    and "list_all (\<lambda>(f, ps). image_packets f ps) imgs" "imgs \<noteq> []"
    and "key = rc_media_key (rs_connection relay)"
  obtains s2 es where
    "await_video A (map (video_event key) early) s = (s2, es, Inr ())" "images es = []"
    "images (snd (run (stream_step A) s2 (map (video_event key) later))) = map fst (butlast imgs)"
proof -
  obtain recs where recs: "traverse (\<lambda>(iv, ps). encrypt_record A iv (ss_answer_key s) (concat (map prefixed ps))) groups = Inr recs"
    "delivered (snd (run kcp_step (listening VIDEO_CONVERSATION) (segment_inputs (early @ later)))) = recs"
    "list_all (\<lambda>(raw, ms). from_video raw) (early @ later)"
    using device_video_delivered [OF assms(8,10,11)] .
  then have video: "list_all (\<lambda>(raw, ms). from_video raw) early" "list_all (\<lambda>(raw, ms). from_video raw) later" by simp_all
  obtain s2 es relay2 where start: "await_video A (map (video_event key) early) s = (s2, es, Inr ())" "images es = []"
    "ss_relay s2 = Some relay2" "rs_connection relay2 = rs_connection relay"
    "map_of (rs_conversations relay2) VIDEO_CONVERSATION =
       Some (set_message_handler True (fst (run kcp_step (new_conversation VIDEO_CONVERSATION) (segment_inputs early))))"
    "ss_media_handler s2" "ss_answer_key s2 = ss_answer_key s" "ss_reassembler s2 = ss_reassembler s"
    using await_video_opened [OF assms(4,5,17,6,7) video(1) assms(9)] .
  have all: "list_all (\<lambda>(iv, ps). length iv = 16 \<and> list_all clean_packet ps) groups"
    using assms(8) by (simp add: device_video_def)
  have g: "list_all (\<lambda>(iv, ps). length iv = 16 \<and> list_all clean_packet ps) (drop lost groups)"
    using all unfolding list_all_iff by (meson in_set_dropD)
  have "delivered (snd (run kcp_step (set_message_handler True
      (fst (run kcp_step (new_conversation VIDEO_CONVERSATION) (segment_inputs early)))) (segment_inputs later))) = drop lost recs"
    using late_handler [of VIDEO_CONVERSATION early later] recs(2) assms(12) by simp
  moreover have "reading (rs_connection relay2)" "key = rc_media_key (rs_connection relay2)"
    using assms(5,17) start(4) by simp_all
  ultimately have "images (snd (run (stream_step A) s2 (map (video_event key) later))) =
      snd (feed new_reassembler (all_packets A (ss_answer_key s) (drop lost recs)))"
    using heard_run [OF start(3,6) _ _ video(2) start(5), of key A] start(7,8) assms(3) by simp
  also have "all_packets A (ss_answer_key s) (drop lost recs) = rest @ concat (map snd imgs)"
    using records_of_groups [OF assms(1,2) g] grouped_records [OF all recs(1), of lost] assms(13) by simp
  also have "snd (feed new_reassembler (rest @ concat (map snd imgs))) = map fst (butlast imgs)"
    using headless_packets [OF assms(14), of new_reassembler] images_pushed [OF assms(15,16), of new_reassembler]
    by (simp add: run_append flush_def new_reassembler_def completed_def)
  finally show ?thesis by (rule that [OF start(1,2)])
qed

section \<open>From the start to the wait for the video\<close>

lemma sbind_Inr:
  "sbind f g s = (t, es, Inr y) \<longleftrightarrow>
     (\<exists>s1 fs x gs. f s = (s1, fs, Inr x) \<and> g x s1 = (t, gs, Inr y) \<and> es = fs @ gs)"
  by (auto simp: sbind_def split: prod.splits sum.splits)

text \<open>A session that has no media yet, and an operation that leaves it so.\<close>

definition medialess :: "stream \<Rightarrow> bool" where
  "medialess s \<longleftrightarrow> ss_reassembler s = new_reassembler \<and> \<not> ss_media_handler s"

definition undialled :: "stream \<Rightarrow> bool" where
  "undialled s \<longleftrightarrow> medialess s \<and> ss_relay s = None"

lemma undialled_step:
  "undialled s \<Longrightarrow> undialled (fst (stream_step A s e)) \<and> images (snd (stream_step A s e)) = [] \<and>
     ss_answer_key (fst (stream_step A s e)) = ss_answer_key s"
  by (cases e)
    (simp_all add: undialled_def medialess_def on_mqtt_parts on_datagram_parts send_candidate_parts on_relay_def)

lemma undialled_run:
  "undialled s \<Longrightarrow> undialled (fst (run (stream_step A) s es)) \<and> images (snd (run (stream_step A) s es)) = [] \<and>
     ss_answer_key (fst (run (stream_step A) s es)) = ss_answer_key s"
proof (induction es arbitrary: s)
  case (Cons e es)
  then show ?case using undialled_step [OF Cons.prems, of A e] by (simp add: Let_def del: stream_step.simps)
qed simp

lemma signaling_undialled:
  "undialled s \<Longrightarrow> connect_signaling sid source entering subscribing s = (s1, es, r) \<Longrightarrow> undialled s1 \<and> images es = []"
  "undialled s \<Longrightarrow> publish_signaling A at p s = (s1, es, r2) \<Longrightarrow> undialled s1 \<and> images es = []"
  "undialled s \<Longrightarrow> publish_offer A q o' offer trace_id token s = (s1, es, r3) \<Longrightarrow> undialled s1 \<and> images es = []"
  "undialled s \<Longrightarrow> gather_candidates pw probe port s = (s1, es, r4) \<Longrightarrow> undialled s1 \<and> images es = []"
proof -
  show c: "undialled s \<Longrightarrow> connect_signaling sid source entering subscribing s = (s1, es, r) \<Longrightarrow> undialled s1 \<and> images es = []"
    by (auto simp: connect_signaling_def undialled_def medialess_def Let_def split: prod.splits)
  have p: "undialled s \<Longrightarrow> publish_signaling A at p s = (s1, es, r2) \<Longrightarrow> undialled s1 \<and> images es = []" for s s1 es r2 at p
    by (auto simp: publish_signaling_def undialled_def medialess_def split: prod.splits option.splits)
  then show "undialled s \<Longrightarrow> publish_signaling A at p s = (s1, es, r2) \<Longrightarrow> undialled s1 \<and> images es = []" .
  have sup: "\<exists>r'. publish_signaling A at p s = (s1, es, r')" if "suppress (publish_signaling A at p) s = (s1, es, r)" for s s1 es r at p
    using that by (auto simp: suppress_def split: prod.splits sum.splits)
  show "undialled s \<Longrightarrow> publish_offer A q o' offer trace_id token s = (s1, es, r3) \<Longrightarrow> undialled s1 \<and> images es = []"
  proof -
    assume u: "undialled s" and o: "publish_offer A q o' offer trace_id token s = (s1, es, r3)"
    obtain s2 fs r' where q: "suppress (publish_signaling A q SigQuery) s = (s2, fs, r')" by (rule prod_cases3)
    with sup p [OF u] have s2: "undialled s2" "images fs = []" by blast+
    let ?offer = "Offer (offer_sdp offer) (ice_servers_as_json (ss_config s)) trace_id (token_as_json token) (log_config_as_json (ss_config s))"
    obtain s3 gs r'' where "publish_signaling A o' ?offer s2 = (s3, gs, r'')" by (rule prod_cases3)
    with p [OF s2(1) this] s2 q o show "undialled s1 \<and> images es = []"
      by (cases r') (auto simp: publish_offer_def sbind_def)
  qed
  have ice: "undialled s \<Longrightarrow> undialled (fst (absorb_all absorb_ice es s)) \<and> images (snd (absorb_all absorb_ice es s)) = []" for es s
  proof (induction es arbitrary: s)
    case (Cons e es)
    then show ?case
      by (cases e) (simp_all add: absorb_ice_def on_local_candidate_def undialled_def medialess_def Let_def)
  qed simp
  show "undialled s \<Longrightarrow> gather_candidates pw probe port s = (s1, es, r4) \<Longrightarrow> undialled s1 \<and> images es = []"
    using ice [of "s\<lparr>ss_ice := i\<rparr>" for i] by (auto simp: gather_candidates_def Let_def undialled_def medialess_def)
qed

lemma connect_attempt_success:
  assumes "connect_attempt A token signer key a s = (relay, es, Inr rest)"
  shows "relay = connected_session key"
proof -
  have f: "fst (forward_all ms (concat (map (\<lambda>f. write_frame f c) frames)) r) = r" for ms c frames r
    by (cases "rc_closed c \<or> \<not> rc_writer c"; induction frames) (auto simp: write_frame_def Let_def)
  show ?thesis
    using assms
    by (auto simp: connect_attempt_def connect_session_def connect_def Let_def f new_session_def connected_session_def
        new_connection_def set_close_handler_def set_segment_handler_def
        split: if_splits sum.splits option.splits prod.splits)
qed

lemma dial_loop_success:
  "undialled s \<Longrightarrow> dial_loop A token signer key attempts previous s = (s1, es, Inr relay) \<Longrightarrow>
     undialled s1 \<and> images es = [] \<and> relay = connected_session key \<and> ss_answer_key s1 = ss_answer_key s"
proof (induction attempts arbitrary: s previous es)
  case Nil
  then show ?case by simp
next
  case (Cons a attempts)
  note u = undialled_run [OF Cons.prems(1), of A "at_events a"]
  show ?case
  proof (cases "connect_attempt A token signer key a s")
    case (fields r fs result)
    show ?thesis
    proof (cases result)
      case (Inr rest)
      then show ?thesis
        using Cons.prems fields connect_attempt_success [of A token signer key a s r fs rest] by (auto split: if_splits)
    next
      case (Inl e)
      then obtain rest previous' where "dial_loop A token signer key attempts previous' (fst (run (stream_step A) s (at_events a))) =
          (s1, rest, Inr relay)" "images es = images (snd (run (stream_step A) s (at_events a))) @ images rest"
        using Cons.prems(2) fields by (auto simp: Let_def split: if_splits prod.splits option.splits)
      with Cons.IH u show ?thesis by auto
    qed
  qed
qed

text \<open>A relay that carries no video yet.\<close>

definition silent_video :: "bytes \<Rightarrow> relay_session \<Rightarrow> bool" where
  "silent_video key relay \<longleftrightarrow> reading (rs_connection relay) \<and> rc_media_key (rs_connection relay) = key \<and>
     map_of (rs_conversations relay) VIDEO_CONVERSATION = None \<and> rs_video relay = VideoPending"

lemma silent_connected: "silent_video key (connected_session key)"
  by (simp add: silent_video_def CONTROL_CONVERSATION_def VIDEO_CONVERSATION_def)
    (simp add: reading_def connected_session_def)

lemma silent_on_conversation: "silent_video key relay \<Longrightarrow> silent_video key (fst (on_conversation CONTROL_CONVERSATION e relay))"
  by (simp add: silent_video_def on_conversation_eq map_of_update CONTROL_CONVERSATION_def VIDEO_CONVERSATION_def)

lemma silent_control_step:
  "silent_video key relay \<Longrightarrow> silent_video key (fst (session_step relay (SendTo CONTROL_CONVERSATION m clock)))"
  "silent_video key relay \<Longrightarrow> silent_video key (fst (session_step relay (HandlerOf CONTROL_CONVERSATION h)))"
  "silent_video key relay \<Longrightarrow> silent_video key (fst (session_step relay (OnClosed h)))"
  by (simp_all add: silent_on_conversation, simp_all add: silent_video_def)

lemma silent_tunnel: "silent_video key relay \<Longrightarrow> silent_video key (fst (send_tunnel_frame A k ivs frame relay))"
proof -
  have seg: "silent_video key (fst (send_tunnel_segment rec relay))" if "silent_video key relay" for rec relay
    using that by (auto simp: send_tunnel_segment_def silent_video_def split: sum.split list.split connection_effect.split)
  have "silent_video key (fst (tunnel_loop A k padded offsets ivs relay))" if "silent_video key relay" for padded offsets ivs relay
    using that
  proof (induction A k padded offsets ivs relay rule: tunnel_loop.induct)
    case (1 A k padded offset offsets iv ivs relay)
    show ?case
    proof (cases "aes_cbc_encrypt_raw A k iv (slice padded offset (offset + TUNNEL_CHUNK))")
      case (Inl e)
      then show ?thesis using 1 by simp
    next
      case (Inr c)
      then show ?thesis using "1.IH" [OF Inr refl] seg [OF "1.prems"] by (simp add: Let_def)
    qed
  qed simp_all
  then show "silent_video key relay \<Longrightarrow> silent_video key (fst (send_tunnel_frame A k ivs frame relay))"
    by (simp add: send_tunnel_frame_def split: sum.split)
qed

definition dialled :: "bytes \<Rightarrow> stream \<Rightarrow> bool" where
  "dialled key s \<longleftrightarrow> medialess s \<and> (\<exists>relay. ss_relay s = Some relay \<and> silent_video key relay)"

text \<open>An operation on such a session, with what it leaves alone.\<close>

definition keeps_dialled :: "bytes \<Rightarrow> stream \<Rightarrow> stream \<Rightarrow> stream_effect list \<Rightarrow> bool" where
  "keeps_dialled key s t es \<longleftrightarrow> (dialled key s \<longrightarrow> dialled key t) \<and> images es = [] \<and> ss_answer_key t = ss_answer_key s"

lemma keeps_trans: "keeps_dialled key s t es \<Longrightarrow> keeps_dialled key t u fs \<Longrightarrow> keeps_dialled key s u (es @ fs)"
  by (simp add: keeps_dialled_def)

lemma keeps_sbind:
  assumes "sbind f g s = (u, es, r)" "\<And>t fs r. f s = (t, fs, r) \<Longrightarrow> keeps_dialled key s t fs"
    and "\<And>x t u gs r. g x t = (u, gs, r) \<Longrightarrow> keeps_dialled key t u gs"
  shows "keeps_dialled key s u es"
proof -
  obtain t fs r' where f: "f s = (t, fs, r')" by (rule prod_cases3)
  show ?thesis
  proof (cases r')
    case (Inl e)
    with assms(1) f assms(2) [OF f] show ?thesis by (simp add: sbind_def)
  next
    case (Inr x)
    obtain v gs r'' where "g x t = (v, gs, r'')" by (rule prod_cases3)
    with assms(1) f Inr keeps_trans [OF assms(2) [OF f] assms(3) [OF this]] show ?thesis by (simp add: sbind_def)
  qed
qed

lemma keeps_on_the_relay:
  assumes "\<And>relay. silent_video key relay \<Longrightarrow> silent_video key (fst (f relay))" "on_the_relay f s = (t, es, r)"
  shows "keeps_dialled key s t es"
  using assms by (auto simp: on_the_relay_def keeps_dialled_def dialled_def medialess_def Let_def split: option.splits)

lemma keeps_tunnel:
  "send_tunnel_frames A k ivs i frames s = (t, es, r) \<Longrightarrow> keeps_dialled key s t es"
proof (induction frames arbitrary: s t es r i)
  case Nil
  then show ?case by (simp add: keeps_dialled_def)
next
  case (Cons frame frames)
  show ?case
    by (rule keeps_sbind [OF Cons.prems [unfolded send_tunnel_frames.simps]])
      (erule keeps_on_the_relay [rotated], erule silent_tunnel, erule Cons.IH)
qed

lemma keeps_packets:
  "send_packets A k ivs clock i packets s = (t, es, r) \<Longrightarrow> keeps_dialled key s t es"
proof (induction packets arbitrary: s t es r i)
  case Nil
  then show ?case by (simp add: keeps_dialled_def)
next
  case (Cons packet packets)
  show ?case
  proof (cases "encrypt_record A (ivs i) k packet")
    case (Inl e)
    then show ?thesis using Cons.prems by (simp add: keeps_dialled_def)
  next
    case (Inr rec)
    from Cons.prems have "sbind (on_the_relay (\<lambda>relay. session_step relay (SendTo CONTROL_CONVERSATION rec (clock i))))
        (\<lambda>_. send_packets A k ivs clock (Suc i) packets) s = (t, es, r)"
      by (simp add: Inr)
    then show ?thesis
      by (rule keeps_sbind) (erule keeps_on_the_relay [rotated], erule silent_control_step, erule Cons.IH)
  qed
qed

lemma keeps_channel_zero:
  assumes "send_channel_zero A ivs clock send_key receive_key s = (t, es, r)"
  shows "keeps_dialled key s t es"
proof (rule keeps_sbind [OF assms [unfolded send_channel_zero_def]])
  fix t fs r
  assume "on_the_relay (\<lambda>relay. session_step relay (HandlerOf CONTROL_CONVERSATION True)) s = (t, fs, r)"
  then show "keeps_dialled key s t fs" by (rule keeps_on_the_relay [rotated]) (rule silent_control_step)
next
  fix x t u gs r
  have k: "keeps_dialled key t (t\<lparr>ss_receive_key := Some receive_key\<rparr>) []"
    by (simp add: keeps_dialled_def dialled_def medialess_def)
  assume "(case start_sequence (auth_credential (sc_device_password (ss_config s)) (sc_local_key (ss_config s))) AUTH_USERNAME of
      Inl e \<Rightarrow> (t\<lparr>ss_receive_key := Some receive_key\<rparr>, [], Inl e)
    | Inr packets \<Rightarrow> send_packets A send_key ivs clock 0 packets (t\<lparr>ss_receive_key := Some receive_key\<rparr>)) = (u, gs, r)"
  then show "keeps_dialled key t u gs"
    using k keeps_trans [OF k keeps_packets [of A send_key ivs clock 0 _ "t\<lparr>ss_receive_key := Some receive_key\<rparr>" u gs r key]]
    by (auto split: sum.splits)
qed

text \<open>A start that succeeds comes to the wait for the video with a relay that carries none.\<close>

lemma start_awaits_video:
  assumes "start A x s = (s1, es, Inr ())" "undialled s"
  obtains s0 es0 es1 where
    "await_video A (st_before_video x) s0 = (s1, es1, Inr ())" "es = es0 @ es1" "images es0 = []"
    "dialled (p2p_aes_key (sc_p2p_session (ss_config s))) s0"
proof -
  let ?config = "ss_config s"
  let ?token = "session_token x ?config" and ?trace = "session_trace_id x ?config" and ?offer = "session_offer x ?config (ss_uid s)"
  have key: "offer_aes_key ?offer = p2p_aes_key (sc_p2p_session ?config)"
    by (simp add: session_offer_def build_offer_def Let_def)
  obtain sa ea ua where a: "connect_signaling (p2p_session_id (sc_p2p_session ?config)) (st_source x) (st_entering x)
      (st_subscribing x) s = (sa, ea, Inr ua)"
    "sbind (publish_offer A (st_query x) (st_offer x) ?offer ?trace ?token) (\<lambda>_.
       sbind (gather_candidates (p2p_ice_password (sc_p2p_session ?config)) (st_probe x) (st_port x)) (\<lambda>_.
       sbind (await_answer A (st_before_answer x)) (after_answer A x ?offer ?trace ?token))) sa = (s1, drop (length ea) es, Inr ())"
    "es = ea @ drop (length ea) es"
    using assms(1) by (auto simp: start_def Let_def sbind_Inr [of _ _ s])
  obtain sb eb ub fb where b: "publish_offer A (st_query x) (st_offer x) ?offer ?trace ?token sa = (sb, eb, Inr ub)"
    "sbind (gather_candidates (p2p_ice_password (sc_p2p_session ?config)) (st_probe x) (st_port x)) (\<lambda>_.
       sbind (await_answer A (st_before_answer x)) (after_answer A x ?offer ?trace ?token)) sb = (s1, fb, Inr ())"
    "drop (length ea) es = eb @ fb"
    using a(2) by (auto simp: sbind_Inr [of _ _ sa])
  obtain sc ec uc fc where c: "gather_candidates (p2p_ice_password (sc_p2p_session ?config)) (st_probe x) (st_port x) sb = (sc, ec, Inr uc)"
    "sbind (await_answer A (st_before_answer x)) (after_answer A x ?offer ?trace ?token) sc = (s1, fc, Inr ())" "fb = ec @ fc"
    using b(2) by (auto simp: sbind_Inr [of _ _ sb])
  obtain sd ed answer fd where d: "await_answer A (st_before_answer x) sc = (sd, ed, Inr answer)"
    "after_answer A x ?offer ?trace ?token answer sd = (s1, fd, Inr ())" "fc = ed @ fd"
    using c(2) by (auto simp: sbind_Inr [of _ _ sc])
  have "undialled sa" "images ea = []" using signaling_undialled(1) [OF assms(2) a(1)] by simp_all
  moreover then have "undialled sb" "images eb = []" using signaling_undialled(3) [OF _ b(1)] by simp_all
  moreover then have "undialled sc" "images ec = []" using signaling_undialled(4) [OF _ c(1)] by simp_all
  moreover then have "undialled sd" "images ed = []"
    using undialled_run [of sc A "st_before_answer x"] d(1) by (auto simp: await_answer_def Let_def)
  ultimately have before: "undialled sd" "images (ea @ eb @ ec @ ed) = []" by simp_all
  let ?sd = "sd\<lparr>ss_answer_key := answer_aes_key answer\<rparr>"
  obtain se ee relay fe where e: "dial_relay A (st_attempts x) ?token (offer_aes_key ?offer) ?sd = (se, ee, Inr relay)"
    "sbind (install_relay relay) (\<lambda>_. sbind (tunnel_signaling A (st_tunnel_ivs x) ?offer ?trace ?token) (\<lambda>_.
       sbind (send_channel_zero A (st_control_ivs x) (st_clock x) (offer_aes_key ?offer) (answer_aes_key answer)) (\<lambda>_.
       await_video A (st_before_video x)))) se = (s1, fe, Inr ())" "fd = ee @ fe"
    using d(2) by (auto simp: after_answer_def sbind_Inr [of _ _ ?sd])
  have "undialled ?sd" using before(1) by (simp add: undialled_def medialess_def)
  then have dial: "undialled se" "images ee = []" "relay = connected_session (offer_aes_key ?offer)"
    using e(1) dial_loop_success [where relay = relay and s = ?sd]
    by (auto simp: dial_relay_def split: sum.splits prod.splits)
  let ?se = "se\<lparr>ss_relay := Some (fst (session_step relay (OnClosed True)))\<rparr>"
  have "sbind (tunnel_signaling A (st_tunnel_ivs x) ?offer ?trace ?token) (\<lambda>_.
       sbind (send_channel_zero A (st_control_ivs x) (st_clock x) (offer_aes_key ?offer) (answer_aes_key answer)) (\<lambda>_.
       await_video A (st_before_video x))) ?se = (s1, fe, Inr ())"
    using e(2) by (auto simp: install_relay_def sbind_Inr [of _ _ se] simp del: session_step.simps)
  then obtain sf ef uf ff where f: "tunnel_signaling A (st_tunnel_ivs x) ?offer ?trace ?token ?se = (sf, ef, Inr uf)"
    "sbind (send_channel_zero A (st_control_ivs x) (st_clock x) (offer_aes_key ?offer) (answer_aes_key answer)) (\<lambda>_.
       await_video A (st_before_video x)) sf = (s1, ff, Inr ())" "fe = ef @ ff"
    by (auto simp: sbind_Inr [of _ _ ?se] simp del: session_step.simps)
  obtain sg eg ug fg where g: "send_channel_zero A (st_control_ivs x) (st_clock x) (offer_aes_key ?offer) (answer_aes_key answer) sf =
      (sg, eg, Inr ug)" "await_video A (st_before_video x) sg = (s1, fg, Inr ())" "ff = eg @ fg"
    using f(2) by (auto simp: sbind_Inr [of _ _ sf])
  have "dialled (offer_aes_key ?offer) ?se"
    using dial(1) silent_control_step(3) [OF silent_connected, of "offer_aes_key ?offer" True]
    by (simp add: dialled_def undialled_def medialess_def dial(3) del: session_step.simps)
  with keeps_trans [OF keeps_tunnel [OF f(1) [unfolded tunnel_signaling_def]] keeps_channel_zero [OF g(1)], of "offer_aes_key ?offer"]
  have "dialled (offer_aes_key ?offer) sg" "images (ef @ eg) = []" by (simp_all add: keeps_dialled_def)
  with before(2) dial(2) show ?thesis
    using that [OF g(2), of "ea @ eb @ ec @ ed @ ee @ ef @ eg"] a(3) b(3) c(3) d(3) e(3) f(3) g(3) key by simp
qed

text \<open>The pictures of a session on such a relay, and so of every session that started.\<close>

lemma pictures_of_dialled:
  assumes "cbc_laws A" "length (ss_answer_key s) = 16" "dialled key s"
    and "device_video A (ss_answer_key s) groups sent" "early \<noteq> []" "set (map fst (early @ later)) = set sent"
    and "windowed (List.map_filter parse_segment (map fst (early @ later)))"
    and "lost = length (delivered (snd (run kcp_step (listening VIDEO_CONVERSATION) (segment_inputs early))))"
    and "concat (map snd (drop lost groups)) = rest @ concat (map snd imgs)" "list_all continues rest"
    and "list_all (\<lambda>(f, ps). image_packets f ps) imgs" "imgs \<noteq> []"
  obtains s2 es where
    "await_video A (map (video_event key) early) s = (s2, es, Inr ())" "images es = []"
    "images (snd (run (stream_step A) s2 (map (video_event key) later))) = map fst (butlast imgs)"
proof -
  obtain relay where d: "ss_reassembler s = new_reassembler" "ss_relay s = Some relay" "reading (rs_connection relay)"
    "map_of (rs_conversations relay) VIDEO_CONVERSATION = None" "rs_video relay = VideoPending"
    "key = rc_media_key (rs_connection relay)"
    using assms(3) by (auto simp: dialled_def medialess_def silent_video_def)
  show ?thesis
    by (rule pictures_behind_start [OF assms(1,2) d(1-5) assms(4-12) d(6)]) (rule that)
qed

end
