(* ===== verification/Stream_Completes.thy ===== *)
theory Stream_Completes
  imports Stream_Live
begin

text \<open>
  The start of a session that goes well: a broker that takes what is published, a device that
  answers the offer and comes to the relay, and a network that carries the frames bring
  \<open>start\<close> through every await to its end. The predicates say what each of them does, one per
  component; the lemmas follow the start from one await to the next.
\<close>

section \<open>What cooperates\<close>

text \<open>The configuration is one a session can be built from.\<close>

definition usable :: "start_script \<Rightarrow> stream_config \<Rightarrow> bool" where
  "usable x c \<longleftrightarrow> aes_key_size (str_encode (sc_local_key c)) \<and> p2p_session_id (sc_p2p_session c) \<noteq> [] \<and>
     length (p2p_aes_key (sc_p2p_session c)) = 16 \<and> wf_json (ice_servers_as_json c) \<and> wf_json (log_config_as_json c) \<and>
     wf_json (token_as_json (session_token x c)) \<and> length (credential_key (session_token x c)) = 16 \<and>
     16 \<le> length (rt_credential (session_token x c)) \<and> (\<exists>address. endpoint (session_token x c) = Inr address)"

definition broker_takes :: "start_script \<Rightarrow> bool" where
  "broker_takes x \<longleftrightarrow> st_entering x = Accepted \<and> st_subscribing x = Accepted \<and>
     snd (st_query x) = Accepted \<and> int_in_range (fst (st_query x)) \<and>
     snd (st_offer x) = Accepted \<and> int_in_range (fst (st_offer x)) \<and> 4 \<le> length (st_source x)"

text \<open>The device's answer to the offer of a session.\<close>

definition answer_data :: "string \<Rightarrow> string \<Rightarrow> json_object" where
  "answer_data session_id sdp =
     [(''header'', JObj [(''type'', JStr ''answer''), (''sessionid'', JStr session_id)]),
      (''msg'', JObj [(''sdp'', JStr sdp)])]"

text \<open>While the session waits for it, the candidate goes out, and then the answer comes in.\<close>

definition device_answers :: "cipher \<Rightarrow> start_script \<Rightarrow> stream_config \<Rightarrow> sdp_answer \<Rightarrow> bool" where
  "device_answers A x c answer \<longleftrightarrow>
     (\<exists>t payload sdp. st_before_answer x = [CandidateTask t Accepted, Mqtt (Some payload)] \<and> int_in_range t \<and>
        decode_payload A (str_encode (sc_local_key c)) payload = Inr (answer_data (p2p_session_id (sc_p2p_session c)) sdp) \<and>
        parse_answer sdp = Inr answer)"

text \<open>The device is at the relay: it answers the handshake, with keepalives in between.\<close>

definition admits ::
    "cipher \<Rightarrow> relay_token \<Rightarrow> handshake_signer \<Rightarrow> string \<Rightarrow> string \<Rightarrow> attempt \<Rightarrow> bool" where
  "admits A token signer device_id uid a \<longleftrightarrow>
     at_dialled a = None \<and> length (at_iv1 a) = 16 \<and> length (at_iv2 a) = 16 \<and>
     length (str_encode (rt_session_id token)) + length (str_encode (rt_username token)) +
       length (build_auth_request device_id uid (at_random a)) + 95 < 65536 \<and>
     (\<exists>n m index iv device_random reply final rest.
        at_input a = concat (replicate n (framed (FRAME_KEEPALIVE, []))) @ reply @
          concat (replicate m (framed (FRAME_KEEPALIVE, []))) @ framed (FRAME_HANDSHAKE, final) @ rest \<and>
        assemble_handshake_frame A index (credential_key token) iv [] []
          (dump_json (JObj (device_answer signer (at_random a) device_random))) = Inr reply \<and>
        index < 65536 \<and> length iv = 16 \<and> CHR '','' \<notin> set device_random \<and> length final < 65536 \<and>
        length (dump_json (JObj (device_answer signer (at_random a) device_random))) + 95 < 65536 \<and>
        length (str_encode (rt_session_id token)) + length (str_encode (rt_username token)) +
          length (build_auth_ack device_id uid (ack_signature signer (device_signature signer (at_random a)) device_random))
          + 95 < 65536)"

text \<open>The relay is dialled until the device is there, with refusals at the socket before.\<close>

definition device_dialled :: "cipher \<Rightarrow> start_script \<Rightarrow> stream_config \<Rightarrow> string \<Rightarrow> bool" where
  "device_dialled A x c uid \<longleftrightarrow>
     (\<exists>n signer. n < 12 \<and> list_all refused_attempt (map (st_attempts x) [1..<Suc n]) \<and>
        signer_of (session_token x c) (new_stream c uid) = Inr signer \<and>
        admits A (session_token x c) signer (sc_device_id c) uid (st_attempts x (Suc n)))"

text \<open>The frames of the tunnel fit their length field, and each record has its vector.\<close>

definition tunnelled :: "(nat \<Rightarrow> bytes list) \<Rightarrow> nat \<Rightarrow> bytes list \<Rightarrow> bool" where
  "tunnelled ivs i frames \<longleftrightarrow>
     (\<forall>j < length frames. length (frames ! j) < 65536 \<and> (\<forall>iv \<in> set (ivs (i + j)). length iv = 16) \<and>
        length (ivs (i + j)) = tunnel_records (frames ! j))"

definition cooperative :: "cipher \<Rightarrow> start_script \<Rightarrow> stream_config \<Rightarrow> string \<Rightarrow> sdp_answer \<Rightarrow> bool" where
  "cooperative A x c uid answer \<longleftrightarrow>
     usable x c \<and> broker_takes x \<and> device_answers A x c answer \<and> device_dialled A x c uid \<and>
     tunnelled (st_tunnel_ivs x) 0 (tunnel_frames (session_offer x c uid) (session_trace_id x c) (session_token x c)
       ((new_stream c uid)\<lparr>ss_candidates := [candidate_line (local_address (st_probe x)) (st_port x)]\<rparr>)) \<and>
     (\<forall>i. length (st_control_ivs x i) = 16)"

section \<open>From await to await\<close>

lemma answer_dispatched:
  "sdp \<noteq> [] \<Longrightarrow> dispatched m (answer_data (mo_session_id m) sdp) = [Answer sdp]"
  by (simp add: dispatched_def answer_data_def optional_object_def optional_str_def dispatch_def)

lemma answered_key: "device_answers A x c answer \<Longrightarrow> length (answer_aes_key answer) = 16"
  by (auto simp: device_answers_def parse_answer_def andThen_Inr_iff MEDIA_KEY_SIZE_def split: if_splits prod.splits)

lemma answer_heard:
  assumes "ecb_laws A" "ss_moto s = Some m" "publishing A m" "mo_reading m" "Suc (mo_sequence m) < 2 ^ 32"
    and "ss_candidate_tasks s = [candidate]" "ss_answer s = AnswerPending" "int_in_range t"
    and "decode_payload A (mo_key m) payload = Inr (answer_data (mo_session_id m) sdp)" "parse_answer sdp = Inr answer"
  obtains m' p where
    "await_answer A [CandidateTask t Accepted, Mqtt (Some payload)] s =
       (s\<lparr>ss_moto := Some m', ss_candidate_tasks := [], ss_answer := Answered answer\<rparr>,
        [Signaling (Published (mo_publish_topic m) p)], Inr answer)"
proof -
  have wf: "wf_outbound (LocalCandidate candidate)" by simp
  obtain p data body where p: "send_outbound A t Accepted (LocalCandidate candidate) m =
      (m\<lparr>mo_sequence := Suc (mo_sequence m)\<rparr>, [Published (mo_publish_topic m) p], None)"
    using send_outbound_payload [OF assms(1,3,5,8) wf] by metis
  let ?m = "m\<lparr>mo_sequence := Suc (mo_sequence m)\<rparr>"
  let ?s = "s\<lparr>ss_moto := Some ?m, ss_candidate_tasks := []\<rparr>"
  have first: "send_candidate A t Accepted s = (?s, [Signaling (Published (mo_publish_topic m) p)])"
    using assms(2,6) by (simp add: send_candidate_def p)
  have "parse_answer [] = Inl (ProtocolError ''Failed to parse answer'')" by code_simp
  then have "sdp \<noteq> []" using assms(10) by auto
  then have d: "dispatched ?m (answer_data (mo_session_id m) sdp) = [Answer sdp]"
    using answer_dispatched [of sdp ?m] by simp
  have a: "absorb_moto (Answer sdp) s' = (s'\<lparr>ss_answer := Answered answer\<rparr>, None)" if "ss_answer s' = AnswerPending" for s'
    using that assms(10) by (simp add: absorb_moto_def on_answer_def answer_done_def)
  have "on_mqtt A (Some payload) ?s = ?s\<lparr>ss_answer := Answered answer\<rparr>"
    using mqtt_decoded [of ?s ?m A payload, OF _ _ _ d] assms(4,7,9) by (simp add: a)
  with first show ?thesis
    by (intro that [of "?m" p]) (simp add: await_answer_def Let_def)
qed

lemma admitted:
  assumes "cbc_laws A" "16 \<le> length (rt_credential token)" "length (credential_key token) = 16" "endpoint token = Inr address"
    and "admits A token signer (sc_device_id (ss_config s)) (ss_uid s) a"
  obtains es rest where "connect_attempt A token signer key a s = (connected_session key, es, Inr rest)"
proof -
  obtain rest f1 f2 where h: "handshake A token signer (sc_device_id (ss_config s)) (ss_uid s) (at_random a) (at_iv1 a) (at_iv2 a)
      (at_ending a) (at_input a) = ([f1, f2], Inr rest)"
    using assms(5) handshake_succeeds [OF assms(1,3)] unfolding admits_def by metis
  obtain r es where "connect_attempt A token signer key a s = (r, es, Inr rest)"
    using assms(2,4,5) h
    by (simp add: connect_attempt_def connect_session_def connect_def CREDENTIAL_KEY_LENGTH_def admits_def Let_def)
  with connect_attempt_success [OF this] that show ?thesis by simp
qed

lemma frames_tunnelled:
  assumes "cbc_laws A" "length key = 16"
  shows "ss_relay s = Some relay \<Longrightarrow> writable (rs_connection relay) \<Longrightarrow> tunnelled ivs i frames \<Longrightarrow>
    \<exists>n es. send_tunnel_frames A key ivs i frames s = (s\<lparr>ss_relay := Some (relay\<lparr>rs_signaling_sequence := n\<rparr>)\<rparr>, es, Inr ())"
proof (induction frames arbitrary: i s relay)
  case Nil
  then show ?case by (intro exI [of _ "rs_signaling_sequence relay"]) (cases s; cases relay; simp)
next
  case (Cons frame frames)
  have f: "length frame < 65536" "\<forall>iv \<in> set (ivs i). length iv = 16" "length (ivs i) = tunnel_records frame"
    and rest: "tunnelled ivs (Suc i) frames"
    using Cons.prems(3) by (force simp: tunnelled_def)+
  obtain raws where sent: "send_tunnel_frame A key (ivs i) frame relay =
      (relay\<lparr>rs_signaling_sequence := rs_signaling_sequence relay + length (ivs i)\<rparr>,
       map (\<lambda>raw. Sent (segment_frame (rc_media_key (rs_connection relay)) raw)) raws)"
    using tunnel_frame_sent [OF assms f(1) Cons.prems(2) f(2,3)] .
  let ?r = "relay\<lparr>rs_signaling_sequence := rs_signaling_sequence relay + length (ivs i)\<rparr>"
  let ?s = "s\<lparr>ss_relay := Some ?r\<rparr>"
  have first: "on_the_relay (send_tunnel_frame A key (ivs i) frame) s =
      (?s, map Relay (map (\<lambda>raw. Sent (segment_frame (rc_media_key (rs_connection relay)) raw)) raws), Inr ())"
    unfolding on_the_relay_some [OF Cons.prems(1)] sent by (simp add: relay_result_sent)
  obtain n es where "send_tunnel_frames A key ivs (Suc i) frames ?s =
      (?s\<lparr>ss_relay := Some (?r\<lparr>rs_signaling_sequence := n\<rparr>)\<rparr>, es, Inr ())"
    using Cons.IH [of ?s ?r "Suc i"] Cons.prems(2) rest by auto
  with first show ?case by (auto simp: sbind_def)
qed


text \<open>From the answer to the wait for the video.\<close>

lemma media_brought_up:
  assumes "cbc_laws A" "usable x c" "device_dialled A x c uid"
    and "ss_config s = c" "ss_uid s = uid" "ss_ended s = None" "undialled s"
    and "offer_aes_key offer = p2p_aes_key (sc_p2p_session c)"
    and "tunnelled (st_tunnel_ivs x) 0 (tunnel_frames offer trace_id (session_token x c) s)"
    and "\<And>i. length (st_control_ivs x i) = 16"
  obtains s0 es where
    "after_answer A x offer trace_id (session_token x c) answer s =
      (case await_video A (st_before_video x) s0 of (s1, fs, r) \<Rightarrow> (s1, es @ fs, r))"
    "dialled (p2p_aes_key (sc_p2p_session c)) s0" "ss_answer_key s0 = answer_aes_key answer" "images es = []"
proof -
  let ?token = "session_token x c" and ?key = "p2p_aes_key (sc_p2p_session c)"
  let ?s = "s\<lparr>ss_answer_key := answer_aes_key answer\<rparr>"
  obtain address where u: "length ?key = 16" "length (credential_key ?token) = 16" "16 \<le> length (rt_credential ?token)"
    "endpoint ?token = Inr address"
    using assms(2) by (auto simp: usable_def)
  obtain n signer where n: "n < 12" "list_all refused_attempt (map (st_attempts x) [1..<Suc n])"
    "signer_of ?token ?s = Inr signer" "admits A ?token signer (sc_device_id (ss_config ?s)) (ss_uid ?s) (st_attempts x (Suc n))"
    using assms(3-5) by (auto simp: device_dialled_def signer_of_def new_stream_def)
  obtain ds rest where c: "connect_attempt A ?token signer ?key (st_attempts x (Suc n)) ?s = (connected_session ?key, ds, Inr rest)"
    using admitted [OF assms(1) u(3,2,4) n(4)] .
  have "ss_ended ?s = None" using assms(6) by simp
  from dial_rides_out [OF u(3,4) n(3) this n(2) c] n(1)
  have dial: "dial_relay A (st_attempts x) ?token ?key ?s = (?s, map Relay ds, Inr (connected_session ?key))" by simp
  define relay where "relay = fst (session_step (connected_session ?key) (OnClosed True))"
  let ?s1 = "?s\<lparr>ss_relay := Some relay\<rparr>"
  have r: "rs_connection relay = rs_connection (connected_session ?key)"
    "rs_conversations relay = [(CONTROL_CONVERSATION, new_conversation CONTROL_CONVERSATION)]" "session_inv relay"
    by (simp_all add: relay_def session_inv_fields)
  have frames: "tunnel_frames offer trace_id ?token ?s1 = tunnel_frames offer trace_id ?token s"
    by (simp add: tunnel_frames_def)
  obtain m ts where tunnel: "send_tunnel_frames A ?key (st_tunnel_ivs x) 0 (tunnel_frames offer trace_id ?token s) ?s1 =
      (?s1\<lparr>ss_relay := Some (relay\<lparr>rs_signaling_sequence := m\<rparr>)\<rparr>, ts, Inr ())"
    using frames_tunnelled [OF assms(1) u(1), of ?s1 relay "st_tunnel_ivs x" 0 "tunnel_frames offer trace_id ?token s"]
      r(1) assms(9) by auto
  let ?r2 = "relay\<lparr>rs_signaling_sequence := m\<rparr>"
  let ?s2 = "?s1\<lparr>ss_relay := Some ?r2\<rparr>"
  have r2: "session_inv ?r2" "writable (rs_connection ?r2)" using r by (simp_all add: session_inv_def)
  obtain s0 raws where burst: "send_channel_zero A (st_control_ivs x) (st_clock x) ?key (answer_aes_key answer) ?s2 =
      (s0, map (\<lambda>raw. Relay (Sent (segment_frame (rc_media_key (rs_connection ?r2)) raw))) raws, Inr ())"
    using start_burst_read [where d = 0 and ms = 0 and receive_key = "answer_aes_key answer" and clock = "st_clock x" and s = ?s2
        and k = "new_conversation CONTROL_CONVERSATION", OF assms(1) u(1) assms(10) _ r2] r(2)
    by (fastforce simp: new_conversation_def)
  have d: "dialled ?key ?s1"
    using assms(7) silent_control_step(3) [OF silent_connected, of ?key True]
    by (simp add: dialled_def undialled_def medialess_def relay_def del: session_step.simps)
  have k: "keeps_dialled ?key ?s1 s0 (ts @ map (\<lambda>raw. Relay (Sent (segment_frame (rc_media_key (rs_connection ?r2)) raw))) raws)"
    by (rule keeps_trans [OF keeps_tunnel [OF tunnel] keeps_channel_zero [OF burst]])
  have i: "install_relay (connected_session ?key) ?s = (?s1, [], Inr ())"
    by (simp add: install_relay_def relay_def)
  have "after_answer A x offer trace_id ?token answer s =
      (case await_video A (st_before_video x) s0 of (s1, fs, r) \<Rightarrow> (s1,
        (map Relay ds @ ts @ map (\<lambda>raw. Relay (Sent (segment_frame (rc_media_key (rs_connection ?r2)) raw))) raws) @ fs, r))"
    using burst tunnel unfolding after_answer_def assms(8)
    by (simp add: sbind_def dial i tunnel_signaling_def assms(8) frames split: prod.split del: send_tunnel_frames.simps)
  from that [OF this] d k show ?thesis by (simp add: keeps_dialled_def)
qed

lemma start_comes_to_video:
  assumes "cbc_laws A" "ecb_laws A" "cooperative A x c uid answer"
  obtains s0 es query offer candidate where
    "start A x (new_stream c uid) = (case await_video A (st_before_video x) s0 of (s1, fs, r) \<Rightarrow> (s1,
       [Signaling (Subscribed (''smart/mb/in/'' @ sc_device_id c)),
        Signaling (Published (''smart/mb/out/'' @ sc_device_id c) query),
        Signaling (Published (''smart/mb/out/'' @ sc_device_id c) offer),
        Signaling (Published (''smart/mb/out/'' @ sc_device_id c) candidate)] @ es @ fs, r))"
    "dialled (p2p_aes_key (sc_p2p_session c)) s0" "ss_answer_key s0 = answer_aes_key answer" "images es = []"
proof -
  have u: "usable x c" and bt: "broker_takes x" and da: "device_answers A x c answer" and dd: "device_dialled A x c uid"
    and tun: "tunnelled (st_tunnel_ivs x) 0 (tunnel_frames (session_offer x c uid) (session_trace_id x c) (session_token x c)
      ((new_stream c uid)\<lparr>ss_candidates := [candidate_line (local_address (st_probe x)) (st_port x)]\<rparr>))"
    and iv: "\<And>i. length (st_control_ivs x i) = 16"
    using assms(3) unfolding cooperative_def by blast+
  let ?s = "new_stream c uid" and ?line = "candidate_line (local_address (st_probe x)) (st_port x)"
  let ?offer = "session_offer x c uid" and ?trace = "session_trace_id x c" and ?token = "session_token x c"
  have f: "ss_config ?s = c" "ss_uid ?s = uid" "ss_candidates ?s = []" "ss_candidate_tasks ?s = []" "ss_answer ?s = AnswerPending"
    "ss_ended ?s = None" "ss_relay ?s = None" "ss_reassembler ?s = new_reassembler" "\<not> ss_media_handler ?s"
    by (simp_all add: new_stream_def)
  obtain t1 t2 where b: "st_query x = (t1, Accepted)" "int_in_range t1" "st_offer x = (t2, Accepted)" "int_in_range t2"
    "st_entering x = Accepted" "st_subscribing x = Accepted" "4 \<le> length (st_source x)"
    using bt unfolding broker_takes_def by (metis prod.collapse)
  obtain s1 m query offer where o:
    "ss_candidates s1 = [?line]" "ss_candidate_tasks s1 = [?line]" "ss_answer s1 = AnswerPending"
    "ss_config s1 = c" "ss_uid s1 = uid" "ss_ended s1 = None" "ss_relay s1 = None"
    "ss_moto s1 = Some m" "publishing A m" "mo_reading m" "mo_key m = str_encode (sc_local_key c)"
    "mo_session_id m = p2p_session_id (sc_p2p_session c)" "mo_sequence m = 2" "mo_publish_topic m = ''smart/mb/out/'' @ sc_device_id c"
    and media: "ss_reassembler s1 = new_reassembler" "\<not> ss_media_handler s1"
    and start: "start A x ?s = (case sbind (await_answer A (st_before_answer x)) (after_answer A x ?offer ?trace ?token) s1 of
      (s2, es, r) \<Rightarrow> (s2, [Signaling (Subscribed (''smart/mb/in/'' @ sc_device_id c)),
         Signaling (Published (''smart/mb/out/'' @ sc_device_id c) query),
         Signaling (Published (''smart/mb/out/'' @ sc_device_id c) offer)] @ es, r))"
    by (rule start_offered [of A ?s x t1 t2]) (use assms(2) u b f in \<open>simp_all add: usable_def\<close>)
  obtain t payload sdp where a: "st_before_answer x = [CandidateTask t Accepted, Mqtt (Some payload)]" "int_in_range t"
    "decode_payload A (mo_key m) payload = Inr (answer_data (mo_session_id m) sdp)" "parse_answer sdp = Inr answer"
    using da o(11,12) by (auto simp: device_answers_def)
  have seq: "Suc (mo_sequence m) < 2 ^ 32" using o(13) by simp
  obtain m' p where heard: "await_answer A (st_before_answer x) s1 =
       (s1\<lparr>ss_moto := Some m', ss_candidate_tasks := [], ss_answer := Answered answer\<rparr>,
        [Signaling (Published (mo_publish_topic m) p)], Inr answer)"
    using answer_heard [OF assms(2) o(8-10) seq o(2,3) a(2-4)] unfolding a(1) .
  let ?s2 = "s1\<lparr>ss_moto := Some m', ss_candidate_tasks := [], ss_answer := Answered answer\<rparr>"
  have s2: "ss_config ?s2 = c" "ss_uid ?s2 = uid" "ss_ended ?s2 = None" using o by simp_all
  have und: "undialled ?s2" using o(7) media by (simp add: undialled_def medialess_def)
  have key: "offer_aes_key ?offer = p2p_aes_key (sc_p2p_session c)"
    by (simp add: session_offer_def build_offer_def Let_def)
  have fr: "tunnelled (st_tunnel_ivs x) 0 (tunnel_frames ?offer ?trace ?token ?s2)"
    using tun o(1,4,5) by (simp add: tunnel_frames_def new_stream_def)
  obtain s0 es where m: "after_answer A x ?offer ?trace ?token answer ?s2 =
      (case await_video A (st_before_video x) s0 of (s1, fs, r) \<Rightarrow> (s1, es @ fs, r))"
    "dialled (p2p_aes_key (sc_p2p_session c)) s0" "ss_answer_key s0 = answer_aes_key answer" "images es = []"
    using media_brought_up [OF assms(1) u dd s2 und key fr iv] .
  show ?thesis
    by (rule that [OF _ m(2-4), of query offer p]) (simp add: start sbind_def heard m(1) o(14) split: prod.split)
qed


section \<open>Properties\<close>

text \<open>
  C4: A start with everybody's cooperation succeeds. When the broker takes what is published, the
  device answers the offer while the candidate goes out, is found at the relay after fewer than
  twelve refusals at the socket and proves itself in the handshake, and its video conversation
  opens with any segments, then the start ends without an error, having subscribed and published
  the query, the offer and the candidate in this order, with the media handler installed; and it
  came to the wait for the video with a relay that carries no video yet, under the answer's key.
\<close>

theorem start_completes:
  assumes "cbc_laws A" "ecb_laws A" "cooperative A x c uid answer"
    and "st_before_video x = map (video_event (p2p_aes_key (sc_p2p_session c))) early" "early \<noteq> []"
    and "list_all (\<lambda>(raw, ms). from_video raw) early"
  shows "\<exists>s0 s1 es fs query offer candidate.
    start A x (new_stream c uid) = (s1,
       [Signaling (Subscribed (''smart/mb/in/'' @ sc_device_id c)),
        Signaling (Published (''smart/mb/out/'' @ sc_device_id c) query),
        Signaling (Published (''smart/mb/out/'' @ sc_device_id c) offer),
        Signaling (Published (''smart/mb/out/'' @ sc_device_id c) candidate)] @ es @ fs, Inr ()) \<and>
    ss_media_handler s1 \<and> images (es @ fs) = [] \<and>
    dialled (p2p_aes_key (sc_p2p_session c)) s0 \<and> ss_answer_key s0 = answer_aes_key answer \<and>
    await_video A (st_before_video x) s0 = (s1, fs, Inr ())"
proof -
  obtain s0 es query offer candidate where s0:
    "start A x (new_stream c uid) = (case await_video A (st_before_video x) s0 of (s1, fs, r) \<Rightarrow> (s1,
       [Signaling (Subscribed (''smart/mb/in/'' @ sc_device_id c)),
        Signaling (Published (''smart/mb/out/'' @ sc_device_id c) query),
        Signaling (Published (''smart/mb/out/'' @ sc_device_id c) offer),
        Signaling (Published (''smart/mb/out/'' @ sc_device_id c) candidate)] @ es @ fs, r))"
    "dialled (p2p_aes_key (sc_p2p_session c)) s0" "ss_answer_key s0 = answer_aes_key answer" "images es = []"
    using start_comes_to_video [OF assms(1-3)] .
  obtain relay where r: "ss_relay s0 = Some relay" "reading (rs_connection relay)"
    "p2p_aes_key (sc_p2p_session c) = rc_media_key (rs_connection relay)"
    "map_of (rs_conversations relay) VIDEO_CONVERSATION = None" "rs_video relay = VideoPending"
    using s0(2) by (auto simp: dialled_def silent_video_def)
  obtain s1 fs where "await_video A (st_before_video x) s0 = (s1, fs, Inr ())" "images fs = []" "ss_media_handler s1"
    unfolding assms(4) using await_video_opened [OF r assms(6,5)] by metis
  with s0 show ?thesis by (intro exI [of _ s0] exI [of _ s1] exI [of _ es] exI [of _ fs]) auto
qed

text \<open>A start at the first attempt.\<close>

definition sample_start :: "bytes \<Rightarrow> bytes \<Rightarrow> (nat \<Rightarrow> bytes list) \<Rightarrow> stream_event list \<Rightarrow> start_script" where
  "sample_start payload reply ivs early = sample_script
     \<lparr>st_before_answer := [CandidateTask 0 Accepted, Mqtt (Some payload)],
      st_attempts := (\<lambda>_. sample_attempt\<lparr>at_dialled := None, at_iv1 := replicate 16 1, at_iv2 := replicate 16 2, at_random := ''xyz'',
        at_input := reply @ framed (FRAME_HANDSHAKE, [5]), at_ending := Silent\<rparr>),
      st_tunnel_ivs := ivs, st_control_ivs := (\<lambda>_. replicate 16 4),
      st_before_video := early\<rparr>"

text \<open>How long the text of a value can be, without writing it.\<close>

fun text_bound :: "json \<Rightarrow> nat" where
  "text_bound JNull = 4"
| "text_bound (JBool b) = 5"
| "text_bound (JInt i) = length (dump_int i)"
| "text_bound (JFloat s) = length s"
| "text_bound (JStr s) = 6 * length s + 2"
| "text_bound (JList vs) = 2 + sum_list (map (\<lambda>v. text_bound v + 1) vs)"
| "text_bound (JObj ms) = 2 + sum_list (map (\<lambda>kv. 6 * length (fst kv) + 4 + text_bound (snd kv)) ms)"

lemma length_join_comma: "length (join '','' xs) \<le> sum_list (map (\<lambda>x. length x + 1) xs)"
  by (induction "'',''" xs rule: join.induct) simp_all

lemma length_dumps: "length (dumps v) \<le> text_bound v"
proof (induction v rule: dumps.induct)
  case (5 s)
  then show ?case using length_dump_string [of s] by simp
next
  case (6 vs)
  have "sum_list (map (\<lambda>x. length x + 1) (map dumps vs)) \<le> sum_list (map (\<lambda>v. text_bound v + 1) vs)"
    using 6 by (simp add: comp_def) (rule sum_list_mono; simp)
  then show ?case using length_join_comma [of "map dumps vs"] by simp
next
  case (7 ms)
  let ?f = "\<lambda>kv. dump_string (fst kv) @ '':'' @ dumps (snd kv)"
  have "length (?f kv) + 1 \<le> 6 * length (fst kv) + 4 + text_bound (snd kv)" if "kv \<in> set ms" for kv
    using 7 [OF that] length_dump_string [of "fst kv"] by simp
  then have "sum_list (map (\<lambda>x. length x + 1) (map ?f ms)) \<le> sum_list (map (\<lambda>kv. 6 * length (fst kv) + 4 + text_bound (snd kv)) ms)"
    by (simp only: map_map comp_def) (rule sum_list_mono; simp)
  then show ?case using length_join_comma [of "map ?f ms"] by simp
qed simp_all

lemma length_dec_digits_below: "n < 10 ^ Suc k \<Longrightarrow> length (dec_digits n) \<le> Suc k"
proof (induction k arbitrary: n)
  case 0
  then show ?case by (subst dec_digits.simps) simp
next
  case (Suc k)
  then have "n div 10 < 10 ^ Suc k" by (simp add: less_mult_imp_div_less)
  from Suc.IH [OF this] show ?case by (subst dec_digits.simps) simp
qed

lemma sample_frames_small:
  "list_all (\<lambda>f. length f < 65536) (tunnel_frames (session_offer sample_script sample_config ''u'')
     (session_trace_id sample_script sample_config) (session_token sample_script sample_config)
     ((new_stream sample_config ''u'')\<lparr>ss_candidates := [candidate_line (local_address None) 4000]\<rparr>))"
proof -
  have "unat (crc32 b) < 10 ^ Suc 9" for b using unsigned_less [of "crc32 b"] by (rule order.strict_trans2) simp
  from length_dec_digits_below [OF this] have crc: "length (dec_digits (unat (crc32 b))) \<le> 10" for b by simp
  have small: "length (dump_json v) < 65536" if "wf_json v" "text_bound v < 65536" for v
    using that length_dumps [of v] by (simp add: length_dump_json)
  have line: "length (candidate_line (local_address None) 4000) \<le> 100"
    using crc [of "str_encode ''127.0.0.1''"] length_dec_digits_below [of 4000 3] length_dec_digits_below [of HOST_CANDIDATE_PRIORITY 9]
    by (simp add: candidate_line_def local_address_def CRLF_def HOST_CANDIDATE_PRIORITY_def)
  have small_offer: "length (offer_sdp (session_offer sample_script sample_config ''u'')) \<le> 1000"
    using length_dec_digits_below [of 0 0]
    by (simp add: session_offer_def sample_script_def sample_config_def build_offer_def CRLF_def hex_def Let_def length_concat sum_list_replicate)
  have token: "token_as_json (session_token sample_script sample_config) =
      JObj [(''urls'', JList [JStr ''tcp4:relay:443'']), (''username'', JStr ''9:u''),
        (''credential'', JStr (replicate 16 (CHR ''c''))), (''sessionId'', JStr (''d'' @ dec_digits 0))]"
    by (simp add: token_as_json_def session_token_def with_session_id_def offered_def sample_config_def sample_script_def
        sample_raw_token_def random_alphanumeric_def)
  have offer: "offer_session_id (session_offer sample_script sample_config ''u'') = ''s''"
    by (simp add: session_offer_def build_offer_def sample_config_def Let_def)
  have config: "session_trace_id sample_script sample_config = ''t_d_'' @ dec_digits 0" "sc_device_id sample_config = ''d''"
    "ice_servers_as_json sample_config = JList []" "log_config_as_json sample_config = JObj []"
    by (simp_all add: session_trace_id_def sample_config_def sample_script_def ice_servers_as_json_def log_config_as_json_def)
  show ?thesis
    using line small_offer length_dec_digits_below [of 0 0] length_dec_digits_below [of 1635 3] length_dec_digits_below [of 3 0]
    unfolding tunnel_frames_def relay_offer_frame_def relay_candidate_frame_def
    by (auto simp: new_stream_def relay_header_def offer_skills_def dict_update_def config token offer
        int_in_range_below intro!: small)
qed


definition sample_answer :: sdp_answer where
  "sample_answer = \<lparr>answer_ice_ufrag = ''frag'', answer_ice_password = ''pass'', answer_aes_key = replicate 16 0xAB\<rparr>"

lemma sample_cooperates:
  obtains x where "cooperative flip_cipher x sample_config ''u'' sample_answer" "st_before_video x = early"
proof -
  let ?c = "sample_config" and ?token = "session_token sample_script sample_config"
  have utf: "length (str_encode ''0123456789abcdef'') = 16" "length (str_encode (replicate 16 (CHR ''c''))) = 16"
    by (simp_all add: length_str_encode ascii_def list_all_iff)
  have key: "aes_key_size (str_encode (sc_local_key ?c))" using utf by (simp add: sample_config_def aes_key_size_16)
  define sdp where "sdp = offer_sdp (build_offer ''u'' ''s'' 7 ''frag'' ''pass'' (replicate 16 0xAB))"
  have "wf_json (JObj (answer_data ''s'' sdp))" by (simp add: answer_data_def)
  then obtain payload where p: "decode_payload flip_cipher (str_encode (sc_local_key ?c)) payload = Inr (answer_data ''s'' sdp)"
    using payload_decodes [OF flip_cipher_ecb key, of 1 "[1, 2, 3, 4]" "answer_data ''s'' sdp" 0 302]
    by (auto simp: int_in_range_below)
  obtain signer where signer: "signer_of ?token (new_stream ?c ''u'') = Inr signer"
    by (simp add: signer_of_def new_signer_def session_token_def with_session_id_def sample_config_def Let_def)
  have tk: "length (credential_key ?token) = 16" "16 \<le> length (rt_credential ?token)" "rt_username ?token = ''9:u''"
    using utf(2) by (simp_all add: session_token_def with_session_id_def sample_config_def CREDENTIAL_KEY_LENGTH_def)
  have "rt_urls ?token = rt_urls (sc_relay_token ?c)" by (simp add: session_token_def with_session_id_def)
  then have ends: "endpoint ?token = endpoint (sc_relay_token ?c)" by (simp only: endpoint_def)
  have sid: "length (str_encode (rt_session_id ?token)) \<le> 100" "length (str_encode (rt_username ?token)) \<le> 100"
    using tk(3) by (simp_all add: session_token_def with_session_id_def sample_config_def sample_script_def length_str_encode
        ascii_def random_alphanumeric_def dec_digits.simps [of 0])
  let ?reply = "device_answer signer ''xyz'' ''r''"
  have wf: "wf_json (JObj ?reply)" by (simp add: device_answer_def)
  have l: "length (dump_json (JObj ?reply)) + 95 < 65536"
    using small_messages(3) [of "''r''" signer "''xyz''"] by simp
  obtain reply where reply: "assemble_handshake_frame flip_cipher 1 (credential_key ?token) (replicate 16 3) [] []
      (dump_json (JObj ?reply)) = Inr reply"
    using handshake_frame_parses [OF flip_cipher_cbc tk(1) _ wf, of "replicate 16 3" 1 "[]" "[]"] l by auto
  define frames where "frames = tunnel_frames (session_offer sample_script ?c ''u'') (session_trace_id sample_script ?c) ?token
     ((new_stream ?c ''u'')\<lparr>ss_candidates := [candidate_line (local_address None) 4000]\<rparr>)"
  define x where "x = sample_start payload reply (\<lambda>i. replicate (tunnel_records (frames ! i)) (replicate 16 6)) early"
  have same: "session_token x ?c = ?token" "session_offer x ?c ''u'' = session_offer sample_script ?c ''u''"
    "session_trace_id x ?c = session_trace_id sample_script ?c" "st_probe x = None" "st_port x = 4000"
    by (simp_all add: x_def sample_start_def sample_script_def session_token_def session_offer_def session_trace_id_def)
  have u: "usable x ?c"
    unfolding usable_def same using key tk(1,2) ends sample_address
    by (simp add: sample_config_def ice_servers_as_json_def log_config_as_json_def token_as_json_def session_token_def
        with_session_id_def offered_def sample_raw_token_def)
  have b: "broker_takes x" by (simp add: broker_takes_def x_def sample_start_def sample_script_def int_in_range_below)
  have "parse_answer sdp = Inr sample_answer" unfolding sdp_def sample_answer_def by (rule answer_roundtrip_witness)
  then have a: "device_answers flip_cipher x ?c sample_answer"
    unfolding device_answers_def using p
    by (intro exI [of _ 0] exI [of _ payload] exI [of _ sdp])
      (simp add: x_def sample_start_def int_in_range_below, simp add: sample_config_def)
  let ?a = "st_attempts x 1"
  have at: "at_dialled ?a = None" "at_iv1 ?a = replicate 16 1" "at_iv2 ?a = replicate 16 2" "at_random ?a = ''xyz''"
    "at_input ?a = concat (replicate 0 (framed (FRAME_KEEPALIVE, []))) @ reply @
       concat (replicate 0 (framed (FRAME_KEEPALIVE, []))) @ framed (FRAME_HANDSHAKE, [5]) @ []"
    by (simp_all add: x_def sample_start_def)
  have dev: "length (sc_device_id ?c) \<le> 10" by (simp add: sample_config_def)
  have n: "length (str_encode (rt_session_id ?token)) + length (str_encode (rt_username ?token)) +
       length (build_auth_request (sc_device_id ?c) ''u'' ''xyz'') + 95 < 65536"
    "length (str_encode (rt_session_id ?token)) + length (str_encode (rt_username ?token)) +
       length (build_auth_ack (sc_device_id ?c) ''u'' (ack_signature signer (device_signature signer ''xyz'') ''r'')) + 95 < 65536"
    using sid small_messages(1) [OF dev, of "''u''" "''xyz''"]
      small_messages(2) [OF dev, of "''u''" "ack_signature signer (device_signature signer ''xyz'') ''r''"]
    by (simp_all add: signature_lengths)
  have "CHR '','' \<notin> set ''r''" "length [5 :: byte] < 65536" "(1 :: nat) < 65536" "length (replicate 16 (3 :: byte)) = 16"
    "length (replicate 16 (1 :: byte)) = 16" "length (replicate 16 (2 :: byte)) = 16" by simp_all
  with n l reply at(1,5) have "admits flip_cipher ?token signer (sc_device_id ?c) ''u'' ?a"
    unfolding admits_def at(2-4) by blast
  then have d: "device_dialled flip_cipher x ?c ''u''"
    unfolding device_dialled_def same using signer by (intro exI [of _ 0] exI [of _ signer]) simp
  have t: "tunnelled (st_tunnel_ivs x) 0 frames"
    using sample_frames_small by (auto simp: tunnelled_def frames_def [symmetric] list_all_length x_def sample_start_def)
  have t2: "tunnelled (st_tunnel_ivs x) 0 (tunnel_frames (session_offer x ?c ''u'') (session_trace_id x ?c) (session_token x ?c)
      ((new_stream ?c ''u'')\<lparr>ss_candidates := [candidate_line (local_address (st_probe x)) (st_port x)]\<rparr>))"
    unfolding same using t by (simp only: frames_def)
  have iv: "length (st_control_ivs x i) = 16" for i by (simp add: x_def sample_start_def)
  have "st_before_video x = early" by (simp add: x_def sample_start_def)
  moreover have "cooperative flip_cipher x ?c ''u'' sample_answer"
    unfolding cooperative_def using u b a d t2 iv by blast
  ultimately show ?thesis using that by blast
qed

lemma sample_from_video: "from_video (sample_raw VIDEO_CONVERSATION 0)"
  using sample_raw_segment [of VIDEO_CONVERSATION 0]
  by (simp add: from_video_def own_segment_def VIDEO_CONVERSATION_def) (simp add: sample_push_def sample_raw_def)

lemma start_completes_witness:
  "\<exists>x s1 es. start flip_cipher x (new_stream sample_config ''u'') = (s1, es, Inr ()) \<and> ss_media_handler s1"
proof -
  let ?early = "[(sample_raw VIDEO_CONVERSATION 0, 0 :: nat)]"
  obtain x where x: "cooperative flip_cipher x sample_config ''u'' sample_answer"
    "st_before_video x = map (video_event (p2p_aes_key (sc_p2p_session sample_config))) ?early"
    by (rule sample_cooperates)
  have "list_all (\<lambda>(raw, ms). from_video raw) ?early" using sample_from_video by simp
  from start_completes [OF flip_cipher_cbc flip_cipher_ecb x _ this] show ?thesis by blast
qed

end
