(* ===== verification/Camera_Live.thy ===== *)
theory Camera_Live
  imports Camera_Ends Stream_Completes
begin

text \<open>
  From the device to the viewer, through every layer: the segments of the video conversation that
  reach a camera with a running session, the pictures its session makes of them, and what a viewer
  is given of those.
\<close>

section \<open>A camera that streams\<close>

text \<open>What the session of a camera receives in a run.\<close>

fun heard :: "(camera_event \<times> real) list \<Rightarrow> stream_event list" where
  "heard [] = []"
| "heard ((OnStream e, now) # es) = e # heard es"
| "heard (_ # es) = heard es"

text \<open>Events between which a session neither ends nor is closed.\<close>

fun undisturbed :: "camera_event \<Rightarrow> bool" where
  "undisturbed (Stop script) = False"
| "undisturbed (Close script) = False"
| "undisturbed (SessionOver script) = False"
| "undisturbed (StallCheck script) = False"
| "undisturbed _ = True"

lemma deliver_published:
  "published (snd (deliver now es c)) = images es"
proof (induction now es c rule: deliver.induct)
  case (2 now frame es c)
  have "published (snd (on_frame now frame c)) = []"
    by (simp add: on_frame_def case_prod_beta Let_def notified_unseen only_notified_motion only_notified_state)
  with 2 show ?case by (simp add: Let_def)
qed (simp_all add: Let_def)

lemma live_step:
  assumes "phase_of c = Some Streaming" "cs_session c = Some s" "undisturbed e"
  shows "phase_of (fst (camera_step N A c (e, now))) = Some Streaming"
    and "cs_session (fst (camera_step N A c (e, now))) = Some (fst (run (stream_step A) s (heard [(e, now)])))"
    and "published (snd (camera_step N A c (e, now))) = images (snd (run (stream_step A) s (heard [(e, now)])))"
proof -
  obtain sv where sv: "cs_supervisor c = Some sv" "sv_phase sv = Streaming"
    using assms(1) by (auto simp: phase_of_def)
  show "phase_of (fst (camera_step N A c (e, now))) = Some Streaming"
    "cs_session (fst (camera_step N A c (e, now))) = Some (fst (run (stream_step A) s (heard [(e, now)])))"
    "published (snd (camera_step N A c (e, now))) = images (snd (run (stream_step A) s (heard [(e, now)])))"
    using assms sv
    by (cases e; simp add: phase_of_def start_camera_def running_def on_stream_def case_prod_beta deliver_published
        subscribe_def next_frame_def unsubscribe_def add_state_listener_def remove_state_listener_def Let_def
        notified_unseen only_notified_motion set_motion_sensitivity_def del: stream_step.simps
        split: option.split list.split)+
qed

lemma live_run:
  "phase_of c = Some Streaming \<Longrightarrow> cs_session c = Some s \<Longrightarrow> list_all (\<lambda>(e, now). undisturbed e) es \<Longrightarrow>
   published (snd (run (camera_step N A) c es)) = images (snd (run (stream_step A) s (heard es)))"
proof (induction es arbitrary: c s)
  case Nil
  then show ?case by simp
next
  case (Cons ev es)
  obtain e now where ev: "ev = (e, now)" by (cases ev)
  have u: "undisturbed e" "list_all (\<lambda>(e, now). undisturbed e) es" using Cons.prems(3) by (simp_all add: ev)
  note l = live_step [OF Cons.prems(1,2) u(1), of N A now]
  have h: "heard (ev # es) = heard [(e, now)] @ heard es" by (cases e) (simp_all add: ev)
  show ?case
    unfolding h using Cons.IH [OF l(1,2) u(2)] l(3)
    by (simp add: ev Let_def run_append del: camera_step.simps stream_step.simps heard.simps)
qed

text \<open>A start that succeeds, and the camera behind it.\<close>

lemma begin_streams:
  assumes "phase_of c = Some Starting" "cs_session c = Some s" "start A x s = (s1, es, Inr ())"
  shows "phase_of (fst (camera_step N A c (Begin x script, now))) = Some Streaming"
    and "cs_session (fst (camera_step N A c (Begin x script, now))) = Some s1"
    and "published (snd (camera_step N A c (Begin x script, now))) = images es"
proof -
  obtain sv where sv: "cs_supervisor c = Some sv" "sv_phase sv = Starting"
    using assms(1) by (auto simp: phase_of_def)
  show "phase_of (fst (camera_step N A c (Begin x script, now))) = Some Streaming"
    "cs_session (fst (camera_step N A c (Begin x script, now))) = Some s1"
    "published (snd (camera_step N A c (Begin x script, now))) = images es"
    using assms(2,3) sv
    by (simp_all add: run_start_def case_prod_beta deliver_published only_notified_state notified_unseen set_phase_def
        phase_of_def Let_def)
qed

text \<open>From the call that starts the camera to the session it begins.\<close>

lemma start_fetches:
  assumes "cs_supervisor c = None" "fetch_session N c = (Inr s, client)" "start A x s = (s1, es, Inr ())"
  shows "phase_of (fst (run (camera_step N A) c [(Start, t0), (Fetch, t1), (Begin x script, t2)])) = Some Streaming"
    and "cs_session (fst (run (camera_step N A) c [(Start, t0), (Fetch, t1), (Begin x script, t2)])) = Some s1"
    and "published (snd (run (camera_step N A) c [(Start, t0), (Fetch, t1), (Begin x script, t2)])) = images es"
proof -
  let ?c0 = "c\<lparr>cs_stop_requested := False, cs_supervisor := Some \<lparr>sv_phase = Fetching, sv_backoff = cs_retry_min c\<rparr>,
    cs_stall := Some Watching\<rparr>"
  have begun: "camera_step N A c (Start, t0) = (?c0, [])"
    using assms(1) by (simp add: start_camera_def running_def next_round_def set_phase_def)
  have "fetch_session N ?c0 = fetch_session N c" by (simp add: fetch_session_def)
  then obtain c1 where c1: "camera_step N A ?c0 (Fetch, t1) = (c1, [])" "phase_of c1 = Some Starting" "cs_session c1 = Some s"
    using assms(2) by (simp add: run_fetch_def set_phase_def phase_of_def)
  note b = begin_streams [OF c1(2,3) assms(3), of N script t2]
  show "phase_of (fst (run (camera_step N A) c [(Start, t0), (Fetch, t1), (Begin x script, t2)])) = Some Streaming"
    "cs_session (fst (run (camera_step N A) c [(Start, t0), (Fetch, t1), (Begin x script, t2)])) = Some s1"
    "published (snd (run (camera_step N A) c [(Start, t0), (Fetch, t1), (Begin x script, t2)])) = images es"
    using b by (simp_all add: begun c1(1) Let_def del: camera_step.simps)
qed

text \<open>The pictures behind the wait for the video.\<close>

lemma pictures_published:
  assumes "cbc_laws A" "length (ss_answer_key s) = 16" "dialled key s"
    and "device_video A (ss_answer_key s) groups sent" "early \<noteq> []" "set (map fst (early @ later)) = set sent"
    and "windowed (List.map_filter parse_segment (map fst (early @ later)))"
    and "lost = length (delivered (snd (run kcp_step (listening VIDEO_CONVERSATION) (segment_inputs early))))"
    and "concat (map snd (drop lost groups)) = rest @ concat (map snd imgs)" "list_all continues rest"
    and "list_all (\<lambda>(f, ps). image_packets f ps) imgs" "imgs \<noteq> []"
    and "await_video A (map (video_event key) early) s = (s2, starting, result)"
    and "phase_of c = Some Streaming" "cs_session c = Some s2"
    and "list_all (\<lambda>(e, now). undisturbed e) es" "heard es = map (video_event key) later"
  shows "published (snd (run (camera_step N A) c es)) = map fst (butlast imgs)"
proof -
  obtain t fs where p: "await_video A (map (video_event key) early) s = (t, fs, Inr ())" "images fs = []"
    "images (snd (run (stream_step A) t (map (video_event key) later))) = map fst (butlast imgs)"
    using pictures_of_dialled [OF assms(1-12)] .
  then show ?thesis using live_run [OF assms(14-16), of N A] assms(13,17) by simp
qed

section \<open>Properties\<close>

text \<open>
  C2: From the start of a camera to its viewer. An idle camera is started, its client fetches a
  configuration, and the broker, the relay and the device of the session cooperate. The device cuts
  pictures into packets, puts packets into encrypted records and sends those as segments, which
  arrive in any windowed order, with duplicates, some before the session has its handler of media
  and the others behind it. Then the camera comes to stream, the records complete before the handler are lost with the rest of the picture they cut, and the
  camera publishes exactly the pictures after that, in order, up to the last, which waits for the
  next to begin. A viewer is given a selection of them in order, and what waits for it is the
  latest two at most, whatever else the consumers do meanwhile.
\<close>

theorem camera_brings_pictures:
  assumes "cbc_laws A" "ecb_laws A" "cooperative A x config uid answer"
    and "st_before_video x = map (video_event (p2p_aes_key (sc_p2p_session config))) early" "early \<noteq> []"
    and "device_video A (answer_aes_key answer) groups sent" "set (map fst (early @ later)) = set sent"
    and "windowed (List.map_filter parse_segment (map fst (early @ later)))"
    and "lost = length (delivered (snd (run kcp_step (listening VIDEO_CONVERSATION) (segment_inputs early))))"
    and "concat (map snd (drop lost groups)) = rest @ concat (map snd imgs)" "list_all continues rest"
    and "list_all (\<lambda>(f, ps). image_packets f ps) imgs" "imgs \<noteq> []"
    and "camera_inv c" "cs_supervisor c = None" "fetch_session N c = (Inr (new_stream config uid), client)"
    and "v \<in> set (cs_subscribers c)" "cs_queues c v = []"
    and "list_all (\<lambda>(e, now). undisturbed e \<and> keeps_viewer v e) es"
    and "heard es = map (video_event (p2p_aes_key (sc_p2p_session config))) later"
  shows "phase_of (fst (run (camera_step N A) c [(Start, t0), (Fetch, t1), (Begin x script, t2)])) = Some Streaming \<and>
    (case run (camera_step N A) c ((Start, t0) # (Fetch, t1) # (Begin x script, t2) # es) of (c', effects) \<Rightarrow>
       published effects = map fst (butlast imgs) \<and>
       subseq (yields v effects @ cs_queues c' v) (map fst (butlast imgs)) \<and>
       suffix (cs_queues c' v) (map fst (butlast imgs)) \<and> length (cs_queues c' v) \<le> 2)"
proof -
  let ?key = "p2p_aes_key (sc_p2p_session config)" and ?up = "[(Start, t0), (Fetch, t1), (Begin x script, t2)]"
  let ?c = "fst (run (camera_step N A) c ?up)"
  have answered: "device_answers A x config answer" using assms(3) by (simp add: cooperative_def)
  obtain s0 pre query offer candidate where s0: "start A x (new_stream config uid) =
      (case await_video A (st_before_video x) s0 of (s1, fs, r) \<Rightarrow> (s1,
       [Signaling (Subscribed (''smart/mb/in/'' @ sc_device_id config)),
        Signaling (Published (''smart/mb/out/'' @ sc_device_id config) query),
        Signaling (Published (''smart/mb/out/'' @ sc_device_id config) offer),
        Signaling (Published (''smart/mb/out/'' @ sc_device_id config) candidate)] @ pre @ fs, r))"
    "dialled ?key s0" "ss_answer_key s0 = answer_aes_key answer" "images pre = []"
    using start_comes_to_video [OF assms(1-3)] .
  have key: "length (ss_answer_key s0) = 16" and video: "device_video A (ss_answer_key s0) groups sent"
    using s0(3) answered_key [OF answered] assms(6) by simp_all
  obtain s1 fs where w: "await_video A (map (video_event ?key) early) s0 = (s1, fs, Inr ())" "images fs = []"
    using pictures_of_dialled [OF assms(1) key s0(2) video assms(5,7-13)] by metis
  obtain before where start: "start A x (new_stream config uid) = (s1, before, Inr ())" "images before = []"
    using s0(1,4) w assms(4) by simp
  note b = start_fetches [OF assms(15,16) start(1), of t0 t1 script t2]
  have u: "list_all (\<lambda>(e, now). undisturbed e) es" "list_all (\<lambda>(e, now). keeps_viewer v e) (?up @ es)"
    using assms(19) by (auto simp: list_all_iff)
  have "published (snd (run (camera_step N A) ?c es)) = map fst (butlast imgs)"
    by (rule pictures_published [OF assms(1) key s0(2) video assms(5,7-13) w(1) b(1,2) u(1) assms(20)])
  then have p: "published (snd (run (camera_step N A) c (?up @ es))) = map fst (butlast imgs)"
    using b(3) start(2) by (simp only: run_append snd_conv published_append append_Nil)
  have up: "?up @ es = (Start, t0) # (Fetch, t1) # (Begin x script, t2) # es" by simp
  show ?thesis
    using serves_camera [OF assms(14,17) u(2), of N A] assms(18) b(1) p unfolding up
    by (auto simp: served_by_camera split: prod.splits simp del: run.simps camera_step.simps)
qed

text \<open>Three pictures in two records of one segment each: the first record comes before the handler.\<close>

lemma one_transmit:
  assumes "\<not> kcp_closed k" "chunk_count m = 1"
  obtains raw where "transmitted (snd (send clock m k)) = [raw]"
proof -
  have "length (transmitted (snd (send clock m k))) \<le> 1"
    using assms(2) by (simp add: send_def send_loop_Cons Let_def split: sum.split)
  moreover have "transmitted (snd (send clock m k)) \<noteq> []"
    using length_sent_one [OF assms, of clock] by (auto simp: sent_segments_def List.map_filter_def)
  ultimately show ?thesis using that by (cases "transmitted (snd (send clock m k))") auto
qed

lemma sample_record:
  assumes "length key = 16" "ps = sample_packets \<or> ps = sample_packets @ sample_packets"
  obtains r where "encrypt_record flip_cipher (replicate 16 3) key (concat (map prefixed ps)) = Inr r" "chunk_count r = 1"
proof -
  obtain r where r: "encrypt_record flip_cipher (replicate 16 3) key (concat (map prefixed ps)) = Inr r"
    "length r = 16 + length (pad_pkcs7 (concat (map prefixed ps)))"
    using record_roundtrip [OF flip_cipher_cbc assms(1), of "replicate 16 3" "concat (map prefixed ps)"] by auto
  have "length (concat (map prefixed sample_packets)) = 52" by code_simp
  then have "length (concat (map prefixed ps)) \<le> 104" using assms(2) by auto
  with one_chunk [OF _ r(2)] that [OF r(1)] show ?thesis by simp
qed

lemma sample_video:
  assumes "length key = 16"
  obtains raw1 raw2 where
    "device_video flip_cipher key [(replicate 16 3, sample_packets), (replicate 16 3, sample_packets @ sample_packets)] [raw1, raw2]"
    "windowed (List.map_filter parse_segment [raw1, raw2])"
    "1 = length (delivered (snd (run kcp_step (listening VIDEO_CONVERSATION) (segment_inputs [(raw1, 0)]))))"
proof -
  let ?iv = "replicate 16 3 :: bytes" and ?clock = "(\<lambda>_. 0) :: nat \<Rightarrow> nat" and ?new = "new_conversation VIDEO_CONVERSATION"
  obtain r1 where r1: "encrypt_record flip_cipher ?iv key (concat (map prefixed sample_packets)) = Inr r1" "chunk_count r1 = 1"
    by (rule sample_record [OF assms, of sample_packets]) simp_all
  obtain r2 where r2: "encrypt_record flip_cipher ?iv key (concat (map prefixed (sample_packets @ sample_packets))) = Inr r2"
    "chunk_count r2 = 1"
    by (rule sample_record [OF assms, of "sample_packets @ sample_packets"]) simp_all
  have open_: "\<not> kcp_closed ?new" by (simp add: new_conversation_def)
  obtain raw1 where raw1: "transmitted (snd (send ?clock r1 ?new)) = [raw1]" using one_transmit [OF open_ r1(2)] .
  have "\<not> kcp_closed (fst (send ?clock r1 ?new))"
    using send_segments [OF open_, of r1 ?clock] r1(2) by simp
  from one_transmit [OF this r2(2)] obtain raw2 where raw2: "transmitted (snd (send ?clock r2 (fst (send ?clock r1 ?new)))) = [raw2]" .
  have sent1: "transmitted (snd (run kcp_step ?new (sends (map (\<lambda>r. (r, ?clock)) [r1])))) = [raw1]"
    and sent2: "transmitted (snd (run kcp_step ?new (sends (map (\<lambda>r. (r, ?clock)) [r1, r2])))) = [raw1, raw2]"
    by (simp_all add: sends_def Let_def raw1 raw2)
  have video1: "device_video flip_cipher key [(?iv, sample_packets)] [raw1]"
    unfolding device_video_def using r1 sample_packets_clean
    by (intro conjI exI [of _ "[r1]"] exI [of _ ?clock]) (simp_all add: sent1 del: list.map)
  have video2: "device_video flip_cipher key [(?iv, sample_packets), (?iv, sample_packets @ sample_packets)] [raw1, raw2]"
    unfolding device_video_def using r1 r2 sample_packets_clean
    by (intro conjI exI [of _ "[r1, r2]"] exI [of _ ?clock]) (simp_all add: sent2 del: list.map)
  have order: "windowed (List.map_filter parse_segment raws)"
    if "raws = transmitted (snd (run kcp_step ?new (sends (map (\<lambda>r. (r, ?clock)) rs))))" "set rs \<subseteq> {r1, r2}" "length raws \<le> 2" for raws rs
  proof -
    have "list_all (\<lambda>(m, clock). chunk_count m \<le> 256) (map (\<lambda>r. (r, ?clock)) rs)"
      using that(2) r1(2) r2(2) by (auto simp: list_all_iff)
    moreover have "List.map_filter parse_segment raws = sent_segments (snd (run kcp_step ?new (sends (map (\<lambda>r. (r, ?clock)) rs))))"
      by (simp add: that(1) sent_segments_def)
    moreover have "length (List.map_filter parse_segment raws) \<le> 2 ^ 32"
      using that(3) length_map_filter [of parse_segment raws] by simp
    ultimately show ?thesis by (intro windowed_in_order sent_from_new(3))
  qed
  have w1: "windowed (List.map_filter parse_segment [raw1])" by (rule order [OF sent1 [symmetric]]) simp_all
  have w2: "windowed (List.map_filter parse_segment [raw1, raw2])" by (rule order [OF sent2 [symmetric]]) simp_all
  have "set (map fst [(raw1, 0 :: nat)]) = set [raw1]" "windowed (List.map_filter parse_segment (map fst [(raw1, 0 :: nat)]))"
    using w1 by simp_all
  from device_video_delivered [OF video1 this] obtain recs where
    "traverse (\<lambda>(iv, ps). encrypt_record flip_cipher iv key (concat (map prefixed ps))) [(?iv, sample_packets)] = Inr recs"
    "delivered (snd (run kcp_step (listening VIDEO_CONVERSATION) (segment_inputs [(raw1, 0)]))) = recs" .
  then have "1 = length (delivered (snd (run kcp_step (listening VIDEO_CONVERSATION) (segment_inputs [(raw1, 0)]))))"
    using r1(1) by (auto simp del: segment_inputs_simps run.simps)
  from that [OF video2 w2 this] show ?thesis .
qed

text \<open>A gateway that answers with the configuration of the sample session.\<close>

definition sample_source :: json_object where
  "sample_source = [(''password'', JStr ''p''), (''motoId'', JStr ''m''),
     (''p2pConfig'', JObj [(''session'', JObj [(''sessionId'', JStr ''s''), (''aesKey'', JStr (hex (replicate 16 7))),
        (''iceUfrag'', JStr ''f''), (''icePassword'', JStr ''w''), (''traceId'', JStr ''t'')]),
       (''tcpRelay'', JObj sample_raw_token)])]"

lemma sample_source_read: "stream_config_from_json sample_source ''d'' ''0123456789abcdef'' = Inr sample_config"
  by code_simp

definition serving_network :: "nat network" where
  "serving_network = sample_network\<lparr>net_post := (\<lambda>url params n. (HttpText (dumps (JObj [(''result'', JObj sample_source)])), n))\<rparr>"

definition idle_camera :: "nat camera" where
  "idle_camera = new_camera sample_client ''d'' ''0123456789abcdef'' default_knobs"

lemma idle_camera_inv: "camera_inv idle_camera"
  by (simp add: idle_camera_def new_camera_def camera_inv_def viewers_ok_def patient_def
      default_knobs_def DEFAULT_RETRY_MIN_SECONDS_def DEFAULT_RETRY_MAX_SECONDS_def)

lemma served_fetch:
  assumes "cl_account (cs_client c) = Some a" "cs_device_id c = ''d''" "cs_local_key c = ''0123456789abcdef''"
  shows "\<exists>client. fetch_session serving_network c = (Inr (new_stream sample_config (acc_uid a)), client)"
proof -
  have n: "gcm_laws (net_gcm serving_network)" "\<forall>w. length (fst (net_nonce serving_network w)) = 12"
    "answers serving_network RTC_CONFIG_API (dumps (JObj [(''result'', JObj sample_source)]))"
    using sample_network_laws by (simp_all add: serving_network_def answers_def)
  have "wf_json (JObj sample_source)" by (simp add: sample_source_def sample_raw_token_def)
  then have u: "unwrap G api key (dumps (JObj [(''result'', JObj sample_source)])) = Inr (JObj sample_source)" for G api key
    by (rule unwrap_plain) simp_all
  have "fst (fetch_stream_config serving_network a (cs_device_id c) (cs_local_key c) (cl_gateway (cs_client c))) = Inr sample_config"
    using answered_call [OF n, of None "''1.0''" "JObj [(''devId'', JStr ''d'')]" "Some a" "cl_gateway (cs_client c)"]
    by (auto simp: fetch_stream_config_def call_object_def bind_def lift_result_def u sample_source_read assms(2,3)
        split: prod.splits sum.splits simp del: dumps.simps)
  then obtain g where "fetch_stream_config serving_network a (cs_device_id c) (cs_local_key c) (cl_gateway (cs_client c)) = (Inr sample_config, g)"
    by (cases "fetch_stream_config serving_network a (cs_device_id c) (cs_local_key c) (cl_gateway (cs_client c))") simp
  from with_session_known [of "cs_client c" a "\<lambda>a. fetch_stream_config serving_network a (cs_device_id c) (cs_local_key c)",
      OF assms(1) this, of serving_network] assms(1)
  show ?thesis
    by (auto simp: fetch_session_def stream_config_with_session bind_def client_mqtt_identity_def account_def account_uid_def pass_def)
qed

lemma camera_brings_pictures_witness:
  "\<exists>x raw2 script. case run (camera_step serving_network flip_cipher) (fst (subscribe 7 idle_camera))
      [(Start, 0), (Fetch, 1), (Begin x script, 2), (OnStream (video_event (replicate 16 7) (raw2, 0)), 3), (NextFrame 7, 4)] of
    (c', effects) \<Rightarrow> published effects = [[0xFF, 0xD8, 0xFF, 0xD9]]"
proof -
  let ?f = "[0xFF, 0xD8, 0xFF, 0xD9] :: bytes" and ?key = "p2p_aes_key (sc_p2p_session sample_config)"
  have key: "?key = replicate 16 7" by (simp add: sample_config_def)
  have "length (answer_aes_key sample_answer) = 16" by (simp add: sample_answer_def)
  from sample_video [OF this] obtain raw1 raw2 where raws:
    "device_video flip_cipher (answer_aes_key sample_answer)
      [(replicate 16 3, sample_packets), (replicate 16 3, sample_packets @ sample_packets)] [raw1, raw2]"
    "windowed (List.map_filter parse_segment [raw1, raw2])"
    "1 = length (delivered (snd (run kcp_step (listening VIDEO_CONVERSATION) (segment_inputs [(raw1, 0)]))))" .
  obtain x where x: "cooperative flip_cipher x sample_config ''u'' sample_answer"
    "st_before_video x = map (video_event ?key) [(raw1, 0)]"
    by (rule sample_cooperates)
  let ?script = "(\<lambda>_. [], 0, Accepted) :: close_script"
  let ?c = "fst (subscribe 7 idle_camera)" and ?es = "[(OnStream (video_event ?key (raw2, 0)), 3), (NextFrame 7, 4)]"
  have inv: "camera_inv ?c"
    using camera_step_inv [OF idle_camera_inv, of serving_network flip_cipher "(Subscribe 7, 0)"] by simp
  have arrive: "set (map fst ([(raw1, 0 :: nat)] @ [(raw2, 0)])) = set [raw1, raw2]"
    "windowed (List.map_filter parse_segment (map fst ([(raw1, 0 :: nat)] @ [(raw2, 0)])))"
    using raws(2) by simp_all
  have c: "cs_supervisor ?c = None" "7 \<in> set (cs_subscribers ?c)" "cs_queues ?c 7 = []"
    by (simp_all add: subscribe_def idle_camera_def new_camera_def)
  have "\<exists>client. fetch_session serving_network ?c = (Inr (new_stream sample_config (acc_uid sample_account)), client)"
    by (rule served_fetch) (simp_all add: subscribe_def idle_camera_def new_camera_def sample_client_def)
  then obtain client where fetch: "fetch_session serving_network ?c = (Inr (new_stream sample_config ''u''), client)"
    by (auto simp: sample_account_def)
  have imgs: "list_all (\<lambda>(f, ps). image_packets f ps) [(?f, sample_packets), (?f, sample_packets)]"
    using sample_packets_image by simp
  have "case run (camera_step serving_network flip_cipher) ?c ((Start, 0) # (Fetch, 1) # (Begin x ?script, 2) # ?es) of (c', effects) \<Rightarrow>
       published effects = map fst (butlast [(?f, sample_packets), (?f, sample_packets)])"
    using camera_brings_pictures [OF flip_cipher_cbc flip_cipher_ecb x _ raws(1) arrive raws(3), of "[]"
        "[(?f, sample_packets), (?f, sample_packets)]" ?c serving_network client 7 ?es 0 1 ?script 2] imgs inv c fetch
    by (auto simp del: run.simps camera_step.simps video_event_pair segment_inputs_simps)
  then show ?thesis unfolding key by - (rule exI [of _ x], rule exI [of _ raw2], rule exI [of _ ?script], simp del: run.simps)
qed

end
