(* ===== verification/Client_Tasks.thy ===== *)
theory Client_Tasks
  imports Client
begin

text \<open>
  Models the concurrency of \<^verbatim>\<open>src/tuya_ipc_p2p_sdk/client.py\<close>: several tasks call the
  facade at once (each camera's supervisor does), share its account, and serialize their logins
  with its \<^verbatim>\<open>asyncio.Lock\<close>. The theory Client runs one call alone; here a task stands at
  one of the awaits of its call, and a step is what happens between two awaits of one task.

  The lock is the one of the standard library: a task that finds it free with nobody waiting
  enters at once, the others queue in order of arrival; leaving it wakes the first in the queue,
  which enters when the event loop runs it, and until then newcomers queue behind it. A task that
  is cancelled leaves the queue, or the lock if it holds it.
\<close>

section \<open>Tasks\<close>

text \<open>What a task goes on to when it has a session: \<^verbatim>\<open>async_login\<close> and
  \<^verbatim>\<open>async_account\<close> return it, the other calls make their gateway call with it, the
  first time or again behind a fresh login.\<close>

datatype after = ReturnAccount | MakeCall bool

text \<open>The awaits: \<open>Queued\<close> at \<^verbatim>\<open>acquire\<close> of the lock, \<open>LoggingIn\<close> inside it at the
  gateway's login, \<open>Calling\<close> at the gateway call, told whether it is the retry.\<close>

datatype 'a outcome = TheAccount account_session | TheResult 'a

datatype 'a task =
    Queued after
  | LoggingIn after
  | Calling bool account_session
  | Returned "exn + 'a outcome"

record 'a sessions =
  ses_account :: "account_session option"
  ses_holder :: "nat option"
  ses_waiters :: "nat list"
  ses_tasks :: "nat \<Rightarrow> 'a task option"

definition new_sessions :: "account_session option \<Rightarrow> 'a sessions" where
  "new_sessions a = \<lparr>ses_account = a, ses_holder = None, ses_waiters = [], ses_tasks = (\<lambda>_. None)\<rparr>"

text \<open>The calls: \<^verbatim>\<open>async_login\<close>; \<^verbatim>\<open>async_account\<close> with its wrappers
  \<^verbatim>\<open>async_uid\<close> and \<^verbatim>\<open>async_mqtt_identity\<close>; and the calls that need a session.\<close>

datatype job = Login | Account | SessionCall

datatype 'a happening =
    Begins nat job
  | Granted nat
  | LoginEnds nat "exn + account_session"
  | CallEnds nat "exn + 'a"
  | Cancelled nat

section \<open>Operations\<close>

definition move :: "nat \<Rightarrow> 'a task \<Rightarrow> 'a sessions \<Rightarrow> 'a sessions" where
  "move t p s = s\<lparr>ses_tasks := (ses_tasks s)(t \<mapsto> p)\<rparr>"

fun logged_in :: "after \<Rightarrow> account_session \<Rightarrow> 'a task" where
  "logged_in ReturnAccount a = Returned (Inr (TheAccount a))"
| "logged_in (MakeCall retried) a = Calling retried a"

text \<open>\<^verbatim>\<open>async_login\<close> up to its first await.\<close>

definition request_login :: "nat \<Rightarrow> after \<Rightarrow> 'a sessions \<Rightarrow> 'a sessions" where
  "request_login t k s =
     (if ses_holder s = None \<and> ses_waiters s = [] then move t (LoggingIn k) (s\<lparr>ses_holder := Some t\<rparr>)
      else move t (Queued k) (s\<lparr>ses_waiters := ses_waiters s @ [t]\<rparr>))"

text \<open>\<^verbatim>\<open>async_account\<close>: the account is looked at before the lock is asked for.\<close>

definition request_account :: "nat \<Rightarrow> after \<Rightarrow> 'a sessions \<Rightarrow> 'a sessions" where
  "request_account t k s =
     (case ses_account s of Some a \<Rightarrow> move t (logged_in k a) s | None \<Rightarrow> request_login t k s)"

fun begin_task :: "nat \<Rightarrow> job \<Rightarrow> 'a sessions \<Rightarrow> 'a sessions" where
  "begin_task t Login = request_login t ReturnAccount"
| "begin_task t Account = request_account t ReturnAccount"
| "begin_task t SessionCall = request_account t (MakeCall False)"

text \<open>The lock is entered.\<close>

definition enter_lock :: "nat \<Rightarrow> after \<Rightarrow> 'a sessions \<Rightarrow> 'a sessions" where
  "enter_lock t k s = move t (LoggingIn k) (s\<lparr>ses_holder := Some t, ses_waiters := remove1 t (ses_waiters s)\<rparr>)"

text \<open>\<^verbatim>\<open>async_login\<close> behind the gateway's answer; the lock is left either way.\<close>

definition login_answered :: "nat \<Rightarrow> after \<Rightarrow> exn + account_session \<Rightarrow> 'a sessions \<Rightarrow> 'a sessions" where
  "login_answered t k r s =
     (case r of
        Inl e \<Rightarrow> move t (Returned (Inl e)) (s\<lparr>ses_holder := None\<rparr>)
      | Inr a \<Rightarrow> move t (logged_in k a) (s\<lparr>ses_account := Some a, ses_holder := None\<rparr>))"

text \<open>\<^verbatim>\<open>_async_with_session\<close> and \<^verbatim>\<open>async_stream_config\<close> behind the gateway's
  answer: the first call is guarded, the second is not.\<close>

definition call_answered :: "nat \<Rightarrow> bool \<Rightarrow> exn + 'a \<Rightarrow> 'a sessions \<Rightarrow> 'a sessions" where
  "call_answered t retried r s =
     (case r of
        Inr x \<Rightarrow> move t (Returned (Inr (TheResult x))) s
      | Inl e \<Rightarrow> if \<not> retried \<and> session_expired e then request_login t (MakeCall True) s
                 else move t (Returned (Inl e)) s)"

definition cancel_task :: "nat \<Rightarrow> 'a sessions \<Rightarrow> 'a sessions" where
  "cancel_task t s =
     move t (Returned (Inl CancelledError))
       (s\<lparr>ses_holder := if ses_holder s = Some t then None else ses_holder s,
          ses_waiters := remove1 t (ses_waiters s)\<rparr>)"

fun returned :: "'a task \<Rightarrow> bool" where
  "returned (Returned r) \<longleftrightarrow> True"
| "returned _ \<longleftrightarrow> False"

section \<open>Steps and runs\<close>

inductive client_step :: "'a sessions \<Rightarrow> 'a happening \<Rightarrow> 'a sessions \<Rightarrow> bool" where
  begins: "ses_tasks s t = None \<Longrightarrow> client_step s (Begins t job) (begin_task t job s)"
| granted: "ses_holder s = None \<Longrightarrow> ses_waiters s = t # ts \<Longrightarrow> ses_tasks s t = Some (Queued k) \<Longrightarrow>
    client_step s (Granted t) (enter_lock t k s)"
| login_ends: "ses_tasks s t = Some (LoggingIn k) \<Longrightarrow> client_step s (LoginEnds t r) (login_answered t k r s)"
| call_ends: "ses_tasks s t = Some (Calling retried a) \<Longrightarrow> client_step s (CallEnds t r) (call_answered t retried r s)"
| cancelled: "ses_tasks s t = Some p \<Longrightarrow> \<not> returned p \<Longrightarrow> client_step s (Cancelled t) (cancel_task t s)"

inductive client_run :: "'a sessions \<Rightarrow> 'a happening list \<Rightarrow> 'a sessions \<Rightarrow> bool" where
  idle: "client_run s [] s"
| happens: "client_step s e s' \<Longrightarrow> client_run s' es s'' \<Longrightarrow> client_run s (e # es) s''"

inductive_cases BeginsE: "client_step s (Begins t job) s'"
inductive_cases GrantedE: "client_step s (Granted t) s'"
inductive_cases LoginEndsE: "client_step s (LoginEnds t r) s'"
inductive_cases CallEndsE: "client_step s (CallEnds t r) s'"
inductive_cases CancelledE: "client_step s (Cancelled t) s'"
inductive_simps client_run_simps: "client_run s [] s'" "client_run s (e # es) s'"

lemmas task_steps = move_def request_login_def request_account_def enter_lock_def login_answered_def
  call_answered_def cancel_task_def

lemma client_run_append: "client_run s (es @ fs) s' \<longleftrightarrow> (\<exists>s1. client_run s es s1 \<and> client_run s1 fs s')"
  by (induction es arbitrary: s) (auto simp: client_run_simps)

text \<open>A property every step keeps holds in every state of a run.\<close>

lemma client_run_keeps:
  assumes "client_run s es s'" "P s" "\<And>s e s'. P s \<Longrightarrow> client_step s e s' \<Longrightarrow> P s'"
  shows "P s'"
  using assms(1,2) by (induction rule: client_run.induct) (auto intro: assms(3))

section \<open>The lock\<close>

definition lock_ok :: "'a sessions \<Rightarrow> bool" where
  "lock_ok s \<longleftrightarrow> distinct (ses_waiters s) \<and>
     (\<forall>t. ses_holder s = Some t \<longleftrightarrow> (\<exists>k. ses_tasks s t = Some (LoggingIn k))) \<and>
     (\<forall>t. t \<in> set (ses_waiters s) \<longleftrightarrow> (\<exists>k. ses_tasks s t = Some (Queued k)))"

lemma lock_ok_new: "lock_ok (new_sessions a)"
  by (simp add: lock_ok_def new_sessions_def)

lemma lock_ok_request:
  assumes "lock_ok s" "\<forall>k. ses_tasks s t \<noteq> Some (LoggingIn k)" "\<forall>k. ses_tasks s t \<noteq> Some (Queued k)"
  shows "lock_ok (request_login t k s)"
  using assms unfolding lock_ok_def request_login_def move_def by auto

lemma lock_ok_move:
  assumes "lock_ok s" "\<forall>k. ses_tasks s t \<noteq> Some (LoggingIn k)" "\<forall>k. ses_tasks s t \<noteq> Some (Queued k)"
    and "\<forall>k. p \<noteq> LoggingIn k" "\<forall>k. p \<noteq> Queued k"
  shows "lock_ok (move t p s)"
  using assms unfolding lock_ok_def move_def by auto

lemma logged_in_settles: "logged_in k a \<noteq> LoggingIn k'" "logged_in k a \<noteq> Queued k'"
  by (cases k; simp)+

lemma lock_ok_step:
  assumes "lock_ok s" "client_step s e s'"
  shows "lock_ok s'"
  using assms(2,1)
proof cases
  case (begins t job)
  then show ?thesis using assms(1)
    by (cases job) (auto simp: request_account_def logged_in_settles split: option.split
        intro!: lock_ok_request lock_ok_move)
next
  case (granted t ts k)
  then show ?thesis using assms(1) unfolding lock_ok_def enter_lock_def move_def by auto
next
  case (login_ends t k r)
  then have h: "ses_holder s = Some t" using assms(1) unfolding lock_ok_def by blast
  then have "ses_tasks s u \<noteq> Some (LoggingIn k')" if "u \<noteq> t" for u k'
    using assms(1) that unfolding lock_ok_def by (metis option.inject)
  with h login_ends show ?thesis using assms(1) unfolding lock_ok_def login_answered_def move_def
    by (auto simp: logged_in_settles split: sum.split)
next
  case (call_ends t retried a r)
  then show ?thesis using assms(1)
    by (auto simp: call_answered_def split: sum.split intro!: lock_ok_request lock_ok_move)
next
  case (cancelled t p)
  have "ses_tasks s u \<noteq> Some (LoggingIn k)" if "u \<noteq> t" "ses_holder s = Some t" for u k
    using assms(1) that unfolding lock_ok_def by (metis option.inject)
  with cancelled show ?thesis using assms(1) unfolding lock_ok_def cancel_task_def move_def by auto
qed

lemma lock_ok_run: "client_run (new_sessions a) es s \<Longrightarrow> lock_ok s"
  by (rule client_run_keeps [of _ _ _ lock_ok]) (auto intro: lock_ok_new lock_ok_step)

text \<open>The sessions the gateway granted, in order.\<close>

fun granted_by :: "'a happening \<Rightarrow> account_session list" where
  "granted_by (LoginEnds t (Inr a)) = [a]"
| "granted_by _ = []"

definition granted_sessions :: "'a happening list \<Rightarrow> account_session list" where
  "granted_sessions es = concat (map granted_by es)"

lemma begin_task_account: "ses_account (begin_task t job s) = ses_account s"
  by (cases job) (simp_all add: request_account_def task_steps split: option.split)

lemma step_account:
  "client_step s e s' \<Longrightarrow> ses_account s' = last (ses_account s # map Some (granted_by e))"
  by (erule client_step.cases) (auto simp: task_steps begin_task_account split: sum.split)

lemma run_account:
  "client_run s es s' \<Longrightarrow> ses_account s' = last (ses_account s # map Some (granted_sessions es))"
proof (induction rule: client_run.induct)
  case (idle s)
  then show ?case by (simp add: granted_sessions_def)
next
  case (happens s e s' es s'')
  then show ?case using step_account [OF happens.hyps(1)] by (simp add: granted_sessions_def)
qed

section \<open>Progress\<close>

text \<open>The turns a task still has before it, counted along its longest way.\<close>

fun turns_left :: "'a task option \<Rightarrow> nat" where
  "turns_left (Some (Queued ReturnAccount)) = 2"
| "turns_left (Some (LoggingIn ReturnAccount)) = 1"
| "turns_left (Some (Queued (MakeCall retried))) = (if retried then 3 else 6)"
| "turns_left (Some (LoggingIn (MakeCall retried))) = (if retried then 2 else 5)"
| "turns_left (Some (Calling retried a)) = (if retried then 1 else 4)"
| "turns_left (Some (Returned r)) = 0"
| "turns_left None = 0"

fun task_of :: "'a happening \<Rightarrow> nat" where
  "task_of (Begins t job) = t"
| "task_of (Granted t) = t"
| "task_of (LoginEnds t r) = t"
| "task_of (CallEnds t r) = t"
| "task_of (Cancelled t) = t"

fun continuing :: "'a happening \<Rightarrow> bool" where
  "continuing (Begins t job) \<longleftrightarrow> False"
| "continuing (Cancelled t) \<longleftrightarrow> False"
| "continuing _ \<longleftrightarrow> True"

lemma begin_task_turns: "ses_tasks (begin_task t job s) = (ses_tasks s)(t \<mapsto> the (ses_tasks (begin_task t job s) t)) \<and>
    turns_left (ses_tasks (begin_task t job s) t) \<le> 6"
  by (cases job) (simp_all add: request_account_def task_steps split: option.split)

lemma turns_logged_in: "turns_left (Some (logged_in k a)) < turns_left (Some (LoggingIn k))"
  by (cases k) simp_all

lemma continuing_step:
  assumes "client_step s e s'" "continuing e"
  obtains p p' where "ses_tasks s (task_of e) = Some p" "ses_tasks s' = (ses_tasks s)(task_of e \<mapsto> p')"
    "turns_left (Some p') < turns_left (Some p)"
  using assms
proof cases
  case (granted t ts k)
  then show ?thesis by (cases k) (auto simp: task_steps intro: that)
next
  case (login_ends t k r)
  then show ?thesis using turns_logged_in [of k]
    by (cases r; cases k) (auto simp: task_steps intro: that)
next
  case (call_ends t retried a r)
  then show ?thesis by (cases r) (auto simp: task_steps split: if_splits intro: that)
qed simp_all

lemma other_steps_keep:
  assumes "client_step s e s'" "t \<noteq> task_of e"
  shows "ses_tasks s' t = ses_tasks s t"
  using assms
proof cases
  case (begins u job)
  with assms(2) show ?thesis using begin_task_turns [of u job s] by (metis fun_upd_other task_of.simps(1))
qed (auto simp: task_steps split: sum.split)

text \<open>The turns left to all tasks.\<close>

definition work_left :: "'a sessions \<Rightarrow> nat" where
  "work_left s = (\<Sum>t\<in>dom (ses_tasks s). turns_left (ses_tasks s t))"

lemma finite_tasks_step: "finite (dom (ses_tasks s)) \<Longrightarrow> client_step s e s' \<Longrightarrow> finite (dom (ses_tasks s'))"
proof -
  assume f: "finite (dom (ses_tasks s))" and "client_step s e s'"
  then have "dom (ses_tasks s') \<subseteq> insert (task_of e) (dom (ses_tasks s))"
    using other_steps_keep by fastforce
  with f show ?thesis by (auto intro: finite_subset)
qed

lemma finite_tasks_run: "client_run (new_sessions a) es s \<Longrightarrow> finite (dom (ses_tasks s))"
  by (rule client_run_keeps [of _ _ _ "\<lambda>s. finite (dom (ses_tasks s))"]) (auto simp: new_sessions_def intro: finite_tasks_step)

lemma work_step:
  assumes "client_step s e s'" "continuing e" "finite (dom (ses_tasks s))"
  shows "work_left s' < work_left s" "dom (ses_tasks s') = dom (ses_tasks s)"
proof -
  obtain p p' where s: "ses_tasks s (task_of e) = Some p" "ses_tasks s' = (ses_tasks s)(task_of e \<mapsto> p')"
    and less: "turns_left (Some p') < turns_left (Some p)"
    using continuing_step [OF assms(1,2)] by blast
  show d: "dom (ses_tasks s') = dom (ses_tasks s)" using s by auto
  have t: "task_of e \<in> dom (ses_tasks s)" using s(1) by auto
  let ?rest = "\<Sum>u\<in>dom (ses_tasks s) - {task_of e}. turns_left (ses_tasks s u)"
  have "work_left s = turns_left (Some p) + ?rest"
    unfolding work_left_def using sum.remove [OF assms(3) t, of "\<lambda>u. turns_left (ses_tasks s u)"] s(1) by simp
  moreover have "(\<Sum>u\<in>dom (ses_tasks s) - {task_of e}. turns_left (ses_tasks s' u)) = ?rest"
    by (rule sum.cong) (auto simp: s(2))
  then have "work_left s' = turns_left (Some p') + ?rest"
    unfolding work_left_def d using sum.remove [OF assms(3) t, of "\<lambda>u. turns_left (ses_tasks s' u)"] by (simp add: s(2))
  ultimately show "work_left s' < work_left s" using less by simp
qed

lemma work_run:
  "client_run s es s' \<Longrightarrow> list_all continuing es \<Longrightarrow> finite (dom (ses_tasks s)) \<Longrightarrow>
    length es + work_left s' \<le> work_left s \<and> dom (ses_tasks s') = dom (ses_tasks s)"
proof (induction rule: client_run.induct)
  case (idle s)
  then show ?case by simp
next
  case (happens s e s' es s'')
  then show ?case using work_step [OF happens.hyps(1)] by force
qed

lemma turns_bounded: "turns_left p \<le> 6"
  by (cases p rule: turns_left.cases) simp_all

text \<open>Whatever stands still has somewhere to go: a task that has not returned waits for the
  gateway, or for the lock, whose holder waits for the gateway.\<close>

lemma something_continues:
  assumes "lock_ok s" "ses_tasks s t = Some p" "\<not> returned p"
  shows "\<exists>e s'. continuing e \<and> client_step s e s'"
proof (cases p)
  case (Queued k)
  with assms obtain u us where w: "ses_waiters s = u # us"
    unfolding lock_ok_def by (cases "ses_waiters s") auto
  show ?thesis
  proof (cases "ses_holder s")
    case None
    from w assms(1) obtain k' where "ses_tasks s u = Some (Queued k')"
      unfolding lock_ok_def by (metis list.set_intros(1))
    from client_step.granted [OF None w this] show ?thesis by (metis continuing.simps(3))
  next
    case (Some h)
    with assms(1) obtain k' where "ses_tasks s h = Some (LoggingIn k')" unfolding lock_ok_def by blast
    from client_step.login_ends [OF this] show ?thesis by (metis continuing.simps(4))
  qed
next
  case (LoggingIn k)
  with assms client_step.login_ends [of s t k] show ?thesis by (metis continuing.simps(4))
next
  case (Calling retried a)
  with assms client_step.call_ends [of s t retried a] show ?thesis by (metis continuing.simps(5))
qed (use assms in simp)


section \<open>One task alone\<close>

text \<open>What a task meets that runs alone, with the gateway answering: its next turn, and the
  client behind it.\<close>

definition next_turn ::
    "'w network \<Rightarrow> (account_session \<Rightarrow> 'w gateway \<Rightarrow> (exn + 'a) \<times> 'w gateway) \<Rightarrow> nat \<Rightarrow> 'a task \<Rightarrow> 'w client \<Rightarrow>
      ('a happening \<times> 'w client) option" where
  "next_turn N f t p c =
     (case p of
        Queued k \<Rightarrow> Some (Granted t, c)
      | LoggingIn k \<Rightarrow> (case client_login N c of (r, c') \<Rightarrow> Some (LoginEnds t r, c'))
      | Calling retried a \<Rightarrow> (case via_gateway (f a) c of (r, c') \<Rightarrow> Some (CallEnds t r, c'))
      | Returned r \<Rightarrow> None)"

inductive attended ::
    "'w network \<Rightarrow> (account_session \<Rightarrow> 'w gateway \<Rightarrow> (exn + 'a) \<times> 'w gateway) \<Rightarrow> nat \<Rightarrow>
      'a sessions \<Rightarrow> 'w client \<Rightarrow> 'a happening list \<Rightarrow> 'a sessions \<Rightarrow> 'w client \<Rightarrow> bool"
  for N f t where
  attended_idle: "attended N f t s c [] s c"
| attended_turn: "ses_tasks s t = Some p \<Longrightarrow> next_turn N f t p c = Some (e, c') \<Longrightarrow> client_step s e s' \<Longrightarrow>
    attended N f t s' c' es s'' c'' \<Longrightarrow> attended N f t s c (e # es) s'' c''"

lemma attended_run: "attended N f t s c es s' c' \<Longrightarrow> client_run s es s'"
  by (induction rule: attended.induct) (auto intro: client_run.intros)

text \<open>From each await on, the rest of the call.\<close>

definition alone :: "'a sessions \<Rightarrow> 'w client \<Rightarrow> bool" where
  "alone s c \<longleftrightarrow> ses_holder s = None \<and> ses_waiters s = [] \<and> ses_account s = cl_account c"

lemma via_gateway_account: "cl_account (snd (via_gateway m c)) = cl_account c"
  by (simp add: via_gateway_def split: prod.split)

lemma client_login_kept: "client_login N c = (Inl e, c') \<Longrightarrow> cl_account c' = cl_account c"
  by (auto simp: client_login_def bind_def via_gateway_def split: prod.splits sum.splits)

text \<open>The result of a call as the task returns it, in a state that agrees with the client.\<close>

definition ends_as :: "nat \<Rightarrow> (exn + 'a) \<times> 'w client \<Rightarrow> 'a sessions \<Rightarrow> 'w client \<Rightarrow> bool" where
  "ends_as t rc s c \<longleftrightarrow> ses_tasks s t = Some (Returned (map_sum id TheResult (fst rc))) \<and> c = snd rc \<and> alone s c"

lemma call_alone:
  assumes "alone s c" "ses_tasks s t = Some (Calling True a)"
  shows "\<exists>es s' c'. attended N f t s c es s' c' \<and> ends_as t (via_gateway (f a) c) s' c'"
proof -
  obtain r c' where v: "via_gateway (f a) c = (r, c')" by fastforce
  then have c': "cl_account c' = cl_account c" using via_gateway_account [of "f a" c] by simp
  let ?s = "call_answered t True r s"
  have "attended N f t s c [CallEnds t r] ?s c'"
    by (rule attended_turn [OF assms(2)]) (auto simp: next_turn_def v assms(2) intro: attended_idle client_step.call_ends)
  moreover have "ends_as t (r, c') ?s c'"
    using assms(1) c' by (auto simp: ends_as_def alone_def call_answered_def move_def split: sum.split)
  ultimately show ?thesis using v by auto
qed

lemma login_alone:
  assumes "ses_waiters s = []" "ses_account s = cl_account c" "ses_tasks s t = Some (LoggingIn (MakeCall retried))"
  and later: "\<And>s a c. alone s c \<Longrightarrow> ses_tasks s t = Some (Calling retried a) \<Longrightarrow>
      \<exists>es s' c'. attended N f t s c es s' c' \<and> ends_as t (g a c) s' c'"
  shows "\<exists>es s' c'. attended N f t s c es s' c' \<and> ends_as t (bind (client_login N) g c) s' c'"
proof -
  obtain r c1 where l: "client_login N c = (r, c1)" by fastforce
  let ?s = "login_answered t (MakeCall retried) r s"
  have step: "next_turn N f t (LoggingIn (MakeCall retried)) c = Some (LoginEnds t r, c1)"
    "client_step s (LoginEnds t r) ?s"
    by (auto simp: next_turn_def l assms(3) intro: client_step.login_ends)
  show ?thesis
  proof (cases r)
    case (Inl e)
    then have "ends_as t (bind (client_login N) g c) ?s c1"
      using assms(1,2) client_login_kept [of N c e c1] l
      by (simp add: ends_as_def alone_def login_answered_def move_def bind_def)
    with attended_turn [OF assms(3) step attended_idle] show ?thesis by blast
  next
    case (Inr a)
    then have "alone ?s c1" "ses_tasks ?s t = Some (Calling retried a)"
      using assms(1) client_login_account [of N c a c1] l by (simp_all add: alone_def login_answered_def move_def)
    from later [OF this] obtain es s' c' where "attended N f t ?s c1 es s' c'" "ends_as t (g a c1) s' c'" by blast
    moreover have "bind (client_login N) g c = g a c1" using l Inr by (simp add: bind_def)
    ultimately show ?thesis using attended_turn [OF assms(3) step] by metis
  qed
qed

lemma request_alone:
  "alone s c \<Longrightarrow> ses_waiters (request_login t k s) = [] \<and> ses_account (request_login t k s) = cl_account c \<and>
    ses_tasks (request_login t k s) t = Some (LoggingIn k)"
  by (simp add: alone_def request_login_def move_def)

lemma first_call_alone:
  assumes "alone s c" "ses_tasks s t = Some (Calling False a)"
  shows "\<exists>es s' c'. attended N f t s c es s' c' \<and> ends_as t
    (catching (via_gateway (f a))
      (\<lambda>e. if session_expired e then Some (bind (client_login N) (\<lambda>a'. via_gateway (f a'))) else None) c) s' c'"
    (is "\<exists>es s' c'. _ \<and> ends_as t ?rest s' c'")
proof -
  obtain r c1 where v: "via_gateway (f a) c = (r, c1)" by fastforce
  then have c1: "alone s c1" using assms(1) via_gateway_account [of "f a" c] by (simp add: alone_def)
  let ?s = "call_answered t False r s"
  have step: "next_turn N f t (Calling False a) c = Some (CallEnds t r, c1)" "client_step s (CallEnds t r) ?s"
    by (auto simp: next_turn_def v assms(2) intro: client_step.call_ends)
  show ?thesis
  proof (cases "\<exists>e. r = Inl e \<and> session_expired e")
    case True
    then obtain e where e: "r = Inl e" "session_expired e" by blast
    then have s: "?s = request_login t (MakeCall True) s" by (simp add: call_answered_def)
    have "\<exists>es s' c'. attended N f t ?s c1 es s' c' \<and> ends_as t (bind (client_login N) (\<lambda>a'. via_gateway (f a')) c1) s' c'"
      unfolding s using request_alone [OF c1] by (intro login_alone call_alone) auto
    moreover have "?rest = bind (client_login N) (\<lambda>a'. via_gateway (f a')) c1"
      by (simp add: catching_def v e)
    ultimately show ?thesis using attended_turn [OF assms(2) step] by metis
  next
    case False
    then have "ends_as t ?rest ?s c1"
      using c1 by (auto simp: ends_as_def alone_def call_answered_def move_def catching_def v split: sum.split)
    with attended_turn [OF assms(2) step attended_idle] show ?thesis by blast
  qed
qed

text \<open>With nobody else, the tasks come to what the call of the theory Client computes.\<close>

lemma alone_is_with_session:
  "\<exists>es s c'. attended N f t (begin_task t SessionCall (new_sessions (cl_account c))) c es s c' \<and>
    ends_as t (with_session N f c) s c'"
proof -
  have new: "alone (new_sessions (cl_account c)) c" by (simp add: alone_def new_sessions_def)
  show ?thesis
  proof (cases "cl_account c")
    case None
    then have b: "begin_task t SessionCall (new_sessions (cl_account c)) =
        request_login t (MakeCall False) (new_sessions (cl_account c))"
      by (simp add: request_account_def new_sessions_def)
    have "account N c = client_login N c" using None by (simp add: account_def)
    then have w: "with_session N f c = bind (client_login N) (\<lambda>a. catching (via_gateway (f a))
        (\<lambda>e. if session_expired e then Some (bind (client_login N) (\<lambda>a'. via_gateway (f a'))) else None)) c"
      by (simp add: with_session_def bind_def)
    show ?thesis unfolding b w using request_alone [OF new, of t "MakeCall False"]
      by (intro login_alone first_call_alone) auto
  next
    case (Some a)
    then have b: "begin_task t SessionCall (new_sessions (cl_account c)) =
        move t (Calling False a) (new_sessions (cl_account c))"
      by (simp add: request_account_def new_sessions_def)
    have "with_session N f c = catching (via_gateway (f a))
        (\<lambda>e. if session_expired e then Some (bind (client_login N) (\<lambda>a'. via_gateway (f a'))) else None) c"
      using account_known [OF Some] by (simp add: with_session_def bind_def)
    with new show ?thesis unfolding b by (auto simp: alone_def move_def intro: first_call_alone)
  qed
qed


section \<open>Properties\<close>

text \<open>
  C25: However the calls of any number of tasks interleave, and whichever are cancelled, at most one
  of them is logging in at a time, the lock is held exactly by that one, and the session the client
  holds is the one of the last login the gateway granted.
\<close>

theorem logins_serialized:
  assumes "client_run (new_sessions a) es s"
  shows "(\<forall>t. ses_holder s = Some t \<longleftrightarrow> (\<exists>k. ses_tasks s t = Some (LoggingIn k))) \<and>
    distinct (ses_waiters s) \<and> (\<forall>t. t \<in> set (ses_waiters s) \<longleftrightarrow> (\<exists>k. ses_tasks s t = Some (Queued k))) \<and>
    ses_account s = last (a # map Some (granted_sessions es))"
  using lock_ok_run [OF assms] run_account [OF assms] unfolding lock_ok_def by (auto simp: new_sessions_def)

text \<open>Two cameras start at once; the second one's turn at the lock is cancelled.\<close>

definition sample_turns :: "nat happening list" where
  "sample_turns = [Begins 1 SessionCall, Begins 2 SessionCall, LoginEnds 1 (Inr sample_account), Granted 2, Cancelled 2,
     CallEnds 1 (Inr 5)]"

lemma logins_serialized_witness:
  "\<exists>s. client_run (new_sessions None) sample_turns s \<and> ses_account s = Some sample_account \<and> ses_holder s = None \<and>
    ses_tasks s 2 = Some (Returned (Inl CancelledError))"
proof -
  have "\<exists>s. client_run (new_sessions None) sample_turns s \<and> ses_holder s = None \<and>
      ses_tasks s 2 = Some (Returned (Inl CancelledError))"
    unfolding sample_turns_def client_run_simps
    by (simp add: client_step.simps new_sessions_def request_account_def task_steps ex_bool_eq)
  then obtain s where s: "client_run (new_sessions None) sample_turns s" "ses_holder s = None"
      "ses_tasks s 2 = Some (Returned (Inl CancelledError))" by blast
  with logins_serialized [OF s(1)] show ?thesis
    by (auto simp: sample_turns_def granted_sessions_def)
qed

text \<open>
  C23: Every call ends: without new calls and cancellations, the tasks under way take at most six
  turns each, and as long as one of them has not returned there is a turn to take; so nobody waits
  forever for the login lock while the gateway answers.
\<close>

theorem every_call_returns:
  assumes "client_run (new_sessions a) es s" "client_run s fs s'" "list_all continuing fs"
  shows "length fs \<le> 6 * card (dom (ses_tasks s)) \<and> dom (ses_tasks s') = dom (ses_tasks s) \<and>
    ((\<forall>t p. ses_tasks s' t = Some p \<longrightarrow> returned p) \<or> (\<exists>e s''. continuing e \<and> client_step s' e s''))"
proof -
  have f: "finite (dom (ses_tasks s))" by (rule finite_tasks_run [OF assms(1)])
  have "work_left s \<le> 6 * card (dom (ses_tasks s))"
    unfolding work_left_def using sum_bounded_above [of "dom (ses_tasks s)" "\<lambda>t. turns_left (ses_tasks s t)" 6, OF turns_bounded]
    by (simp add: mult.commute)
  moreover have "lock_ok s'" using lock_ok_run client_run_append assms(1,2) by metis
  ultimately show ?thesis using work_run [OF assms(2,3) f] something_continues [of s'] by fastforce
qed

lemma every_call_returns_witness:
  "\<exists>s s' e s''. client_run (new_sessions None) [Begins 1 SessionCall, Begins (2::nat) Login] s \<and>
    client_run s [LoginEnds 1 (Inr sample_account)] s' \<and> continuing e \<and> client_step s' e (s'' :: nat sessions)"
proof -
  let ?a = "\<lparr>ses_account = None, ses_holder = Some 1, ses_waiters = [2],
      ses_tasks = (\<lambda>_. None)(1 \<mapsto> LoggingIn (MakeCall False), 2 \<mapsto> Queued ReturnAccount)\<rparr> :: nat sessions"
  let ?b = "login_answered 1 (MakeCall False) (Inr sample_account) ?a"
  have a: "client_run (new_sessions None) [Begins 1 SessionCall, Begins 2 Login] ?a"
    by (simp add: client_run_simps client_step.simps new_sessions_def request_account_def task_steps)
  have b: "client_run ?a [LoginEnds 1 (Inr sample_account)] ?b"
    by (auto simp: client_run_simps intro: client_step.login_ends)
  have "\<not> (\<forall>t p. ses_tasks ?b t = Some p \<longrightarrow> returned p)"
    by (auto simp: task_steps intro: exI [of _ 1])
  with every_call_returns [OF a b] a b show ?thesis by auto
qed

text \<open>A task at the lock, or inside, gets its session only from a login of its own.\<close>

lemma login_of_its_own:
  "client_run s es s' \<Longrightarrow> list_all continuing es \<Longrightarrow>
    ses_tasks s t = Some (Queued k) \<or> ses_tasks s t = Some (LoggingIn k) \<Longrightarrow>
    ses_tasks s' t = Some p \<Longrightarrow> returned p \<Longrightarrow> \<exists>r. LoginEnds t r \<in> set es"
proof (induction rule: client_run.induct)
  case (idle s)
  then show ?case by auto
next
  case (happens s e s' es s'')
  show ?case
  proof (cases "\<exists>r. e = LoginEnds t r")
    case False
    from happens.hyps(1) happens.prems(1,2) False
    have "ses_tasks s' t = Some (Queued k) \<or> ses_tasks s' t = Some (LoggingIn k)"
    proof cases
      case (granted u us k')
      then show ?thesis using happens.prems(2) by (auto simp: task_steps)
    next
      case (login_ends u k' r)
      then show ?thesis using happens.prems(2) False by (auto simp: task_steps split: sum.split)
    next
      case (call_ends u retried a r)
      then show ?thesis using happens.prems(2) by (auto simp: task_steps split: sum.split)
    qed auto
    with happens show ?thesis by auto
  qed auto
qed


lemma first_callers_wait:
  "client_run s (map (\<lambda>t. Begins t SessionCall) ts) s' \<Longrightarrow> ses_account s = None \<Longrightarrow> t \<in> set ts \<Longrightarrow>
    ses_tasks s' t = Some (Queued (MakeCall False)) \<or> ses_tasks s' t = Some (LoggingIn (MakeCall False))"
proof (induction ts arbitrary: s)
  case Nil
  then show ?case by simp
next
  case (Cons u us)
  let ?s = "begin_task u SessionCall s"
  from Cons.prems(1) have run: "client_run ?s (map (\<lambda>t. Begins t SessionCall) us) s'"
    by (auto simp: client_run_simps elim: BeginsE)
  have none: "ses_account ?s = None" using Cons.prems(2) by (simp only: begin_task_account)
  have u: "ses_tasks ?s u = Some (Queued (MakeCall False)) \<or> ses_tasks ?s u = Some (LoggingIn (MakeCall False))"
    using Cons.prems(2) by (simp add: request_account_def task_steps)
  have "ses_tasks s' u = ses_tasks ?s u" if "u \<notin> set us"
    using run that
  proof (induction us arbitrary: s' rule: rev_induct)
    case (snoc v vs)
    then show ?case using other_steps_keep [of _ "Begins v SessionCall" _ u]
      by (fastforce simp: client_run_append client_run_simps)
  qed (simp add: client_run_simps)
  with u Cons.IH [OF run none] Cons.prems(3) show ?case by (cases "t \<in> set us") auto
qed

text \<open>
  C34: The lock does not spare a login: when several tasks make their first call before the client
  has a session, every one of them logs in, also those that enter the lock when the session of an
  earlier one is already there.
\<close>

theorem first_callers_each_log_in:
  assumes "client_run (new_sessions None) (map (\<lambda>t. Begins t SessionCall) ts @ es) s" "list_all continuing es"
    and "\<forall>t p. ses_tasks s t = Some p \<longrightarrow> returned p" "t \<in> set ts"
  shows "\<exists>r. LoginEnds t r \<in> set es"
proof -
  obtain s1 where s1: "client_run (new_sessions None) (map (\<lambda>t. Begins t SessionCall) ts) s1" "client_run s1 es s"
    using assms(1) by (auto simp: client_run_append)
  have w: "ses_tasks s1 t = Some (Queued (MakeCall False)) \<or> ses_tasks s1 t = Some (LoggingIn (MakeCall False))"
    by (rule first_callers_wait [OF s1(1) _ assms(4)]) (simp add: new_sessions_def)
  have "dom (ses_tasks s) = dom (ses_tasks s1)"
    using work_run [OF s1(2) assms(2)] finite_tasks_run [OF s1(1)] by blast
  with w obtain p where "ses_tasks s t = Some p" by blast
  with login_of_its_own [OF s1(2) assms(2) w] assms(3) show ?thesis by blast
qed

lemma first_callers_each_log_in_witness:
  "\<exists>s :: nat sessions. client_run (new_sessions None) ([Begins 1 SessionCall, Begins 2 SessionCall] @
      [LoginEnds 1 (Inr sample_account), CallEnds 1 (Inr 5), Granted 2, LoginEnds 2 (Inr sample_account), CallEnds 2 (Inr 6)]) s \<and>
    (\<exists>r. LoginEnds 2 r \<in> set [LoginEnds 1 (Inr sample_account), CallEnds 1 (Inr (5::nat)), Granted 2,
        LoginEnds 2 (Inr sample_account), CallEnds 2 (Inr 6)])"
proof -
  let ?es = "[LoginEnds 1 (Inr sample_account), CallEnds 1 (Inr (5::nat)), Granted 2,
        LoginEnds 2 (Inr sample_account), CallEnds 2 (Inr 6)]"
  have "\<exists>s :: nat sessions. client_run (new_sessions None) (map (\<lambda>t. Begins t SessionCall) [1, 2] @ ?es) s \<and>
      (\<forall>t p. ses_tasks s t = Some p \<longrightarrow> returned p)"
    by (simp add: client_run_simps client_step.simps new_sessions_def request_account_def task_steps ex_bool_eq)
  then obtain s :: "nat sessions" where s: "client_run (new_sessions None) (map (\<lambda>t. Begins t SessionCall) [1, 2] @ ?es) s"
      "\<forall>t p. ses_tasks s t = Some p \<longrightarrow> returned p" by blast
  with first_callers_each_log_in [OF s(1) _ s(2), of 2] show ?thesis by auto
qed

end
