(* ===== verification/Spec2Isabelle.thy ===== *)
theory Spec2Isabelle
  imports Camera_Live Stream_Completes Client_Tasks
begin

text \<open>
  A verification library for the SDK under \<^verbatim>\<open>src/src/tuya_ipc_p2p_sdk/\<close>, which streams the
  pictures of a Tuya IP camera: it logs in to a mobile gateway, fetches the configuration
  of a device, negotiates a session with it over an MQTT broker, dials the relay both meet at,
  proves to the device that it knows the credential, carries KCP conversations over that one
  connection, and cuts the images out of the encrypted records. File names below are relative to
  that directory; every definition keeps the name of the function, method or constant it models,
  or says in a comment which one it is.

  \<^bold>\<open>How the parts call each other.\<close>
  \<^verbatim>\<open>camera_stream.py\<close> supervises one camera: it asks \<^verbatim>\<open>client.py\<close> for a fresh
  configuration, builds a session of \<^verbatim>\<open>stream_session.py\<close> from it, hands each image to its
  viewers and to \<^verbatim>\<open>motion_detector.py\<close>, and runs the next session after a backoff. The
  session owns \<^verbatim>\<open>signaling/moto_client.py\<close> (offer, answer, candidates, disconnect),
  \<^verbatim>\<open>transport/ice_responder.py\<close> (the candidate it offers) and
  \<^verbatim>\<open>transport/relay_session.py\<close>, which multiplexes \<^verbatim>\<open>transport/kcp_conversation.py\<close>
  over \<^verbatim>\<open>transport/relay_connection.py\<close>. Records of conversation 1 go through
  \<^verbatim>\<open>crypto.py\<close>, \<^verbatim>\<open>media.py\<close> and \<^verbatim>\<open>jpeg_reassembler.py\<close>; conversation 0
  carries \<^verbatim>\<open>control.py\<close>.

  \<^bold>\<open>Theories and sources.\<close>

  \<^item> Prelude, Bytes, Text, Hashes: exceptions as the datatype \<open>exn\<close>, results \<open>exn + 'a\<close>, the
    byte and text operations of Python, CRC-32, MD5, SHA-1, SHA-256 and HMAC from their
    standards, and the contracts \<open>codec\<close>, \<open>framed_codec\<close>, \<open>layered_codec\<close>,
    \<open>transducer\<close> and \<open>closable\<close> the components are interpreted in.
  \<^item> Json_Types: \<^verbatim>\<open>json_types.py\<close>, with the serializer and the parser of
    \<^verbatim>\<open>json\<close>. Crypto: \<^verbatim>\<open>crypto.py\<close>. Models: \<^verbatim>\<open>models/\<close>.
  \<^item> Kcp_Segment, Kcp_Conversation, Kcp_Delivery: \<^verbatim>\<open>transport/kcp_segment.py\<close> and
    \<^verbatim>\<open>transport/kcp_conversation.py\<close>; the last holds the peer's message stream as the
    abstract specification and the refinement to it.
  \<^item> Relay_Framing, Relay_Connection, Relay_Session: the files of the same names under
    \<^verbatim>\<open>transport/\<close>. Ice_Responder: \<^verbatim>\<open>transport/ice_responder.py\<close>.
  \<^item> Handshake_Signer, Sdp, Envelope, Moto_Client: \<^verbatim>\<open>signaling/\<close> (Sdp is
    \<^verbatim>\<open>offer.py\<close> and \<^verbatim>\<open>answer.py\<close>; Moto_Client also holds
    \<^verbatim>\<open>relay_frames.py\<close>).
  \<^item> Media, Jpeg_Reassembler, Control, Motion_Detector: the files of the same names.
  \<^item> Gateway_Signing, Gateway_Body, Gateway: \<^verbatim>\<open>const.py\<close> and \<^verbatim>\<open>gateway/\<close>.
    Client, Client_Tasks: \<^verbatim>\<open>client.py\<close>, one call alone and the calls of many tasks that
    share the account and its login lock.
  \<^item> Stream_Session, Stream_Laws, Stream_Media, Stream_Start, Stream_Ends, Stream_Live,
    Stream_Completes: \<^verbatim>\<open>stream_session.py\<close>, its invariant, how records become images,
    how a session starts and ends, its first pictures, and the start that goes well.
  \<^item> Camera_Stream, Camera_Laws, Camera_Retries, Camera_Viewers, Camera_Ends, Camera_Live:
    \<^verbatim>\<open>camera_stream.py\<close>, its invariant, the retry policy, the viewers, the promises to the
    consumer, and the way of a picture from the device to a viewer, from the call that starts the
    camera on.

  \<^bold>\<open>State and steps.\<close>
  An object is a record with one field per attribute; a method is a function from the state (and
  what the environment answers) to the new state, the effects in order, and a result where it
  can raise. Callbacks are effects of the component below and handlers of the one above. A task
  that loops around an await is a value in the state (a flag, or the await it stands at) and one
  turn per wake-up. Where a method suspends while other events of the same component can be
  handled, those events are an argument: what is heard while a start waits for the answer
  and for the video (\<open>await_answer\<close>, \<open>await_video\<close>), what the relay carries while the conversations of
  a session are closed (\<open>close_session\<close>). Step functions (\<open>kcp_step\<close>,
  \<open>connection_step\<close>, \<open>session_step\<close>, \<open>stream_step\<close>,
  \<open>camera_step\<close>) collect a component's operations; \<open>run\<close> of the prelude executes a
  list of events, so a theorem over every list of events is a theorem over every interleaving of
  those turns. Where a step depends on an outcome and is not always possible, as a task's turn at
  the login lock, the steps are the inductive relation \<open>client_step\<close> and its runs
  \<open>client_run\<close>.

  \<^bold>\<open>What the groups of lemmas show.\<close>
  Wire formats: decoding inverts encoding, which inputs are accepted, and which errors the rest
  raise. State machines: an invariant every step keeps, over all runs. KCP: what is handed up is
  exactly the sent messages, once and in order, within the window, and retransmission ends.
  Relay: the device is authenticated before anything of worth is sent, segments are recovered
  from any byte stream, a lost connection silences the session. Signaling and gateway: what one
  side signs and publishes is what the other verifies, reads back in full and dispatches. Motion:
  what is published is what the history of frame sizes calls for. Client: logins exclude each
  other, every call returns, and a task alone comes to what the theory Client computes. Stream:
  from the wire to whole images, that a start with everybody's cooperation succeeds, and what
  every way of ending releases. Camera: the waits between sessions, what
  listeners and viewers are given, and how stops and stalls end a session. Several theorems state
  behaviour the code does not intend; they are the findings of the manifest.

  \<^bold>\<open>Bounds and fuel.\<close>
  The relay is dialled with the twelve attempts of the code (\<open>RELAY_DIAL_ATTEMPTS\<close>). Loops
  over a byte string (frames, packets, TLVs, drained segments, send chunks) are functions with a
  termination measure. The JSON parser takes twice the length of its document as fuel, which is
  never exhausted (\<open>parse_json_fuel\<close>). Everything else is structural recursion over the
  events. Sequence numbers, lengths and timestamps keep the width of their field where they are
  put on the wire; counters that Python keeps unbounded are unbounded here.

  \<^bold>\<open>Parameters.\<close>
  Code outside the repository is an argument: AES and AES-GCM (laws \<open>cbc_laws\<close>,
  \<open>ecb_laws\<close>, \<open>gcm_laws\<close>: decrypting inverts encrypting), RSA, HTTP, the clock and random
  values of the gateway (the record \<open>network\<close>), what the MQTT library's calls come to
  (\<open>mqtt_outcome\<close>), sockets (the byte stream that arrives and how it ends), random bytes.
  The witnesses instantiate them with concrete functions.

  \<^bold>\<open>Not modelled.\<close>
  Log messages; the exports of the \<^verbatim>\<open>__init__.py\<close> files; the rounding of floats
  (times and the motion statistics are reals); text beyond code point 255 in JSON; what a state listener does when called, re-entrant calls into
  the camera included. In the camera the turns are coarser than the awaits: fetching a
  configuration, starting a session and closing one are one turn each. What a session receives in
  them, and how far a start came that a stop interrupts, are arguments; a stop that interrupts a
  fetch leaves the client as it was, and a stall check falls before or behind a start, not inside.
  In Client_Tasks a call of the gateway is one await with any outcome; the gateway's own lazily
  opened HTTP session is in the theory Gateway only, where calls run alone.
\<close>

end
